(* ===== verification/Prelude.thy ===== *)
theory Prelude
  imports Main "HOL-Library.Word" "HOL-Library.Signed_Division"
begin

text \<open>
  Shared vocabulary of the development: the machine integers of the C++ sources, the
  \<open>StrongId\<close> identities (\<open>include/mbg/core/strong_id.hpp\<close>), the status plumbing
  (\<open>include/mbg/core/status.hpp\<close>), the resource bounds (\<open>include/mbg/limits.hpp\<close>), the
  \<open>named_theorems\<close> collections, and generic lemmas on words and lists.
\<close>

unbundle bit_operations_syntax

section \<open>Machine integers\<close>

text \<open>
  Unsigned integers are words, read by \<open>unat\<close>. Signed integers are words of the same width,
  read by \<open>sint\<close>; so a \<open>static_cast\<close> between \<open>int64_t\<close> and \<open>uint64_t\<close> is the
  identity on the representation, as in C++20. \<open>size_t\<close> counts that are bounded by the
  length of a container are \<open>nat\<close>.
\<close>

type_synonym u8 = "8 word"
type_synonym u16 = "16 word"
type_synonym u32 = "32 word"
type_synonym u64 = "64 word"
type_synonym i64 = "64 word"
type_synonym byte = "8 word"

named_theorems codec "laws of the byte codec: a getter positioned at what a putter wrote"
named_theorems wire_length "lengths of what the putters write"
named_theorems frame_rules "state components an operation leaves unchanged"

section \<open>Strong identities\<close>

text \<open>
  A \<open>StrongId\<close> is its raw representation; distinct C++ tags keep identities apart at compile
  time and have no run-time content. The all-ones value is the invalid sentinel.
\<close>

definition id_invalid :: "'a::len word" where
  "id_invalid = - 1"

definition id_valid :: "'a::len word \<Rightarrow> bool" where
  "id_valid i \<longleftrightarrow> i \<noteq> id_invalid"

section \<open>Status\<close>

datatype status_code =
    StOk | StInvalidArgument | StOutOfRange | StStale | StUnauthorized | StCorrupt
  | StTruncated | StOversized | StUnsupported | StNotFound | StConflict | StCapacityExceeded
  | StProtocol | StIo | StOverflow | StCancelled | StInternal

fun status_code_to_string :: "status_code \<Rightarrow> string" where
  "status_code_to_string StOk = ''ok''"
| "status_code_to_string StInvalidArgument = ''invalid-argument''"
| "status_code_to_string StOutOfRange = ''out-of-range''"
| "status_code_to_string StStale = ''stale''"
| "status_code_to_string StUnauthorized = ''unauthorized''"
| "status_code_to_string StCorrupt = ''corrupt''"
| "status_code_to_string StTruncated = ''truncated''"
| "status_code_to_string StOversized = ''oversized''"
| "status_code_to_string StUnsupported = ''unsupported''"
| "status_code_to_string StNotFound = ''not-found''"
| "status_code_to_string StConflict = ''conflict''"
| "status_code_to_string StCapacityExceeded = ''capacity-exceeded''"
| "status_code_to_string StProtocol = ''protocol''"
| "status_code_to_string StIo = ''io''"
| "status_code_to_string StOverflow = ''overflow''"
| "status_code_to_string StCancelled = ''cancelled''"
| "status_code_to_string StInternal = ''internal''"

fun status_code_raw :: "status_code \<Rightarrow> u16" where
  "status_code_raw StOk = 0"
| "status_code_raw StInvalidArgument = 1"
| "status_code_raw StOutOfRange = 2"
| "status_code_raw StStale = 3"
| "status_code_raw StUnauthorized = 4"
| "status_code_raw StCorrupt = 5"
| "status_code_raw StTruncated = 6"
| "status_code_raw StOversized = 7"
| "status_code_raw StUnsupported = 8"
| "status_code_raw StNotFound = 9"
| "status_code_raw StConflict = 10"
| "status_code_raw StCapacityExceeded = 11"
| "status_code_raw StProtocol = 12"
| "status_code_raw StIo = 13"
| "status_code_raw StOverflow = 14"
| "status_code_raw StCancelled = 15"
| "status_code_raw StInternal = 16"

text \<open>
  A \<open>Status\<close> is a code and a static detail string. A default constructed status is success.
  An operation that returns \<open>Status\<close> and fills an output is modelled as
  \<open>status + 'a\<close>: \<open>Inl\<close> carries the failing status.
\<close>

record status =
  st_code :: status_code
  st_detail :: string

definition status_ok :: status where
  "status_ok = \<lparr>st_code = StOk, st_detail = ''''\<rparr>"

definition failure :: "status_code \<Rightarrow> string \<Rightarrow> status" where
  "failure c d = \<lparr>st_code = c, st_detail = d\<rparr>"

definition is_ok :: "status \<Rightarrow> bool" where
  "is_ok s \<longleftrightarrow> st_code s = StOk"

type_synonym 'a result = "status + 'a"

lemma is_ok_status_ok [simp]: "is_ok status_ok"
  by (simp add: is_ok_def status_ok_def)

lemma is_ok_failure [simp]: "is_ok (failure c d) \<longleftrightarrow> c = StOk"
  by (simp add: is_ok_def failure_def)

lemma st_code_failure [simp]: "st_code (failure c d) = c"
  by (simp add: failure_def)

lemma st_code_ok [simp]: "st_code status_ok = StOk"
  by (simp add: status_ok_def)

lemma failure_eq_iff [simp]: "failure c d = failure c' d' \<longleftrightarrow> c = c' \<and> d = d'"
  by (simp add: failure_def)

section \<open>Limits\<close>

definition kMaxWindowCapacity :: nat where "kMaxWindowCapacity = 4096"
definition kMinWindowCapacity :: nat where "kMinWindowCapacity = 2"
definition kMaxStreams :: nat where "kMaxStreams = 1024"
definition kMaxReasons :: nat where "kMaxReasons = 16"
definition kMaxSustainTicks :: u64 where "kMaxSustainTicks = push_bit 32 1"
definition kMaxCooldownTicks :: u64 where "kMaxCooldownTicks = push_bit 32 1"
definition kMaxEpisodeTicks :: u64 where "kMaxEpisodeTicks = push_bit 40 1"
definition kMaxWindowSpanTicks :: u64 where "kMaxWindowSpanTicks = push_bit 32 1"
definition kMaxEventHistory :: nat where "kMaxEventHistory = 4096"
definition kMaxRecoveredRecords :: nat where "kMaxRecoveredRecords = 65536"
definition kMaxInterventions :: nat where "kMaxInterventions = 1024"
definition kMaxPolicyOverrides :: nat where "kMaxPolicyOverrides = 256"
definition kMaxInterventionTtlTicks :: u64 where "kMaxInterventionTtlTicks = push_bit 32 1"
definition kMaxMagnitudePermille :: u32 where "kMaxMagnitudePermille = 1000"
definition kMaxPendingEmissions :: nat where "kMaxPendingEmissions = 4096"
definition kMaxFramePayloadBytes :: nat where "kMaxFramePayloadBytes = 2 ^ 20"
definition kMaxConnections :: nat where "kMaxConnections = 256"
definition kMaxJournalBytes :: nat where "kMaxJournalBytes = 64 * 2 ^ 20"
definition kMaxSnapshotBytes :: nat where "kMaxSnapshotBytes = 64 * 2 ^ 20"
definition kMaxJournalRecordBytes :: nat where "kMaxJournalRecordBytes = 2 ^ 20"
definition kMaxEventsPersisted :: nat where "kMaxEventsPersisted = 65536"
definition kMaxRenderedExplanationBytes :: nat where "kMaxRenderedExplanationBytes = 8192"
definition kMaxTraceLineBytes :: nat where "kMaxTraceLineBytes = 4096"

definition kStateFormatVersion :: u16 where "kStateFormatVersion = 1"
definition kWireProtocolVersion :: u16 where "kWireProtocolVersion = 1"

lemmas limit_defs =
  kMaxSustainTicks_def kMaxCooldownTicks_def kMaxEpisodeTicks_def kMaxWindowSpanTicks_def
  kMaxInterventionTtlTicks_def kMaxMagnitudePermille_def kMaxWindowCapacity_def
  kMinWindowCapacity_def kMaxInterventions_def kMaxPolicyOverrides_def

section \<open>Generic lemmas on words\<close>

lemma unat_bound: "unat (x :: 'a::len word) < 2 ^ LENGTH('a)"
  by (rule unsigned_less)

lemma unat_all_ones: "unat (- 1 :: 'a::len word) = 2 ^ LENGTH('a) - 1"
  by (simp add: unsigned_minus_1_eq_mask mask_eq_exp_minus_1)

lemma unat_add_no_wrap:
  "unat a + unat b < 2 ^ LENGTH('a) \<Longrightarrow> unat (a + b :: 'a::len word) = unat a + unat b"
  by (simp add: unat_word_ariths)

lemma unat_sub_le:
  "b \<le> a \<Longrightarrow> unat (a - b :: 'a::len word) = unat a - unat b"
  by (simp add: unat_sub_if' word_le_nat_alt)

lemma unat_mult_no_wrap:
  "unat a * unat b < 2 ^ LENGTH('a) \<Longrightarrow> unat (a * b :: 'a::len word) = unat a * unat b"
  by (simp add: unat_word_ariths)

lemma unat_div_word: "unat (a div b :: 'a::len word) = unat a div unat b"
  by (rule unat_div_distrib)

lemma sint_range64: "- (2 ^ 63) \<le> sint (x :: 64 word) \<and> sint x < 2 ^ 63"
  using sint_greater_eq [of x] sint_less [of x] by simp

end
