(* ===== verification/Bytes.thy ===== *)
theory Bytes
  imports Prelude
begin

text \<open>
  The bounds-checked big-endian codec of \<open>include/mbg/core/bytes.hpp\<close>. A \<open>ByteWriter\<close> call is
  modelled by the bytes it appends (\<open>put_*\<close>); a \<open>ByteReader\<close> is a record of the data, the
  offset and the latched \<open>ok\<close> flag, and each accessor returns its value and the next reader.

  The locale \<open>codec\<close> states what the clients of the codec rely on: a getter reads back what its
  putter wrote, never changes the data, never leaves the bounds and never clears a failure. The
  locale \<open>decoder\<close> is the contract of the fallible record decoders built on it.
\<close>

section \<open>Writer\<close>

definition put_u8 :: "u8 \<Rightarrow> byte list" where
  "put_u8 v = [v]"

definition put_u16 :: "u16 \<Rightarrow> byte list" where
  "put_u16 v = put_u8 (ucast (drop_bit 8 v AND 0xFF)) @ put_u8 (ucast (v AND 0xFF))"

definition put_u32 :: "u32 \<Rightarrow> byte list" where
  "put_u32 v = put_u16 (ucast (drop_bit 16 v AND 0xFFFF)) @ put_u16 (ucast (v AND 0xFFFF))"

definition put_u64 :: "u64 \<Rightarrow> byte list" where
  "put_u64 v = put_u32 (ucast (drop_bit 32 v AND 0xFFFFFFFF)) @ put_u32 (ucast (v AND 0xFFFFFFFF))"

definition put_i64 :: "i64 \<Rightarrow> byte list" where
  "put_i64 v = put_u64 v"

definition put_raw :: "byte list \<Rightarrow> byte list" where
  "put_raw data = data"

definition put_text :: "byte list \<Rightarrow> byte list" where
  "put_text value = put_u32 (of_nat (length value)) @ put_raw value"

definition put_bool :: "bool \<Rightarrow> byte list" where
  "put_bool b = put_u8 (if b then 1 else 0)"

section \<open>Reader\<close>

record reader =
  rd_data :: "byte list"
  rd_offset :: nat
  rd_ok :: bool

definition reader_of :: "byte list \<Rightarrow> reader" where
  "reader_of bytes = \<lparr>rd_data = bytes, rd_offset = 0, rd_ok = True\<rparr>"

definition rd_remaining :: "reader \<Rightarrow> nat" where
  "rd_remaining r = (if rd_ok r then length (rd_data r) - rd_offset r else 0)"

definition rd_at_end :: "reader \<Rightarrow> bool" where
  "rd_at_end r \<longleftrightarrow> rd_ok r \<and> rd_offset r = length (rd_data r)"

definition rd_ensure :: "nat \<Rightarrow> reader \<Rightarrow> bool \<times> reader" where
  "rd_ensure n r =
     (if \<not> rd_ok r then (False, r)
      else if n > length (rd_data r) - rd_offset r then (False, r\<lparr>rd_ok := False\<rparr>)
      else (True, r))"

definition get_u8 :: "reader \<Rightarrow> u8 \<times> reader" where
  "get_u8 r =
     (let (enough, r) = rd_ensure 1 r
      in if \<not> enough then (0, r)
         else (rd_data r ! rd_offset r, r\<lparr>rd_offset := rd_offset r + 1\<rparr>))"

definition get_u16 :: "reader \<Rightarrow> u16 \<times> reader" where
  "get_u16 r =
     (let (hi, r) = get_u8 r; (lo, r) = get_u8 r
      in (push_bit 8 (ucast hi) OR ucast lo, r))"

definition get_u32 :: "reader \<Rightarrow> u32 \<times> reader" where
  "get_u32 r =
     (let (hi, r) = get_u16 r; (lo, r) = get_u16 r
      in (push_bit 16 (ucast hi) OR ucast lo, r))"

definition get_u64 :: "reader \<Rightarrow> u64 \<times> reader" where
  "get_u64 r =
     (let (hi, r) = get_u32 r; (lo, r) = get_u32 r
      in (push_bit 32 (ucast hi) OR ucast lo, r))"

definition get_i64 :: "reader \<Rightarrow> i64 \<times> reader" where
  "get_i64 r = get_u64 r"

definition get_bool :: "reader \<Rightarrow> bool \<times> reader" where
  "get_bool r = (let (b, r) = get_u8 r in (b \<noteq> 0, r))"

text \<open>\<open>raw\<close> borrows the next bytes and returns null (\<open>None\<close>) on underflow.\<close>

definition get_raw :: "nat \<Rightarrow> reader \<Rightarrow> byte list option \<times> reader" where
  "get_raw n r =
     (let (enough, r) = rd_ensure n r
      in if \<not> enough then (None, r)
         else (Some (take n (drop (rd_offset r) (rd_data r))),
               r\<lparr>rd_offset := rd_offset r + n\<rparr>))"

definition rd_skip :: "nat \<Rightarrow> reader \<Rightarrow> bool \<times> reader" where
  "rd_skip n r =
     (let (enough, r) = rd_ensure n r
      in if \<not> enough then (False, r) else (True, r\<lparr>rd_offset := rd_offset r + n\<rparr>))"

definition get_text :: "reader \<Rightarrow> byte list \<times> reader" where
  "get_text r =
     (let (len, r) = get_u32 r; (first, r) = get_raw (unat len) r
      in (case first of None \<Rightarrow> [] | Some bs \<Rightarrow> bs, r))"

section \<open>Positioned readers\<close>

text \<open>The reader that has consumed \<open>pre\<close> and has \<open>rest\<close> in front of it.\<close>

definition rd_at :: "byte list \<Rightarrow> byte list \<Rightarrow> reader" where
  "rd_at pre rest = \<lparr>rd_data = pre @ rest, rd_offset = length pre, rd_ok = True\<rparr>"

definition rd_inv :: "reader \<Rightarrow> bool" where
  "rd_inv r \<longleftrightarrow> rd_offset r \<le> length (rd_data r)"

lemma reader_of_rd_at: "reader_of bs = rd_at [] bs"
  by (simp add: reader_of_def rd_at_def)

lemma rd_at_ok [simp]: "rd_ok (rd_at pre rest)"
  by (simp add: rd_at_def)

lemma rd_at_at_end [simp]: "rd_at_end (rd_at pre rest) \<longleftrightarrow> rest = []"
  by (simp add: rd_at_end_def rd_at_def)

lemma rd_inv_rd_at [simp]: "rd_inv (rd_at pre rest)"
  by (simp add: rd_inv_def rd_at_def)

lemma rd_inv_reader_of [simp]: "rd_inv (reader_of bs)"
  by (simp add: rd_inv_def reader_of_def)

lemma rd_atI:
  assumes "rd_inv r" "rd_ok r"
  shows "r = rd_at (take (rd_offset r) (rd_data r)) (drop (rd_offset r) (rd_data r))"
  using assms by (simp add: rd_at_def rd_inv_def)

section \<open>The codec contract\<close>

locale codec =
  fixes put :: "'a \<Rightarrow> byte list"
    and get :: "reader \<Rightarrow> 'a \<times> reader"
    and wid :: nat
  assumes get_put: "get (rd_at pre (put x @ rest)) = (x, rd_at (pre @ put x) rest)"
    and put_length: "length (put x) = wid"
    and get_data: "rd_data (snd (get r)) = rd_data r"
    and get_inv: "rd_inv r \<Longrightarrow> rd_inv (snd (get r))"
    and get_latch: "rd_ok (snd (get r)) \<Longrightarrow> rd_ok r"
    and get_exact: "rd_ok (snd (get (rd_at pre bs))) \<Longrightarrow> \<exists>x rest. bs = put x @ rest"
begin

lemma get_short: "length bs < wid \<Longrightarrow> \<not> rd_ok (snd (get (rd_at pre bs)))"
  using get_exact [of pre bs] put_length by fastforce

lemma get_exact_at:
  assumes "rd_ok (snd (get (rd_at pre bs)))"
  shows "\<exists>x rest. bs = put x @ rest \<and> get (rd_at pre bs) = (x, rd_at (pre @ put x) rest)"
  using get_exact [OF assms] get_put by blast

end

text \<open>
  The contract of a record decoder: \<open>enc\<close> is what the encoder writes, \<open>wf\<close> the values it
  can write and read back, and \<open>dec\<close> fails with a status or returns the value and the reader.
\<close>

locale decoder =
  fixes enc :: "'a \<Rightarrow> byte list"
    and dec :: "reader \<Rightarrow> ('a \<times> reader) result"
    and wf :: "'a \<Rightarrow> bool"
  assumes dec_enc: "wf x \<Longrightarrow> dec (rd_at pre (enc x @ rest)) = Inr (x, rd_at (pre @ enc x) rest)"
begin

lemma enc_inject:
  assumes "wf x" "wf y" "enc x = enc y"
  shows "x = y"
  using dec_enc [OF assms(1), of "[]" "[]"] dec_enc [OF assms(2), of "[]" "[]"] assms(3)
  by (simp add: rd_at_def)

lemma enc_prefix_free:
  assumes "wf x" "wf y" "enc x @ r = enc y @ s"
  shows "x = y \<and> r = s"
  using dec_enc [OF assms(1), of "[]" r] dec_enc [OF assms(2), of "[]" s] assms(3)
  by (auto simp: rd_at_def)

end

text \<open>Reading \<open>n\<close> consecutive scalars.\<close>

fun get_many :: "(reader \<Rightarrow> 'a \<times> reader) \<Rightarrow> nat \<Rightarrow> reader \<Rightarrow> 'a list \<times> reader" where
  "get_many get 0 r = ([], r)"
| "get_many get (Suc n) r = (let (x, r) = get r; (xs, r) = get_many get n r in (x # xs, r))"

context codec
begin

lemma get_many_put:
  "length xs = n \<Longrightarrow>
   get_many get n (rd_at pre (concat (map put xs) @ rest)) =
     (xs, rd_at (pre @ concat (map put xs)) rest)"
  by (induction xs arbitrary: pre n) (auto simp: get_put)

end

text \<open>
  Decoding \<open>n\<close> records in a row, stopping at the first failing status: the loops over
  overrides, events, interventions and samples.
\<close>

fun decode_many :: "(reader \<Rightarrow> ('a \<times> reader) result) \<Rightarrow> nat \<Rightarrow> reader \<Rightarrow> ('a list \<times> reader) result" where
  "decode_many dec 0 r = Inr ([], r)"
| "decode_many dec (Suc n) r =
     (case dec r of
        Inl e \<Rightarrow> Inl e
      | Inr (x, r) \<Rightarrow>
          (case decode_many dec n r of
             Inl e \<Rightarrow> Inl e
           | Inr (xs, r) \<Rightarrow> Inr (x # xs, r)))"

context decoder
begin

lemma decode_many_enc:
  assumes "\<And>x. x \<in> set xs \<Longrightarrow> wf x"
  shows "decode_many dec (length xs) (rd_at pre (concat (map enc xs) @ rest)) =
    Inr (xs, rd_at (pre @ concat (map enc xs)) rest)"
  using assms by (induction xs arbitrary: pre) (simp_all add: dec_enc)

end

section \<open>Interpretations\<close>

lemma get_u8_at: "get_u8 (rd_at pre bs) =
  (case bs of [] \<Rightarrow> (0, (rd_at pre bs)\<lparr>rd_ok := False\<rparr>) | b # rest \<Rightarrow> (b, rd_at (pre @ [b]) rest))"
  by (cases bs) (simp_all add: get_u8_def rd_ensure_def rd_at_def Let_def)

lemma get_u8_not_ok: "\<not> rd_ok r \<Longrightarrow> get_u8 r = (0, r)"
  by (simp add: get_u8_def rd_ensure_def Let_def)

interpretation c8: codec put_u8 get_u8 1
proof unfold_locales
  fix r :: reader
  show "rd_data (snd (get_u8 r)) = rd_data r"
    by (simp add: get_u8_def rd_ensure_def Let_def)
  show "rd_inv r \<Longrightarrow> rd_inv (snd (get_u8 r))"
    by (auto simp: get_u8_def rd_ensure_def Let_def rd_inv_def)
  show "rd_ok (snd (get_u8 r)) \<Longrightarrow> rd_ok r"
    by (cases "rd_ok r") (simp_all add: get_u8_not_ok)
qed (auto simp: get_u8_at put_u8_def split: list.splits)

text \<open>A wider integer is read as its high half and then its low half.\<close>

context codec
begin

lemma halves_exact:
  assumes ok: "rd_ok (snd (get (snd (get (rd_at pre bs)))))"
  shows "\<exists>h l rest. bs = put h @ put l @ rest"
proof -
  obtain h r1 where h: "bs = put h @ r1" "get (rd_at pre bs) = (h, rd_at (pre @ put h) r1)"
    using get_exact_at get_latch ok by blast
  with ok have "rd_ok (snd (get (rd_at (pre @ put h) r1)))" by simp
  then obtain l r2 where "r1 = put l @ r2" using get_exact_at by blast
  with h show ?thesis by blast
qed

lemma halves:
  assumes join: "\<And>x. join (hi x) (lo x) = x"
    and split: "\<And>h l. hi (join h l) = h \<and> lo (join h l) = l"
  shows "codec (\<lambda>x. put (hi x) @ put (lo x))
    (\<lambda>r. let (h, r) = get r; (l, r) = get r in (join h l, r)) (wid + wid)"
proof unfold_locales
  fix pre bs
  assume "rd_ok (snd (let (h, r) = get (rd_at pre bs); (l, r) = get r in (join h l, r)))"
  then have "rd_ok (snd (get (snd (get (rd_at pre bs)))))"
    by (simp add: case_prod_beta Let_def)
  then obtain h l rest where "bs = put h @ put l @ rest" using halves_exact by blast
  then have "bs = (put (hi (join h l)) @ put (lo (join h l))) @ rest" by (simp add: split)
  then show "\<exists>x rest. bs = (put (hi x) @ put (lo x)) @ rest" by blast
qed (auto simp: case_prod_beta Let_def get_put put_length get_data get_inv join dest: get_latch)

end

lemma word_halves:
  fixes x :: "'b::len word"
  assumes "LENGTH('b) = LENGTH('a) + LENGTH('a)"
  shows "push_bit LENGTH('a) (ucast (ucast (drop_bit LENGTH('a) x AND mask LENGTH('a)) :: 'a::len word)) OR
    ucast (ucast (x AND mask LENGTH('a)) :: 'a word) = x"
  using assms
  by (intro bit_word_eqI)
    (auto simp: bit_or_iff bit_push_bit_iff bit_ucast_iff bit_and_iff bit_mask_iff bit_drop_bit_eq)

lemma word_join:
  fixes h l :: "'a::len word"
  assumes "LENGTH('b) = LENGTH('a) + LENGTH('a)"
  defines "x \<equiv> (push_bit LENGTH('a) (ucast h) OR ucast l :: 'b::len word)"
  shows "ucast (drop_bit LENGTH('a) x AND mask LENGTH('a)) = h \<and> ucast (x AND mask LENGTH('a)) = l"
  using assms(1) unfolding x_def
  by (auto intro!: bit_word_eqI dest: bit_imp_le_length
      simp: bit_or_iff bit_push_bit_iff bit_ucast_iff bit_and_iff bit_mask_iff bit_drop_bit_eq)

interpretation c16: codec put_u16 get_u16 "1 + 1"
proof -
  have m: "(0xFF :: u16) = mask LENGTH(8)" by (simp add: mask_eq_exp_minus_1)
  show "codec put_u16 get_u16 (1 + 1)"
    using c8.halves [OF word_halves [where 'a = 8 and 'b = 16] word_join [where 'a = 8 and 'b = 16]]
    unfolding put_u16_def [abs_def] get_u16_def [abs_def] m by simp
qed

interpretation c32: codec put_u32 get_u32 "1 + 1 + (1 + 1)"
proof -
  have m: "(0xFFFF :: u32) = mask LENGTH(16)" by (simp add: mask_eq_exp_minus_1)
  show "codec put_u32 get_u32 (1 + 1 + (1 + 1))"
    using c16.halves [OF word_halves [where 'a = 16 and 'b = 32] word_join [where 'a = 16 and 'b = 32]]
    unfolding put_u32_def [abs_def] get_u32_def [abs_def] m by simp
qed

interpretation c64: codec put_u64 get_u64 "1 + 1 + (1 + 1) + (1 + 1 + (1 + 1))"
proof -
  have m: "(0xFFFFFFFF :: u64) = mask LENGTH(32)" by (simp add: mask_eq_exp_minus_1)
  show "codec put_u64 get_u64 (1 + 1 + (1 + 1) + (1 + 1 + (1 + 1)))"
    using c32.halves [OF word_halves [where 'a = 32 and 'b = 64] word_join [where 'a = 32 and 'b = 64]]
    unfolding put_u64_def [abs_def] get_u64_def [abs_def] m by simp
qed

interpretation ci64: codec put_i64 get_i64 "1 + 1 + (1 + 1) + (1 + 1 + (1 + 1))"
  unfolding put_i64_def [abs_def] get_i64_def [abs_def] by (rule c64.codec_axioms)

lemmas get_put_scalar [codec] =
  c8.get_put c16.get_put c32.get_put c64.get_put ci64.get_put

text \<open>The same when nothing follows.\<close>

lemma get_put_end [codec]:
  "get_u8 (rd_at pre (put_u8 a)) = (a, rd_at (pre @ put_u8 a) [])"
  "get_u16 (rd_at pre (put_u16 b)) = (b, rd_at (pre @ put_u16 b) [])"
  "get_u32 (rd_at pre (put_u32 c)) = (c, rd_at (pre @ put_u32 c) [])"
  "get_u64 (rd_at pre (put_u64 d)) = (d, rd_at (pre @ put_u64 d) [])"
  "get_i64 (rd_at pre (put_i64 d)) = (d, rd_at (pre @ put_i64 d) [])"
  using c8.get_put [of pre a "[]"] c16.get_put [of pre b "[]"] c32.get_put [of pre c "[]"]
    c64.get_put [of pre d "[]"] ci64.get_put [of pre d "[]"]
  by simp_all

lemma get_bool_put [codec]:
  "get_bool (rd_at pre (put_bool b @ rest)) = (b, rd_at (pre @ put_bool b) rest)"
  by (simp add: get_bool_def put_bool_def c8.get_put)

lemma put_lengths [wire_length]:
  "length (put_u8 a) = 1" "length (put_u16 b) = 2" "length (put_u32 c) = 4"
  "length (put_u64 d) = 8" "length (put_i64 d) = 8" "length (put_bool p) = 1"
  using c8.put_length c16.put_length c32.put_length c64.put_length ci64.put_length
  by (simp_all add: put_bool_def)

lemma get_raw_at [codec]:
  "length bs = n \<Longrightarrow> get_raw n (rd_at pre (bs @ rest)) = (Some bs, rd_at (pre @ bs) rest)"
  by (auto simp: get_raw_def rd_ensure_def rd_at_def Let_def)

lemma get_text_put [codec]:
  assumes "length bs < 2 ^ 32"
  shows "get_text (rd_at pre (put_text bs @ rest)) = (bs, rd_at (pre @ put_text bs) rest)"
  using assms get_raw_at [of bs "length bs" "pre @ put_u32 (of_nat (length bs))" rest]
  by (simp add: get_text_def put_text_def put_raw_def c32.get_put take_bit_nat_eq_self unsigned_of_nat)

lemma length_put_text [wire_length]: "length (put_text bs) = 4 + length bs"
  by (simp add: put_text_def put_raw_def wire_length)


section \<open>Fixed-width codecs are onto\<close>

text \<open>
  A fixed-width integer codec accepts every sequence of its width: there is no invalid encoding of
  an integer. Parsers of checksummed records are inverted with this.
\<close>

locale full_codec = codec +
  assumes put_surj: "length bs = wid \<Longrightarrow> \<exists>x. bs = put x"
begin

lemma split_long: "wid \<le> length bs \<Longrightarrow> \<exists>x. bs = put x @ drop wid bs"
  using put_surj [of "take wid bs"] by (metis append_take_drop_id length_take min.absorb2)

lemma halves_surj:
  assumes split: "\<And>h l. hi (join h l) = h \<and> lo (join h l) = l" and len: "length bs = wid + wid"
  shows "\<exists>x. bs = put (hi x) @ put (lo x)"
proof -
  obtain h where h: "bs = put h @ drop wid bs" using split_long [of bs] len by auto
  moreover obtain l where "drop wid bs = put l" using put_surj [of "drop wid bs"] len by auto
  ultimately have "bs = put (hi (join h l)) @ put (lo (join h l))" by (simp add: split)
  then show ?thesis by blast
qed

end

interpretation f8: full_codec put_u8 get_u8 1
  by unfold_locales (auto simp: put_u8_def length_Suc_conv)

interpretation f16: full_codec put_u16 get_u16 "1 + 1"
proof unfold_locales
  have m: "(0xFF :: u16) = mask LENGTH(8)" by (simp add: mask_eq_exp_minus_1)
  show "length bs = 1 + 1 \<Longrightarrow> \<exists>x. bs = put_u16 x" for bs
    using f8.halves_surj [OF word_join [where 'a = 8 and 'b = 16], of bs]
    unfolding put_u16_def [abs_def] m by simp
qed

interpretation f32: full_codec put_u32 get_u32 "1 + 1 + (1 + 1)"
proof unfold_locales
  have m: "(0xFFFF :: u32) = mask LENGTH(16)" by (simp add: mask_eq_exp_minus_1)
  show "length bs = 1 + 1 + (1 + 1) \<Longrightarrow> \<exists>x. bs = put_u32 x" for bs
    using f16.halves_surj [OF word_join [where 'a = 16 and 'b = 32], of bs]
    unfolding put_u32_def [abs_def] m by simp
qed

interpretation f64: full_codec put_u64 get_u64 "1 + 1 + (1 + 1) + (1 + 1 + (1 + 1))"
proof unfold_locales
  have m: "(0xFFFFFFFF :: u64) = mask LENGTH(32)" by (simp add: mask_eq_exp_minus_1)
  show "length bs = 1 + 1 + (1 + 1) + (1 + 1 + (1 + 1)) \<Longrightarrow> \<exists>x. bs = put_u64 x" for bs
    using f32.halves_surj [OF word_join [where 'a = 32 and 'b = 64], of bs]
    unfolding put_u64_def [abs_def] m by simp
qed

text \<open>Any long enough sequence starts with an encoded integer.\<close>

lemma split_u16: "length bs = 2 + n \<Longrightarrow> \<exists>x r. bs = put_u16 x @ r \<and> length r = n"
  using f16.split_long [of bs] by (metis add_diff_cancel_left' le_add1 length_drop nat_1_add_1)

lemma split_u32: "length bs = 4 + n \<Longrightarrow> \<exists>x r. bs = put_u32 x @ r \<and> length r = n"
  using f32.split_long [of bs]
  by (metis add_diff_cancel_left' le_add1 length_drop nat_1_add_1 numeral_Bit0)

lemma split_u64: "length bs = 8 + n \<Longrightarrow> \<exists>x r. bs = put_u64 x @ r \<and> length r = n"
  using f64.split_long [of bs]
  by (metis add_diff_cancel_left' le_add1 length_drop nat_1_add_1 numeral_Bit0)

lemma put_u32_inject [simp]: "put_u32 x = put_u32 y \<longleftrightarrow> x = y"
  using get_put_end(3) [of "[]" x] get_put_end(3) [of "[]" y] by (metis prod.inject)

end
