(* ===== verification/Hashing.thy ===== *)
theory Hashing
  imports Prelude
begin

text \<open>
  Deterministic integer hashing (\<open>include/mbg/core/hash.hpp\<close>): FNV-1a, the splitmix64
  finaliser, \<open>hash_combine\<close> and the seeded generator. The finaliser is shown to be a
  bijection on 64-bit words by an explicit inverse, so folding a field into a hash loses nothing
  of that field.
\<close>

section \<open>Definitions\<close>

definition fnv_step :: "u64 \<Rightarrow> byte \<Rightarrow> u64" where
  "fnv_step h c = (h XOR ucast c) * 1099511628211"

definition fnv1a64_seed :: "u64 \<Rightarrow> byte list \<Rightarrow> u64" where
  "fnv1a64_seed seed text = foldl fnv_step seed text"

definition fnv1a64 :: "byte list \<Rightarrow> u64" where
  "fnv1a64 text = foldl fnv_step 1469598103934665603 text"

definition xorshift :: "nat \<Rightarrow> u64 \<Rightarrow> u64" where
  "xorshift k x = x XOR drop_bit k x"

definition mix64 :: "u64 \<Rightarrow> u64" where
  "mix64 x =
     (let x = x + 0x9E3779B97F4A7C15;
          x = xorshift 30 x * 0xBF58476D1CE4E5B9;
          x = xorshift 27 x * 0x94D049BB133111EB
      in xorshift 31 x)"

definition hash_combine :: "u64 \<Rightarrow> u64 \<Rightarrow> u64" where
  "hash_combine seed v = mix64 (seed XOR mix64 v)"

record rng =
  rng_state :: u64

definition rng_next :: "rng \<Rightarrow> u64 \<times> rng" where
  "rng_next r =
     (let s = rng_state r + 0x9E3779B97F4A7C15;
          z = xorshift 30 s * 0xBF58476D1CE4E5B9;
          z = xorshift 27 z * 0x94D049BB133111EB
      in (xorshift 31 z, r\<lparr>rng_state := s\<rparr>))"

definition rng_bounded :: "rng \<Rightarrow> u64 \<Rightarrow> u64 \<times> rng" where
  "rng_bounded r bound =
     (if bound = 0 then (0, r)
      else let (z, r') = rng_next r in (z mod bound, r'))"

section \<open>The inverse of the finaliser\<close>

definition unxorshift :: "nat \<Rightarrow> u64 \<Rightarrow> u64" where
  "unxorshift k y = y XOR drop_bit k y XOR drop_bit (2 * k) y"

definition unmix64 :: "u64 \<Rightarrow> u64" where
  "unmix64 y =
     (let y = unxorshift 31 y * 0x319642B2D24D8EC3;
          y = unxorshift 27 y * 0x96DE1B173F119089
      in unxorshift 30 y - 0x9E3779B97F4A7C15)"

lemma unxorshift_xorshift:
  assumes "64 \<le> 3 * k"
  shows "unxorshift k (xorshift k x) = x"
proof (rule bit_word_eqI)
  fix n
  have far: "\<not> bit x (k + (k + (k + n)))"
    using assms by (auto dest: bit_imp_le_length)
  show "bit (unxorshift k (xorshift k x)) n = bit x n"
    using far by (auto simp: unxorshift_def xorshift_def bit_xor_iff bit_drop_bit_eq mult_2 add.assoc)
qed

lemma mult_inverse_cancel: "c * c' = 1 \<Longrightarrow> y * c * c' = (y :: u64)"
  by (metis mult.assoc mult.right_neutral)

lemma unmix64_mix64 [simp]: "unmix64 (mix64 x) = x"
proof -
  have m1: "y * 0x94D049BB133111EB * 0x319642B2D24D8EC3 = (y :: u64)" for y
    by (rule mult_inverse_cancel) simp
  have m2: "y * 0xBF58476D1CE4E5B9 * 0x96DE1B173F119089 = (y :: u64)" for y
    by (rule mult_inverse_cancel) simp
  show ?thesis
    by (simp only: unmix64_def mix64_def Let_def unxorshift_xorshift m1 m2 numeral_eq_Suc
      add_diff_cancel_right' le_numeral_simps flip: numeral_eq_Suc)
qed

lemma mix64_inject [simp]: "mix64 x = mix64 y \<longleftrightarrow> x = y"
  by (metis unmix64_mix64)

lemma xor_cancel_left: "s XOR a = s XOR b \<longleftrightarrow> a = (b :: 'a::len word)"
  by (metis xor.assoc xor_self_eq xor.left_neutral)

lemma hash_combine_inject_value [simp]: "hash_combine s v = hash_combine s w \<longleftrightarrow> v = w"
  by (simp add: hash_combine_def xor_cancel_left)

lemma hash_combine_inject_seed [simp]: "hash_combine s v = hash_combine t v \<longleftrightarrow> s = t"
  by (simp add: hash_combine_def xor_cancel_left xor.commute [of _ "mix64 v"])

lemma rng_next_mix: "fst (rng_next r) = mix64 (rng_state r)"
  by (simp add: rng_next_def mix64_def Let_def)

lemma rng_bounded_less: "bound \<noteq> 0 \<Longrightarrow> fst (rng_bounded r bound) < bound"
  by (simp add: rng_bounded_def case_prod_beta word_less_nat_alt unat_mod_distrib unat_gt_0
      mod_less_divisor)

end
