(* ===== verification/Ticks.thy ===== *)
theory Ticks
  imports Prelude
begin

text \<open>
  Monotonic logical ticks (\<open>include/mbg/model/tick.hpp\<close>, \<open>src/model/tick.cpp\<close>): wrapping-safe
  distance, the refusing addition and subtraction, and the monotonicity tracker
  \<open>TickSource\<close>. A tick is its 64-bit value.
\<close>

type_synonym tick = u64

section \<open>Distances\<close>

text \<open>\<open>tick_delta\<close> is the modular difference, read as a signed integer.\<close>

definition tick_delta :: "tick \<Rightarrow> tick \<Rightarrow> int" where
  "tick_delta from to = sint (to - from)"

definition tick_after :: "tick \<Rightarrow> tick \<Rightarrow> bool" where
  "tick_after from to \<longleftrightarrow> tick_delta from to > 0"

definition tick_forward_distance :: "tick \<Rightarrow> tick \<Rightarrow> u64 option" where
  "tick_forward_distance from to =
     (let delta = tick_delta from to in if delta < 0 then None else Some (word_of_int delta))"

definition tick_add :: "tick \<Rightarrow> u64 \<Rightarrow> tick option" where
  "tick_add base span = (if base > NOT 0 - span then None else Some (base + span))"

definition tick_sub :: "tick \<Rightarrow> u64 \<Rightarrow> tick option" where
  "tick_sub base span = (if span > base then None else Some (base - span))"

section \<open>Tick source\<close>

datatype observation = ObsFirst | ObsAdvance | ObsDuplicate | ObsReorder | ObsRollover | ObsDiscontinuity

fun observation_to_string :: "observation \<Rightarrow> string" where
  "observation_to_string ObsFirst = ''first''"
| "observation_to_string ObsAdvance = ''advance''"
| "observation_to_string ObsDuplicate = ''duplicate''"
| "observation_to_string ObsReorder = ''reorder''"
| "observation_to_string ObsRollover = ''rollover''"
| "observation_to_string ObsDiscontinuity = ''discontinuity''"

record tick_step =
  ts_observation :: observation
  ts_forward :: u64

record tick_source =
  src_last :: tick
  src_has :: bool
  src_accepted :: u64
  src_rejected :: u64
  src_rollovers :: u64

definition tick_source_init :: tick_source where
  "tick_source_init = \<lparr>src_last = 0, src_has = False, src_accepted = 0, src_rejected = 0, src_rollovers = 0\<rparr>"

definition ts_accept :: "tick \<Rightarrow> tick_source \<Rightarrow> tick_source" where
  "ts_accept t s = s\<lparr>src_last := t, src_accepted := src_accepted s + 1\<rparr>"

definition ts_reject :: "tick_source \<Rightarrow> tick_source" where
  "ts_reject s = s\<lparr>src_rejected := src_rejected s + 1\<rparr>"

definition observe :: "tick \<Rightarrow> u64 \<Rightarrow> tick_source \<Rightarrow> tick_step \<times> tick_source" where
  "observe t tolerance s =
     (if \<not> src_has s then
        (\<lparr>ts_observation = ObsFirst, ts_forward = 0\<rparr>, (ts_accept t s)\<lparr>src_has := True\<rparr>)
      else
        let delta = tick_delta (src_last s) t in
        if delta > 0 then
          (\<lparr>ts_observation = ObsAdvance, ts_forward = word_of_int delta\<rparr>, ts_accept t s)
        else if delta = 0 then
          (\<lparr>ts_observation = ObsDuplicate, ts_forward = 0\<rparr>, ts_reject s)
        else
          let backwards = word_of_int (- (delta + 1)) + 1;
              distance_to_wrap = NOT 0 - src_last s + 1
          in
          if backwards > distance_to_wrap \<and> backwards - distance_to_wrap \<le> tolerance then
            (\<lparr>ts_observation = ObsRollover, ts_forward = backwards - distance_to_wrap\<rparr>,
             (ts_accept t s)\<lparr>src_rollovers := src_rollovers s + 1\<rparr>)
          else if backwards \<le> tolerance then
            (\<lparr>ts_observation = ObsReorder, ts_forward = 0\<rparr>, ts_reject s)
          else
            (\<lparr>ts_observation = ObsDiscontinuity, ts_forward = 0\<rparr>, ts_reject s))"

definition accepted_obs :: "observation \<Rightarrow> bool" where
  "accepted_obs ob \<longleftrightarrow> ob = ObsFirst \<or> ob = ObsAdvance \<or> ob = ObsRollover"

section \<open>Laws\<close>

lemma tick_delta_self [simp]: "tick_delta t t = 0"
  by (simp add: tick_delta_def)

lemma tick_delta_eq_0_iff [simp]: "tick_delta a b = 0 \<longleftrightarrow> a = b"
  using signed_eq_0_iff [of "b - a"] by (auto simp: tick_delta_def)

lemma tick_delta_range: "- (2 ^ 63) \<le> tick_delta a b" "tick_delta a b < 2 ^ 63"
  using sint_range64 [of "b - a"] by (simp_all add: tick_delta_def)

lemma tick_after_irrefl [simp]: "\<not> tick_after t t"
  by (simp add: tick_after_def)

text \<open>Inside one un-wrapped half of the range the distance is the plain difference.\<close>

lemma sint_eq_uint_if:
  "sint (w :: 64 word) = (if uint w < 2 ^ 63 then uint w else uint w - 2 ^ 64)"
proof -
  have b: "0 \<le> uint w" "uint w < 2 ^ 64" using uint_lt2p [of w] by simp_all
  have "sint w = signed_take_bit 63 (uint w)"
    by (simp add: sint_uint)
  also have "\<dots> = (uint w + 2 ^ 63) mod 2 ^ 64 - 2 ^ 63"
    by (simp add: signed_take_bit_eq_take_bit_shift take_bit_eq_mod)
  also have "\<dots> = (if uint w < 2 ^ 63 then uint w else uint w - 2 ^ 64)"
    using b by (auto simp: mod_pos_pos_trivial mod_pos_geq)
  finally show ?thesis .
qed

lemma mod_2_64_signed:
  fixes d :: int
  assumes "\<bar>d\<bar> < 2 ^ 63"
  shows "d mod 2 ^ 64 = (if 0 \<le> d then d else d + 2 ^ 64)"
proof (cases "0 \<le> d")
  case False
  have "d mod 2 ^ 64 = (d + 2 ^ 64) mod 2 ^ 64" by (simp only: mod_add_self2)
  also have "\<dots> = d + 2 ^ 64" using False assms by (intro mod_pos_pos_trivial) simp_all
  finally show ?thesis using False by simp
qed (use assms in simp)

lemma sint_of_uint_mod:
  assumes "uint w = d mod 2 ^ 64" "\<bar>d\<bar> < 2 ^ 63"
  shows "sint (w :: 64 word) = d"
  using assms mod_2_64_signed [OF assms(2)] by (auto simp: sint_eq_uint_if split: if_splits)

lemma tick_delta_linear:
  assumes "\<bar>int (unat b) - int (unat a)\<bar> < 2 ^ 63"
  shows "tick_delta a b = int (unat b) - int (unat a)"
  unfolding tick_delta_def
  by (rule sint_of_uint_mod [OF _ assms]) (simp add: uint_word_ariths)

text \<open>
  Away from the rollover branch the accepted tick is strictly after the last one. The rollover
  branch is reached only with a positive tolerance (see \<open>observe_rollover_backwards\<close> in the root
  theory): at tolerance 0 every accepted tick after the first is a strict advance.
\<close>

lemma ts_accept_simps [simp]:
  "src_last (ts_accept t s) = t" "src_has (ts_accept t s) = src_has s"
  "src_rollovers (ts_accept t s) = src_rollovers s"
  "src_accepted (ts_accept t s) = src_accepted s + 1" "src_rejected (ts_accept t s) = src_rejected s"
  by (simp_all add: ts_accept_def)

lemma ts_reject_simps [simp]:
  "src_last (ts_reject s) = src_last s" "src_has (ts_reject s) = src_has s"
  "src_rollovers (ts_reject s) = src_rollovers s"
  "src_accepted (ts_reject s) = src_accepted s" "src_rejected (ts_reject s) = src_rejected s + 1"
  by (simp_all add: ts_reject_def)

lemma observe_has [simp]: "src_has (snd (observe t tol s))"
  by (auto simp: observe_def Let_def)

lemma observe_last:
  "src_last (snd (observe t tol s)) =
     (if accepted_obs (ts_observation (fst (observe t tol s))) then t else src_last s)"
  by (simp add: observe_def accepted_obs_def Let_def)

lemma observe_zero_tolerance:
  assumes "src_has s"
  shows "accepted_obs (ts_observation (fst (observe t 0 s))) \<longleftrightarrow> tick_after (src_last s) t"
  using assms by (auto simp: observe_def accepted_obs_def Let_def tick_after_def word_less_nat_alt word_le_nat_alt unat_sub_if')

lemma observe_first:
  "\<not> src_has s \<Longrightarrow> ts_observation (fst (observe t tol s)) = ObsFirst"
  by (simp add: observe_def)

lemma observe_duplicate:
  "src_has s \<Longrightarrow> observe (src_last s) tol s = (\<lparr>ts_observation = ObsDuplicate, ts_forward = 0\<rparr>, ts_reject s)"
  by (simp add: observe_def)

end
