(* ===== verification/Samples.thy ===== *)
theory Samples
  imports Hashing Ticks
begin

text \<open>
  The evidence sample model (\<open>include/mbg/model/sample.hpp\<close>, \<open>src/model/sample.cpp\<close>): stream
  keys with their lexicographic order and hash, the structural validation of a sample, and the
  resolution of cumulative counters.
\<close>

section \<open>Rates\<close>

definition kRateFractionBits :: nat where "kRateFractionBits = 16"

definition rate_from_whole :: "u64 \<Rightarrow> i64" where
  "rate_from_whole whole = push_bit kRateFractionBits whole"

definition rate_floor_whole :: "i64 \<Rightarrow> u64" where
  "rate_floor_whole v = (if sint v \<le> 0 then 0 else drop_bit kRateFractionBits v)"

section \<open>Flags\<close>

text \<open>\<open>SampleFlag\<close> is a 32-bit mask; combinations are not enumerators, so it stays a word.\<close>

definition flag_none :: u32 where "flag_none = 0"
definition flag_counter_reset :: u32 where "flag_counter_reset = push_bit 0 1"
definition flag_capacity_change :: u32 where "flag_capacity_change = push_bit 1 1"
definition flag_sparse :: u32 where "flag_sparse = push_bit 2 1"
definition flag_synthetic :: u32 where "flag_synthetic = push_bit 3 1"
definition flag_partial_interval :: u32 where "flag_partial_interval = push_bit 4 1"

definition has_flag :: "u32 \<Rightarrow> u32 \<Rightarrow> bool" where
  "has_flag v f \<longleftrightarrow> v AND f \<noteq> 0"

definition sample_flag_to_string :: "u32 \<Rightarrow> string" where
  "sample_flag_to_string f =
     (if f = flag_none then ''none''
      else if f = flag_counter_reset then ''counter-reset''
      else if f = flag_capacity_change then ''capacity-change''
      else if f = flag_sparse then ''sparse''
      else if f = flag_synthetic then ''synthetic''
      else if f = flag_partial_interval then ''partial-interval''
      else ''unknown'')"

section \<open>Stream keys\<close>

datatype stream_key = StreamKey (sk_resource: u64) (sk_queue: u64) (sk_path: u64)

definition stream_key_hash :: "stream_key \<Rightarrow> u64" where
  "stream_key_hash k =
     (let h = 0x9E3779B97F4A7C15;
          h = hash_combine h (sk_resource k);
          h = hash_combine h (sk_queue k);
          h = hash_combine h (if id_valid (sk_path k) then sk_path k else 0)
      in h)"

definition stream_key_valid :: "stream_key \<Rightarrow> bool" where
  "stream_key_valid k \<longleftrightarrow> id_valid (sk_resource k) \<and> id_valid (sk_queue k)"

definition stream_key_default :: stream_key where
  "stream_key_default = StreamKey id_invalid id_invalid id_invalid"

text \<open>The defaulted three-way comparison is lexicographic; the stream table is ordered by it.\<close>

definition stream_key_le :: "stream_key \<Rightarrow> stream_key \<Rightarrow> bool" where
  "stream_key_le a b \<longleftrightarrow>
     sk_resource a < sk_resource b \<or>
     (sk_resource a = sk_resource b \<and>
        (sk_queue a < sk_queue b \<or> (sk_queue a = sk_queue b \<and> sk_path a \<le> sk_path b)))"

instantiation stream_key :: linorder
begin

definition less_eq_stream_key :: "stream_key \<Rightarrow> stream_key \<Rightarrow> bool" where
  "less_eq_stream_key = stream_key_le"

definition less_stream_key :: "stream_key \<Rightarrow> stream_key \<Rightarrow> bool" where
  "less_stream_key a b \<longleftrightarrow> a \<le> b \<and> \<not> b \<le> (a :: stream_key)"

instance
proof
  fix x y z :: stream_key
  note le = less_eq_stream_key_def stream_key_le_def
  show "x < y \<longleftrightarrow> x \<le> y \<and> \<not> y \<le> x" by (rule less_stream_key_def)
  show "x \<le> x" by (simp add: le)
  show "x \<le> y \<Longrightarrow> y \<le> z \<Longrightarrow> x \<le> z"
    unfolding le by (auto intro: order_trans less_trans)
  show "x \<le> y \<Longrightarrow> y \<le> x \<Longrightarrow> x = y"
    by (cases x; cases y) (auto simp: le)
  show "x \<le> y \<or> y \<le> x" unfolding le by (metis linear neqE)
qed

end

section \<open>Samples\<close>

record sample =
  sm_stream :: stream_key
  sm_tick :: tick
  sm_seq :: u64
  sm_resource_generation :: u32
  sm_depth :: u64
  sm_occupancy_bytes :: u64
  sm_capacity_bytes :: u64
  sm_ingress_rate_q16 :: i64
  sm_egress_rate_q16 :: i64
  sm_ingress_total :: u64
  sm_egress_total :: u64
  sm_drop_total :: u64
  sm_mark_total :: u64
  sm_flags :: u32
  sm_provenance :: u64
  sm_affected_classes :: "u64 list"
  sm_affected_class_count :: u8

text \<open>\<open>affected_classes\<close> is an array of four entries.\<close>

definition kAffectedClasses :: nat where "kAffectedClasses = 4"

definition sample_default :: sample where
  "sample_default = \<lparr>sm_stream = stream_key_default, sm_tick = 0, sm_seq = id_invalid,
     sm_resource_generation = id_invalid, sm_depth = 0, sm_occupancy_bytes = 0,
     sm_capacity_bytes = 0, sm_ingress_rate_q16 = 0, sm_egress_rate_q16 = 0,
     sm_ingress_total = 0, sm_egress_total = 0, sm_drop_total = 0, sm_mark_total = 0,
     sm_flags = flag_none, sm_provenance = id_invalid,
     sm_affected_classes = replicate kAffectedClasses id_invalid, sm_affected_class_count = 0\<rparr>"

definition sample_shape :: "sample \<Rightarrow> bool" where
  "sample_shape s \<longleftrightarrow> length (sm_affected_classes s) = kAffectedClasses"

definition validate_sample :: "sample \<Rightarrow> status" where
  "validate_sample s =
     (if \<not> stream_key_valid (sm_stream s) then
        failure StInvalidArgument ''sample stream identity is incomplete''
      else if unat (sm_affected_class_count s) > kAffectedClasses then
        failure StInvalidArgument ''affected class count exceeds capacity''
      else if sm_capacity_bytes s \<noteq> 0 \<and> sm_occupancy_bytes s > sm_capacity_bytes s \<and>
              \<not> has_flag (sm_flags s) flag_capacity_change then
        failure StConflict ''occupancy exceeds capacity without a declared capacity change''
      else if sint (sm_ingress_rate_q16 s) < 0 \<or> sint (sm_egress_rate_q16 s) < 0 then
        failure StInvalidArgument ''negative rate is not representable''
      else if sm_depth s > push_bit 62 1 \<or> sm_occupancy_bytes s > push_bit 62 1 then
        failure StOutOfRange ''depth or occupancy exceeds supported range''
      else if \<not> list_all id_valid (take (unat (sm_affected_class_count s)) (sm_affected_classes s)) then
        failure StInvalidArgument ''affected class entry is invalid''
      else status_ok)"

section \<open>Cumulative counters\<close>

datatype counter_disposition = CdFirstObservation | CdAdvance | CdRollover | CdRegression | CdDeclaredReset

record counter_resolution =
  cr_delta :: u64
  cr_disposition :: counter_disposition
  cr_usable :: bool

definition resolve_counter :: "u64 \<Rightarrow> u64 \<Rightarrow> bool \<Rightarrow> counter_resolution" where
  "resolve_counter previous current reset_declared =
     (if reset_declared then
        \<lparr>cr_delta = 0, cr_disposition = CdDeclaredReset, cr_usable = False\<rparr>
      else if current \<ge> previous then
        \<lparr>cr_delta = current - previous, cr_disposition = CdAdvance, cr_usable = True\<rparr>
      else
        let modular = current - previous in
        if modular < push_bit 63 1 then
          \<lparr>cr_delta = modular, cr_disposition = CdRollover, cr_usable = True\<rparr>
        else
          \<lparr>cr_delta = 0, cr_disposition = CdRegression, cr_usable = False\<rparr>)"

record counter_cursor =
  cc_previous :: u64
  cc_has_previous :: bool
  cc_rollovers :: u64
  cc_regressions :: u64
  cc_declared_resets :: u64

definition counter_cursor_default :: counter_cursor where
  "counter_cursor_default = \<lparr>cc_previous = 0, cc_has_previous = False, cc_rollovers = 0,
     cc_regressions = 0, cc_declared_resets = 0\<rparr>"

definition cursor_observe :: "u64 \<Rightarrow> bool \<Rightarrow> counter_cursor \<Rightarrow> counter_resolution \<times> counter_cursor" where
  "cursor_observe current reset_declared c =
     (if \<not> cc_has_previous c then
        (\<lparr>cr_delta = 0, cr_disposition = CdFirstObservation, cr_usable = False\<rparr>,
         c\<lparr>cc_has_previous := True, cc_previous := current,
           cc_declared_resets := cc_declared_resets c + (if reset_declared then 1 else 0)\<rparr>)
      else
        let resolution = resolve_counter (cc_previous c) current reset_declared;
            c = c\<lparr>cc_previous := current\<rparr>
        in (resolution,
            (case cr_disposition resolution of
               CdRollover \<Rightarrow> c\<lparr>cc_rollovers := cc_rollovers c + 1\<rparr>
             | CdRegression \<Rightarrow> c\<lparr>cc_regressions := cc_regressions c + 1\<rparr>
             | CdDeclaredReset \<Rightarrow> c\<lparr>cc_declared_resets := cc_declared_resets c + 1\<rparr>
             | CdAdvance \<Rightarrow> c
             | CdFirstObservation \<Rightarrow> c)))"

section \<open>Laws\<close>

lemma unat_push_bit_63: "unat (push_bit 63 1 :: u64) = 2 ^ 63"
  by simp

lemma validate_sample_ok:
  assumes "is_ok (validate_sample s)"
  shows "stream_key_valid (sm_stream s)" "unat (sm_affected_class_count s) \<le> kAffectedClasses"
    "0 \<le> sint (sm_ingress_rate_q16 s)" "0 \<le> sint (sm_egress_rate_q16 s)"
    "unat (sm_depth s) \<le> 2 ^ 62" "unat (sm_occupancy_bytes s) \<le> 2 ^ 62"
  using assms by (auto simp: validate_sample_def word_less_nat_alt not_less split: if_splits)

text \<open>
  The step is used exactly when the modular distance is the true forward distance of a counter
  that advanced by less than \<open>2^63\<close>, or when the counter did not go backwards at all.
\<close>

lemma resolve_counter_delta:
  assumes "cr_usable (resolve_counter p c r)"
  shows "p + cr_delta (resolve_counter p c r) = c"
  using assms by (auto simp: resolve_counter_def Let_def split: if_splits)

lemma resolve_counter_usable_iff:
  "cr_usable (resolve_counter p c r) \<longleftrightarrow> \<not> r \<and> (p \<le> c \<or> unat p - unat c > 2 ^ 63)"
proof (cases "r \<or> p \<le> c")
  case True
  then show ?thesis by (auto simp: resolve_counter_def Let_def)
next
  case False
  then have lt: "unat c < unat p" and nr: "\<not> r" and nle: "\<not> p \<le> c"
    by (auto simp: word_le_nat_alt)
  have "unat (c - p) = 2 ^ 64 + unat c - unat p"
    using lt by (simp add: unat_sub_if')
  moreover have "unat p < 2 ^ 64" using unat_bound [of p] by simp
  ultimately have "c - p < push_bit 63 1 \<longleftrightarrow> unat p - unat c > 2 ^ 63"
    using lt by (simp only: word_less_nat_alt unat_push_bit_63) auto
  then show ?thesis using nr nle by (simp add: resolve_counter_def Let_def)
qed

end
