(* ===== verification/Crc32c.thy ===== *)
theory Crc32c
  imports Prelude
begin

text \<open>
  The table-driven CRC-32C of \<open>include/mbg/core/crc32c.hpp\<close>. The table-driven update is shown
  equal to the bitwise division by the reversed Castagnoli polynomial, and the checksum is shown
  to detect every corruption confined to four consecutive bytes of a message, in particular every
  single corrupted byte.
\<close>

section \<open>Definitions\<close>

definition crc_bit_step :: "u32 \<Rightarrow> u32" where
  "crc_bit_step crc = (if crc AND 1 \<noteq> 0 then drop_bit 1 crc XOR 0x82F63B78 else drop_bit 1 crc)"

definition crc_table_entry :: "nat \<Rightarrow> u32" where
  "crc_table_entry index = (crc_bit_step ^^ 8) (of_nat index)"

definition crc_table :: "u32 list" where
  "crc_table = map crc_table_entry [0..<256]"

definition crc_initial :: u32 where
  "crc_initial = 0xFFFFFFFF"

definition crc_step :: "u32 \<Rightarrow> byte \<Rightarrow> u32" where
  "crc_step crc raw =
     (let index = unat ((crc XOR ucast raw) AND 0xFF)
      in drop_bit 8 crc XOR crc_table ! index)"

definition crc_update :: "u32 \<Rightarrow> byte list \<Rightarrow> u32" where
  "crc_update state bytes = foldl crc_step state bytes"

definition crc_value :: "u32 \<Rightarrow> u32" where
  "crc_value state = state XOR crc_initial"

definition crc_compute :: "byte list \<Rightarrow> u32" where
  "crc_compute bytes = crc_value (crc_update crc_initial bytes)"

text \<open>The bitwise reference: shift the byte in and divide eight times.\<close>

definition crc_step_ref :: "u32 \<Rightarrow> byte \<Rightarrow> u32" where
  "crc_step_ref crc raw = (crc_bit_step ^^ 8) (crc XOR ucast raw)"

section \<open>The bit step is linear and injective\<close>

lemma and_one_iff_bit: "crc AND 1 \<noteq> 0 \<longleftrightarrow> bit crc 0" for crc :: "'a::len word"
  by (simp add: and_one_eq bit_0 odd_iff_mod_2_eq_one)

lemma crc_bit_step_xor: "crc_bit_step (a XOR b) = crc_bit_step a XOR crc_bit_step b"
  by (rule bit_word_eqI)
    (auto simp: crc_bit_step_def and_one_iff_bit bit_xor_iff bit_drop_bit_eq)

lemma crc_steps_xor:
  "(crc_bit_step ^^ n) (a XOR b) = (crc_bit_step ^^ n) a XOR (crc_bit_step ^^ n) b"
  by (induction n) (simp_all add: crc_bit_step_xor)

lemma crc_bit_step_zero_iff: "crc_bit_step a = 0 \<longleftrightarrow> a = 0"
proof
  assume z: "crc_bit_step a = 0"
  show "a = 0"
  proof (rule bit_word_eqI)
    fix n :: nat
    assume "n < LENGTH(32)"
    have top: "\<not> bit a 0"
    proof
      assume "bit a 0"
      then have "bit (crc_bit_step a) 31"
        by (auto simp: crc_bit_step_def and_one_iff_bit bit_xor_iff bit_drop_bit_eq
            dest: bit_imp_le_length)
      with z show False by simp
    qed
    then have "drop_bit 1 a = 0" using z by (simp add: crc_bit_step_def and_one_iff_bit)
    then have "\<not> bit (drop_bit 1 a) m" for m by simp
    then have "\<not> bit a (Suc m)" for m by (simp add: bit_drop_bit_eq)
    with top show "bit a n = bit (0 :: u32) n" by (cases n) simp_all
  qed
qed (simp add: crc_bit_step_def)

lemma crc_steps_zero_iff: "(crc_bit_step ^^ n) a = 0 \<longleftrightarrow> a = 0"
  by (induction n) (simp_all add: crc_bit_step_zero_iff)

lemma crc_steps_inject: "(crc_bit_step ^^ n) a = (crc_bit_step ^^ n) b \<longleftrightarrow> a = b"
proof -
  have eq: "x = y \<longleftrightarrow> x XOR y = 0" for x y :: u32
    by (metis xor.assoc xor.left_neutral xor.right_neutral xor_self_eq)
  show ?thesis
    by (simp only: eq [of "(crc_bit_step ^^ n) a"] eq [of a] crc_steps_zero_iff flip: crc_steps_xor)
qed

section \<open>The table step is the bitwise step\<close>

lemma crc_steps_shift: "(\<And>i. i < n \<Longrightarrow> \<not> bit a i) \<Longrightarrow> (crc_bit_step ^^ n) a = drop_bit n a"
proof (induction n)
  case (Suc n)
  then have eq: "(crc_bit_step ^^ n) a = drop_bit n a" by simp
  have "\<not> bit (drop_bit n a) 0" using Suc.prems by (simp add: bit_drop_bit_eq)
  then have "crc_bit_step (drop_bit n a) = drop_bit (Suc n) a"
    by (simp add: crc_bit_step_def and_one_iff_bit drop_bit_drop_bit)
  then show ?case by (simp add: eq)
qed simp

lemma crc_step_eq_ref: "crc_step crc raw = crc_step_ref crc raw"
proof -
  define x where "x = crc XOR ucast raw"
  define lo where "lo = x AND 0xFF"
  define hi where "hi = x AND NOT 0xFF"
  have mask8: "(0xFF :: u32) = mask 8" by (simp add: mask_eq_exp_minus_1)
  have lo_bit: "bit lo i \<longleftrightarrow> bit x i \<and> i < 8" for i
    unfolding lo_def mask8 by (auto simp: bit_and_iff bit_mask_iff dest: bit_imp_le_length)
  have hi_bit: "bit hi i \<longleftrightarrow> bit x i \<and> \<not> i < 8" for i
    unfolding hi_def mask8 by (auto simp: bit_and_iff bit_not_iff bit_mask_iff dest: bit_imp_le_length)
  have x: "x = hi XOR lo"
    by (rule bit_word_eqI) (auto simp: bit_xor_iff lo_bit hi_bit)
  have "(crc_bit_step ^^ 8) hi = drop_bit 8 hi"
    by (rule crc_steps_shift) (simp add: hi_bit)
  also have "\<dots> = drop_bit 8 crc"
    by (rule bit_word_eqI)
      (auto simp: bit_drop_bit_eq hi_bit x_def bit_xor_iff bit_ucast_iff dest: bit_imp_le_length)
  finally have hi8: "(crc_bit_step ^^ 8) hi = drop_bit 8 crc" .
  have "unat lo < 256"
    unfolding lo_def mask8 using and_mask_less_size [of 8 x]
    by (simp add: word_size word_less_nat_alt)
  then have lo8: "crc_table ! unat lo = (crc_bit_step ^^ 8) lo"
    by (simp add: crc_table_def crc_table_entry_def)
  have "crc_step crc raw = drop_bit 8 crc XOR crc_table ! unat lo"
    by (simp only: crc_step_def Let_def lo_def x_def)
  also have "\<dots> = (crc_bit_step ^^ 8) x"
    by (simp only: x crc_steps_xor hi8 lo8)
  finally show ?thesis by (simp only: crc_step_ref_def x_def)
qed

lemma crc_step_inject_state: "crc_step c b = crc_step d b \<longleftrightarrow> c = d"
proof -
  have "c XOR x = d XOR x \<longleftrightarrow> c = d" for x :: u32
    by (metis xor.assoc xor_self_eq xor.right_neutral)
  then show ?thesis by (simp add: crc_step_eq_ref crc_step_ref_def crc_steps_inject)
qed

lemma crc_update_inject_state: "crc_update c bs = crc_update d bs \<longleftrightarrow> c = d"
  by (induction bs arbitrary: c d) (simp_all add: crc_update_def crc_step_inject_state)

lemma crc_update_append [simp]: "crc_update c (xs @ ys) = crc_update (crc_update c xs) ys"
  by (simp add: crc_update_def)

section \<open>Burst detection\<close>

text \<open>Four bytes are shifted in as one little-endian word, so four-byte blocks stay apart.\<close>

definition le_word4 :: "byte \<Rightarrow> byte \<Rightarrow> byte \<Rightarrow> byte \<Rightarrow> u32" where
  "le_word4 a b c d =
     ucast a XOR push_bit 8 (ucast b) XOR push_bit 16 (ucast c) XOR push_bit 24 (ucast d)"

lemma crc_steps_push:
  "8 * k \<le> 24 \<Longrightarrow> (crc_bit_step ^^ (8 * k)) (push_bit (8 * k) (ucast (b :: byte))) = ucast b"
proof -
  assume k: "8 * k \<le> 24"
  have "(crc_bit_step ^^ (8 * k)) (push_bit (8 * k) (ucast b)) = drop_bit (8 * k) (push_bit (8 * k) (ucast b :: u32))"
    by (rule crc_steps_shift) (simp add: bit_push_bit_iff)
  also have "\<dots> = ucast b"
    using k by (intro bit_word_eqI)
      (auto simp: bit_drop_bit_eq bit_push_bit_iff bit_ucast_iff dest: bit_imp_le_length)
  finally show ?thesis .
qed

lemma crc_update_block:
  "crc_update st [a, b, c, d] = (crc_bit_step ^^ 32) (st XOR le_word4 a b c d)"
proof -
  have split: "(crc_bit_step ^^ 32) x = (crc_bit_step ^^ 8) ((crc_bit_step ^^ 8) ((crc_bit_step ^^ 8) ((crc_bit_step ^^ 8) x)))" for x
    by (simp flip: funpow_add comp_apply [of "crc_bit_step ^^ _"] add: funpow_add [symmetric, THEN fun_cong, simplified comp_apply])
  have b: "(crc_bit_step ^^ 8) (push_bit 8 (ucast b)) = ucast b"
    using crc_steps_push [of 1 b] by simp
  have c: "(crc_bit_step ^^ 8) ((crc_bit_step ^^ 8) (push_bit 16 (ucast c))) = ucast c"
    using crc_steps_push [of 2 c] by (simp flip: funpow_add [THEN fun_cong, unfolded comp_apply])
  have d: "(crc_bit_step ^^ 8) ((crc_bit_step ^^ 8) ((crc_bit_step ^^ 8) (push_bit 24 (ucast d)))) = ucast d"
    using crc_steps_push [of 3 d] by (simp flip: funpow_add [THEN fun_cong, unfolded comp_apply])
  show ?thesis
    by (simp add: crc_update_def crc_step_eq_ref crc_step_ref_def le_word4_def split crc_steps_xor
        b c d xor.assoc)
qed

lemma le_word4_inject:
  "le_word4 a b c d = le_word4 a' b' c' d' \<longleftrightarrow> a = a' \<and> b = b' \<and> c = c' \<and> d = d'"
proof
  assume eq: "le_word4 a b c d = le_word4 a' b' c' d'"
  have bits: "bit (le_word4 p q r s) n =
      (if n < 8 then bit p n else if n < 16 then bit q (n - 8)
       else if n < 24 then bit r (n - 16) else n < 32 \<and> bit s (n - 24))" for p q r s n
    by (auto simp: le_word4_def bit_xor_iff bit_push_bit_iff bit_ucast_iff dest: bit_imp_le_length)
  have "bit a n = bit a' n" if "n < 8" for n
    using arg_cong [OF eq, of "\<lambda>w. bit w n"] that by (simp add: bits)
  moreover have "bit b n = bit b' n" if "n < 8" for n
    using arg_cong [OF eq, of "\<lambda>w. bit w (n + 8)"] that by (simp add: bits)
  moreover have "bit c n = bit c' n" if "n < 8" for n
    using arg_cong [OF eq, of "\<lambda>w. bit w (n + 16)"] that by (simp add: bits)
  moreover have "bit d n = bit d' n" if "n < 8" for n
    using arg_cong [OF eq, of "\<lambda>w. bit w (n + 24)"] that by (simp add: bits)
  ultimately show "a = a' \<and> b = b' \<and> c = c' \<and> d = d'"
    by (auto intro!: bit_word_eqI)
qed simp

lemma crc_update_block_inject:
  assumes "length xs = 4" "length ys = 4" "crc_update st xs = crc_update st ys"
  shows "xs = ys"
proof -
  obtain a b c d where xs: "xs = [a, b, c, d]"
    using assms(1) by (auto simp: numeral_eq_Suc length_Suc_conv)
  obtain a' b' c' d' where ys: "ys = [a', b', c', d']"
    using assms(2) by (auto simp: numeral_eq_Suc length_Suc_conv)
  have "st XOR x = st XOR y \<longleftrightarrow> x = y" for x y :: u32
    by (metis xor.assoc xor_self_eq xor.left_neutral)
  with assms(3) show ?thesis
    by (simp add: xs ys crc_update_block crc_steps_inject le_word4_inject)
qed

lemma crc_update_burst:
  assumes "length xs = length ys" "length xs \<le> 4" "xs \<noteq> ys"
  shows "crc_update st xs \<noteq> crc_update st ys"
proof
  assume eq: "crc_update st xs = crc_update st ys"
  define pad :: "byte list" where "pad = replicate (4 - length xs) 0"
  have "crc_update st (xs @ pad) = crc_update st (ys @ pad)" by (simp add: eq)
  then have "xs @ pad = ys @ pad"
    by (intro crc_update_block_inject) (use assms in \<open>auto simp: pad_def\<close>)
  with assms show False by simp
qed

lemma crc_value_inject [simp]: "crc_value a = crc_value b \<longleftrightarrow> a = b"
  unfolding crc_value_def by (metis xor.assoc xor_self_eq xor.right_neutral)

lemma crc_compute_burst:
  assumes "length xs = length ys" "length xs \<le> 4" "xs \<noteq> ys"
  shows "crc_compute (pre @ xs @ post) \<noteq> crc_compute (pre @ ys @ post)"
  using crc_update_burst [OF assms] by (simp add: crc_compute_def crc_update_inject_state)

text \<open>A single corrupted byte is the case most of the clients use.\<close>

lemma crc_compute_update_byte:
  assumes "i < length bs" "b \<noteq> bs ! i"
  shows "crc_compute (bs[i := b]) \<noteq> crc_compute bs"
proof -
  have "bs[i := b] = take i bs @ [b] @ drop (Suc i) bs"
    using assms(1) by (simp add: upd_conv_take_nth_drop)
  moreover have "bs = take i bs @ [bs ! i] @ drop (Suc i) bs"
    using assms(1) by (simp add: id_take_nth_drop)
  ultimately show ?thesis
    using crc_compute_burst [of "[b]" "[bs ! i]" "take i bs" "drop (Suc i) bs"] assms(2) by simp
qed

end
