(* ===== verification/Explanation.thy ===== *)
theory Explanation
  imports Hashing Ticks
begin

text \<open>
  Bounded structured explanations (\<open>include/mbg/model/explanation.hpp\<close>,
  \<open>src/model/explanation.cpp\<close>). The fixed array of reasons with its count is the list of the
  reasons in use; \<open>add\<close> past the capacity sets the truncation mark and keeps what is there.
  A reason code decoded from the wire may be out of range: \<open>RcRaw\<close>.
\<close>

section \<open>Decimal rendering\<close>

text \<open>\<open>std::to_string\<close> on unsigned and signed integers.\<close>

definition digit_char :: "nat \<Rightarrow> char" where
  "digit_char d = char_of (48 + d)"

fun decimal :: "nat \<Rightarrow> string" where
  "decimal n = (if n < 10 then [digit_char n] else decimal (n div 10) @ [digit_char (n mod 10)])"

declare decimal.simps [simp del]

definition to_string_u :: "'a::len word \<Rightarrow> string" where
  "to_string_u w = decimal (unat w)"

definition to_string_i64 :: "i64 \<Rightarrow> string" where
  "to_string_i64 w = (if sint w < 0 then CHR ''-'' # decimal (nat (- sint w)) else decimal (nat (sint w)))"

section \<open>Reason codes\<close>

datatype reason_code =
    RcNone
  | RcEvidenceAccepted
  | RcEvidenceInsufficientSamples
  | RcEvidenceIncomplete
  | RcEvidenceStale
  | RcEvidenceGap
  | RcEvidenceReordered
  | RcEvidenceDuplicate
  | RcEvidenceCounterReset
  | RcEvidenceCapacityChanged
  | RcEvidenceTickRollover
  | RcEvidenceDegradedAllowed
  | RcEvidenceDegradedRefused
  | RcEvidenceNoSamples
  | RcOnsetDepthCrossed
  | RcOnsetSlopeCrossed
  | RcOnsetSustainMet
  | RcReleaseDepthCrossed
  | RcReleaseSlopeCrossed
  | RcReleaseSustainMet
  | RcDurationExceeded
  | RcDropEvidencePresent
  | RcMarkEvidencePresent
  | RcIngressEgressImbalance
  | RcOccupancyGradeCrossed
  | RcDepthGradeCrossed
  | RcSlopeGradeCrossed
  | RcDurationGradeCrossed
  | RcDropGradeCrossed
  | RcEpisodeOpened
  | RcEpisodeMerged
  | RcEpisodeClosed
  | RcEpisodeFenced
  | RcCooldownActive
  | RcCooldownExpired
  | RcDuplicateSuppressed
  | RcEpisodeTimedOut
  | RcEpisodeRecovering
  | RcInterventionRequested
  | RcInterventionMagnitudeClamped
  | RcInterventionSuppressedByPolicy
  | RcInterventionSuppressedByCooldown
  | RcInterventionSuppressedByCapacity
  | RcInterventionSuppressedBySeverity
  | RcInterventionSuppressedByAuthority
  | RcInterventionExpired
  | RcInterventionRevokedStaleAuthority
  | RcInterventionRevokedPolicyChange
  | RcInterventionRevokedEpochChange
  | RcInterventionRevokedFenced
  | RcInterventionRevokedResourceGeneration
  | RcAuthorityAuthoritative
  | RcAuthorityDegraded
  | RcAuthorityUnknown
  | RcAuthorityEpochAdvanced
  | RcAuthorityIncarnationChanged
  | RcAuthorityRestored
  | RcAuthorityFenced
  | RcRaw u16

primrec reason_raw :: "reason_code \<Rightarrow> u16" where
  "reason_raw RcNone = 0"
| "reason_raw RcEvidenceAccepted = 1"
| "reason_raw RcEvidenceInsufficientSamples = 2"
| "reason_raw RcEvidenceIncomplete = 3"
| "reason_raw RcEvidenceStale = 4"
| "reason_raw RcEvidenceGap = 5"
| "reason_raw RcEvidenceReordered = 6"
| "reason_raw RcEvidenceDuplicate = 7"
| "reason_raw RcEvidenceCounterReset = 8"
| "reason_raw RcEvidenceCapacityChanged = 9"
| "reason_raw RcEvidenceTickRollover = 10"
| "reason_raw RcEvidenceDegradedAllowed = 11"
| "reason_raw RcEvidenceDegradedRefused = 12"
| "reason_raw RcEvidenceNoSamples = 13"
| "reason_raw RcOnsetDepthCrossed = 20"
| "reason_raw RcOnsetSlopeCrossed = 21"
| "reason_raw RcOnsetSustainMet = 22"
| "reason_raw RcReleaseDepthCrossed = 23"
| "reason_raw RcReleaseSlopeCrossed = 24"
| "reason_raw RcReleaseSustainMet = 25"
| "reason_raw RcDurationExceeded = 26"
| "reason_raw RcDropEvidencePresent = 27"
| "reason_raw RcMarkEvidencePresent = 28"
| "reason_raw RcIngressEgressImbalance = 29"
| "reason_raw RcOccupancyGradeCrossed = 30"
| "reason_raw RcDepthGradeCrossed = 31"
| "reason_raw RcSlopeGradeCrossed = 32"
| "reason_raw RcDurationGradeCrossed = 33"
| "reason_raw RcDropGradeCrossed = 34"
| "reason_raw RcEpisodeOpened = 40"
| "reason_raw RcEpisodeMerged = 41"
| "reason_raw RcEpisodeClosed = 42"
| "reason_raw RcEpisodeFenced = 43"
| "reason_raw RcCooldownActive = 44"
| "reason_raw RcCooldownExpired = 45"
| "reason_raw RcDuplicateSuppressed = 46"
| "reason_raw RcEpisodeTimedOut = 47"
| "reason_raw RcEpisodeRecovering = 48"
| "reason_raw RcInterventionRequested = 60"
| "reason_raw RcInterventionMagnitudeClamped = 61"
| "reason_raw RcInterventionSuppressedByPolicy = 62"
| "reason_raw RcInterventionSuppressedByCooldown = 63"
| "reason_raw RcInterventionSuppressedByCapacity = 64"
| "reason_raw RcInterventionSuppressedBySeverity = 65"
| "reason_raw RcInterventionSuppressedByAuthority = 66"
| "reason_raw RcInterventionExpired = 67"
| "reason_raw RcInterventionRevokedStaleAuthority = 68"
| "reason_raw RcInterventionRevokedPolicyChange = 69"
| "reason_raw RcInterventionRevokedEpochChange = 70"
| "reason_raw RcInterventionRevokedFenced = 71"
| "reason_raw RcInterventionRevokedResourceGeneration = 72"
| "reason_raw RcAuthorityAuthoritative = 80"
| "reason_raw RcAuthorityDegraded = 81"
| "reason_raw RcAuthorityUnknown = 82"
| "reason_raw RcAuthorityEpochAdvanced = 83"
| "reason_raw RcAuthorityIncarnationChanged = 84"
| "reason_raw RcAuthorityRestored = 85"
| "reason_raw RcAuthorityFenced = 86"
| "reason_raw (RcRaw v) = v"

definition reason_codes :: "reason_code list" where
  "reason_codes = [
     RcNone, RcEvidenceAccepted, RcEvidenceInsufficientSamples,
     RcEvidenceIncomplete, RcEvidenceStale, RcEvidenceGap,
     RcEvidenceReordered, RcEvidenceDuplicate, RcEvidenceCounterReset,
     RcEvidenceCapacityChanged, RcEvidenceTickRollover, RcEvidenceDegradedAllowed,
     RcEvidenceDegradedRefused, RcEvidenceNoSamples, RcOnsetDepthCrossed,
     RcOnsetSlopeCrossed, RcOnsetSustainMet, RcReleaseDepthCrossed,
     RcReleaseSlopeCrossed, RcReleaseSustainMet, RcDurationExceeded,
     RcDropEvidencePresent, RcMarkEvidencePresent, RcIngressEgressImbalance,
     RcOccupancyGradeCrossed, RcDepthGradeCrossed, RcSlopeGradeCrossed,
     RcDurationGradeCrossed, RcDropGradeCrossed, RcEpisodeOpened,
     RcEpisodeMerged, RcEpisodeClosed, RcEpisodeFenced,
     RcCooldownActive, RcCooldownExpired, RcDuplicateSuppressed,
     RcEpisodeTimedOut, RcEpisodeRecovering, RcInterventionRequested,
     RcInterventionMagnitudeClamped, RcInterventionSuppressedByPolicy, RcInterventionSuppressedByCooldown,
     RcInterventionSuppressedByCapacity, RcInterventionSuppressedBySeverity, RcInterventionSuppressedByAuthority,
     RcInterventionExpired, RcInterventionRevokedStaleAuthority, RcInterventionRevokedPolicyChange,
     RcInterventionRevokedEpochChange, RcInterventionRevokedFenced, RcInterventionRevokedResourceGeneration,
     RcAuthorityAuthoritative, RcAuthorityDegraded, RcAuthorityUnknown,
     RcAuthorityEpochAdvanced, RcAuthorityIncarnationChanged, RcAuthorityRestored,
     RcAuthorityFenced]"

definition reason_of_raw :: "u16 \<Rightarrow> reason_code" where
  "reason_of_raw v = (case find (\<lambda>c. reason_raw c = v) reason_codes of Some c \<Rightarrow> c | None \<Rightarrow> RcRaw v)"

primrec reason_name :: "reason_code \<Rightarrow> string" where
  "reason_name RcNone = ''none''"
| "reason_name RcEvidenceAccepted = ''evidence-accepted''"
| "reason_name RcEvidenceInsufficientSamples = ''evidence-insufficient-samples''"
| "reason_name RcEvidenceIncomplete = ''evidence-incomplete''"
| "reason_name RcEvidenceStale = ''evidence-stale''"
| "reason_name RcEvidenceGap = ''evidence-gap''"
| "reason_name RcEvidenceReordered = ''evidence-reordered''"
| "reason_name RcEvidenceDuplicate = ''evidence-duplicate''"
| "reason_name RcEvidenceCounterReset = ''evidence-counter-reset''"
| "reason_name RcEvidenceCapacityChanged = ''evidence-capacity-changed''"
| "reason_name RcEvidenceTickRollover = ''evidence-tick-rollover''"
| "reason_name RcEvidenceDegradedAllowed = ''evidence-degraded-allowed''"
| "reason_name RcEvidenceDegradedRefused = ''evidence-degraded-refused''"
| "reason_name RcEvidenceNoSamples = ''evidence-no-samples''"
| "reason_name RcOnsetDepthCrossed = ''onset-depth-crossed''"
| "reason_name RcOnsetSlopeCrossed = ''onset-slope-crossed''"
| "reason_name RcOnsetSustainMet = ''onset-sustain-met''"
| "reason_name RcReleaseDepthCrossed = ''release-depth-crossed''"
| "reason_name RcReleaseSlopeCrossed = ''release-slope-crossed''"
| "reason_name RcReleaseSustainMet = ''release-sustain-met''"
| "reason_name RcDurationExceeded = ''duration-exceeded''"
| "reason_name RcDropEvidencePresent = ''drop-evidence-present''"
| "reason_name RcMarkEvidencePresent = ''mark-evidence-present''"
| "reason_name RcIngressEgressImbalance = ''ingress-egress-imbalance''"
| "reason_name RcOccupancyGradeCrossed = ''occupancy-grade-crossed''"
| "reason_name RcDepthGradeCrossed = ''depth-grade-crossed''"
| "reason_name RcSlopeGradeCrossed = ''slope-grade-crossed''"
| "reason_name RcDurationGradeCrossed = ''duration-grade-crossed''"
| "reason_name RcDropGradeCrossed = ''drop-grade-crossed''"
| "reason_name RcEpisodeOpened = ''episode-opened''"
| "reason_name RcEpisodeMerged = ''episode-merged''"
| "reason_name RcEpisodeClosed = ''episode-closed''"
| "reason_name RcEpisodeFenced = ''episode-fenced''"
| "reason_name RcCooldownActive = ''cooldown-active''"
| "reason_name RcCooldownExpired = ''cooldown-expired''"
| "reason_name RcDuplicateSuppressed = ''duplicate-suppressed''"
| "reason_name RcEpisodeTimedOut = ''episode-timed-out''"
| "reason_name RcEpisodeRecovering = ''episode-recovering''"
| "reason_name RcInterventionRequested = ''intervention-requested''"
| "reason_name RcInterventionMagnitudeClamped = ''intervention-magnitude-clamped''"
| "reason_name RcInterventionSuppressedByPolicy = ''intervention-suppressed-policy''"
| "reason_name RcInterventionSuppressedByCooldown = ''intervention-suppressed-cooldown''"
| "reason_name RcInterventionSuppressedByCapacity = ''intervention-suppressed-capacity''"
| "reason_name RcInterventionSuppressedBySeverity = ''intervention-suppressed-severity''"
| "reason_name RcInterventionSuppressedByAuthority = ''intervention-suppressed-authority''"
| "reason_name RcInterventionExpired = ''intervention-expired''"
| "reason_name RcInterventionRevokedStaleAuthority = ''intervention-revoked-stale-authority''"
| "reason_name RcInterventionRevokedPolicyChange = ''intervention-revoked-policy-change''"
| "reason_name RcInterventionRevokedEpochChange = ''intervention-revoked-epoch-change''"
| "reason_name RcInterventionRevokedFenced = ''intervention-revoked-fenced''"
| "reason_name RcInterventionRevokedResourceGeneration = ''intervention-revoked-resource-generation''"
| "reason_name RcAuthorityAuthoritative = ''authority-authoritative''"
| "reason_name RcAuthorityDegraded = ''authority-degraded''"
| "reason_name RcAuthorityUnknown = ''authority-unknown''"
| "reason_name RcAuthorityEpochAdvanced = ''authority-epoch-advanced''"
| "reason_name RcAuthorityIncarnationChanged = ''authority-incarnation-changed''"
| "reason_name RcAuthorityRestored = ''authority-restored''"
| "reason_name RcAuthorityFenced = ''authority-fenced''"
| "reason_name (RcRaw v) = ''unknown''"

section \<open>Explanations\<close>

record reason =
  rs_code :: reason_code
  rs_observed :: i64
  rs_threshold :: i64
  rs_tick :: tick

record explanation =
  ex_reasons :: "reason list"
  ex_truncated :: bool

definition explanation_empty :: explanation where
  "explanation_empty = \<lparr>ex_reasons = [], ex_truncated = False\<rparr>"

definition expl_add :: "reason_code \<Rightarrow> i64 \<Rightarrow> i64 \<Rightarrow> tick \<Rightarrow> explanation \<Rightarrow> explanation" where
  "expl_add code observed threshold t e =
     (if length (ex_reasons e) \<ge> kMaxReasons then e\<lparr>ex_truncated := True\<rparr>
      else e\<lparr>ex_reasons := ex_reasons e @
        [\<lparr>rs_code = code, rs_observed = observed, rs_threshold = threshold, rs_tick = t\<rparr>]\<rparr>)"

definition expl_clear :: "explanation \<Rightarrow> explanation" where
  "expl_clear e = e\<lparr>ex_reasons := [], ex_truncated := False\<rparr>"

definition expl_contains :: "reason_code \<Rightarrow> explanation \<Rightarrow> bool" where
  "expl_contains code e \<longleftrightarrow> list_ex (\<lambda>r. rs_code r = code) (ex_reasons e)"

definition expl_digest :: "explanation \<Rightarrow> u64" where
  "expl_digest e =
     (let h = hash_combine 0xC0FFEE123456789 (of_nat (length (ex_reasons e)));
          h = foldl (\<lambda>h r.
                let h = hash_combine h (ucast (reason_raw (rs_code r)));
                    h = hash_combine h (rs_observed r);
                    h = hash_combine h (rs_threshold r)
                in hash_combine h (rs_tick r)) h (ex_reasons e)
      in hash_combine h (if ex_truncated e then 1 else 0))"

definition render_reason :: "reason \<Rightarrow> string" where
  "render_reason r = reason_name (rs_code r) @ ''('' @ to_string_i64 (rs_observed r) @ ''/'' @
     to_string_i64 (rs_threshold r) @ ''@'' @ to_string_u (rs_tick r) @ '')''"

fun render_loop :: "nat \<Rightarrow> reason list \<Rightarrow> string \<Rightarrow> string" where
  "render_loop i [] out = out"
| "render_loop i (r # rs) out =
     (let out = out @ (if i \<noteq> 0 then '';'' else '''') @ render_reason r in
      if length out \<ge> kMaxRenderedExplanationBytes then take kMaxRenderedExplanationBytes out
      else render_loop (i + 1) rs out)"

definition expl_render :: "explanation \<Rightarrow> string" where
  "expl_render e =
     (let out = render_loop 0 (ex_reasons e) '''' in
      if ex_truncated e then
        let out = out @ '';+truncated'' in
        if length out > kMaxRenderedExplanationBytes then take kMaxRenderedExplanationBytes out else out
      else out)"

text \<open>The comparison of the counts, the truncation marks and the reasons in use.\<close>

definition expl_equal :: "explanation \<Rightarrow> explanation \<Rightarrow> bool" where
  "expl_equal a b \<longleftrightarrow>
     length (ex_reasons a) = length (ex_reasons b) \<and> ex_truncated a = ex_truncated b \<and>
     list_all2 (=) (ex_reasons a) (ex_reasons b)"

section \<open>Laws\<close>

text \<open>The capacity invariant: at most sixteen reasons, and a truncated explanation is full.\<close>

definition expl_ok :: "explanation \<Rightarrow> bool" where
  "expl_ok e \<longleftrightarrow> length (ex_reasons e) \<le> kMaxReasons \<and>
     (ex_truncated e \<longrightarrow> length (ex_reasons e) = kMaxReasons)"

lemma expl_ok_empty [simp, intro]: "expl_ok explanation_empty"
  by (simp add: expl_ok_def explanation_empty_def)

lemma expl_ok_clear [simp, intro]: "expl_ok (expl_clear e)"
  by (simp add: expl_ok_def expl_clear_def)

lemma expl_ok_add [simp, intro]: "expl_ok e \<Longrightarrow> expl_ok (expl_add c ob th t e)"
  by (auto simp: expl_ok_def expl_add_def)

lemma expl_contains_add:
  "length (ex_reasons e) < kMaxReasons \<Longrightarrow>
   expl_contains c (expl_add c' ob th t e) \<longleftrightarrow> c = c' \<or> expl_contains c e"
  by (auto simp: expl_contains_def expl_add_def)

lemma expl_contains_add_mono: "expl_contains c e \<Longrightarrow> expl_contains c (expl_add c' ob th t e)"
  by (auto simp: expl_contains_def expl_add_def)

lemma expl_equal_iff: "expl_equal a b \<longleftrightarrow> a = b"
  by (cases a; cases b) (auto simp: expl_equal_def list.rel_eq)

lemma length_render_loop:
  "length out \<le> kMaxRenderedExplanationBytes \<Longrightarrow>
   length (render_loop i rs out) \<le> kMaxRenderedExplanationBytes"
  by (induction i rs out rule: render_loop.induct) (auto simp: Let_def)

lemma length_expl_render: "length (expl_render e) \<le> kMaxRenderedExplanationBytes"
  using length_render_loop [of "''''" 0 "ex_reasons e"] by (simp add: expl_render_def Let_def)

lemma reason_raw_of_raw [simp]: "reason_raw (reason_of_raw v) = v"
  by (auto simp: reason_of_raw_def find_Some_iff split: option.splits)

definition reason_wf :: "reason_code \<Rightarrow> bool" where
  "reason_wf c \<longleftrightarrow> reason_of_raw (reason_raw c) = c"

lemma reason_wf_of_raw [simp]: "reason_wf (reason_of_raw v)"
  by (simp add: reason_wf_def)

end
