(* ===== verification/Severity.thy ===== *)
theory Severity
  imports Prelude
begin

text \<open>
  The severity vocabulary (\<open>include/mbg/model/severity.hpp\<close>, \<open>src/model/severity.cpp\<close>).
  \<open>SeverityClass\<close> is decoded from the wire without a range check, so an out-of-range byte is
  the value \<open>SevRaw\<close>; the ordering is the one of the underlying byte.
\<close>

datatype severity = SevNone | SevMinor | SevModerate | SevSevere | SevCritical | SevRaw u8

fun severity_raw :: "severity \<Rightarrow> u8" where
  "severity_raw SevNone = 0"
| "severity_raw SevMinor = 1"
| "severity_raw SevModerate = 2"
| "severity_raw SevSevere = 3"
| "severity_raw SevCritical = 4"
| "severity_raw (SevRaw b) = b"

definition severity_of_raw :: "u8 \<Rightarrow> severity" where
  "severity_of_raw b =
     (if b = 0 then SevNone else if b = 1 then SevMinor else if b = 2 then SevModerate
      else if b = 3 then SevSevere else if b = 4 then SevCritical else SevRaw b)"

definition severity_max :: "severity \<Rightarrow> severity \<Rightarrow> severity" where
  "severity_max a b = (if severity_raw a \<ge> severity_raw b then a else b)"

definition severity_min :: "severity \<Rightarrow> severity \<Rightarrow> severity" where
  "severity_min a b = (if severity_raw a \<le> severity_raw b then a else b)"

definition severity_at_least :: "severity \<Rightarrow> severity \<Rightarrow> bool" where
  "severity_at_least v fl \<longleftrightarrow> severity_raw v \<ge> severity_raw fl"

definition is_valid_severity :: "u8 \<Rightarrow> bool" where
  "is_valid_severity raw \<longleftrightarrow> raw \<le> severity_raw SevCritical"

datatype evidence_authority = EvAuthoritative | EvDegraded | EvUnknown

datatype classification =
    ClUnknown | ClQuiescent | ClCandidate | ClMicroburst | ClDegradedMicroburst | ClRecovering | ClFenced

definition is_positive :: "classification \<Rightarrow> bool" where
  "is_positive c \<longleftrightarrow> c = ClMicroburst \<or> c = ClDegradedMicroburst"

fun severity_to_string :: "severity \<Rightarrow> string" where
  "severity_to_string SevNone = ''none''"
| "severity_to_string SevMinor = ''minor''"
| "severity_to_string SevModerate = ''moderate''"
| "severity_to_string SevSevere = ''severe''"
| "severity_to_string SevCritical = ''critical''"
| "severity_to_string (SevRaw b) =
     (if b = 0 then ''none'' else if b = 1 then ''minor'' else if b = 2 then ''moderate''
      else if b = 3 then ''severe'' else if b = 4 then ''critical'' else ''unknown'')"

fun authority_to_string :: "evidence_authority \<Rightarrow> string" where
  "authority_to_string EvAuthoritative = ''authoritative''"
| "authority_to_string EvDegraded = ''degraded''"
| "authority_to_string EvUnknown = ''unknown''"

fun classification_to_string :: "classification \<Rightarrow> string" where
  "classification_to_string ClUnknown = ''UNKNOWN''"
| "classification_to_string ClQuiescent = ''QUIESCENT''"
| "classification_to_string ClCandidate = ''CANDIDATE''"
| "classification_to_string ClMicroburst = ''BURST_DETECTED''"
| "classification_to_string ClDegradedMicroburst = ''BURST_DETECTED_DEGRADED''"
| "classification_to_string ClRecovering = ''RECOVERING''"
| "classification_to_string ClFenced = ''FENCED''"

text \<open>A severity is canonical when it is the decoding of its own byte.\<close>

definition severity_wf :: "severity \<Rightarrow> bool" where
  "severity_wf s \<longleftrightarrow> severity_of_raw (severity_raw s) = s"

lemma severity_raw_of_raw [simp]: "severity_raw (severity_of_raw b) = b"
  by (simp add: severity_of_raw_def)

lemma severity_wf_of_raw [simp]: "severity_wf (severity_of_raw b)"
  by (simp add: severity_wf_def)

lemma severity_wf_named [simp]:
  "severity_wf SevNone" "severity_wf SevMinor" "severity_wf SevModerate"
  "severity_wf SevSevere" "severity_wf SevCritical"
  by (simp_all add: severity_wf_def severity_of_raw_def)

lemma severity_of_raw_raw: "severity_wf s \<Longrightarrow> severity_of_raw (severity_raw s) = s"
  by (simp add: severity_wf_def)

lemma severity_min_wf [simp]: "severity_wf a \<Longrightarrow> severity_wf b \<Longrightarrow> severity_wf (severity_min a b)"
  by (simp add: severity_min_def)

lemma severity_max_wf [simp]: "severity_wf a \<Longrightarrow> severity_wf b \<Longrightarrow> severity_wf (severity_max a b)"
  by (simp add: severity_max_def)

lemma severity_raw_min: "severity_raw (severity_min a b) = min (severity_raw a) (severity_raw b)"
  by (auto simp: severity_min_def min_def)

lemma severity_raw_max: "severity_raw (severity_max a b) = max (severity_raw a) (severity_raw b)"
  by (auto simp: severity_max_def max_def)

lemma is_positive_simps [simp]:
  "is_positive ClMicroburst" "is_positive ClDegradedMicroburst" "\<not> is_positive ClUnknown"
  "\<not> is_positive ClQuiescent" "\<not> is_positive ClCandidate" "\<not> is_positive ClRecovering"
  "\<not> is_positive ClFenced"
  by (simp_all add: is_positive_def)

end
