(* ===== verification/Interventions.thy ===== *)
theory Interventions
  imports Bytes Samples Severity Explanation
begin

text \<open>
  Bounded intervention intents (\<open>include/mbg/model/intervention.hpp\<close>,
  \<open>src/model/intervention.cpp\<close>): the authority vector an intent is bound to, the evaluation of
  its authority against the current context, and the record codec. An out-of-range verdict or
  trigger byte is accepted by the decoder and kept as \<open>AvRaw\<close> or \<open>RcRaw\<close>.
\<close>

section \<open>Data\<close>

datatype intervention_kind = IkRequestPacing | IkTemporaryAdmissionReduction | IkTemporaryHeadroomIncrease | IkEscalateToCongestionFabric

primrec kind_raw :: "intervention_kind \<Rightarrow> u8" where
  "kind_raw IkRequestPacing = 0"
| "kind_raw IkTemporaryAdmissionReduction = 1"
| "kind_raw IkTemporaryHeadroomIncrease = 2"
| "kind_raw IkEscalateToCongestionFabric = 3"

definition kind_of_raw :: "u8 \<Rightarrow> intervention_kind" where
  "kind_of_raw b =
     (if b = 0 then IkRequestPacing
      else if b = 1 then IkTemporaryAdmissionReduction
      else if b = 2 then IkTemporaryHeadroomIncrease
      else IkEscalateToCongestionFabric)"

primrec kind_to_string :: "intervention_kind \<Rightarrow> string" where
  "kind_to_string IkRequestPacing = ''request-pacing''"
| "kind_to_string IkTemporaryAdmissionReduction = ''temporary-admission-reduction''"
| "kind_to_string IkTemporaryHeadroomIncrease = ''temporary-headroom-increase''"
| "kind_to_string IkEscalateToCongestionFabric = ''escalate-to-congestion-fabric''"

definition kInterventionKindCount :: nat where "kInterventionKindCount = 4"

definition is_valid_intervention_kind :: "u8 \<Rightarrow> bool" where
  "is_valid_intervention_kind raw \<longleftrightarrow> raw < of_nat kInterventionKindCount"

datatype intervention_state = IsRequested | IsActive | IsExpired | IsRevoked | IsFenced

primrec istate_raw :: "intervention_state \<Rightarrow> u8" where
  "istate_raw IsRequested = 0"
| "istate_raw IsActive = 1"
| "istate_raw IsExpired = 2"
| "istate_raw IsRevoked = 3"
| "istate_raw IsFenced = 4"

definition istate_of_raw :: "u8 \<Rightarrow> intervention_state" where
  "istate_of_raw b =
     (if b = 0 then IsRequested
      else if b = 1 then IsActive
      else if b = 2 then IsExpired
      else if b = 3 then IsRevoked
      else IsFenced)"

primrec state_to_string :: "intervention_state \<Rightarrow> string" where
  "state_to_string IsRequested = ''requested''"
| "state_to_string IsActive = ''active''"
| "state_to_string IsExpired = ''expired''"
| "state_to_string IsRevoked = ''revoked''"
| "state_to_string IsFenced = ''fenced''"

datatype authority_verdict = AvValid | AvExpired | AvPolicyChanged | AvEpochChanged | AvIncarnationChanged | AvBootChanged | AvResourceGenerationChanged | AvNotIssued | AvEventClosed | AvInterventionsDisabled | AvEpisodeFenced | AvDurabilityLost | AvRaw u8

primrec verdict_raw :: "authority_verdict \<Rightarrow> u8" where
  "verdict_raw AvValid = 0"
| "verdict_raw AvExpired = 1"
| "verdict_raw AvPolicyChanged = 2"
| "verdict_raw AvEpochChanged = 3"
| "verdict_raw AvIncarnationChanged = 4"
| "verdict_raw AvBootChanged = 5"
| "verdict_raw AvResourceGenerationChanged = 6"
| "verdict_raw AvNotIssued = 7"
| "verdict_raw AvEventClosed = 8"
| "verdict_raw AvInterventionsDisabled = 9"
| "verdict_raw AvEpisodeFenced = 10"
| "verdict_raw AvDurabilityLost = 11"
| "verdict_raw (AvRaw b) = b"

definition verdict_of_raw :: "u8 \<Rightarrow> authority_verdict" where
  "verdict_of_raw b =
     (if b = 0 then AvValid
      else if b = 1 then AvExpired
      else if b = 2 then AvPolicyChanged
      else if b = 3 then AvEpochChanged
      else if b = 4 then AvIncarnationChanged
      else if b = 5 then AvBootChanged
      else if b = 6 then AvResourceGenerationChanged
      else if b = 7 then AvNotIssued
      else if b = 8 then AvEventClosed
      else if b = 9 then AvInterventionsDisabled
      else if b = 10 then AvEpisodeFenced
      else if b = 11 then AvDurabilityLost
      else AvRaw b)"

primrec verdict_to_string :: "authority_verdict \<Rightarrow> string" where
  "verdict_to_string AvValid = ''valid''"
| "verdict_to_string AvExpired = ''expired''"
| "verdict_to_string AvPolicyChanged = ''policy-changed''"
| "verdict_to_string AvEpochChanged = ''epoch-changed''"
| "verdict_to_string AvIncarnationChanged = ''incarnation-changed''"
| "verdict_to_string AvBootChanged = ''boot-changed''"
| "verdict_to_string AvResourceGenerationChanged = ''resource-generation-changed''"
| "verdict_to_string AvNotIssued = ''not-issued''"
| "verdict_to_string AvEventClosed = ''event-closed''"
| "verdict_to_string AvInterventionsDisabled = ''interventions-disabled''"
| "verdict_to_string AvEpisodeFenced = ''episode-fenced''"
| "verdict_to_string AvDurabilityLost = ''durability-lost''"
| "verdict_to_string (AvRaw b) = ''unknown''"

record authority_vector =
  au_policy_generation :: u32
  au_policy_digest :: u64
  au_evidence_generation :: u64
  au_resource_generation :: u32
  au_epoch :: u32
  au_incarnation :: u64
  au_boot :: u64
  au_issued_tick :: tick
  au_expiry_tick :: tick

record authority_context =
  ax_policy_generation :: u32
  ax_policy_digest :: u64
  ax_epoch :: u32
  ax_incarnation :: u64
  ax_boot :: u64

definition authority_vector_default :: authority_vector where
  "authority_vector_default = \<lparr>au_policy_generation = id_invalid, au_policy_digest = 0,
     au_evidence_generation = id_invalid, au_resource_generation = id_invalid, au_epoch = id_invalid,
     au_incarnation = id_invalid, au_boot = id_invalid, au_issued_tick = 0, au_expiry_tick = 0\<rparr>"

definition authority_context_default :: authority_context where
  "authority_context_default = \<lparr>ax_policy_generation = id_invalid, ax_policy_digest = 0,
     ax_epoch = id_invalid, ax_incarnation = id_invalid, ax_boot = id_invalid\<rparr>"

definition evaluate_authority ::
  "authority_vector \<Rightarrow> authority_context \<Rightarrow> u32 \<Rightarrow> tick \<Rightarrow> authority_verdict" where
  "evaluate_authority v c observed_generation now =
     (if au_policy_generation v = 0 then AvNotIssued
      else if tick_after now (au_issued_tick v) then AvNotIssued
      else if id_valid (au_boot v) \<and> id_valid (ax_boot c) \<and> au_boot v \<noteq> ax_boot c then AvBootChanged
      else if id_valid (au_incarnation v) \<and> id_valid (ax_incarnation c) \<and>
              au_incarnation v \<noteq> ax_incarnation c then AvIncarnationChanged
      else if id_valid (au_epoch v) \<and> id_valid (ax_epoch c) \<and> au_epoch v \<noteq> ax_epoch c then AvEpochChanged
      else if au_policy_generation v \<noteq> ax_policy_generation c \<or>
              au_policy_digest v \<noteq> ax_policy_digest c then AvPolicyChanged
      else if id_valid observed_generation \<and> id_valid (au_resource_generation v) \<and>
              observed_generation \<noteq> au_resource_generation v then AvResourceGenerationChanged
      else if \<not> tick_after now (au_expiry_tick v) then AvExpired
      else AvValid)"

record intervention_intent =
  ii_id :: u64
  ii_event :: u64
  ii_stream :: stream_key
  ii_kind :: intervention_kind
  ii_state :: intervention_state
  ii_magnitude_permille :: u32
  ii_ttl_ticks :: tick
  ii_authority :: authority_vector
  ii_seq :: u64
  ii_justification_severity :: severity
  ii_trigger :: reason_code
  ii_state_changed_tick :: tick
  ii_revocation_verdict :: authority_verdict

definition intent_default :: intervention_intent where
  "intent_default = \<lparr>ii_id = id_invalid, ii_event = id_invalid, ii_stream = stream_key_default,
     ii_kind = IkRequestPacing, ii_state = IsRequested, ii_magnitude_permille = 0, ii_ttl_ticks = 0,
     ii_authority = authority_vector_default, ii_seq = id_invalid,
     ii_justification_severity = SevNone, ii_trigger = RcNone, ii_state_changed_tick = 0,
     ii_revocation_verdict = AvValid\<rparr>"

definition intent_live :: "intervention_intent \<Rightarrow> bool" where
  "intent_live i \<longleftrightarrow> ii_state i = IsRequested \<or> ii_state i = IsActive"

section \<open>Codec\<close>

definition put_path :: "u64 \<Rightarrow> byte list" where
  "put_path p = put_u64 (if id_valid p then p else id_invalid)"

definition encode_intent :: "intervention_intent \<Rightarrow> byte list" where
  "encode_intent i =
     put_u64 (ii_id i) @ put_u64 (ii_event i) @ put_u64 (sk_resource (ii_stream i)) @
     put_u64 (sk_queue (ii_stream i)) @ put_path (sk_path (ii_stream i)) @
     put_u8 (kind_raw (ii_kind i)) @ put_u8 (istate_raw (ii_state i)) @
     put_u32 (ii_magnitude_permille i) @ put_u64 (ii_ttl_ticks i) @
     put_u32 (au_policy_generation (ii_authority i)) @ put_u64 (au_policy_digest (ii_authority i)) @
     put_u64 (au_evidence_generation (ii_authority i)) @
     put_u32 (au_resource_generation (ii_authority i)) @ put_u32 (au_epoch (ii_authority i)) @
     put_u64 (au_incarnation (ii_authority i)) @ put_u64 (au_boot (ii_authority i)) @
     put_u64 (au_issued_tick (ii_authority i)) @ put_u64 (au_expiry_tick (ii_authority i)) @
     put_u64 (ii_seq i) @ put_u8 (severity_raw (ii_justification_severity i)) @
     put_u16 (reason_raw (ii_trigger i)) @ put_u64 (ii_state_changed_tick i) @
     put_u8 (verdict_raw (ii_revocation_verdict i))"

definition decode_intent :: "reader \<Rightarrow> (intervention_intent \<times> reader) result" where
  "decode_intent r =
     (let (i, r) = get_u64 r; (ev, r) = get_u64 r; (resource, r) = get_u64 r;
          (queue, r) = get_u64 r; (path, r) = get_u64 r;
          (kind, r) = get_u8 r; (state, r) = get_u8 r;
          (magnitude, r) = get_u32 r; (ttl, r) = get_u64 r;
          (policy_generation, r) = get_u32 r; (policy_digest, r) = get_u64 r;
          (evidence_generation, r) = get_u64 r; (resource_generation, r) = get_u32 r;
          (epoch, r) = get_u32 r; (incarnation, r) = get_u64 r; (boot, r) = get_u64 r;
          (issued, r) = get_u64 r; (expiry, r) = get_u64 r; (seq, r) = get_u64 r;
          (sev, r) = get_u8 r; (trigger, r) = get_u16 r; (changed, r) = get_u64 r;
          (verdict, r) = get_u8 r
      in if \<not> rd_ok r then Inl (failure StTruncated ''intervention payload is truncated'')
         else if \<not> is_valid_intervention_kind kind then
           Inl (failure StCorrupt ''intervention kind is out of range'')
         else if state > istate_raw IsFenced then
           Inl (failure StCorrupt ''intervention state is out of range'')
         else if magnitude > kMaxMagnitudePermille then
           Inl (failure StCorrupt ''intervention magnitude is out of range'')
         else if \<not> is_valid_severity sev then
           Inl (failure StCorrupt ''intervention severity is out of range'')
         else if \<not> stream_key_valid (StreamKey resource queue path) then
           Inl (failure StCorrupt ''intervention stream identity is incomplete'')
         else Inr (\<lparr>ii_id = i, ii_event = ev, ii_stream = StreamKey resource queue path,
             ii_kind = kind_of_raw kind, ii_state = istate_of_raw state,
             ii_magnitude_permille = magnitude, ii_ttl_ticks = ttl,
             ii_authority = \<lparr>au_policy_generation = policy_generation, au_policy_digest = policy_digest,
               au_evidence_generation = evidence_generation,
               au_resource_generation = resource_generation, au_epoch = epoch,
               au_incarnation = incarnation, au_boot = boot, au_issued_tick = issued,
               au_expiry_tick = expiry\<rparr>,
             ii_seq = seq, ii_justification_severity = severity_of_raw sev,
             ii_trigger = reason_of_raw trigger, ii_state_changed_tick = changed,
             ii_revocation_verdict = verdict_of_raw verdict\<rparr>, r))"

definition render_intervention_line :: "intervention_intent \<Rightarrow> string" where
  "render_intervention_line i =
     ''intervention='' @ to_string_u (ii_id i) @ '' event='' @ to_string_u (ii_event i) @
     '' kind='' @ kind_to_string (ii_kind i) @ '' state='' @ state_to_string (ii_state i) @
     '' magnitude_permille='' @ to_string_u (ii_magnitude_permille i) @
     '' ttl='' @ to_string_u (ii_ttl_ticks i) @
     '' policy_gen='' @ to_string_u (au_policy_generation (ii_authority i)) @
     '' epoch='' @ to_string_u (au_epoch (ii_authority i)) @
     '' verdict='' @ verdict_to_string (ii_revocation_verdict i)"

section \<open>Laws\<close>

lemma kind_of_raw_raw [simp]: "kind_of_raw (kind_raw k) = k"
  by (cases k) (simp_all add: kind_of_raw_def)

lemma istate_of_raw_raw [simp]: "istate_of_raw (istate_raw s) = s"
  by (cases s) (simp_all add: istate_of_raw_def)

lemma kind_raw_valid [simp]: "is_valid_intervention_kind (kind_raw k)"
  by (cases k) (simp_all add: is_valid_intervention_kind_def kInterventionKindCount_def)

lemma istate_raw_le [simp]: "istate_raw s \<le> 4"
  by (cases s) simp_all

lemma verdict_raw_of_raw [simp]: "verdict_raw (verdict_of_raw b) = b"
  by (simp add: verdict_of_raw_def)

definition verdict_wf :: "authority_verdict \<Rightarrow> bool" where
  "verdict_wf v \<longleftrightarrow> verdict_of_raw (verdict_raw v) = v"

lemma put_path_eq [simp]: "put_path p = put_u64 p"
  by (auto simp: put_path_def id_valid_def)

text \<open>The intents the decoder accepts, in terms of their fields.\<close>

definition intent_wf :: "intervention_intent \<Rightarrow> bool" where
  "intent_wf i \<longleftrightarrow> ii_magnitude_permille i \<le> kMaxMagnitudePermille \<and>
     is_valid_severity (severity_raw (ii_justification_severity i)) \<and>
     severity_wf (ii_justification_severity i) \<and> stream_key_valid (ii_stream i) \<and>
     reason_wf (ii_trigger i) \<and> verdict_wf (ii_revocation_verdict i)"

interpretation intent_codec: decoder encode_intent decode_intent intent_wf
proof unfold_locales
  fix i pre rest
  assume "intent_wf i"
  then show "decode_intent (rd_at pre (encode_intent i @ rest)) = Inr (i, rd_at (pre @ encode_intent i) rest)"
    unfolding intent_wf_def decode_intent_def encode_intent_def append_assoc put_path_eq
    by (simp add: codec severity_of_raw_raw reason_wf_def verdict_wf_def not_less)
qed

lemma intent_wf_decode:
  assumes "decode_intent r = Inr (i, r')"
  shows "intent_wf i"
  using assms unfolding decode_intent_def
  by (auto simp: intent_wf_def verdict_wf_def Let_def case_prod_beta not_less split: if_splits)

lemma evaluate_authority_valid_iff:
  "evaluate_authority v c g now = AvValid \<longleftrightarrow>
     au_policy_generation v \<noteq> 0 \<and> \<not> tick_after now (au_issued_tick v) \<and>
     (id_valid (au_boot v) \<longrightarrow> id_valid (ax_boot c) \<longrightarrow> au_boot v = ax_boot c) \<and>
     (id_valid (au_incarnation v) \<longrightarrow> id_valid (ax_incarnation c) \<longrightarrow> au_incarnation v = ax_incarnation c) \<and>
     (id_valid (au_epoch v) \<longrightarrow> id_valid (ax_epoch c) \<longrightarrow> au_epoch v = ax_epoch c) \<and>
     au_policy_generation v = ax_policy_generation c \<and> au_policy_digest v = ax_policy_digest c \<and>
     (id_valid g \<longrightarrow> id_valid (au_resource_generation v) \<longrightarrow> g = au_resource_generation v) \<and>
     tick_after now (au_expiry_tick v)"
  by (auto simp: evaluate_authority_def)

end
