(* ===== verification/Frames.thy ===== *)
theory Frames
  imports Bytes Samples Crc32c Explanation Interventions
begin

text \<open>
  The wire protocol (\<open>include/mbg/transport/frame.hpp\<close>, \<open>src/transport/frame.cpp\<close>): the framed
  envelope with its two checksums, the six message payloads and the sample codec. A message decoder
  reads a whole payload and refuses trailing bytes, which is the contract \<open>message\<close>.
\<close>

section \<open>Vocabulary\<close>

datatype message_type = MtHello | MtHelloAck | MtHeartbeat | MtEvidence | MtEvidenceAck | MtFence | MtGoodbye | MtError

primrec message_type_raw :: "message_type \<Rightarrow> u16" where
  "message_type_raw MtHello = 1"
| "message_type_raw MtHelloAck = 2"
| "message_type_raw MtHeartbeat = 3"
| "message_type_raw MtEvidence = 4"
| "message_type_raw MtEvidenceAck = 5"
| "message_type_raw MtFence = 6"
| "message_type_raw MtGoodbye = 7"
| "message_type_raw MtError = 8"

definition message_type_of_raw :: "u16 \<Rightarrow> message_type" where
  "message_type_of_raw v =
     (if v = 1 then MtHello else if v = 2 then MtHelloAck else if v = 3 then MtHeartbeat
      else if v = 4 then MtEvidence else if v = 5 then MtEvidenceAck else if v = 6 then MtFence
      else if v = 7 then MtGoodbye else MtError)"

primrec message_type_to_string :: "message_type \<Rightarrow> string" where
  "message_type_to_string MtHello = ''hello''"
| "message_type_to_string MtHelloAck = ''hello-ack''"
| "message_type_to_string MtHeartbeat = ''heartbeat''"
| "message_type_to_string MtEvidence = ''evidence''"
| "message_type_to_string MtEvidenceAck = ''evidence-ack''"
| "message_type_to_string MtFence = ''fence''"
| "message_type_to_string MtGoodbye = ''goodbye''"
| "message_type_to_string MtError = ''error''"

definition is_valid_message_type :: "u16 \<Rightarrow> bool" where
  "is_valid_message_type raw \<longleftrightarrow> raw \<ge> message_type_raw MtHello \<and> raw \<le> message_type_raw MtError"

datatype handshake_status = HsAccepted | HsStaleEpoch | HsStaleIncarnation | HsVersionMismatch | HsCapacityExceeded | HsMalformed | HsFenced | HsStaleBoot

primrec handshake_raw :: "handshake_status \<Rightarrow> u8" where
  "handshake_raw HsAccepted = 0"
| "handshake_raw HsStaleEpoch = 1"
| "handshake_raw HsStaleIncarnation = 2"
| "handshake_raw HsVersionMismatch = 3"
| "handshake_raw HsCapacityExceeded = 4"
| "handshake_raw HsMalformed = 5"
| "handshake_raw HsFenced = 6"
| "handshake_raw HsStaleBoot = 7"

definition handshake_of_raw :: "u8 \<Rightarrow> handshake_status" where
  "handshake_of_raw b =
     (if b = 0 then HsAccepted
      else if b = 1 then HsStaleEpoch
      else if b = 2 then HsStaleIncarnation
      else if b = 3 then HsVersionMismatch
      else if b = 4 then HsCapacityExceeded
      else if b = 5 then HsMalformed
      else if b = 6 then HsFenced
      else HsStaleBoot)"

primrec handshake_to_string :: "handshake_status \<Rightarrow> string" where
  "handshake_to_string HsAccepted = ''accepted''"
| "handshake_to_string HsStaleEpoch = ''stale-epoch''"
| "handshake_to_string HsStaleIncarnation = ''stale-incarnation''"
| "handshake_to_string HsVersionMismatch = ''version-mismatch''"
| "handshake_to_string HsCapacityExceeded = ''capacity-exceeded''"
| "handshake_to_string HsMalformed = ''malformed''"
| "handshake_to_string HsFenced = ''fenced''"
| "handshake_to_string HsStaleBoot = ''stale-boot''"

section \<open>The envelope\<close>

definition kFrameHeaderBytes :: nat where "kFrameHeaderBytes = 32"
definition kFrameMagic :: u32 where "kFrameMagic = 0x4D424746"
definition kHeaderCrcCoverage :: nat where "kHeaderCrcCoverage = kFrameHeaderBytes - 8"

record frame_header =
  fh_version :: u16
  fh_type :: message_type
  fh_flags :: u32
  fh_seq :: u64
  fh_payload_length :: u32

record frame =
  fr_header :: frame_header
  fr_payload :: "byte list"

definition header_prefix :: "frame_header \<Rightarrow> byte list" where
  "header_prefix h = put_u32 kFrameMagic @ put_u16 (fh_version h) @ put_u16 (message_type_raw (fh_type h)) @
     put_u32 (fh_flags h) @ put_u64 (fh_seq h) @ put_u32 (fh_payload_length h)"

definition build_header :: "frame_header \<Rightarrow> u32 \<Rightarrow> byte list" where
  "build_header h payload_crc =
     header_prefix h @ put_u32 (crc_compute (header_prefix h)) @ put_u32 payload_crc"

definition encode_frame :: "frame \<Rightarrow> byte list result" where
  "encode_frame f =
     (if length (fr_payload f) > kMaxFramePayloadBytes then
        Inl (failure StOversized ''frame payload exceeds the protocol bound'')
      else if \<not> is_valid_message_type (message_type_raw (fh_type (fr_header f))) then
        Inl (failure StInvalidArgument ''frame message type is not defined'')
      else if fh_version (fr_header f) \<noteq> kWireProtocolVersion then
        Inl (failure StUnsupported ''frame protocol version is not supported'')
      else
        let h = (fr_header f)\<lparr>fh_payload_length := of_nat (length (fr_payload f))\<rparr>
        in Inr (build_header h (crc_compute (fr_payload f)) @ fr_payload f))"

definition decode_header :: "byte list \<Rightarrow> frame_header result" where
  "decode_header bs =
     (if length bs \<noteq> kFrameHeaderBytes then
        Inl (failure StTruncated ''frame header is not a full header'')
      else let (magic, r) = get_u32 (reader_of bs)
      in if magic \<noteq> kFrameMagic then Inl (failure StCorrupt ''frame magic mismatch'')
      else let (version, r) = get_u16 r
      in if version \<noteq> kWireProtocolVersion then
        Inl (failure StUnsupported ''frame protocol version is not supported'')
      else let (raw_type, r) = get_u16 r
      in if \<not> is_valid_message_type raw_type then
        Inl (failure StCorrupt ''frame message type is not defined'')
      else let (flags, r) = get_u32 r; (seq, r) = get_u64 r; (payload_length, r) = get_u32 r;
               (header_crc, r) = get_u32 r; (payload_crc, r) = get_u32 r
      in if \<not> rd_ok r then Inl (failure StTruncated ''frame header is truncated'')
      else if crc_compute (take kHeaderCrcCoverage bs) \<noteq> header_crc then
        Inl (failure StCorrupt ''frame header checksum mismatch'')
      else if unat payload_length > kMaxFramePayloadBytes then
        Inl (failure StOversized ''frame payload length exceeds the bound'')
      else Inr \<lparr>fh_version = version, fh_type = message_type_of_raw raw_type, fh_flags = flags,
             fh_seq = seq, fh_payload_length = payload_length\<rparr>)"

definition decode_frame :: "byte list \<Rightarrow> frame result" where
  "decode_frame bs =
     (if length bs < kFrameHeaderBytes then
        Inl (failure StTruncated ''frame is shorter than its header'')
      else case decode_header (take kFrameHeaderBytes bs) of
        Inl e \<Rightarrow> Inl e
      | Inr h \<Rightarrow>
          let expected = kFrameHeaderBytes + unat (fh_payload_length h)
          in if length bs < expected then Inl (failure StTruncated ''frame payload is incomplete'')
          else if length bs > expected then Inl (failure StCorrupt ''frame carries trailing bytes'')
          else let (payload_crc, r) = get_u32 (reader_of (take 4 (drop (kFrameHeaderBytes - 4) bs)));
                   payload = take (unat (fh_payload_length h)) (drop kFrameHeaderBytes bs)
               in if crc_compute payload \<noteq> payload_crc then
                 Inl (failure StCorrupt ''frame payload checksum mismatch'')
               else Inr \<lparr>fr_header = h, fr_payload = payload\<rparr>)"

definition render_frame :: "frame \<Rightarrow> string" where
  "render_frame f = ''frame type='' @ message_type_to_string (fh_type (fr_header f)) @
     '' seq='' @ to_string_u (fh_seq (fr_header f)) @ '' bytes='' @ decimal (length (fr_payload f))"

section \<open>Messages\<close>

record hello_request =
  hq_protocol :: u16
  hq_worker :: u64
  hq_incarnation :: u64
  hq_boot :: u64
  hq_epoch :: u32
  hq_first_tick :: tick

record hello_response =
  hr_status :: handshake_status
  hr_epoch :: u32
  hr_coordinator :: u64
  hr_boot :: u64
  hr_max_payload_bytes :: u32

record heartbeat =
  hb_worker :: u64
  hb_tick :: tick
  hb_epoch :: u32
  hb_frames_sent :: u64

record evidence_batch =
  eb_worker :: u64
  eb_epoch :: u32
  eb_sample_count :: u32
  eb_samples :: "sample list"

record evidence_ack =
  ea_seq :: u64
  ea_accepted :: u32
  ea_rejected :: u32
  ea_classification :: u8
  ea_epoch :: u32

record fence_notice =
  fn_epoch :: u32
  fn_coordinator :: u64
  fn_attempt :: u64

definition encode_hello :: "hello_request \<Rightarrow> byte list" where
  "encode_hello m = put_u16 (hq_protocol m) @ put_u64 (hq_worker m) @ put_u64 (hq_incarnation m) @ put_u64 (hq_boot m) @ put_u32 (hq_epoch m) @ put_u64 (hq_first_tick m)"

definition decode_hello :: "reader \<Rightarrow> hello_request result" where
  "decode_hello r =
     (let (protocol, r) = get_u16 r; (worker, r) = get_u64 r; (incarnation, r) = get_u64 r; (boot, r) = get_u64 r; (epoch, r) = get_u32 r; (first_tick, r) = get_u64 r
      in if \<not> rd_ok r then Inl (failure StTruncated ''hello payload is truncated'')
         else if \<not> rd_at_end r then Inl (failure StCorrupt ''hello payload carries trailing bytes'')
         else if \<not> id_valid worker then Inl (failure StInvalidArgument ''hello carries no worker identity'')
         else Inr \<lparr>hq_protocol = protocol, hq_worker = worker, hq_incarnation = incarnation, hq_boot = boot, hq_epoch = epoch, hq_first_tick = first_tick\<rparr>)"

definition encode_hello_response :: "hello_response \<Rightarrow> byte list" where
  "encode_hello_response m = put_u8 (handshake_raw (hr_status m)) @ put_u32 (hr_epoch m) @
     put_u64 (hr_coordinator m) @ put_u64 (hr_boot m) @ put_u32 (hr_max_payload_bytes m)"

definition decode_hello_response :: "reader \<Rightarrow> hello_response result" where
  "decode_hello_response r =
     (let (status, r) = get_u8 r; (epoch, r) = get_u32 r; (coordinator, r) = get_u64 r;
          (boot, r) = get_u64 r; (max_payload, r) = get_u32 r
      in if \<not> rd_ok r then Inl (failure StTruncated ''hello response payload is truncated'')
         else if \<not> rd_at_end r then
           Inl (failure StCorrupt ''hello response payload carries trailing bytes'')
         else if status > handshake_raw HsStaleBoot then
           Inl (failure StCorrupt ''handshake status is out of range'')
         else Inr \<lparr>hr_status = handshake_of_raw status, hr_epoch = epoch,
           hr_coordinator = coordinator, hr_boot = boot, hr_max_payload_bytes = max_payload\<rparr>)"

definition encode_heartbeat :: "heartbeat \<Rightarrow> byte list" where
  "encode_heartbeat m = put_u64 (hb_worker m) @ put_u64 (hb_tick m) @ put_u32 (hb_epoch m) @ put_u64 (hb_frames_sent m)"

definition decode_heartbeat :: "reader \<Rightarrow> heartbeat result" where
  "decode_heartbeat r =
     (let (worker, r) = get_u64 r; (tick, r) = get_u64 r; (epoch, r) = get_u32 r; (frames_sent, r) = get_u64 r
      in if \<not> rd_ok r then Inl (failure StTruncated ''heartbeat payload is truncated'')
         else if \<not> rd_at_end r then Inl (failure StCorrupt ''heartbeat payload carries trailing bytes'')
         else Inr \<lparr>hb_worker = worker, hb_tick = tick, hb_epoch = epoch, hb_frames_sent = frames_sent\<rparr>)"

definition encode_evidence_ack :: "evidence_ack \<Rightarrow> byte list" where
  "encode_evidence_ack m = put_u64 (ea_seq m) @ put_u32 (ea_accepted m) @ put_u32 (ea_rejected m) @ put_u8 (ea_classification m) @ put_u32 (ea_epoch m)"

definition decode_evidence_ack :: "reader \<Rightarrow> evidence_ack result" where
  "decode_evidence_ack r =
     (let (seq, r) = get_u64 r; (accepted, r) = get_u32 r; (rejected, r) = get_u32 r; (classification, r) = get_u8 r; (epoch, r) = get_u32 r
      in if \<not> rd_ok r then Inl (failure StTruncated ''evidence ack payload is truncated'')
         else if \<not> rd_at_end r then Inl (failure StCorrupt ''evidence ack payload carries trailing bytes'')
         else Inr \<lparr>ea_seq = seq, ea_accepted = accepted, ea_rejected = rejected, ea_classification = classification, ea_epoch = epoch\<rparr>)"

definition encode_fence_notice :: "fence_notice \<Rightarrow> byte list" where
  "encode_fence_notice m = put_u32 (fn_epoch m) @ put_u64 (fn_coordinator m) @ put_u64 (fn_attempt m)"

definition decode_fence_notice :: "reader \<Rightarrow> fence_notice result" where
  "decode_fence_notice r =
     (let (epoch, r) = get_u32 r; (coordinator, r) = get_u64 r; (attempt, r) = get_u64 r
      in if \<not> rd_ok r then Inl (failure StTruncated ''fence payload is truncated'')
         else if \<not> rd_at_end r then Inl (failure StCorrupt ''fence payload carries trailing bytes'')
         else Inr \<lparr>fn_epoch = epoch, fn_coordinator = coordinator, fn_attempt = attempt\<rparr>)"

section \<open>Samples and batches\<close>

definition kKnownFlags :: u32 where "kKnownFlags = 0x1F"

definition encode_sample :: "sample \<Rightarrow> byte list" where
  "encode_sample s =
     put_u64 (sk_resource (sm_stream s)) @ put_u64 (sk_queue (sm_stream s)) @
     put_path (sk_path (sm_stream s)) @ put_u64 (sm_tick s) @ put_u64 (sm_seq s) @
     put_u32 (sm_resource_generation s) @ put_u64 (sm_depth s) @ put_u64 (sm_occupancy_bytes s) @
     put_u64 (sm_capacity_bytes s) @ put_i64 (sm_ingress_rate_q16 s) @ put_i64 (sm_egress_rate_q16 s) @
     put_u64 (sm_ingress_total s) @ put_u64 (sm_egress_total s) @ put_u64 (sm_drop_total s) @
     put_u64 (sm_mark_total s) @ put_u32 (sm_flags s) @ put_path (sm_provenance s) @
     put_u8 (sm_affected_class_count s) @
     concat (map put_u64 (take (unat (sm_affected_class_count s)) (sm_affected_classes s)))"

definition decode_sample :: "reader \<Rightarrow> (sample \<times> reader) result" where
  "decode_sample r =
     (let (resource, r) = get_u64 r; (queue, r) = get_u64 r; (path, r) = get_u64 r;
          (t, r) = get_u64 r; (seq, r) = get_u64 r; (generation, r) = get_u32 r;
          (depth, r) = get_u64 r; (occupancy, r) = get_u64 r; (capacity, r) = get_u64 r;
          (ingress_rate, r) = get_i64 r; (egress_rate, r) = get_i64 r;
          (ingress, r) = get_u64 r; (egress, r) = get_u64 r; (drops, r) = get_u64 r;
          (marks, r) = get_u64 r; (flags, r) = get_u32 r; (provenance, r) = get_u64 r;
          (count, r) = get_u8 r
      in if \<not> rd_ok r then Inl (failure StTruncated ''sample payload is truncated'')
         else if unat count > kAffectedClasses then
           Inl (failure StCorrupt ''sample class count exceeds the fixed capacity'')
         else if flags AND NOT kKnownFlags \<noteq> 0 then
           Inl (failure StCorrupt ''sample carries undefined flag bits'')
         else let (classes, r) = get_many get_u64 (unat count) r
         in if \<not> rd_ok r then Inl (failure StTruncated ''sample class list is truncated'')
         else let s = \<lparr>sm_stream = StreamKey resource queue path, sm_tick = t, sm_seq = seq,
             sm_resource_generation = generation, sm_depth = depth, sm_occupancy_bytes = occupancy,
             sm_capacity_bytes = capacity, sm_ingress_rate_q16 = ingress_rate,
             sm_egress_rate_q16 = egress_rate, sm_ingress_total = ingress, sm_egress_total = egress,
             sm_drop_total = drops, sm_mark_total = marks, sm_flags = flags,
             sm_provenance = provenance,
             sm_affected_classes = classes @ drop (unat count) (replicate kAffectedClasses id_invalid),
             sm_affected_class_count = count\<rparr>;
             st = validate_sample s
         in if is_ok st then Inr (s, r) else Inl st)"

definition kMaxSamplesPerFrame :: nat where "kMaxSamplesPerFrame = kMaxFramePayloadBytes div 64"

definition encode_batch :: "evidence_batch \<Rightarrow> byte list" where
  "encode_batch m = put_u64 (eb_worker m) @ put_u32 (eb_epoch m) @ put_u32 (eb_sample_count m) @
     concat (map encode_sample (eb_samples m))"

definition decode_batch :: "reader \<Rightarrow> evidence_batch result" where
  "decode_batch r =
     (let (worker, r) = get_u64 r; (epoch, r) = get_u32 r; (count, r) = get_u32 r
      in if \<not> rd_ok r then Inl (failure StTruncated ''evidence payload is truncated'')
         else if unat count > kMaxSamplesPerFrame then
           Inl (failure StOversized ''evidence batch exceeds the sample bound'')
         else case decode_many decode_sample (unat count) r of
           Inl e \<Rightarrow> Inl e
         | Inr (samples, r) \<Rightarrow>
             if \<not> rd_at_end r then Inl (failure StCorrupt ''evidence payload carries trailing bytes'')
             else Inr \<lparr>eb_worker = worker, eb_epoch = epoch, eb_sample_count = count,
                        eb_samples = samples\<rparr>)"

section \<open>The message contract\<close>

text \<open>
  What the sessions rely on: a well-formed message is read back from its own payload, and a payload
  with trailing bytes is refused as corrupt.
\<close>

locale message =
  fixes enc :: "'a \<Rightarrow> byte list"
    and dec :: "reader \<Rightarrow> 'a result"
    and wf :: "'a \<Rightarrow> bool"
  assumes dec_enc: "wf m \<Longrightarrow> dec (rd_at pre (enc m)) = Inr m"
    and dec_trailing: "wf m \<Longrightarrow> rest \<noteq> [] \<Longrightarrow> \<exists>d. dec (rd_at pre (enc m @ rest)) = Inl (failure StCorrupt d)"
begin

lemma roundtrip: "wf m \<Longrightarrow> dec (reader_of (enc m)) = Inr m"
  by (simp add: reader_of_rd_at dec_enc)

lemma enc_inject: "wf m \<Longrightarrow> wf n \<Longrightarrow> enc m = enc n \<Longrightarrow> m = n"
  by (metis dec_enc sum.inject(2))

lemma enc_not_prefix: "wf m \<Longrightarrow> wf n \<Longrightarrow> enc n = enc m @ rest \<Longrightarrow> rest = []"
  by (metis dec_enc dec_trailing sum.simps(4))

end

lemma handshake_of_raw_raw [simp]: "handshake_of_raw (handshake_raw s) = s"
  by (cases s) (simp_all add: handshake_of_raw_def)

lemma handshake_raw_le [simp]: "\<not> 7 < handshake_raw s"
  by (cases s) simp_all

interpretation hello_msg: message encode_hello decode_hello "\<lambda>m. id_valid (hq_worker m)"
  unfolding encode_hello_def decode_hello_def
  by unfold_locales (simp_all add: codec)

interpretation hello_ack_msg: message encode_hello_response decode_hello_response "\<lambda>_. True"
  unfolding encode_hello_response_def decode_hello_response_def
  by unfold_locales (simp_all add: codec)

interpretation heartbeat_msg: message encode_heartbeat decode_heartbeat "\<lambda>_. True"
  unfolding encode_heartbeat_def decode_heartbeat_def
  by unfold_locales (simp_all add: codec)

interpretation evidence_ack_msg: message encode_evidence_ack decode_evidence_ack "\<lambda>_. True"
  unfolding encode_evidence_ack_def decode_evidence_ack_def
  by unfold_locales (simp_all add: codec)

interpretation fence_msg: message encode_fence_notice decode_fence_notice "\<lambda>_. True"
  unfolding encode_fence_notice_def decode_fence_notice_def
  by unfold_locales (simp_all add: codec)

section \<open>Laws of the sample codec\<close>

definition sample_wf :: "sample \<Rightarrow> bool" where
  "sample_wf s \<longleftrightarrow> is_ok (validate_sample s) \<and> sm_flags s AND NOT kKnownFlags = 0 \<and>
     length (sm_affected_classes s) = kAffectedClasses \<and>
     drop (unat (sm_affected_class_count s)) (sm_affected_classes s) =
       drop (unat (sm_affected_class_count s)) (replicate kAffectedClasses id_invalid)"

interpretation sample_codec: decoder encode_sample decode_sample sample_wf
proof unfold_locales
  fix s pre rest
  assume w: "sample_wf s"
  have n: "unat (sm_affected_class_count s) \<le> kAffectedClasses"
    using w validate_sample_ok(2) by (simp add: sample_wf_def)
  then have l: "length (take (unat (sm_affected_class_count s)) (sm_affected_classes s)) = unat (sm_affected_class_count s)"
    using w by (simp add: sample_wf_def)
  have c: "take (unat (sm_affected_class_count s)) (sm_affected_classes s) @
      drop (unat (sm_affected_class_count s)) (replicate kAffectedClasses id_invalid) = sm_affected_classes s"
    using w by (metis append_take_drop_id sample_wf_def)
  have ok: "is_ok (validate_sample s)" "sm_flags s AND NOT kKnownFlags = 0" using w by (simp_all add: sample_wf_def)
  obtain st t sq rg de oc ca ir er it et dt mt fl pv cl cc where s: "s = \<lparr>sm_stream = st, sm_tick = t,
      sm_seq = sq, sm_resource_generation = rg, sm_depth = de, sm_occupancy_bytes = oc,
      sm_capacity_bytes = ca, sm_ingress_rate_q16 = ir, sm_egress_rate_q16 = er, sm_ingress_total = it,
      sm_egress_total = et, sm_drop_total = dt, sm_mark_total = mt, sm_flags = fl,
      sm_provenance = pv, sm_affected_classes = cl, sm_affected_class_count = cc\<rparr>"
    by (cases s)
  show "decode_sample (rd_at pre (encode_sample s @ rest)) = Inr (s, rd_at (pre @ encode_sample s) rest)"
    using n l c ok unfolding s decode_sample_def encode_sample_def append_assoc put_path_eq
    by (simp add: codec c64.get_many_put Let_def del: drop_replicate)
qed

definition batch_wf :: "evidence_batch \<Rightarrow> bool" where
  "batch_wf m \<longleftrightarrow> unat (eb_sample_count m) = length (eb_samples m) \<and>
     length (eb_samples m) \<le> kMaxSamplesPerFrame \<and> list_all sample_wf (eb_samples m)"

interpretation batch_msg: message encode_batch decode_batch batch_wf
proof unfold_locales
  fix m :: evidence_batch and pre
  assume w: "batch_wf m"
  then have a: "\<And>s. s \<in> set (eb_samples m) \<Longrightarrow> sample_wf s" by (simp add: batch_wf_def list_all_iff)
  have many: "decode_many decode_sample (length (eb_samples m))
      (rd_at q (concat (map encode_sample (eb_samples m)) @ rest)) =
    Inr (eb_samples m, rd_at (q @ concat (map encode_sample (eb_samples m))) rest)" for q rest
    by (rule sample_codec.decode_many_enc [OF a])
  show "decode_batch (rd_at pre (encode_batch m)) = Inr m"
    using w many [where rest = "[]"] unfolding decode_batch_def encode_batch_def
    by (simp add: codec batch_wf_def)
  show "\<exists>d. decode_batch (rd_at pre (encode_batch m @ rest)) = Inl (failure StCorrupt d)" if "rest \<noteq> []" for rest
    using w many that unfolding decode_batch_def encode_batch_def
    by (simp add: codec batch_wf_def)
qed

section \<open>Laws of the envelope\<close>

lemma message_type_of_raw_raw [simp]: "message_type_of_raw (message_type_raw t) = t"
  by (cases t) (simp_all add: message_type_of_raw_def)

lemma message_type_raw_of_raw:
  assumes "is_valid_message_type v"
  shows "message_type_raw (message_type_of_raw v) = v"
proof -
  have "v \<in> {1, 2, 3, 4, 5, 6, 7, 8}"
  proof -
    have "1 \<le> unat v" "unat v \<le> 8"
      using assms by (simp_all add: is_valid_message_type_def word_le_nat_alt)
    then have "unat v \<in> {1, 2, 3, 4, 5, 6, 7, 8}" by auto
    then show ?thesis by (auto simp: word_unat_eq_iff)
  qed
  then show ?thesis by (auto simp: message_type_of_raw_def)
qed

lemma message_type_valid [simp]: "is_valid_message_type (message_type_raw t)"
  by (cases t) (simp_all add: is_valid_message_type_def)

lemma length_header_prefix [simp]: "length (header_prefix h) = 24"
  by (simp add: header_prefix_def wire_length)

lemma length_build_header [simp]: "length (build_header h c) = 32"
  by (simp add: build_header_def wire_length)

definition header_wf :: "frame_header \<Rightarrow> bool" where
  "header_wf h \<longleftrightarrow> fh_version h = kWireProtocolVersion \<and> unat (fh_payload_length h) \<le> kMaxFramePayloadBytes"

text \<open>The parser on any 32 bytes, cut into the fields of a header.\<close>

lemma decode_header_fields:
  "decode_header (put_u32 m @ put_u16 v @ put_u16 t @ put_u32 f @ put_u64 s @ put_u32 l @ put_u32 hc @ put_u32 c) =
     (if m \<noteq> kFrameMagic then Inl (failure StCorrupt ''frame magic mismatch'')
      else if v \<noteq> kWireProtocolVersion then
        Inl (failure StUnsupported ''frame protocol version is not supported'')
      else if \<not> is_valid_message_type t then
        Inl (failure StCorrupt ''frame message type is not defined'')
      else if crc_compute (put_u32 m @ put_u16 v @ put_u16 t @ put_u32 f @ put_u64 s @ put_u32 l) \<noteq> hc then
        Inl (failure StCorrupt ''frame header checksum mismatch'')
      else if unat l > kMaxFramePayloadBytes then
        Inl (failure StOversized ''frame payload length exceeds the bound'')
      else Inr \<lparr>fh_version = v, fh_type = message_type_of_raw t, fh_flags = f, fh_seq = s, fh_payload_length = l\<rparr>)"
proof -
  define bs where "bs = put_u32 m @ put_u16 v @ put_u16 t @ put_u32 f @ put_u64 s @ put_u32 l @ put_u32 hc @ put_u32 c"
  define pfx where "pfx = put_u32 m @ put_u16 v @ put_u16 t @ put_u32 f @ put_u64 s @ put_u32 l"
  have len: "length bs = kFrameHeaderBytes" by (simp add: bs_def wire_length kFrameHeaderBytes_def)
  have take: "take kHeaderCrcCoverage bs = pfx"
    by (simp add: bs_def pfx_def kHeaderCrcCoverage_def kFrameHeaderBytes_def wire_length)
  have rd: "reader_of bs = rd_at [] bs" by (rule reader_of_rd_at)
  show ?thesis
    unfolding bs_def [symmetric] pfx_def [symmetric] decode_header_def len take rd
    unfolding bs_def by (simp add: codec)
qed

lemma build_header_fields:
  "build_header h c = put_u32 kFrameMagic @ put_u16 (fh_version h) @ put_u16 (message_type_raw (fh_type h)) @
     put_u32 (fh_flags h) @ put_u64 (fh_seq h) @ put_u32 (fh_payload_length h) @
     put_u32 (crc_compute (header_prefix h)) @ put_u32 c"
  by (simp add: build_header_def header_prefix_def)

lemma decode_build_header: "header_wf h \<Longrightarrow> decode_header (build_header h c) = Inr h"
  unfolding build_header_fields decode_header_fields header_prefix_def by (simp add: header_wf_def)

text \<open>A header is accepted only if it is the encoding of what was read from it.\<close>

lemma decode_header_inverse:
  assumes "decode_header bs = Inr h"
  shows "\<exists>c. bs = build_header h c \<and> header_wf h"
proof -
  have len: "length bs = 32" using assms by (simp add: decode_header_def kFrameHeaderBytes_def split: if_splits)
  obtain m r1 where r1: "bs = put_u32 m @ r1" "length r1 = 28" using split_u32 [of bs 28] len by auto
  obtain v r2 where r2: "r1 = put_u16 v @ r2" "length r2 = 26" using split_u16 [of r1 26] r1 by auto
  obtain t r3 where r3: "r2 = put_u16 t @ r3" "length r3 = 24" using split_u16 [of r2 24] r2 by auto
  obtain f r4 where r4: "r3 = put_u32 f @ r4" "length r4 = 20" using split_u32 [of r3 20] r3 by auto
  obtain s r5 where r5: "r4 = put_u64 s @ r5" "length r5 = 12" using split_u64 [of r4 12] r4 by auto
  obtain l r6 where r6: "r5 = put_u32 l @ r6" "length r6 = 8" using split_u32 [of r5 8] r5 by auto
  obtain hc r7 where r7: "r6 = put_u32 hc @ r7" "length r7 = 4" using split_u32 [of r6 4] r6 by auto
  obtain c where r8: "r7 = put_u32 c" using split_u32 [of r7 0] r7 by auto
  define pfx where "pfx = put_u32 m @ put_u16 v @ put_u16 t @ put_u32 f @ put_u64 s @ put_u32 l"
  have bs: "bs = pfx @ put_u32 hc @ put_u32 c"
    using r1(1) r2(1) r3(1) r4(1) r5(1) r6(1) r7(1) r8 by (simp add: pfx_def)
  have ok: "m = kFrameMagic \<and> v = kWireProtocolVersion \<and> is_valid_message_type t \<and> crc_compute pfx = hc \<and>
    unat l \<le> kMaxFramePayloadBytes \<and>
    h = \<lparr>fh_version = v, fh_type = message_type_of_raw t, fh_flags = f, fh_seq = s, fh_payload_length = l\<rparr>"
    using assms unfolding bs pfx_def append_assoc decode_header_fields
    by (simp add: not_less split: if_split_asm)
  then have "pfx = header_prefix h" by (simp add: pfx_def header_prefix_def message_type_raw_of_raw)
  with bs ok show ?thesis by (auto simp: build_header_def header_wf_def)
qed

text \<open>Decoding accepts exactly the encodings; it is a partial inverse of \<open>encode_frame\<close>.\<close>

definition frame_bytes :: "frame \<Rightarrow> byte list" where
  "frame_bytes f = build_header (fr_header f) (crc_compute (fr_payload f)) @ fr_payload f"

definition frame_wf :: "frame \<Rightarrow> bool" where
  "frame_wf f \<longleftrightarrow> header_wf (fr_header f) \<and> unat (fh_payload_length (fr_header f)) = length (fr_payload f)"

lemma frame_crc_field: "take 4 (drop 28 (build_header h c @ p)) = put_u32 c"
  by (simp add: build_header_def wire_length)

lemma drop_build_header: "drop 28 (build_header h c) = put_u32 c"
  by (simp add: build_header_def wire_length)

lemma get_u32_exact: "get_u32 (reader_of (put_u32 c)) = (c, rd_at (put_u32 c) [])"
  using get_put_end(3) [of "[]" c] by (simp add: reader_of_rd_at)

lemma decode_frame_bytes: "frame_wf f \<Longrightarrow> decode_frame (frame_bytes f) = Inr f"
  by (cases f) (auto simp: decode_frame_def frame_bytes_def frame_wf_def kFrameHeaderBytes_def
      decode_build_header drop_build_header get_u32_exact wire_length)

lemma decode_frame_inverse:
  assumes "decode_frame bs = Inr f"
  shows "bs = frame_bytes f \<and> frame_wf f"
proof -
  from assms obtain h where h: "decode_header (take 32 bs) = Inr h" and len: "length bs = 32 + unat (fh_payload_length h)"
    and f: "fr_header f = h" "fr_payload f = drop 32 bs"
    and crc: "crc_compute (drop 32 bs) = fst (get_u32 (reader_of (take 4 (drop 28 bs))))"
    by (auto simp: decode_frame_def kFrameHeaderBytes_def Let_def case_prod_beta split: if_splits sum.splits)
  obtain c where c: "take 32 bs = build_header h c" "header_wf h" using decode_header_inverse [OF h] by blast
  have bs: "bs = build_header h c @ drop 32 bs" using c(1) by (metis append_take_drop_id)
  have "take 4 (drop 28 bs) = put_u32 c" by (subst bs) (rule frame_crc_field)
  then have "crc_compute (drop 32 bs) = c" using crc get_u32_exact by simp
  with bs c(2) f len show ?thesis by (auto simp: frame_bytes_def frame_wf_def)
qed

lemma encode_frame_bytes:
  assumes "encode_frame f = Inr bs"
  defines "g \<equiv> f\<lparr>fr_header := (fr_header f)\<lparr>fh_payload_length := of_nat (length (fr_payload f))\<rparr>\<rparr>"
  shows "bs = frame_bytes g" "frame_wf g"
proof -
  have l: "length (fr_payload f) \<le> kMaxFramePayloadBytes" using assms(1) by (simp add: encode_frame_def split: if_splits)
  then have "unat (of_nat (length (fr_payload f)) :: u32) = length (fr_payload f)"
    by (simp add: kMaxFramePayloadBytes_def unsigned_of_nat take_bit_nat_eq_self)
  then show "bs = frame_bytes g" "frame_wf g"
    using assms(1) l by (auto simp: encode_frame_def frame_bytes_def g_def frame_wf_def header_wf_def Let_def split: if_splits)
qed

text \<open>
  The two checksums cover the whole frame: changing any one byte of an accepted frame, in the
  header, in either checksum or in the payload, makes it refused.
\<close>

lemma update_not_same: "i < length xs \<Longrightarrow> b \<noteq> xs ! i \<Longrightarrow> xs[i := b] \<noteq> xs"
  by (metis nth_list_update_eq)

lemma checked_block_update:
  assumes "i < length p + 4" "b \<noteq> (put_u32 (crc_compute p) @ p) ! i"
    "(put_u32 (crc_compute p) @ p)[i := b] = put_u32 (crc_compute q) @ q"
  shows False
proof (cases "i < 4")
  case True
  then have "(put_u32 (crc_compute p))[i := b] = put_u32 (crc_compute q) \<and> p = q"
    using assms(3) by (auto simp: list_update_append wire_length)
  then have "(put_u32 (crc_compute p))[i := b] = put_u32 (crc_compute p)" by metis
  moreover have "b \<noteq> put_u32 (crc_compute p) ! i" "i < length (put_u32 (crc_compute p))"
    using assms(2) True by (simp_all add: nth_append wire_length)
  ultimately show False by (metis nth_list_update_eq)
next
  case False
  then have "put_u32 (crc_compute p) = put_u32 (crc_compute q) \<and> p[i - 4 := b] = q"
    using assms(3) by (auto simp: list_update_append wire_length)
  moreover have "i - 4 < length p" "b \<noteq> p ! (i - 4)"
    using assms(1,2) False by (simp_all add: nth_append wire_length)
  ultimately show False using crc_compute_update_byte by (metis put_u32_inject)
qed

lemma frame_bytes_blocks:
  "frame_bytes f = header_prefix (fr_header f) @ put_u32 (crc_compute (header_prefix (fr_header f))) @
     (put_u32 (crc_compute (fr_payload f)) @ fr_payload f)"
  by (simp add: frame_bytes_def build_header_def)

lemma header_block_update:
  assumes "i < 28" "b \<noteq> (header_prefix h @ put_u32 (crc_compute (header_prefix h))) ! i"
    "(header_prefix h @ put_u32 (crc_compute (header_prefix h)))[i := b] =
       header_prefix k @ put_u32 (crc_compute (header_prefix k))"
  shows False
proof (cases "i < 24")
  case True
  then have "(header_prefix h)[i := b] = header_prefix k \<and>
      put_u32 (crc_compute (header_prefix h)) = put_u32 (crc_compute (header_prefix k))"
    using assms(3) by (auto simp: list_update_append)
  then show False
    using assms(2) True crc_compute_update_byte [of i "header_prefix h" b] by (auto simp: nth_append)
next
  case False
  then have "header_prefix h = header_prefix k \<and>
      (put_u32 (crc_compute (header_prefix h)))[i - 24 := b] = put_u32 (crc_compute (header_prefix k))"
    using assms(3) by (auto simp: list_update_append)
  then have "(put_u32 (crc_compute (header_prefix h)))[i - 24 := b] = put_u32 (crc_compute (header_prefix h))"
    by metis
  moreover have "b \<noteq> put_u32 (crc_compute (header_prefix h)) ! (i - 24)"
    "i - 24 < length (put_u32 (crc_compute (header_prefix h)))"
    using assms(1,2) False by (simp_all add: nth_append wire_length)
  ultimately show False by (metis nth_list_update_eq)
qed

lemma frame_update_refused:
  assumes "frame_wf f" "i < length (frame_bytes f)" "b \<noteq> frame_bytes f ! i"
  shows "\<exists>e. decode_frame ((frame_bytes f)[i := b]) = Inl e"
proof (cases "decode_frame ((frame_bytes f)[i := b])")
  case (Inr g)
  define A B C D where "A = header_prefix (fr_header f) @ put_u32 (crc_compute (header_prefix (fr_header f)))"
    and "B = put_u32 (crc_compute (fr_payload f)) @ fr_payload f"
    and "C = header_prefix (fr_header g) @ put_u32 (crc_compute (header_prefix (fr_header g)))"
    and "D = put_u32 (crc_compute (fr_payload g)) @ fr_payload g"
  have eq: "(A @ B)[i := b] = C @ D" and nth: "b \<noteq> (A @ B) ! i" and i: "i < length (A @ B)"
    using decode_frame_inverse [OF Inr] assms(2,3)
    by (simp_all add: frame_bytes_blocks A_def B_def C_def D_def)
  have len: "length A = 28" "length C = 28" by (simp_all add: A_def C_def wire_length)
  show ?thesis
  proof (cases "i < 28")
    case True
    then have "A[i := b] = C" "b \<noteq> A ! i" using eq nth len by (simp_all add: list_update_append nth_append)
    then show ?thesis using header_block_update True unfolding A_def C_def by blast
  next
    case False
    then have "B[i - 28 := b] = D" "b \<noteq> B ! (i - 28)" "i - 28 < length (fr_payload f) + 4"
      using eq nth len i by (simp_all add: list_update_append nth_append B_def wire_length)
    then show ?thesis using checked_block_update unfolding B_def D_def by blast
  qed
qed simp

end
