(* ===== verification/Checked.thy ===== *)
theory Checked
  imports Prelude
begin

text \<open>
  Checked and saturating integer arithmetic (\<open>include/mbg/core/checked.hpp\<close>). The unsigned
  instances of the templates are stated for every word width, the signed ones for
  \<open>int64_t\<close>, the only signed instance of the sources. The \<open>_exact\<close> lemmas say that a
  helper fails exactly when the mathematical result is not representable.
\<close>

section \<open>Signed 64-bit values\<close>

definition i64_max :: i64 where "i64_max = 0x7FFFFFFFFFFFFFFF"
definition i64_min :: i64 where "i64_min = 0x8000000000000000"

definition in_i64 :: "int \<Rightarrow> bool" where
  "in_i64 k \<longleftrightarrow> - (2 ^ 63) \<le> k \<and> k < 2 ^ 63"

lemma sint_i64_max [simp]: "sint i64_max = 2 ^ 63 - 1"
  by (simp add: i64_max_def)

lemma sint_i64_min [simp]: "sint i64_min = - (2 ^ 63)"
  by (simp add: i64_min_def)

lemma in_i64_sint [simp]: "in_i64 (sint (x :: i64))"
  using sint_range64 [of x] by (simp add: in_i64_def)

lemma sint_of_int64: "in_i64 k \<Longrightarrow> sint (word_of_int k :: i64) = k"
  by (simp add: in_i64_def sint_sbintrunc' signed_take_bit_int_eq_self_iff)

lemma sint_add64: "in_i64 (sint a + sint b) \<Longrightarrow> sint (a + b :: i64) = sint a + sint b"
  by (simp add: in_i64_def sint_word_ariths signed_take_bit_int_eq_self)

lemma sint_sub64: "in_i64 (sint a - sint b) \<Longrightarrow> sint (a - b :: i64) = sint a - sint b"
  by (simp add: in_i64_def sint_word_ariths signed_take_bit_int_eq_self)

lemma sint_mul64: "in_i64 (sint a * sint b) \<Longrightarrow> sint (a * b :: i64) = sint a * sint b"
  by (simp add: in_i64_def sint_word_ariths signed_take_bit_int_eq_self)

text \<open>C++ division and remainder on \<open>int64_t\<close>: truncation towards zero.\<close>

definition i64_div :: "i64 \<Rightarrow> i64 \<Rightarrow> i64" where
  "i64_div a b = word_of_int (sint a sdiv sint b)"

definition i64_rem :: "i64 \<Rightarrow> i64 \<Rightarrow> i64" where
  "i64_rem a b = word_of_int (sint a smod sint b)"

lemma sint_i64_div: "in_i64 (sint a sdiv sint b) \<Longrightarrow> sint (i64_div a b) = sint a sdiv sint b"
  unfolding i64_div_def by (rule sint_of_int64)

section \<open>Checked operations, unsigned\<close>

definition add_checked_u :: "'a::len word \<Rightarrow> 'a word \<Rightarrow> 'a word option" where
  "add_checked_u a b = (if a > (- 1) - b then None else Some (a + b))"

definition sub_checked_u :: "'a::len word \<Rightarrow> 'a word \<Rightarrow> 'a word option" where
  "sub_checked_u a b = (if b > a then None else Some (a - b))"

definition mul_checked_u :: "'a::len word \<Rightarrow> 'a word \<Rightarrow> 'a word option" where
  "mul_checked_u a b =
     (if a = 0 \<or> b = 0 then Some 0
      else if a > (- 1) div b then None
      else Some (a * b))"

definition div_checked_u :: "'a::len word \<Rightarrow> 'a word \<Rightarrow> 'a word option" where
  "div_checked_u a b = (if b = 0 then None else Some (a div b))"

section \<open>Checked operations, signed\<close>

definition add_checked_s :: "i64 \<Rightarrow> i64 \<Rightarrow> i64 option" where
  "add_checked_s a b =
     (if sint b > 0 \<and> sint a > sint (i64_max - b) then None
      else if sint b < 0 \<and> sint a < sint (i64_min - b) then None
      else Some (a + b))"

definition sub_checked_s :: "i64 \<Rightarrow> i64 \<Rightarrow> i64 option" where
  "sub_checked_s a b =
     (if sint b < 0 \<and> sint a > sint (i64_max + b) then None
      else if sint b > 0 \<and> sint a < sint (i64_min + b) then None
      else Some (a - b))"

definition mul_checked_s :: "i64 \<Rightarrow> i64 \<Rightarrow> i64 option" where
  "mul_checked_s a b =
     (if a = 0 \<or> b = 0 then Some 0
      else if sint a > 0 then
        (if sint b > 0 then
           (if sint a > sint (i64_div i64_max b) then None else Some (a * b))
         else
           (if sint b < sint (i64_div i64_min a) then None else Some (a * b)))
      else
        (if sint b > 0 then
           (if sint a < sint (i64_div i64_min b) then None else Some (a * b))
         else
           (if sint a < sint (i64_div i64_max b) then None else Some (a * b))))"

definition div_checked_s :: "i64 \<Rightarrow> i64 \<Rightarrow> i64 option" where
  "div_checked_s a b =
     (if b = 0 then None
      else if a = i64_min \<and> b = - 1 then None
      else Some (i64_div a b))"

section \<open>Saturating operations\<close>

definition saturating_add_u :: "'a::len word \<Rightarrow> 'a word \<Rightarrow> 'a word" where
  "saturating_add_u a b =
     (case add_checked_u a b of Some r \<Rightarrow> r | None \<Rightarrow> (if b > 0 then - 1 else 0))"

definition saturating_sub_u :: "'a::len word \<Rightarrow> 'a word \<Rightarrow> 'a word" where
  "saturating_sub_u a b =
     (case sub_checked_u a b of Some r \<Rightarrow> r | None \<Rightarrow> (if b > 0 then 0 else - 1))"

definition saturating_mul_u :: "'a::len word \<Rightarrow> 'a word \<Rightarrow> 'a word" where
  "saturating_mul_u a b = (case mul_checked_u a b of Some r \<Rightarrow> r | None \<Rightarrow> - 1)"

definition ceil_div_u64 :: "u64 \<Rightarrow> u64 \<Rightarrow> u64 option" where
  "ceil_div_u64 n d =
     (if d = 0 then None
      else let q = n div d in if n mod d = 0 then Some q else add_checked_u q 1)"

definition is_power_of_two :: "u64 \<Rightarrow> bool" where
  "is_power_of_two v \<longleftrightarrow> v \<noteq> 0 \<and> v AND (v - 1) = 0"

text \<open>The doubling loop of \<open>floor_power_of_two\<close>; \<open>None\<close> would be a loop that never ends.\<close>

partial_function (option) floor_pow2_loop :: "u64 \<Rightarrow> u64 \<Rightarrow> u64 option" where
  "floor_pow2_loop r v =
     (if r \<le> v div 2 then floor_pow2_loop (r * 2) v else Some r)"

definition floor_power_of_two :: "u64 \<Rightarrow> u64 option" where
  "floor_power_of_two v = (if v = 0 then Some 0 else floor_pow2_loop 1 v)"

section \<open>Exactness, unsigned\<close>

lemma add_checked_u_exact:
  "add_checked_u a b =
     (if unat a + unat b < 2 ^ LENGTH('a) then Some (a + b) else None)"
  for a b :: "'a::len word"
proof -
  have "unat ((- 1) - b) = 2 ^ LENGTH('a) - 1 - unat b"
    by (subst unat_sub_le) (simp_all add: unat_all_ones)
  moreover have "unat b < 2 ^ LENGTH('a)" by (rule unat_bound)
  ultimately have "a > (- 1) - b \<longleftrightarrow> \<not> unat a + unat b < 2 ^ LENGTH('a)"
    unfolding word_less_nat_alt by linarith
  then show ?thesis by (simp add: add_checked_u_def)
qed

lemma sub_checked_u_exact:
  "sub_checked_u a b = (if unat b \<le> unat a then Some (a - b) else None)"
  by (simp add: sub_checked_u_def word_less_nat_alt)

lemma mul_checked_u_exact:
  "mul_checked_u a b =
     (if unat a * unat b < 2 ^ LENGTH('a) then Some (a * b) else None)"
  for a b :: "'a::len word"
proof (cases "a = 0 \<or> b = 0")
  case True
  then show ?thesis by (auto simp: mul_checked_u_def)
next
  case False
  then have b: "0 < unat b" by (simp add: unat_gt_0)
  have "a > (- 1) div b \<longleftrightarrow> \<not> unat a \<le> (2 ^ LENGTH('a) - 1) div unat b"
    by (simp add: word_less_nat_alt unat_div_word unat_all_ones not_le)
  also have "unat a \<le> (2 ^ LENGTH('a) - 1) div unat b \<longleftrightarrow> unat a * unat b \<le> 2 ^ LENGTH('a) - 1"
    using b by (rule less_eq_div_iff_mult_less_eq)
  also have "\<dots> \<longleftrightarrow> unat a * unat b < 2 ^ LENGTH('a)"
    by (metis Suc_pred' less_Suc_eq_le zero_less_numeral zero_less_power)
  finally show ?thesis using False by (simp add: mul_checked_u_def)
qed

lemma saturating_add_u_min:
  "unat (saturating_add_u a b) = min (unat a + unat b) (2 ^ LENGTH('a) - 1)"
  for a b :: "'a::len word"
proof (cases "unat a + unat b < 2 ^ LENGTH('a)")
  case True
  then show ?thesis
    by (simp add: saturating_add_u_def add_checked_u_exact unat_add_no_wrap)
next
  case False
  moreover from False have "b \<noteq> 0" using unat_bound [of a] by auto
  ultimately show ?thesis
    by (simp add: saturating_add_u_def add_checked_u_exact unat_all_ones word_gt_0)
qed

lemma saturating_mul_u_min:
  "unat (saturating_mul_u a b) = min (unat a * unat b) (2 ^ LENGTH('a) - 1)"
  for a b :: "'a::len word"
proof (cases "unat a * unat b < 2 ^ LENGTH('a)")
  case True
  then show ?thesis
    by (simp add: saturating_mul_u_def mul_checked_u_exact unat_mult_no_wrap)
next
  case False
  then show ?thesis
    by (simp add: saturating_mul_u_def mul_checked_u_exact unat_all_ones)
qed

lemma saturating_sub_u_monus:
  "unat (saturating_sub_u a b) = unat a - unat b"
  by (auto simp: saturating_sub_u_def sub_checked_u_exact unat_sub_le word_le_nat_alt
      word_gt_0)

section \<open>Exactness, signed\<close>

lemma sint_i64_eq_iff: "(x :: i64) = y \<longleftrightarrow> sint x = sint y"
  by (rule word_eq_iff_signed)

lemma add_checked_s_exact:
  "add_checked_s a b = (if in_i64 (sint a + sint b) then Some (a + b) else None)"
proof -
  have a: "- (2 ^ 63) \<le> sint a" "sint a < 2 ^ 63" and b: "- (2 ^ 63) \<le> sint b" "sint b < 2 ^ 63"
    using sint_range64 by blast+
  have hi: "sint b > 0 \<Longrightarrow> sint (i64_max - b) = 2 ^ 63 - 1 - sint b"
    using b by (subst sint_sub64) (simp_all add: in_i64_def)
  have lo: "sint b < 0 \<Longrightarrow> sint (i64_min - b) = - (2 ^ 63) - sint b"
    using b by (subst sint_sub64) (simp_all add: in_i64_def)
  show ?thesis
    using a b hi lo unfolding add_checked_s_def in_i64_def by auto
qed

lemma sub_checked_s_exact:
  "sub_checked_s a b = (if in_i64 (sint a - sint b) then Some (a - b) else None)"
proof -
  have a: "- (2 ^ 63) \<le> sint a" "sint a < 2 ^ 63" and b: "- (2 ^ 63) \<le> sint b" "sint b < 2 ^ 63"
    using sint_range64 by blast+
  have hi: "sint b < 0 \<Longrightarrow> sint (i64_max + b) = 2 ^ 63 - 1 + sint b"
    using b by (subst sint_add64) (simp_all add: in_i64_def)
  have lo: "sint b > 0 \<Longrightarrow> sint (i64_min + b) = - (2 ^ 63) + sint b"
    using b by (subst sint_add64) (simp_all add: in_i64_def)
  show ?thesis
    using a b hi lo unfolding sub_checked_s_def in_i64_def by auto
qed

lemma sdiv_pos: "0 \<le> a \<Longrightarrow> 0 < b \<Longrightarrow> a sdiv b = a div (b :: int)"
  by (simp add: signed_divide_int_def sgn_if)

lemma sdiv_neg_num: "a < 0 \<Longrightarrow> 0 < b \<Longrightarrow> a sdiv b = - ((- a) div (b :: int))"
  by (simp add: signed_divide_int_def sgn_if)

lemma sdiv_neg_den: "0 \<le> a \<Longrightarrow> b < 0 \<Longrightarrow> a sdiv b = - (a div (- b :: int))"
  by (auto simp: signed_divide_int_def sgn_if)

lemma int_div_le_self: "0 \<le> a \<Longrightarrow> 0 < b \<Longrightarrow> a div b \<le> (a :: int)"
  by (metis div_by_1 int_one_le_iff_zero_less zdiv_mono2 zero_less_one)

lemma less_div_iff_mult:
  assumes "0 < b"
  shows "(k :: int) div b < a \<longleftrightarrow> k < a * b"
proof -
  have k: "k = k div b * b + k mod b" "0 \<le> k mod b" "k mod b < b"
    using assms by simp_all
  show ?thesis
  proof
    assume "k div b < a"
    then have "(k div b + 1) * b \<le> a * b" using assms by (intro mult_right_mono) simp_all
    then have "k div b * b + b \<le> a * b" by (simp only: distrib_right mult_1_left)
    with k show "k < a * b" by linarith
  next
    assume "k < a * b"
    with k have "k div b * b < a * b" by linarith
    with assms show "k div b < a" by simp
  qed
qed

lemma mul_checked_s_exact:
  "mul_checked_s a b = (if in_i64 (sint a * sint b) then Some (a * b) else None)"
proof -
  define M :: int where "M = 2 ^ 63"
  have M: "1 < M" by (simp add: M_def)
  have a: "- M \<le> sint a" "sint a < M" and b: "- M \<le> sint b" "sint b < M"
    using sint_range64 by (auto simp: M_def)
  have mx: "sint i64_max = M - 1" and mn: "sint i64_min = - M" by (simp_all add: M_def)
  have in_M: "in_i64 k \<longleftrightarrow> - M \<le> k \<and> k < M" for k by (simp add: in_i64_def M_def)
  have zero: "a = 0 \<longleftrightarrow> sint a = 0" "b = 0 \<longleftrightarrow> sint b = 0" by (simp_all add: sint_i64_eq_iff)
  have div_pos: "sint (i64_div i64_max c) = (M - 1) div sint c" if "0 < sint c" for c
  proof -
    have "0 \<le> (M - 1) div sint c" "(M - 1) div sint c < M"
      using that M int_div_le_self [of "M - 1" "sint c"]
      by (simp_all add: pos_imp_zdiv_nonneg_iff)
    then show ?thesis
      using that M by (subst sint_i64_div) (simp_all add: mx sdiv_pos in_M del: sint_i64_max sint_i64_min)
  qed
  have div_neg: "sint (i64_div i64_max c) = - ((M - 1) div (- sint c))" if "sint c < 0" for c
  proof -
    have "0 \<le> (M - 1) div (- sint c)" "(M - 1) div (- sint c) < M"
      using that M int_div_le_self [of "M - 1" "- sint c"]
      by (simp_all add: pos_imp_zdiv_nonneg_iff)
    then show ?thesis
      using that M by (subst sint_i64_div) (simp_all add: mx sdiv_neg_den in_M del: sint_i64_max sint_i64_min)
  qed
  have div_min: "sint (i64_div i64_min c) = - (M div sint c)" if "0 < sint c" for c
  proof -
    have "0 \<le> M div sint c" "M div sint c \<le> M"
      using that M by (simp_all add: pos_imp_zdiv_nonneg_iff int_div_le_self)
    then show ?thesis
      using that M by (subst sint_i64_div) (simp_all add: mn sdiv_neg_num sdiv_pos in_M del: sint_i64_max sint_i64_min)
  qed
  define P where "P = sint a * sint b"
  have in_P: "in_i64 (sint a * sint b) \<longleftrightarrow> - M \<le> P \<and> P < M"
    by (simp add: in_M P_def)
  consider "sint a = 0 \<or> sint b = 0" | "sint a > 0" "sint b > 0" | "sint a > 0" "sint b < 0"
    | "sint a < 0" "sint b > 0" | "sint a < 0" "sint b < 0" by linarith
  then show ?thesis
  proof cases
    case 1
    then show ?thesis using M zero by (auto simp: mul_checked_s_def in_M)
  next
    case 2
    then have "0 < P" by (simp add: P_def)
    moreover have "sint (i64_div i64_max b) < sint a \<longleftrightarrow> M - 1 < P"
      using 2 by (simp add: div_pos less_div_iff_mult P_def)
    ultimately show ?thesis using 2 M zero unfolding mul_checked_s_def in_P by auto
  next
    case 3
    have "P < 0" using 3 by (simp add: P_def mult_pos_neg)
    moreover have "sint b < sint (i64_div i64_min a) \<longleftrightarrow> M < - P"
      using 3 less_div_iff_mult [of "sint a" M "- sint b"]
      by (simp add: div_min P_def mult.commute) linarith
    ultimately show ?thesis using 3 M zero unfolding mul_checked_s_def in_P by auto
  next
    case 4
    have "P < 0" using 4 by (simp add: P_def mult_neg_pos)
    moreover have "sint a < sint (i64_div i64_min b) \<longleftrightarrow> M < - P"
      using 4 less_div_iff_mult [of "sint b" M "- sint a"]
      by (simp add: div_min P_def) linarith
    ultimately show ?thesis using 4 M zero unfolding mul_checked_s_def in_P by auto
  next
    case 5
    have "0 < P" using 5 by (simp add: P_def mult_neg_neg)
    moreover have "sint a < sint (i64_div i64_max b) \<longleftrightarrow> M - 1 < P"
      using 5 less_div_iff_mult [of "- sint b" "M - 1" "- sint a"]
      by (simp add: div_neg P_def) linarith
    ultimately show ?thesis using 5 M zero unfolding mul_checked_s_def in_P by auto
  qed
qed

section \<open>Powers of two\<close>

lemma floor_pow2_loop_returns:
  assumes "0 < unat r" "unat r \<le> unat v" "k \<le> 64" "unat r = 2 ^ (64 - k)"
  shows "\<exists>s j. floor_pow2_loop r v = Some s \<and> unat s = 2 ^ j \<and> unat s \<le> unat v \<and>
    unat v < 2 * unat s"
  using assms
proof (induction k arbitrary: r)
  case 0
  then have "unat r = 2 ^ 64" by simp
  with unat_bound [of r] show ?case by simp
next
  case (Suc k)
  show ?case
  proof (cases "r \<le> v div 2")
    case True
    then have le: "2 * unat r \<le> unat v"
      by (simp add: word_le_nat_alt unat_div_word)
    with unat_bound [of v] have r2: "unat (r * 2) = 2 * unat r"
      by (subst unat_mult_no_wrap) simp_all
    have "unat (r * 2) = 2 ^ (64 - k)"
      using Suc.prems by (simp add: r2 Suc_diff_le flip: power_Suc)
    with Suc.IH [of "r * 2"] Suc.prems le r2 True show ?thesis
      by (subst floor_pow2_loop.simps) auto
  next
    case False
    then have "unat v < 2 * unat r"
      by (simp add: word_le_nat_alt unat_div_word)
    with False Suc.prems show ?thesis
      by (subst floor_pow2_loop.simps) auto
  qed
qed

lemma floor_power_of_two_correct:
  assumes "v \<noteq> 0"
  shows "\<exists>s j. floor_power_of_two v = Some s \<and> unat s = 2 ^ j \<and> unat s \<le> unat v \<and>
    unat v < 2 * unat s"
  using floor_pow2_loop_returns [of 1 v 64] assms
  by (simp add: floor_power_of_two_def unat_gt_0 Suc_le_eq)

end
