(* ===== verification/Quantities.thy ===== *)
theory Quantities
  imports Checked Samples
begin

text \<open>
  The exact integer quantities of detection (\<open>src/detect/quantities.cpp\<close>): the Q16.16 slope,
  the per-mille ratio through a 128-bit product and a bitwise long division, and the counter
  delta over a window.
\<close>

section \<open>Definitions\<close>

definition kShiftLimit :: i64 where
  "kShiftLimit = word_of_int (sint i64_max div 2 ^ kRateFractionBits)"

definition compute_slope_q16 :: "i64 \<Rightarrow> u64 \<Rightarrow> i64" where
  "compute_slope_q16 numerator denominator =
     (if denominator = 0 then 0
      else let quotient = i64_div numerator denominator;
               remainder = i64_rem numerator denominator
           in if sint quotient > sint kShiftLimit then i64_max
              else if sint quotient < sint (- kShiftLimit) then i64_min
              else let whole = push_bit kRateFractionBits quotient;
                       fraction = i64_div (push_bit kRateFractionBits remainder) denominator
                   in whole + fraction)"

text \<open>The loop from bit 127 down to 0; the argument counts the bits that are left.\<close>

fun divide_loop :: "nat \<Rightarrow> u64 \<Rightarrow> u64 \<Rightarrow> u64 \<Rightarrow> u64 \<Rightarrow> u64 \<Rightarrow> u64" where
  "divide_loop 0 hi lo divisor quot rm = quot"
| "divide_loop (Suc b) hi lo divisor quot rm =
     (let inbit = (if b \<ge> 64 then drop_bit (b - 64) hi AND 1 else drop_bit b lo AND 1);
          carry = drop_bit 63 rm;
          rm = push_bit 1 rm OR inbit
      in if carry \<noteq> 0 \<or> rm \<ge> divisor then
           divide_loop b hi lo divisor (quot OR push_bit b 1) (rm - divisor)
         else divide_loop b hi lo divisor quot rm)"

definition divide_128_by_64 :: "u64 \<Rightarrow> u64 \<Rightarrow> u64 \<Rightarrow> u64" where
  "divide_128_by_64 hi lo divisor = divide_loop 128 hi lo divisor 0 0"

definition multiply_128 :: "u64 \<Rightarrow> u64 \<Rightarrow> u64 \<times> u64" where
  "multiply_128 v multiplier =
     (let low_limb = v AND 0xFFFFFFFF;
          high_limb = drop_bit 32 v;
          p0 = low_limb * multiplier;
          p1 = high_limb * multiplier;
          lo = p0 + push_bit 32 p1;
          hi = drop_bit 32 p1 + (if lo < p0 then 1 else 0)
      in (hi, lo))"

definition compute_permille :: "u64 \<Rightarrow> u64 \<Rightarrow> u32" where
  "compute_permille v limit =
     (if limit = 0 then (if v = 0 then 0 else 1000)
      else if v \<ge> limit then 1000
      else let (hi, lo) = multiply_128 v 1000;
               ratio = divide_128_by_64 hi lo limit
           in ucast (if ratio > 1000 then 1000 else ratio))"

definition modular_distance :: "u64 \<Rightarrow> u64 \<Rightarrow> u64" where
  "modular_distance from to = to - from"

definition window_counter_delta :: "u64 \<Rightarrow> u64 \<Rightarrow> bool \<Rightarrow> u64" where
  "window_counter_delta oldest newest reset_declared =
     (if reset_declared then 0
      else let resolution = resolve_counter oldest newest False
           in if cr_usable resolution then cr_delta resolution else 0)"

section \<open>The long division\<close>

lemma div_mod_unique: "(n :: nat) = k * d + r \<Longrightarrow> r < d \<Longrightarrow> n div d = k \<and> n mod d = r"
  by (metis add.right_neutral div_less div_mult_self3 less_nat_zero_code mod_less mod_mult_self3)

lemma div_step:
  fixes n d :: nat
  assumes "0 < d"
  defines "t \<equiv> n div 2"
  shows "n div d = 2 * (t div d) + (if d \<le> 2 * (t mod d) + n mod 2 then 1 else 0)"
    "n mod d = 2 * (t mod d) + n mod 2 - (if d \<le> 2 * (t mod d) + n mod 2 then d else 0)"
proof -
  define r where "r = 2 * (t mod d) + n mod 2"
  have "n = 2 * t + n mod 2" by (simp add: t_def)
  also have "2 * t = 2 * (t div d) * d + 2 * (t mod d)"
    using div_mult_mod_eq [of t d] by (metis add_mult_distrib2 mult.assoc)
  finally have n: "n = 2 * (t div d) * d + r" by (simp add: r_def)
  have "t mod d < d" using assms by simp
  then have r: "r < 2 * d" unfolding r_def by linarith
  have "n div d = 2 * (t div d) + (if d \<le> r then 1 else 0) \<and> n mod d = r - (if d \<le> r then d else 0)"
  proof (cases "d \<le> r")
    case True
    then have "n = (2 * (t div d) + 1) * d + (r - d)" using n by simp
    moreover have "r - d < d" using r True by linarith
    ultimately have "n div d = 2 * (t div d) + 1 \<and> n mod d = r - d" by (rule div_mod_unique)
    with True show ?thesis by simp
  next
    case False
    with n show ?thesis using div_mod_unique [of n "2 * (t div d)" d r] by simp
  qed
  then show "n div d = 2 * (t div d) + (if d \<le> 2 * (t mod d) + n mod 2 then 1 else 0)"
    "n mod d = 2 * (t mod d) + n mod 2 - (if d \<le> 2 * (t mod d) + n mod 2 then d else 0)"
    unfolding r_def by blast+
qed

text \<open>One step of the remainder register, in natural numbers.\<close>

lemma remainder_step:
  fixes d r :: u64 and b :: nat
  assumes r: "unat r < unat d" and b: "b < 2"
  defines "s \<equiv> push_bit 1 r OR of_nat b"
  shows "(drop_bit 63 r \<noteq> 0 \<or> d \<le> s) \<longleftrightarrow> unat d \<le> 2 * unat r + b"
    "unat d \<le> 2 * unat r + b \<Longrightarrow> unat (s - d) = 2 * unat r + b - unat d"
    "\<not> unat d \<le> 2 * unat r + b \<Longrightarrow> unat s = 2 * unat r + b"
proof -
  have lim: "unat d < 2 ^ 64" "unat r < 2 ^ 64" using unat_bound [of d] unat_bound [of r] by simp_all
  have b2: "b = 0 \<or> b = 1" using b by auto
  have "s = push_bit 1 r + of_nat b"
  proof (cases "b = 0")
    case False
    then have "push_bit 1 r + 1 = push_bit 1 r OR 1"
      by (intro disjunctive_add_eq_or bit_eqI) (simp only: bit_and_iff bit_push_bit_iff bit_1_iff bit_0_eq bot_apply, auto)
    with False b2 show ?thesis by (simp add: s_def)
  qed (simp add: s_def)
  also have "\<dots> = of_nat (2 * unat r + b)" by (simp add: push_bit_eq_mult)
  finally have s: "unat s = (2 * unat r + b) mod 2 ^ 64"
    by (simp only: unsigned_of_nat take_bit_eq_mod) simp
  have carry: "drop_bit 63 r \<noteq> 0 \<longleftrightarrow> 2 ^ 63 \<le> unat r"
    unfolding word_unat_eq_iff unat_drop_bit_eq unsigned_0 unfolding drop_bit_eq_div div_eq_0_iff by auto
  have split: "(2 * unat r + b) mod 2 ^ 64 =
      (if 2 ^ 63 \<le> unat r then 2 * unat r + b - 2 ^ 64 else 2 * unat r + b)"
    using lim b by (auto simp: mod_if)
  show "(drop_bit 63 r \<noteq> 0 \<or> d \<le> s) \<longleftrightarrow> unat d \<le> 2 * unat r + b"
    unfolding carry word_le_nat_alt s split using lim b by auto
  show "unat d \<le> 2 * unat r + b \<Longrightarrow> unat (s - d) = 2 * unat r + b - unat d"
    using lim r b unfolding unat_sub_if' s split by auto
  show "\<not> unat d \<le> 2 * unat r + b \<Longrightarrow> unat s = 2 * unat r + b"
    using lim unfolding s split by auto
qed


lemma quotient_or:
  "of_nat (q * 2 ^ Suc b) OR push_bit b 1 = (of_nat ((2 * q + 1) * 2 ^ b) :: u64)"
proof -
  have "(of_nat (q * 2 ^ Suc b) :: u64) = push_bit (Suc b) (of_nat q)"
    by (simp add: push_bit_eq_mult)
  moreover have "push_bit (Suc b) (of_nat q) OR push_bit b 1 = push_bit (Suc b) (of_nat q) + (push_bit b 1 :: u64)"
    by (intro disjunctive_add_eq_or [symmetric] bit_eqI)
      (auto simp only: bit_and_iff bit_push_bit_iff bit_1_iff bit_0_eq bot_apply bot_bool_def)
  moreover have "\<dots> = (of_nat ((2 * q + 1) * 2 ^ b) :: u64)"
    by (simp add: push_bit_eq_mult algebra_simps)
  ultimately show ?thesis by (simp only:)
qed

text \<open>The value the two limbs stand for, and its bits.\<close>

definition limbs :: "u64 \<Rightarrow> u64 \<Rightarrow> nat" where
  "limbs hi lo = unat hi * 2 ^ 64 + unat lo"

lemma limbs_bit:
  "(if b \<ge> 64 then drop_bit (b - 64) hi AND 1 else drop_bit b lo AND 1) =
     (of_nat (limbs hi lo div 2 ^ b mod 2) :: u64)"
proof -
  have w: "drop_bit k w AND 1 = (of_nat (unat w div 2 ^ k mod 2) :: u64)" for k and w :: u64
  proof -
    have "unat (drop_bit k w AND 1) = unat w div 2 ^ k mod 2"
      unfolding unsigned_and_eq unat_drop_bit_eq unsigned_1
      unfolding and_one_eq drop_bit_eq_div by (rule refl)
    moreover have "unat (of_nat (unat w div 2 ^ k mod 2) :: u64) = unat w div 2 ^ k mod 2"
      by (simp only: unsigned_of_nat) (simp add: take_bit_nat_eq_self)
    ultimately show ?thesis by (simp only: word_unat_eq_iff)
  qed
  show ?thesis
  proof (cases "64 \<le> b")
    case True
    then have "limbs hi lo div 2 ^ b = limbs hi lo div 2 ^ 64 div 2 ^ (b - 64)"
      by (metis div_mult2_eq le_add_diff_inverse power_add)
    also have "limbs hi lo div 2 ^ 64 = unat hi"
      using unat_bound [of lo] by (simp add: limbs_def)
    finally show ?thesis using True w by simp
  next
    case False
    then have "(2 :: nat) ^ 64 = 2 ^ b * (2 * 2 ^ (63 - b))"
      by (simp flip: power_add power_Suc)
    then have "limbs hi lo = unat lo + 2 ^ b * (2 * (2 ^ (63 - b) * unat hi))"
      by (simp add: limbs_def mult.assoc mult.commute mult.left_commute)
    then have "limbs hi lo div 2 ^ b = unat lo div 2 ^ b + 2 * (2 ^ (63 - b) * unat hi)" by simp
    then show ?thesis using False w by simp
  qed
qed

lemma divide_loop_correct:
  assumes d: "0 < unat d"
    and r: "unat r = limbs hi lo div 2 ^ n mod unat d"
    and q: "q = of_nat (limbs hi lo div 2 ^ n div unat d * 2 ^ n)"
  shows "divide_loop n hi lo d q r = of_nat (limbs hi lo div unat d)"
  using r q
proof (induction n arbitrary: q r)
  case (Suc b)
  define v where "v = limbs hi lo div 2 ^ b"
  have half: "v div 2 = limbs hi lo div 2 ^ Suc b"
    by (simp add: v_def power_Suc2 div_mult2_eq del: power_Suc)
  have r: "unat r = v div 2 mod unat d" using Suc.prems(1) by (simp add: half del: power_Suc)
  then have lt: "unat r < unat d" using d by simp
  have q: "q = of_nat (v div 2 div unat d * 2 ^ Suc b)" using Suc.prems(2) by (simp add: half del: power_Suc)
  have b2: "v mod 2 < 2" by simp
  note step = remainder_step [OF lt b2] and dm = div_step [OF d, of v]
  show ?case
  proof (cases "unat d \<le> 2 * unat r + v mod 2")
    case True
    have "divide_loop (Suc b) hi lo d q r =
        divide_loop b hi lo d (q OR push_bit b 1) ((push_bit 1 r OR of_nat (v mod 2)) - d)"
      using True step(1) by (simp only: divide_loop.simps limbs_bit v_def Let_def if_True simp_thms)
    also have "\<dots> = of_nat (limbs hi lo div unat d)"
    proof (rule Suc.IH)
      show "unat ((push_bit 1 r OR of_nat (v mod 2)) - d) = limbs hi lo div 2 ^ b mod unat d"
        using step(2) True dm(2) by (simp only: v_def r if_True)
      show "q OR push_bit b 1 = of_nat (limbs hi lo div 2 ^ b div unat d * 2 ^ b)"
        using True dm(1) by (simp only: q quotient_or flip: v_def) (simp add: r)
    qed
    finally show ?thesis .
  next
    case False
    have "divide_loop (Suc b) hi lo d q r = divide_loop b hi lo d q (push_bit 1 r OR of_nat (v mod 2))"
      using False step(1) by (simp only: divide_loop.simps limbs_bit v_def Let_def if_False simp_thms)
    also have "\<dots> = of_nat (limbs hi lo div unat d)"
    proof (rule Suc.IH)
      show "unat (push_bit 1 r OR of_nat (v mod 2)) = limbs hi lo div 2 ^ b mod unat d"
        using step(3) [OF False] dm(2) False by (simp only: v_def r if_False diff_zero)
      show "q = of_nat (limbs hi lo div 2 ^ b div unat d * 2 ^ b)"
        using False dm(1) by (simp only: q flip: v_def) (simp add: r)
    qed
    finally show ?thesis .
  qed
qed simp

lemma divide_128_by_64_correct:
  assumes "d \<noteq> 0"
  shows "divide_128_by_64 hi lo d = of_nat (limbs hi lo div unat d)"
proof -
  have "limbs hi lo < 2 ^ 128"
    using unat_bound [of hi] unat_bound [of lo] by (simp add: limbs_def)
  then show ?thesis unfolding divide_128_by_64_def
    using assms by (intro divide_loop_correct) (simp_all add: unat_gt_0)
qed


section \<open>The product and the ratio\<close>

lemma unat_low32: "unat (v AND 0xFFFFFFFF :: u64) = unat v mod 2 ^ 32"
proof -
  have "v AND 0xFFFFFFFF = take_bit 32 v" by (simp add: take_bit_eq_mask mask_eq_exp_minus_1)
  then have "unat (v AND 0xFFFFFFFF) = take_bit 32 (unat v)" by (simp only: unsigned_take_bit_eq)
  then show ?thesis by (simp only: take_bit_eq_mod)
qed

lemma unat_high32: "unat (drop_bit 32 v :: u64) = unat v div 2 ^ 32"
  unfolding unat_drop_bit_eq unfolding drop_bit_eq_div by (rule refl)

lemma multiply_128_correct:
  assumes m: "unat m < 2 ^ 32" and mul: "multiply_128 v m = (hi, lo)"
  shows "limbs hi lo = unat v * unat m"
proof -
  define a b where "a = unat v mod 2 ^ 32 * unat m" and "b = unat v div 2 ^ 32 * unat m"
  have "unat v div 2 ^ 32 < 2 ^ 32" using unat_bound [of v] by (simp add: div_less_iff_less_mult)
  then have small: "x < 2 ^ 32 \<Longrightarrow> x * unat m < 2 ^ 64" for x
    using m mult_strict_mono [of x "2 ^ 32" "unat m" "2 ^ 32"] by simp
  have a: "a < 2 ^ 64" and b: "b < 2 ^ 64" unfolding a_def b_def
    using small \<open>unat v div 2 ^ 32 < 2 ^ 32\<close> by simp_all
  have p0: "unat ((v AND 0xFFFFFFFF) * m) = a"
    unfolding a_def using a by (subst unat_mult_no_wrap) (simp_all add: unat_low32 a_def)
  have p1: "unat (drop_bit 32 v * m) = b"
    unfolding b_def using b by (subst unat_mult_no_wrap) (simp_all only: unat_high32 b_def, simp)
  define c where "c = b mod 2 ^ 32 * 2 ^ 32"
  have "unat (push_bit 32 (drop_bit 32 v * m)) = c"
  proof -
    have "unat (push_bit 32 (drop_bit 32 v * m)) = (b * 2 ^ 32) mod 2 ^ 64"
      unfolding unsigned_push_bit_eq p1 by (simp add: push_bit_eq_mult take_bit_eq_mod)
    also have "\<dots> = c" unfolding c_def
      by (metis mult_mod_left numeral_Bit0 power_add)
    finally show ?thesis .
  qed
  with mul p0 p1 have lo: "unat lo = (a + c) mod 2 ^ 64"
    and hi: "hi = drop_bit 32 (drop_bit 32 v * m) + (if unat lo < a then 1 else 0)"
    by (auto simp: multiply_128_def Let_def unat_word_ariths word_less_nat_alt)
  have cb: "c + b div 2 ^ 32 * 2 ^ 64 = b * 2 ^ 32"
  proof -
    have "(2 :: nat) ^ 64 = 2 ^ 32 * 2 ^ 32" by simp
    then have "c + b div 2 ^ 32 * 2 ^ 64 = (b mod 2 ^ 32 + b div 2 ^ 32 * 2 ^ 32) * 2 ^ 32"
      unfolding c_def by (simp only: add_mult_distrib mult.assoc)
    then show ?thesis by (simp only: mod_div_mult_eq)
  qed
  have c: "c < 2 ^ 64" unfolding c_def by (simp add: mod_less_divisor less_le_trans)
  have hn: "unat hi = b div 2 ^ 32 + (if unat lo < a then 1 else 0)"
  proof -
    have "unat (drop_bit 32 (drop_bit 32 v * m)) = b div 2 ^ 32" by (simp only: unat_high32 p1)
    moreover have "b div 2 ^ 32 < 2 ^ 32" using b by (simp add: div_less_iff_less_mult)
    ultimately show ?thesis unfolding hi by (simp add: unat_word_ariths)
  qed
  have "limbs hi lo = b div 2 ^ 32 * 2 ^ 64 + c + a"
    unfolding limbs_def hn lo using a c by (auto simp: mod_if)
  also have "\<dots> = b * 2 ^ 32 + a" using cb by simp
  also have "\<dots> = (unat v div 2 ^ 32 * 2 ^ 32 + unat v mod 2 ^ 32) * unat m"
    unfolding a_def b_def by (simp only: add_mult_distrib mult.assoc mult.commute [of "unat m"])
  finally show ?thesis by simp
qed

lemma compute_permille_floor:
  assumes "limit \<noteq> 0"
  shows "unat (compute_permille v limit) = min 1000 (unat v * 1000 div unat limit)"
proof (cases "limit \<le> v")
  case True
  then have "unat limit * 1000 \<le> unat v * 1000" by (simp add: word_le_nat_alt)
  then have "1000 \<le> unat v * 1000 div unat limit"
    using assms by (simp add: less_eq_div_iff_mult_less_eq unat_gt_0 mult.commute)
  with True assms show ?thesis by (simp add: compute_permille_def)
next
  case False
  obtain hi lo where m: "multiply_128 v 1000 = (hi, lo)" by (cases "multiply_128 v 1000")
  have l: "limbs hi lo = unat v * 1000" using multiply_128_correct [OF _ m] by simp
  define k where "k = unat v * 1000 div unat limit"
  have k: "k < 1000" using False assms
    by (simp add: k_def div_less_iff_less_mult unat_gt_0 word_less_nat_alt not_le)
  have "compute_permille v limit = ucast (if (of_nat k :: u64) > 1000 then 1000 else of_nat k :: u64)"
    using False assms m by (simp add: compute_permille_def divide_128_by_64_correct l k_def)
  moreover have "unat (of_nat k :: u64) = k" using k by (simp add: unsigned_of_nat take_bit_nat_eq_self)
  ultimately have "compute_permille v limit = ucast (of_nat k :: u64)"
    using k by (simp add: word_less_nat_alt)
  moreover have "unat (ucast (of_nat k :: u64) :: u32) = k"
    using k by (simp add: unsigned_ucast_eq unsigned_of_nat take_bit_nat_eq_self)
  ultimately show ?thesis using k by (simp add: k_def)
qed

lemma compute_permille_le: "unat (compute_permille v limit) \<le> 1000"
  using compute_permille_floor [of limit v] by (cases "limit = 0") (simp_all add: compute_permille_def)


section \<open>The slope\<close>

lemma sdiv_scale:
  fixes n d :: int
  assumes d: "0 < d"
  shows "(n sdiv d) * 2 ^ 16 + ((n smod d) * 2 ^ 16) sdiv d = (n * 2 ^ 16) sdiv d"
proof (cases "0 \<le> n")
  case True
  have "n smod d = n mod d" using True d by (simp add: signed_modulo_int_def sgn_if)
  moreover have "n * 2 ^ 16 = (n mod d) * 2 ^ 16 + (n div d * 2 ^ 16) * d"
    by (metis (no_types, opaque_lifting) add.commute div_mult_mod_eq distrib_right mult.assoc mult.commute)
  then have "n * 2 ^ 16 div d = (n mod d) * 2 ^ 16 div d + n div d * 2 ^ 16" using d by simp
  ultimately show ?thesis using True d by (simp add: sdiv_pos)
next
  case False
  define m where "m = - n"
  have "n smod d = - (m mod d)" using False d by (auto simp: signed_modulo_int_def sgn_if m_def)
  moreover have "m * 2 ^ 16 = (m mod d) * 2 ^ 16 + (m div d * 2 ^ 16) * d"
    by (metis (no_types, opaque_lifting) add.commute div_mult_mod_eq distrib_right mult.assoc mult.commute)
  then have "m * 2 ^ 16 div d = (m mod d) * 2 ^ 16 div d + m div d * 2 ^ 16" using d by simp
  moreover have "(- (m mod d) * 2 ^ 16) sdiv d = - ((m mod d) * 2 ^ 16 div d)"
    using d sdiv_pos [of "m mod d * 2 ^ 16" d] by simp
  moreover have "n sdiv d = - (m div d)" "(n * 2 ^ 16) sdiv d = - (m * 2 ^ 16 div d)"
    using False d by (simp_all add: sdiv_neg_num m_def)
  ultimately show ?thesis by (simp add: m_def)
qed

lemma smod_bound: "0 < d \<Longrightarrow> \<bar>n smod d\<bar> < (d :: int)"
  by (auto simp: signed_modulo_int_def sgn_if abs_mult)

lemma sdiv_smod_sign:
  fixes n d :: int
  assumes "0 < d"
  shows "0 < n sdiv d \<Longrightarrow> 0 \<le> ((n smod d) * 2 ^ 16) sdiv d"
    "n sdiv d < 0 \<Longrightarrow> ((n smod d) * 2 ^ 16) sdiv d \<le> 0"
proof -
  have pos: "0 \<le> n sdiv d \<and> 0 \<le> ((n smod d) * 2 ^ 16) sdiv d" if "0 \<le> n"
  proof -
    have "n smod d = n mod d" using that assms by (simp add: signed_modulo_int_def sgn_if)
    then show ?thesis using that assms by (simp add: sdiv_pos pos_imp_zdiv_nonneg_iff)
  qed
  have neg: "n sdiv d \<le> 0 \<and> ((n smod d) * 2 ^ 16) sdiv d \<le> 0" if "n < 0"
  proof -
    have "n smod d = - ((- n) mod d)" using that assms by (simp add: signed_modulo_int_def sgn_if)
    moreover have "0 \<le> ((- n) mod d * 2 ^ 16) sdiv d" using assms by (simp add: sdiv_pos pos_imp_zdiv_nonneg_iff)
    ultimately show ?thesis using that assms by (simp add: sdiv_neg_num pos_imp_zdiv_nonneg_iff)
  qed
  show "0 < n sdiv d \<Longrightarrow> 0 \<le> ((n smod d) * 2 ^ 16) sdiv d"
    "n sdiv d < 0 \<Longrightarrow> ((n smod d) * 2 ^ 16) sdiv d \<le> 0"
    using pos neg by (cases "0 \<le> n"; force)+
qed

lemma sint_push_bit16:
  assumes "in_i64 (sint x * 2 ^ 16)"
  shows "sint (push_bit 16 x :: i64) = sint x * 2 ^ 16"
proof -
  have "push_bit 16 x = x * word_of_int (2 ^ 16)" by (simp add: push_bit_eq_mult)
  moreover have "sint (word_of_int (2 ^ 16) :: i64) = 2 ^ 16" by simp
  ultimately show ?thesis using assms sint_mul64 by metis
qed

lemma sint_kShiftLimit: "sint kShiftLimit = 2 ^ 47 - 1" "sint (- kShiftLimit) = - (2 ^ 47 - 1)"
  by (simp_all add: kShiftLimit_def kRateFractionBits_def)


text \<open>
  For a denominator of at most \<open>2^47\<close> ticks the result is the truncated quotient, saturated to
  the 64-bit range. Beyond that the shifted remainder wraps; see \<open>slope_overflow\<close> in the root
  theory.
\<close>

lemma compute_slope_saturated:
  assumes d: "0 < sint d" "sint d \<le> 2 ^ 47"
  shows "sint (compute_slope_q16 n d) = max (- (2 ^ 63)) (min (2 ^ 63 - 1) ((sint n * 2 ^ 16) sdiv sint d))"
proof -
  define N D Q R where "N = sint n" and "D = sint d" and "Q = N sdiv D" and "R = N smod D"
  have N: "- (2 ^ 63) \<le> N" "N < 2 ^ 63" using sint_range64 [of n] by (simp_all add: N_def)
  have D: "0 < D" "D \<le> 2 ^ 47" using d by (simp_all add: D_def)
  have nz: "d \<noteq> 0" using d by auto
  have Q: "- (2 ^ 63) \<le> Q \<and> Q < 2 ^ 63"
  proof (cases "0 \<le> N")
    case True
    then have "0 \<le> N div D" "N div D \<le> N" using D int_div_le_self by (simp_all add: pos_imp_zdiv_nonneg_iff)
    with True N D show ?thesis by (simp add: Q_def sdiv_pos)
  next
    case False
    then have "0 \<le> (- N) div D" "(- N) div D \<le> - N" using D int_div_le_self by (simp_all add: pos_imp_zdiv_nonneg_iff)
    with False N D show ?thesis by (simp add: Q_def sdiv_neg_num)
  qed
  have R: "\<bar>R\<bar> < D" using smod_bound [OF D(1)] by (simp add: R_def)
  have q: "sint (i64_div n d) = Q" using Q by (simp add: sint_i64_div in_i64_def Q_def N_def D_def)
  have r: "sint (i64_rem n d) = R"
    unfolding i64_rem_def using R D by (subst sint_of_int64) (auto simp: in_i64_def R_def N_def D_def)
  have "in_i64 (R * 2 ^ 16)" using R D by (auto simp: in_i64_def abs_less_iff)
  then have rs: "sint (push_bit 16 (i64_rem n d)) = R * 2 ^ 16" using sint_push_bit16 r by metis
  define F where "F = (R * 2 ^ 16) sdiv D"
  have F: "\<bar>F\<bar> < 2 ^ 16"
  proof (cases "0 \<le> R")
    case True
    then show ?thesis using R D by (simp add: F_def sdiv_pos pos_imp_zdiv_nonneg_iff less_div_iff_mult abs_less_iff)
  next
    case False
    then have "(- R) * 2 ^ 16 div D < 2 ^ 16" "0 \<le> (- R) * 2 ^ 16 div D"
      using R D by (simp_all add: less_div_iff_mult abs_less_iff pos_imp_zdiv_nonneg_iff)
    then show ?thesis using False D sdiv_neg_num [of "R * 2 ^ 16" D] by (simp add: F_def)
  qed
  have f: "sint (i64_div (push_bit 16 (i64_rem n d)) d) = F"
    using F rs by (subst sint_i64_div) (auto simp: in_i64_def abs_less_iff F_def D_def)
  have sum: "Q * 2 ^ 16 + F = (N * 2 ^ 16) sdiv D"
    unfolding F_def Q_def R_def using sdiv_scale [OF D(1), of N] by simp
  have sgn: "0 < Q \<Longrightarrow> 0 \<le> F" "Q < 0 \<Longrightarrow> F \<le> 0"
    unfolding F_def Q_def R_def using sdiv_smod_sign [OF D(1), of N] by blast+
  consider "Q > 2 ^ 47 - 1" | "Q < - (2 ^ 47 - 1)" | "- (2 ^ 47 - 1) \<le> Q" "Q \<le> 2 ^ 47 - 1" by linarith
  then show ?thesis
  proof cases
    case 1
    then have "2 ^ 63 - 1 \<le> Q * 2 ^ 16 + F" using sgn(1) by simp
    then have "2 ^ 63 - 1 \<le> (N * 2 ^ 16) sdiv D" by (simp only: sum)
    then show ?thesis using 1 nz q
      by (simp add: compute_slope_q16_def Let_def sint_kShiftLimit N_def D_def)
  next
    case 2
    then have "Q * 2 ^ 16 + F \<le> - (2 ^ 63)" using sgn(2) by simp
    then have "(N * 2 ^ 16) sdiv D \<le> - (2 ^ 63)" by (simp only: sum)
    then show ?thesis using 2 nz q
      by (simp add: compute_slope_q16_def Let_def sint_kShiftLimit N_def D_def)
  next
    case 3
    have "sint (push_bit 16 (i64_div n d)) = Q * 2 ^ 16"
      using sint_push_bit16 [of "i64_div n d"] q 3 by (simp add: in_i64_def)
    then have "sint (push_bit 16 (i64_div n d) + i64_div (push_bit 16 (i64_rem n d)) d) = Q * 2 ^ 16 + F"
      using f F 3 by (subst sint_add64) (auto simp: in_i64_def abs_less_iff)
    then show ?thesis using 3 F sum nz q
      by (auto simp: compute_slope_q16_def Let_def sint_kShiftLimit kRateFractionBits_def N_def D_def abs_less_iff)
  qed
qed

end
