(* ===== verification/Policies.thy ===== *)
theory Policies
  imports Checked Interventions
begin

text \<open>
  Policy documents and the installed policy set (\<open>include/mbg/model/policy.hpp\<close>,
  \<open>src/model/policy.cpp\<close>): severity ladders, the validation of a policy, its digest, the set
  of overrides with its hash index and generation, and the record codec. The fixed arrays
  (ladder steps, kind limits) are lists whose length is part of \<open>policy_shape\<close>.
\<close>

section \<open>Severity ladders\<close>

type_synonym grade_ladder = "u64 list"

definition kSteps :: nat where "kSteps = 4"

definition kDisabledStep :: u64 where "kDisabledStep = NOT 0"

fun grade_loop :: "u8 \<Rightarrow> u64 list \<Rightarrow> u64 \<Rightarrow> severity \<Rightarrow> severity" where
  "grade_loop i [] v result = result"
| "grade_loop i (t # ts) v result =
     grade_loop (i + 1) ts v
       (if t = kDisabledStep then result else if v \<ge> t then severity_of_raw (i + 1) else result)"

definition grade :: "grade_ladder \<Rightarrow> u64 \<Rightarrow> severity" where
  "grade l v = grade_loop 0 l v SevNone"

definition grade_rate :: "grade_ladder \<Rightarrow> i64 \<Rightarrow> severity" where
  "grade_rate l v = (if sint v \<le> 0 then SevNone else grade l v)"

definition ladder_monotonic :: "grade_ladder \<Rightarrow> bool" where
  "ladder_monotonic l \<longleftrightarrow> list_all (\<lambda>i. \<not> l ! i < l ! (i - 1)) [1..<kSteps]"

section \<open>Policy documents\<close>

record detection_policy =
  dp_window_capacity :: u64
  dp_nominal_sample_interval_ticks :: u64
  dp_max_sample_gap_ticks :: u64
  dp_min_samples_for_classification :: u64
  dp_min_completeness_permille :: u32
  dp_staleness_limit_ticks :: u64
  dp_reorder_tolerance_ticks :: u64
  dp_onset_min_depth :: u64
  dp_onset_min_slope_q16 :: i64
  dp_onset_sustain_ticks :: u64
  dp_onset_slope_window_ticks :: u64
  dp_release_depth :: u64
  dp_release_slope_q16 :: i64
  dp_release_sustain_ticks :: u64
  dp_occupancy_permille_ladder :: grade_ladder
  dp_depth_ladder :: grade_ladder
  dp_slope_ladder :: grade_ladder
  dp_duration_ladder :: grade_ladder
  dp_drop_ladder :: grade_ladder
  dp_onset_merge_ticks :: u64
  dp_cooldown_ticks :: u64
  dp_max_episode_ticks :: u64
  dp_evidence_grace_ticks :: u64
  dp_allow_degraded_classification :: bool
  dp_degraded_min_completeness_permille :: u32
  dp_degraded_severity_cap :: severity
  dp_allow_capacity_change_within_window :: bool

definition detection_policy_default :: detection_policy where
  "detection_policy_default = \<lparr>
     dp_window_capacity = 64, dp_nominal_sample_interval_ticks = 1, dp_max_sample_gap_ticks = 4,
     dp_min_samples_for_classification = 8, dp_min_completeness_permille = 900,
     dp_staleness_limit_ticks = 16, dp_reorder_tolerance_ticks = 0,
     dp_onset_min_depth = 1024, dp_onset_min_slope_q16 = rate_from_whole 8,
     dp_onset_sustain_ticks = 2, dp_onset_slope_window_ticks = 4,
     dp_release_depth = 256, dp_release_slope_q16 = rate_from_whole 2, dp_release_sustain_ticks = 3,
     dp_occupancy_permille_ladder = [700, 850, 950, 990],
     dp_depth_ladder = [512, 2048, 8192, 32768],
     dp_slope_ladder = [rate_from_whole 4, rate_from_whole 16, rate_from_whole 64, rate_from_whole 256],
     dp_duration_ladder = [2, 8, 32, 128], dp_drop_ladder = [1, 16, 256, 4096],
     dp_onset_merge_ticks = 8, dp_cooldown_ticks = 32, dp_max_episode_ticks = 4096,
     dp_evidence_grace_ticks = 8, dp_allow_degraded_classification = False,
     dp_degraded_min_completeness_permille = 500, dp_degraded_severity_cap = SevMinor,
     dp_allow_capacity_change_within_window = False\<rparr>"

record kind_limit =
  kl_enabled :: bool
  kl_magnitude_permille :: u32
  kl_ttl_ticks :: u64
  kl_min_severity :: severity

definition kind_limit_default :: kind_limit where
  "kind_limit_default = \<lparr>kl_enabled = False, kl_magnitude_permille = 0, kl_ttl_ticks = 0,
     kl_min_severity = SevModerate\<rparr>"

record intervention_policy =
  ip_kinds :: "kind_limit list"
  ip_max_concurrent_per_stream :: u32
  ip_max_concurrent_total :: u32
  ip_require_authoritative_evidence :: bool

definition intervention_policy_default :: intervention_policy where
  "intervention_policy_default = \<lparr>ip_kinds = replicate kInterventionKindCount kind_limit_default,
     ip_max_concurrent_per_stream = 2, ip_max_concurrent_total = 64,
     ip_require_authoritative_evidence = True\<rparr>"

record policy =
  po_id :: u64
  po_detection :: detection_policy
  po_intervention :: intervention_policy

definition policy_shape :: "policy \<Rightarrow> bool" where
  "policy_shape p \<longleftrightarrow> length (ip_kinds (po_intervention p)) = kInterventionKindCount \<and>
     (let d = po_detection p in
      list_all (\<lambda>l. length l = kSteps) [dp_occupancy_permille_ladder d, dp_depth_ladder d,
        dp_slope_ladder d, dp_duration_ladder d, dp_drop_ladder d])"

definition flag_word :: "bool \<Rightarrow> u64" where
  "flag_word b = (if b then 1 else 0)"

definition kind_limit_fields :: "kind_limit \<Rightarrow> u64 list" where
  "kind_limit_fields l = [flag_word (kl_enabled l), ucast (kl_magnitude_permille l), kl_ttl_ticks l,
     ucast (severity_raw (kl_min_severity l))]"

text \<open>The fields in the order they are folded into the digest.\<close>

definition policy_fields :: "policy \<Rightarrow> u64 list" where
  "policy_fields p =
     (let d = po_detection p; ip = po_intervention p in
      [po_id p, dp_window_capacity d, dp_nominal_sample_interval_ticks d, dp_max_sample_gap_ticks d,
       dp_min_samples_for_classification d, ucast (dp_min_completeness_permille d),
       dp_staleness_limit_ticks d, dp_reorder_tolerance_ticks d, dp_onset_min_depth d,
       dp_onset_min_slope_q16 d, dp_onset_sustain_ticks d, dp_onset_slope_window_ticks d,
       dp_release_depth d, dp_release_slope_q16 d, dp_release_sustain_ticks d] @
      dp_occupancy_permille_ladder d @ dp_depth_ladder d @ dp_slope_ladder d @
      dp_duration_ladder d @ dp_drop_ladder d @
      [dp_onset_merge_ticks d, dp_cooldown_ticks d, dp_max_episode_ticks d,
       dp_evidence_grace_ticks d, flag_word (dp_allow_degraded_classification d),
       ucast (dp_degraded_min_completeness_permille d), ucast (severity_raw (dp_degraded_severity_cap d)),
       flag_word (dp_allow_capacity_change_within_window d)] @
      concat (map kind_limit_fields (ip_kinds ip)) @
      [ucast (ip_max_concurrent_per_stream ip), ucast (ip_max_concurrent_total ip),
       flag_word (ip_require_authoritative_evidence ip)])"

definition policy_digest :: "policy \<Rightarrow> u64" where
  "policy_digest p = foldl hash_combine 0x5143F00D1234ABCD (policy_fields p)"

definition string_bytes :: "string \<Rightarrow> byte list" where
  "string_bytes s = map (\<lambda>c. of_nat (of_char c)) s"

definition make_policy_id :: "string \<Rightarrow> u64" where
  "make_policy_id name = fnv1a64 (string_bytes name)"

definition make_default_policy :: policy where
  "make_default_policy = \<lparr>po_id = make_policy_id ''mbg.default.v1'',
     po_detection = detection_policy_default,
     po_intervention = intervention_policy_default\<lparr>ip_kinds :=
       [\<lparr>kl_enabled = True, kl_magnitude_permille = 250, kl_ttl_ticks = 64, kl_min_severity = SevModerate\<rparr>,
        \<lparr>kl_enabled = True, kl_magnitude_permille = 125, kl_ttl_ticks = 32, kl_min_severity = SevSevere\<rparr>,
        \<lparr>kl_enabled = False, kl_magnitude_permille = 0, kl_ttl_ticks = 0, kl_min_severity = SevSevere\<rparr>,
        \<lparr>kl_enabled = True, kl_magnitude_permille = 1000, kl_ttl_ticks = 128, kl_min_severity = SevSevere\<rparr>]\<rparr>\<rparr>"

section \<open>Validation\<close>

definition validate_detection :: "detection_policy \<Rightarrow> status" where
  "validate_detection d =
     (if dp_window_capacity d < of_nat kMinWindowCapacity \<or> dp_window_capacity d > of_nat kMaxWindowCapacity then
        failure StOutOfRange ''window capacity outside supported bounds''
      else if dp_nominal_sample_interval_ticks d = 0 then
        failure StInvalidArgument ''nominal sample interval must be positive''
      else if dp_min_samples_for_classification d < 2 then
        failure StInvalidArgument ''at least two samples are required''
      else if dp_min_samples_for_classification d > dp_window_capacity d then
        failure StInvalidArgument ''minimum samples exceed the window capacity''
      else if dp_min_completeness_permille d > 1000 then
        failure StOutOfRange ''completeness threshold above 1000 per-mille''
      else if dp_max_sample_gap_ticks d < dp_nominal_sample_interval_ticks d then
        failure StInvalidArgument ''max sample gap below the nominal sample interval''
      else if dp_staleness_limit_ticks d < dp_nominal_sample_interval_ticks d then
        failure StInvalidArgument ''staleness limit below the nominal sample interval''
      else if dp_staleness_limit_ticks d > kMaxWindowSpanTicks then
        failure StOutOfRange ''staleness limit above the supported span''
      else if dp_onset_sustain_ticks d = 0 \<or> dp_onset_sustain_ticks d > kMaxSustainTicks then
        failure StOutOfRange ''onset sustain ticks outside supported bounds''
      else if dp_release_sustain_ticks d = 0 \<or> dp_release_sustain_ticks d > kMaxSustainTicks then
        failure StOutOfRange ''release sustain ticks outside supported bounds''
      else if dp_onset_slope_window_ticks d < dp_onset_sustain_ticks d \<or>
              dp_onset_slope_window_ticks d > kMaxWindowSpanTicks then
        failure StOutOfRange ''onset slope window must cover the sustain interval and stay bounded''
      else if dp_onset_min_depth d = 0 then
        failure StInvalidArgument ''onset depth threshold must be positive''
      else if dp_release_depth d \<ge> dp_onset_min_depth d then
        failure StInvalidArgument ''release depth must be strictly below onset depth (hysteresis)''
      else if sint (dp_onset_min_slope_q16 d) < 0 \<or> sint (dp_release_slope_q16 d) < 0 then
        failure StInvalidArgument ''slope thresholds cannot be negative''
      else if sint (dp_release_slope_q16 d) > sint (dp_onset_min_slope_q16 d) then
        failure StInvalidArgument ''release slope must not exceed the onset slope (hysteresis)''
      else if \<not> list_all ladder_monotonic [dp_occupancy_permille_ladder d, dp_depth_ladder d,
                dp_slope_ladder d, dp_duration_ladder d, dp_drop_ladder d] then
        failure StInvalidArgument ''severity ladder is not monotonic''
      else if list_ex (\<lambda>t. t > 1000) (dp_occupancy_permille_ladder d) then
        failure StOutOfRange ''occupancy ladder threshold above 1000 per-mille''
      else if dp_onset_merge_ticks d > kMaxWindowSpanTicks then
        failure StOutOfRange ''onset merge window above the supported span''
      else if dp_cooldown_ticks d > kMaxCooldownTicks then
        failure StOutOfRange ''cooldown above the supported span''
      else if dp_max_episode_ticks d = 0 \<or> dp_max_episode_ticks d > kMaxEpisodeTicks then
        failure StOutOfRange ''episode ceiling outside supported bounds''
      else if dp_evidence_grace_ticks d = 0 \<or> dp_evidence_grace_ticks d > kMaxWindowSpanTicks then
        failure StOutOfRange ''evidence grace outside supported bounds''
      else if dp_allow_degraded_classification d \<and>
              dp_degraded_min_completeness_permille d > dp_min_completeness_permille d then
        failure StInvalidArgument ''degraded completeness floor above the authoritative floor''
      else if dp_allow_degraded_classification d \<and>
              severity_at_least (dp_degraded_severity_cap d) SevSevere then
        failure StInvalidArgument ''degraded severity cap must stay below severe''
      else status_ok)"

definition validate_kind :: "kind_limit \<Rightarrow> status" where
  "validate_kind l =
     (if \<not> kl_enabled l then status_ok
      else if kl_magnitude_permille l = 0 \<or> kl_magnitude_permille l > kMaxMagnitudePermille then
        failure StOutOfRange ''intervention magnitude out of range''
      else if kl_ttl_ticks l = 0 \<or> kl_ttl_ticks l > kMaxInterventionTtlTicks then
        failure StOutOfRange ''intervention ttl out of range''
      else if severity_raw (kl_min_severity l) < severity_raw SevMinor \<or>
              \<not> is_valid_severity (severity_raw (kl_min_severity l)) then
        failure StOutOfRange ''intervention severity floor out of range''
      else status_ok)"

fun validate_kinds :: "kind_limit list \<Rightarrow> status" where
  "validate_kinds [] = status_ok"
| "validate_kinds (l # ls) =
     (let s = validate_kind l in if \<not> is_ok s then s else validate_kinds ls)"

definition validate_concurrency :: "intervention_policy \<Rightarrow> status" where
  "validate_concurrency ip =
     (if ip_max_concurrent_per_stream ip = 0 \<or> ip_max_concurrent_total ip = 0 then
        failure StInvalidArgument ''concurrency limits must be positive''
      else if ip_max_concurrent_per_stream ip > of_nat kMaxInterventions \<or>
              ip_max_concurrent_total ip > of_nat kMaxInterventions then
        failure StOutOfRange ''concurrency limits above supported bounds''
      else if ip_max_concurrent_per_stream ip > ip_max_concurrent_total ip then
        failure StInvalidArgument ''per-stream concurrency limit above the global limit''
      else status_ok)"

definition validate_policy :: "policy \<Rightarrow> status" where
  "validate_policy p =
     (let s = validate_detection (po_detection p) in
      if \<not> is_ok s then s
      else let s = validate_kinds (ip_kinds (po_intervention p)) in
      if \<not> is_ok s then s
      else validate_concurrency (po_intervention p))"

section \<open>The policy set\<close>

text \<open>
  \<open>overrides_\<close> is the vector in insertion order and \<open>index_\<close> the hash index from a resource to
  its position.
\<close>

record policy_override =
  ov_resource :: u64
  ov_policy :: policy

record policy_set =
  ps_fallback :: policy
  ps_overrides :: "policy_override list"
  ps_index :: "u64 \<rightharpoonup> nat"
  ps_generation :: u32
  ps_digest :: u64

definition fold_override :: "u64 \<Rightarrow> policy_override \<Rightarrow> u64" where
  "fold_override h e = hash_combine (hash_combine h (ov_resource e)) (policy_digest (ov_policy e))"

definition set_digest :: "u32 \<Rightarrow> policy \<Rightarrow> policy_override list \<Rightarrow> u64" where
  "set_digest generation fallback overrides =
     foldl fold_override
       (hash_combine (hash_combine 0xB16B00B5DEADC0DE (ucast generation)) (policy_digest fallback)) overrides"

definition recompute_digest :: "policy_set \<Rightarrow> policy_set" where
  "recompute_digest s = s\<lparr>ps_digest := set_digest (ps_generation s) (ps_fallback s) (ps_overrides s)\<rparr>"

definition policy_set_init :: policy_set where
  "policy_set_init = recompute_digest \<lparr>ps_fallback = make_default_policy, ps_overrides = [],
     ps_index = Map.empty, ps_generation = 1, ps_digest = 0\<rparr>"

definition bump_generation :: "policy_set \<Rightarrow> status \<times> policy_set" where
  "bump_generation s =
     (case add_checked_u (ps_generation s) 1 of
        None \<Rightarrow> (failure StOverflow ''policy generation exhausted'', s)
      | Some next \<Rightarrow> (status_ok, s\<lparr>ps_generation := next\<rparr>))"

definition set_fallback :: "policy \<Rightarrow> policy_set \<Rightarrow> status \<times> policy_set" where
  "set_fallback p s =
     (let st = validate_policy p in
      if \<not> is_ok st then (st, s)
      else let (bump, s) = bump_generation s in
      if \<not> is_ok bump then (bump, s)
      else (status_ok, recompute_digest (s\<lparr>ps_fallback := p\<rparr>)))"

definition has_override :: "u64 \<Rightarrow> policy_set \<Rightarrow> bool" where
  "has_override resource s \<longleftrightarrow> ps_index s resource \<noteq> None"

definition set_override :: "u64 \<Rightarrow> policy \<Rightarrow> policy_set \<Rightarrow> status \<times> policy_set" where
  "set_override resource p s =
     (if \<not> id_valid resource then
        (failure StInvalidArgument ''override resource identity is invalid'', s)
      else let st = validate_policy p in
      if \<not> is_ok st then (st, s)
      else let existing = ps_index s resource in
      if existing = None \<and> length (ps_overrides s) \<ge> kMaxPolicyOverrides then
        (failure StCapacityExceeded ''policy override capacity exhausted'', s)
      else let (bump, s) = bump_generation s in
      if \<not> is_ok bump then (bump, s)
      else (status_ok, recompute_digest
        (case existing of
           Some i \<Rightarrow> s\<lparr>ps_overrides := (ps_overrides s)[i := (ps_overrides s ! i)\<lparr>ov_policy := p\<rparr>]\<rparr>
         | None \<Rightarrow> s\<lparr>ps_index := (ps_index s)(resource \<mapsto> length (ps_overrides s)),
                    ps_overrides := ps_overrides s @ [\<lparr>ov_resource = resource, ov_policy = p\<rparr>]\<rparr>)))"

text \<open>\<open>emplace\<close> keeps an entry that is already present.\<close>

definition emplace :: "u64 \<Rightarrow> nat \<Rightarrow> (u64 \<rightharpoonup> nat) \<Rightarrow> (u64 \<rightharpoonup> nat)" where
  "emplace k v m = (case m k of None \<Rightarrow> m(k \<mapsto> v) | Some _ \<Rightarrow> m)"

fun index_from :: "nat \<Rightarrow> policy_override list \<Rightarrow> (u64 \<rightharpoonup> nat) \<Rightarrow> (u64 \<rightharpoonup> nat)" where
  "index_from i [] m = m"
| "index_from i (e # es) m = index_from (i + 1) es (emplace (ov_resource e) i m)"

definition erase_at :: "nat \<Rightarrow> 'a list \<Rightarrow> 'a list" where
  "erase_at i xs = take i xs @ drop (Suc i) xs"

definition remove_override :: "u64 \<Rightarrow> policy_set \<Rightarrow> status \<times> policy_set" where
  "remove_override resource s =
     (case ps_index s resource of
        None \<Rightarrow> (failure StNotFound ''no override for the supplied resource'', s)
      | Some i \<Rightarrow>
          let (bump, s) = bump_generation s in
          if \<not> is_ok bump then (bump, s)
          else let es = erase_at i (ps_overrides s) in
            (status_ok, recompute_digest (s\<lparr>ps_overrides := es, ps_index := index_from 0 es Map.empty\<rparr>)))"

definition clear_overrides :: "policy_set \<Rightarrow> policy_set" where
  "clear_overrides s =
     (if ps_overrides s = [] then s
      else let (bump, s) = bump_generation s in
      if is_ok bump then recompute_digest (s\<lparr>ps_overrides := [], ps_index := Map.empty\<rparr>) else s)"

definition resolve :: "policy_set \<Rightarrow> u64 \<Rightarrow> policy" where
  "resolve s resource =
     (case ps_index s resource of
        None \<Rightarrow> ps_fallback s
      | Some i \<Rightarrow> ov_policy (ps_overrides s ! i))"

text \<open>The loop of \<open>restore\<close> over the recovered overrides, on the candidate's vector and index.\<close>

fun restore_overrides ::
  "policy_override list \<Rightarrow> policy_override list \<Rightarrow> (u64 \<rightharpoonup> nat) \<Rightarrow>
     (policy_override list \<times> (u64 \<rightharpoonup> nat)) result" where
  "restore_overrides [] done m = Inr (done, m)"
| "restore_overrides (e # es) done m =
     (if \<not> id_valid (ov_resource e) then
        Inl (failure StCorrupt ''restored override resource is invalid'')
      else if m (ov_resource e) \<noteq> None then
        Inl (failure StCorrupt ''restored override set contains a duplicate'')
      else let st = validate_policy (ov_policy e) in
      if \<not> is_ok st then Inl st
      else restore_overrides es (done @ [e]) (emplace (ov_resource e) (length done) m))"

definition policy_set_restore ::
  "policy \<Rightarrow> policy_override list \<Rightarrow> u32 \<Rightarrow> policy_set result" where
  "policy_set_restore fallback overrides generation =
     (if generation = 0 then Inl (failure StInvalidArgument ''restored policy generation is zero'')
      else if length overrides > kMaxPolicyOverrides then
        Inl (failure StCapacityExceeded ''restored override count above bounds'')
      else let st = validate_policy fallback in
      if \<not> is_ok st then Inl st
      else case restore_overrides overrides [] Map.empty of
        Inl e \<Rightarrow> Inl e
      | Inr (es, m) \<Rightarrow>
          Inr (recompute_digest (policy_set_init\<lparr>ps_overrides := es, ps_index := m,
            ps_fallback := fallback, ps_generation := generation\<rparr>)))"

section \<open>Codec\<close>

definition encode_ladder :: "grade_ladder \<Rightarrow> byte list" where
  "encode_ladder l = concat (map put_u64 l)"

definition decode_ladder :: "reader \<Rightarrow> (grade_ladder \<times> reader) result" where
  "decode_ladder r =
     (let (l, r) = get_many get_u64 kSteps r in
      if \<not> rd_ok r then Inl (failure StTruncated ''policy ladder payload is truncated'') else Inr (l, r))"

definition encode_kind_limit :: "kind_limit \<Rightarrow> byte list" where
  "encode_kind_limit l = put_bool (kl_enabled l) @ put_u32 (kl_magnitude_permille l) @
     put_u64 (kl_ttl_ticks l) @ put_u8 (severity_raw (kl_min_severity l))"

definition decode_kind_limit :: "reader \<Rightarrow> (kind_limit \<times> reader) result" where
  "decode_kind_limit r =
     (let (enabled, r) = get_bool r; (magnitude, r) = get_u32 r; (ttl, r) = get_u64 r;
          (sev, r) = get_u8 r
      in if \<not> rd_ok r then Inl (failure StTruncated ''policy kind limit payload is truncated'')
         else Inr (\<lparr>kl_enabled = enabled, kl_magnitude_permille = magnitude, kl_ttl_ticks = ttl,
                    kl_min_severity = severity_of_raw sev\<rparr>, r))"

definition encode_policy :: "policy \<Rightarrow> byte list" where
  "encode_policy p =
     (let d = po_detection p; ip = po_intervention p in
      put_u64 (po_id p) @ put_u64 (dp_window_capacity d) @
      put_u64 (dp_nominal_sample_interval_ticks d) @ put_u64 (dp_max_sample_gap_ticks d) @
      put_u64 (dp_min_samples_for_classification d) @ put_u32 (dp_min_completeness_permille d) @
      put_u64 (dp_staleness_limit_ticks d) @ put_u64 (dp_reorder_tolerance_ticks d) @
      put_u64 (dp_onset_min_depth d) @ put_i64 (dp_onset_min_slope_q16 d) @
      put_u64 (dp_onset_sustain_ticks d) @ put_u64 (dp_onset_slope_window_ticks d) @
      put_u64 (dp_release_depth d) @ put_i64 (dp_release_slope_q16 d) @
      put_u64 (dp_release_sustain_ticks d) @
      encode_ladder (dp_occupancy_permille_ladder d) @ encode_ladder (dp_depth_ladder d) @
      encode_ladder (dp_slope_ladder d) @ encode_ladder (dp_duration_ladder d) @
      encode_ladder (dp_drop_ladder d) @
      put_u64 (dp_onset_merge_ticks d) @ put_u64 (dp_cooldown_ticks d) @
      put_u64 (dp_max_episode_ticks d) @ put_u64 (dp_evidence_grace_ticks d) @
      put_bool (dp_allow_degraded_classification d) @
      put_u32 (dp_degraded_min_completeness_permille d) @
      put_u8 (severity_raw (dp_degraded_severity_cap d)) @
      put_bool (dp_allow_capacity_change_within_window d) @
      concat (map encode_kind_limit (ip_kinds ip)) @
      put_u32 (ip_max_concurrent_per_stream ip) @ put_u32 (ip_max_concurrent_total ip) @
      put_bool (ip_require_authoritative_evidence ip))"

text \<open>The tail of the record, after the five ladders.\<close>

definition decode_policy_tail ::
  "(grade_ladder \<Rightarrow> grade_ladder \<Rightarrow> grade_ladder \<Rightarrow> grade_ladder \<Rightarrow> grade_ladder \<Rightarrow>
     detection_policy) \<Rightarrow> u64 \<Rightarrow> grade_ladder list \<Rightarrow> reader \<Rightarrow> (policy \<times> reader) result" where
  "decode_policy_tail head i ladders r =
     (let (merge, r) = get_u64 r; (cooldown, r) = get_u64 r; (ceiling, r) = get_u64 r;
          (grace, r) = get_u64 r; (allow_degraded, r) = get_bool r; (degraded_min, r) = get_u32 r;
          (cap, r) = get_u8 r; (allow_capacity, r) = get_bool r
      in case decode_many decode_kind_limit kInterventionKindCount r of
           Inl e \<Rightarrow> Inl e
         | Inr (kinds, r) \<Rightarrow>
     (let (per_stream, r) = get_u32 r; (total, r) = get_u32 r; (require, r) = get_bool r
      in if \<not> rd_ok r then Inl (failure StTruncated ''policy payload is truncated'')
         else let d = head (ladders ! 0) (ladders ! 1) (ladders ! 2) (ladders ! 3) (ladders ! 4);
                  p = \<lparr>po_id = i,
                    po_detection = d\<lparr>dp_onset_merge_ticks := merge, dp_cooldown_ticks := cooldown,
                      dp_max_episode_ticks := ceiling, dp_evidence_grace_ticks := grace,
                      dp_allow_degraded_classification := allow_degraded,
                      dp_degraded_min_completeness_permille := degraded_min,
                      dp_degraded_severity_cap := severity_of_raw cap,
                      dp_allow_capacity_change_within_window := allow_capacity\<rparr>,
                    po_intervention = \<lparr>ip_kinds = kinds, ip_max_concurrent_per_stream = per_stream,
                      ip_max_concurrent_total = total, ip_require_authoritative_evidence = require\<rparr>\<rparr>;
                  st = validate_policy p
              in if is_ok st then Inr (p, r) else Inl st))"

definition decode_policy :: "reader \<Rightarrow> (policy \<times> reader) result" where
  "decode_policy r =
     (let (i, r) = get_u64 r; (capacity, r) = get_u64 r; (nominal, r) = get_u64 r;
          (gap, r) = get_u64 r; (min_samples, r) = get_u64 r; (completeness, r) = get_u32 r;
          (staleness, r) = get_u64 r; (reorder, r) = get_u64 r; (onset_depth, r) = get_u64 r;
          (onset_slope, r) = get_i64 r; (onset_sustain, r) = get_u64 r;
          (slope_window, r) = get_u64 r; (release_depth, r) = get_u64 r;
          (release_slope, r) = get_i64 r; (release_sustain, r) = get_u64 r
      in case decode_many decode_ladder 5 r of
           Inl e \<Rightarrow> Inl e
         | Inr (ladders, r) \<Rightarrow>
             decode_policy_tail (\<lambda>occupancy depth slope duration drops.
               detection_policy_default\<lparr>dp_window_capacity := capacity,
                 dp_nominal_sample_interval_ticks := nominal, dp_max_sample_gap_ticks := gap,
                 dp_min_samples_for_classification := min_samples,
                 dp_min_completeness_permille := completeness, dp_staleness_limit_ticks := staleness,
                 dp_reorder_tolerance_ticks := reorder, dp_onset_min_depth := onset_depth,
                 dp_onset_min_slope_q16 := onset_slope, dp_onset_sustain_ticks := onset_sustain,
                 dp_onset_slope_window_ticks := slope_window, dp_release_depth := release_depth,
                 dp_release_slope_q16 := release_slope, dp_release_sustain_ticks := release_sustain,
                 dp_occupancy_permille_ladder := occupancy, dp_depth_ladder := depth,
                 dp_slope_ladder := slope, dp_duration_ladder := duration,
                 dp_drop_ladder := drops\<rparr>) i ladders r)"

section \<open>Laws of the ladders\<close>

text \<open>
  On a ladder that passed the monotonicity check the grade is the number of enabled thresholds
  the value has reached, so it is monotone in the value.
\<close>

definition reached :: "u64 \<Rightarrow> u64 \<Rightarrow> bool" where
  "reached v t \<longleftrightarrow> t \<noteq> kDisabledStep \<and> t \<le> v"

lemma kDisabledStep_top: "t \<le> kDisabledStep"
  by (simp add: kDisabledStep_def)

lemma reached_antimono: "a \<le> b \<Longrightarrow> reached v b \<Longrightarrow> reached v a"
  using kDisabledStep_top [of b] by (auto simp: reached_def dest: order.antisym)

lemma ladder_cases:
  assumes "length l = kSteps"
  obtains a b c d where "l = [a, b, c, d]"
  using assms unfolding kSteps_def by (auto simp: numeral_eq_Suc length_Suc_conv)

lemma ladder_monotonic_4: "ladder_monotonic [a, b, c, d] \<longleftrightarrow> a \<le> b \<and> b \<le> c \<and> c \<le> d"
  by (auto simp: ladder_monotonic_def kSteps_def upt_rec numeral_eq_Suc not_less)

lemma grade_4:
  "grade [a, b, c, d] v =
     (if reached v d then SevCritical else if reached v c then SevSevere
      else if reached v b then SevModerate else if reached v a then SevMinor else SevNone)"
  by (simp add: grade_def reached_def severity_of_raw_def)

lemma grade_count:
  assumes "length l = kSteps" "ladder_monotonic l"
  shows "unat (severity_raw (grade l v)) = length (filter (reached v) l)"
proof -
  obtain a b c d where l: "l = [a, b, c, d]" using ladder_cases [OF assms(1)] .
  with assms(2) have "a \<le> b" "b \<le> c" "c \<le> d" by (simp_all add: ladder_monotonic_4)
  then show ?thesis unfolding l grade_4
    using reached_antimono [of a b v] reached_antimono [of b c v] reached_antimono [of c d v] by auto
qed

lemma grade_mono:
  assumes "length l = kSteps" "ladder_monotonic l" "v \<le> w"
  shows "severity_raw (grade l v) \<le> severity_raw (grade l w)"
proof -
  have "reached v t \<Longrightarrow> reached w t" for t using assms(3) by (auto simp: reached_def)
  then have "length (filter (reached v) l) \<le> length (filter (reached w) l)"
    by (induction l) auto
  then show ?thesis using assms by (simp add: word_le_nat_alt grade_count)
qed

lemma grade_loop_wf: "severity_wf s \<Longrightarrow> severity_wf (grade_loop i l v s)"
  by (induction i l v s rule: grade_loop.induct) simp_all

lemma grade_wf [simp]: "severity_wf (grade l v)" "severity_wf (grade_rate l w)"
  by (simp_all add: grade_def grade_rate_def grade_loop_wf)

section \<open>Laws of validation\<close>

lemma validate_policy_ok_iff:
  "is_ok (validate_policy p) \<longleftrightarrow>
     is_ok (validate_detection (po_detection p)) \<and>
     is_ok (validate_kinds (ip_kinds (po_intervention p))) \<and>
     is_ok (validate_concurrency (po_intervention p))"
  by (simp add: validate_policy_def Let_def)

lemma validate_kinds_ok_iff: "is_ok (validate_kinds ls) \<longleftrightarrow> list_all (\<lambda>l. is_ok (validate_kind l)) ls"
  by (induction ls) (simp_all add: Let_def)

lemma validate_kind_ok:
  assumes "is_ok (validate_kind l)" "kl_enabled l"
  shows "0 < kl_magnitude_permille l" "kl_magnitude_permille l \<le> kMaxMagnitudePermille"
    "0 < kl_ttl_ticks l" "kl_ttl_ticks l \<le> kMaxInterventionTtlTicks"
    "severity_raw SevMinor \<le> severity_raw (kl_min_severity l)"
  using assms by (auto simp: validate_kind_def not_less word_gt_0 word_le_nat_alt word_less_nat_alt unat_gt_0 Suc_le_eq split: if_splits)

lemma validate_concurrency_ok:
  assumes "is_ok (validate_concurrency ip)"
  shows "0 < ip_max_concurrent_per_stream ip"
    "ip_max_concurrent_per_stream ip \<le> ip_max_concurrent_total ip"
    "ip_max_concurrent_total ip \<le> of_nat kMaxInterventions"
  using assms by (auto simp: validate_concurrency_def not_less word_gt_0 split: if_splits)

lemma validate_detection_ok:
  assumes "is_ok (validate_detection d)"
  shows "of_nat kMinWindowCapacity \<le> dp_window_capacity d" "dp_window_capacity d \<le> of_nat kMaxWindowCapacity"
    "dp_nominal_sample_interval_ticks d \<noteq> 0"
    "2 \<le> dp_min_samples_for_classification d"
    "dp_min_samples_for_classification d \<le> dp_window_capacity d"
    "dp_min_completeness_permille d \<le> 1000"
    "dp_onset_sustain_ticks d \<noteq> 0" "dp_release_sustain_ticks d \<noteq> 0"
    "dp_onset_min_depth d \<noteq> 0" "dp_release_depth d < dp_onset_min_depth d"
    "0 \<le> sint (dp_release_slope_q16 d)" "sint (dp_release_slope_q16 d) \<le> sint (dp_onset_min_slope_q16 d)"
    "dp_cooldown_ticks d \<le> kMaxCooldownTicks" "dp_max_episode_ticks d \<noteq> 0"
    "dp_staleness_limit_ticks d \<le> kMaxWindowSpanTicks"
    "dp_allow_degraded_classification d \<Longrightarrow> \<not> severity_at_least (dp_degraded_severity_cap d) SevSevere"
  using assms unfolding validate_detection_def
  by (simp_all add: not_less not_le split: if_split_asm)

lemma default_policy_valid: "validate_policy make_default_policy = status_ok"
  unfolding validate_policy_def make_default_policy_def detection_policy_default_def
    intervention_policy_default_def validate_detection_def
  by (simp add: limit_defs rate_from_whole_def kRateFractionBits_def ladder_monotonic_4
      severity_at_least_def validate_kind_def is_valid_severity_def validate_concurrency_def Let_def)

section \<open>Laws of the codec\<close>

definition policy_wf :: "policy \<Rightarrow> bool" where
  "policy_wf p \<longleftrightarrow> policy_shape p \<and> is_ok (validate_policy p) \<and>
     severity_wf (dp_degraded_severity_cap (po_detection p)) \<and>
     list_all (\<lambda>l. severity_wf (kl_min_severity l)) (ip_kinds (po_intervention p))"

interpretation ladder_codec: decoder encode_ladder decode_ladder "\<lambda>l. length l = kSteps"
  by unfold_locales (simp add: decode_ladder_def encode_ladder_def c64.get_many_put)

interpretation kind_codec: decoder encode_kind_limit decode_kind_limit "\<lambda>l. severity_wf (kl_min_severity l)"
  unfolding encode_kind_limit_def decode_kind_limit_def
  by unfold_locales (simp add: codec severity_of_raw_raw)

lemma decode_ladders_encode:
  assumes "list_all (\<lambda>l. length l = kSteps) [a, b, c, d, e]"
  shows "decode_many decode_ladder 5
      (rd_at pre (encode_ladder a @ encode_ladder b @ encode_ladder c @ encode_ladder d @ encode_ladder e @ rest)) =
    Inr ([a, b, c, d, e],
      rd_at (pre @ encode_ladder a @ encode_ladder b @ encode_ladder c @ encode_ladder d @ encode_ladder e) rest)"
  using assms ladder_codec.decode_many_enc [of "[a, b, c, d, e]" pre rest]
  by (auto simp: numeral_eq_Suc)

lemma decode_kinds_encode:
  assumes "length ks = kInterventionKindCount" "list_all (\<lambda>l. severity_wf (kl_min_severity l)) ks"
  shows "decode_many decode_kind_limit kInterventionKindCount (rd_at pre (concat (map encode_kind_limit ks) @ rest)) =
    Inr (ks, rd_at (pre @ concat (map encode_kind_limit ks)) rest)"
  using assms kind_codec.decode_many_enc [of ks pre rest] by (auto simp: list_all_iff)

lemma detection_eta:
  "detection_policy_default\<lparr>dp_window_capacity := dp_window_capacity d,
     dp_nominal_sample_interval_ticks := dp_nominal_sample_interval_ticks d,
     dp_max_sample_gap_ticks := dp_max_sample_gap_ticks d,
     dp_min_samples_for_classification := dp_min_samples_for_classification d,
     dp_min_completeness_permille := dp_min_completeness_permille d,
     dp_staleness_limit_ticks := dp_staleness_limit_ticks d,
     dp_reorder_tolerance_ticks := dp_reorder_tolerance_ticks d,
     dp_onset_min_depth := dp_onset_min_depth d,
     dp_onset_min_slope_q16 := dp_onset_min_slope_q16 d,
     dp_onset_sustain_ticks := dp_onset_sustain_ticks d,
     dp_onset_slope_window_ticks := dp_onset_slope_window_ticks d,
     dp_release_depth := dp_release_depth d,
     dp_release_slope_q16 := dp_release_slope_q16 d,
     dp_release_sustain_ticks := dp_release_sustain_ticks d,
     dp_occupancy_permille_ladder := dp_occupancy_permille_ladder d,
     dp_depth_ladder := dp_depth_ladder d,
     dp_slope_ladder := dp_slope_ladder d,
     dp_duration_ladder := dp_duration_ladder d,
     dp_drop_ladder := dp_drop_ladder d,
     dp_onset_merge_ticks := dp_onset_merge_ticks d,
     dp_cooldown_ticks := dp_cooldown_ticks d,
     dp_max_episode_ticks := dp_max_episode_ticks d,
     dp_evidence_grace_ticks := dp_evidence_grace_ticks d,
     dp_allow_degraded_classification := dp_allow_degraded_classification d,
     dp_degraded_min_completeness_permille := dp_degraded_min_completeness_permille d,
     dp_degraded_severity_cap := dp_degraded_severity_cap d,
     dp_allow_capacity_change_within_window := dp_allow_capacity_change_within_window d\<rparr> = d"
  by (cases d) (simp add: detection_policy_default_def)

lemma intervention_policy_eta:
  "\<lparr>ip_kinds = ip_kinds ip, ip_max_concurrent_per_stream = ip_max_concurrent_per_stream ip,
     ip_max_concurrent_total = ip_max_concurrent_total ip,
     ip_require_authoritative_evidence = ip_require_authoritative_evidence ip\<rparr> = ip"
  by (cases ip) simp

interpretation policy_codec: decoder encode_policy decode_policy policy_wf
proof unfold_locales
  fix p pre rest
  assume w: "policy_wf p"
  obtain i d ip where p: "p = \<lparr>po_id = i, po_detection = d, po_intervention = ip\<rparr>" by (cases p)
  from w have l: "list_all (\<lambda>l. length l = kSteps) [dp_occupancy_permille_ladder d,
      dp_depth_ladder d, dp_slope_ladder d, dp_duration_ladder d, dp_drop_ladder d]"
    and k: "length (ip_kinds ip) = kInterventionKindCount"
      "list_all (\<lambda>l. severity_wf (kl_min_severity l)) (ip_kinds ip)"
    and s: "severity_wf (dp_degraded_severity_cap d)"
    by (simp_all add: policy_wf_def policy_shape_def p Let_def)
  have ok: "is_ok (validate_policy \<lparr>po_id = i, po_detection = d, po_intervention = ip\<rparr>)"
    using w by (simp add: policy_wf_def p)
  show "decode_policy (rd_at pre (encode_policy p @ rest)) = Inr (p, rd_at (pre @ encode_policy p) rest)"
    unfolding decode_policy_def encode_policy_def p Let_def policy.simps append_assoc
    using ok
    by (simp add: codec decode_ladders_encode [OF l] decode_policy_tail_def decode_kinds_encode [OF k]
        severity_of_raw_raw [OF s] detection_eta intervention_policy_eta Let_def)
qed

section \<open>Laws of the policy set\<close>

text \<open>The position of a resource in the override vector: what the hash index must hold.\<close>

fun position :: "u64 \<Rightarrow> policy_override list \<Rightarrow> nat option" where
  "position r [] = None"
| "position r (e # es) = (if ov_resource e = r then Some 0 else map_option Suc (position r es))"

definition ps_lookup :: "policy_override list \<Rightarrow> u64 \<Rightarrow> policy option" where
  "ps_lookup es = map_of (map (\<lambda>e. (ov_resource e, ov_policy e)) es)"

definition ps_inv :: "policy_set \<Rightarrow> bool" where
  "ps_inv s \<longleftrightarrow>
     ps_index s = (\<lambda>r. position r (ps_overrides s)) \<and>
     distinct (map ov_resource (ps_overrides s)) \<and>
     length (ps_overrides s) \<le> kMaxPolicyOverrides \<and>
     ps_digest s = set_digest (ps_generation s) (ps_fallback s) (ps_overrides s) \<and>
     ps_generation s \<noteq> 0 \<and>
     is_ok (validate_policy (ps_fallback s)) \<and>
     list_all (\<lambda>e. id_valid (ov_resource e) \<and> is_ok (validate_policy (ov_policy e))) (ps_overrides s)"

lemma position_None: "position r es = None \<longleftrightarrow> r \<notin> set (map ov_resource es)"
  by (induction es) auto

lemma position_Some:
  "position r es = Some i \<Longrightarrow> i < length es \<and> ov_resource (es ! i) = r \<and> ps_lookup es r = Some (ov_policy (es ! i))"
  by (induction es arbitrary: i) (auto simp: ps_lookup_def split: if_splits)

lemma position_append:
  "position r (es @ [e]) = (case position r es of Some i \<Rightarrow> Some i
     | None \<Rightarrow> if ov_resource e = r then Some (length es) else None)"
  by (induction es) (auto split: option.splits)

lemma position_update:
  "i < length es \<Longrightarrow> ov_resource e = ov_resource (es ! i) \<Longrightarrow> position r (es[i := e]) = position r es"
  by (induction es arbitrary: i) (auto split: nat.splits)

lemma ps_lookup_None: "ps_lookup es r = None \<longleftrightarrow> position r es = None"
  by (induction es) (auto simp: ps_lookup_def)

lemma index_from_eq:
  "index_from i es m r = (case m r of Some v \<Rightarrow> Some v | None \<Rightarrow> map_option ((+) i) (position r es))"
  by (induction i es m rule: index_from.induct)
     (auto simp: emplace_def option.map_comp comp_def intro!: option.map_cong split: option.splits)

lemma index_from_empty: "index_from 0 es Map.empty = (\<lambda>r. position r es)"
proof
  fix r show "index_from 0 es Map.empty r = position r es"
    by (cases "position r es") (simp_all add: index_from_eq)
qed

lemma emplace_position:
  "position (ov_resource e) es = None \<Longrightarrow>
   emplace (ov_resource e) (length es) (\<lambda>r. position r es) = (\<lambda>r. position r (es @ [e]))"
  by (auto simp: emplace_def position_append fun_eq_iff split: option.splits)

lemma resolve_eq:
  assumes "ps_inv s"
  shows "resolve s r = (case ps_lookup (ps_overrides s) r of Some p \<Rightarrow> p | None \<Rightarrow> ps_fallback s)"
  using assms position_Some [of r "ps_overrides s"] ps_lookup_None [of "ps_overrides s" r]
  by (auto simp: resolve_def ps_inv_def split: option.splits)

lemma has_override_iff: "ps_inv s \<Longrightarrow> has_override r s \<longleftrightarrow> ps_lookup (ps_overrides s) r \<noteq> None"
  by (simp add: has_override_def ps_inv_def ps_lookup_None)

lemma ps_lookup_valid:
  assumes "ps_inv s" "ps_lookup (ps_overrides s) r = Some p"
  shows "is_ok (validate_policy p)" "id_valid r"
  using assms by (auto simp: ps_inv_def ps_lookup_def list_all_iff dest!: map_of_SomeD)

lemma resolve_valid: "ps_inv s \<Longrightarrow> is_ok (validate_policy (resolve s r))"
  using ps_lookup_valid(1) [of s r] by (cases "ps_lookup (ps_overrides s) r") (simp_all add: resolve_eq, simp add: ps_inv_def)

lemma ps_lookup_snoc: "ps_lookup es (ov_resource e) = None \<Longrightarrow>
   ps_lookup (es @ [e]) = (ps_lookup es)(ov_resource e \<mapsto> ov_policy e)"
  by (simp add: ps_lookup_def map_add_upd_left map_add_def fun_eq_iff split: option.split)

lemma map_of_update_at:
  assumes "distinct (map fst xs)" "i < length xs"
  shows "map_of (xs[i := (fst (xs ! i), v)]) = (map_of xs)(fst (xs ! i) \<mapsto> v)"
  using assms
proof (induction xs arbitrary: i)
  case (Cons x xs)
  show ?case
  proof (cases i)
    case (Suc j)
    with Cons.prems have "fst (xs ! j) \<in> fst ` set xs" by simp
    moreover have "fst x \<notin> fst ` set xs" using Cons.prems by simp
    ultimately have "fst (xs ! j) \<noteq> fst x" by metis
    with Suc Cons show ?thesis by (cases x) (auto simp: fun_upd_twist)
  qed (cases x, simp add: fun_eq_iff)
qed simp

lemma ps_lookup_update:
  assumes "distinct (map ov_resource es)" "i < length es"
  shows "ps_lookup (es[i := (es ! i)\<lparr>ov_policy := p\<rparr>]) = (ps_lookup es)(ov_resource (es ! i) \<mapsto> p)"
  using map_of_update_at [of "map (\<lambda>e. (ov_resource e, ov_policy e)) es" i p] assms
  by (simp add: ps_lookup_def map_update comp_def)

lemma ps_lookup_erase:
  assumes "distinct (map ov_resource es)" "i < length es"
  shows "ps_lookup (erase_at i es) = (ps_lookup es)(ov_resource (es ! i) := None)"
proof -
  define xs y ys where "xs = take i es" "y = es ! i" "ys = drop (Suc i) es"
  have es: "es = xs @ y # ys" using assms(2) by (simp add: xs_y_ys_def id_take_nth_drop)
  have i: "i = length xs" using assms(2) by (simp add: xs_y_ys_def)
  have "ov_resource y \<notin> set (map ov_resource (xs @ ys))" using assms(1) unfolding es by auto
  then have "ps_lookup (xs @ ys) (ov_resource y) = None"
    by (simp add: ps_lookup_None position_None)
  then show ?thesis
    unfolding es i by (auto simp: erase_at_def ps_lookup_def map_add_def fun_eq_iff split: option.splits)
qed

lemma bump_generation_cases:
  obtains (full) st where "bump_generation s = (st, s)" "\<not> is_ok st"
  | (bumped) "bump_generation s = (status_ok, s\<lparr>ps_generation := ps_generation s + 1\<rparr>)"
      "unat (ps_generation s + 1) = Suc (unat (ps_generation s))"
proof (cases "add_checked_u (ps_generation s) 1")
  case (Some g)
  then have "g = ps_generation s + 1" "unat (ps_generation s + 1) = unat (ps_generation s) + 1"
    by (auto simp: add_checked_u_exact unat_add_no_wrap split: if_splits)
  with Some show ?thesis by (intro bumped) (simp_all add: bump_generation_def)
qed (use full in \<open>simp add: bump_generation_def\<close>)


lemma recompute_simps [simp]:
  "ps_overrides (recompute_digest s) = ps_overrides s" "ps_index (recompute_digest s) = ps_index s"
  "ps_fallback (recompute_digest s) = ps_fallback s" "ps_generation (recompute_digest s) = ps_generation s"
  "ps_digest (recompute_digest s) = set_digest (ps_generation s) (ps_fallback s) (ps_overrides s)"
  by (simp_all add: recompute_digest_def)

lemma ps_inv_init: "ps_inv policy_set_init"
  by (simp add: ps_inv_def policy_set_init_def default_policy_valid)

lemma ps_invI:
  assumes "ps_inv s" "unat (ps_generation s + 1) = Suc (unat (ps_generation s))"
    "m = (\<lambda>r. position r es)" "distinct (map ov_resource es)" "length es \<le> kMaxPolicyOverrides"
    "is_ok (validate_policy p)"
    "list_all (\<lambda>e. id_valid (ov_resource e) \<and> is_ok (validate_policy (ov_policy e))) es"
  shows "ps_inv (recompute_digest \<lparr>ps_fallback = p, ps_overrides = es, ps_index = m,
    ps_generation = ps_generation s + 1, ps_digest = d\<rparr>)"
  using assms by (auto simp: ps_inv_def recompute_digest_def)

text \<open>A successful operation, with the override list it leaves.\<close>

lemma set_fallback_ok:
  assumes "set_fallback p s = (st, s')" "is_ok st"
  shows "is_ok (validate_policy p)" "unat (ps_generation s') = Suc (unat (ps_generation s))"
    "s' = recompute_digest (s\<lparr>ps_generation := ps_generation s + 1, ps_fallback := p\<rparr>)"
  using assms by (cases s rule: bump_generation_cases; auto simp: set_fallback_def Let_def split: if_splits)+

lemma set_override_ok:
  assumes "set_override r p s = (st, s')" "is_ok st"
  shows "is_ok (validate_policy p)" "id_valid r" "unat (ps_generation s') = Suc (unat (ps_generation s))"
    "ps_index s r = None \<Longrightarrow> length (ps_overrides s) < kMaxPolicyOverrides \<and>
       s' = recompute_digest (s\<lparr>ps_generation := ps_generation s + 1,
         ps_index := (ps_index s)(r \<mapsto> length (ps_overrides s)),
         ps_overrides := ps_overrides s @ [\<lparr>ov_resource = r, ov_policy = p\<rparr>]\<rparr>)"
    "ps_index s r = Some i \<Longrightarrow>
       s' = recompute_digest (s\<lparr>ps_generation := ps_generation s + 1,
         ps_overrides := (ps_overrides s)[i := (ps_overrides s ! i)\<lparr>ov_policy := p\<rparr>]\<rparr>)"
  using assms
  by (cases s rule: bump_generation_cases;
      auto simp: set_override_def Let_def not_le split: if_splits option.splits)+

lemma remove_override_ok:
  assumes "remove_override r s = (st, s')" "is_ok st"
  obtains i where "ps_index s r = Some i" "unat (ps_generation s') = Suc (unat (ps_generation s))"
    "s' = recompute_digest (s\<lparr>ps_generation := ps_generation s + 1,
       ps_overrides := erase_at i (ps_overrides s),
       ps_index := (\<lambda>r. position r (erase_at i (ps_overrides s)))\<rparr>)"
proof (cases "ps_index s r")
  case None
  with assms show ?thesis by (auto simp: remove_override_def)
next
  case (Some i)
  show ?thesis
  proof (cases s rule: bump_generation_cases)
    case (full st)
    with assms Some show ?thesis by (auto simp: remove_override_def)
  next
    case bumped
    with assms Some that show ?thesis by (auto simp: remove_override_def index_from_empty Let_def)
  qed
qed

lemma set_fallback_failed: "set_fallback p s = (st, s') \<Longrightarrow> \<not> is_ok st \<Longrightarrow> s' = s"
  by (cases s rule: bump_generation_cases) (auto simp: set_fallback_def Let_def split: if_splits)

lemma set_override_failed: "set_override r p s = (st, s') \<Longrightarrow> \<not> is_ok st \<Longrightarrow> s' = s"
  by (cases s rule: bump_generation_cases) (auto simp: set_override_def Let_def split: if_splits)

lemma remove_override_failed: "remove_override r s = (st, s') \<Longrightarrow> \<not> is_ok st \<Longrightarrow> s' = s"
  by (cases s rule: bump_generation_cases; cases "ps_index s r") (auto simp: remove_override_def Let_def)


text \<open>The invariant is kept, and each operation has its intended effect on \<open>resolve\<close>.\<close>

lemma set_fallback_inv: "ps_inv s \<Longrightarrow> set_fallback p s = (st, s') \<Longrightarrow> is_ok st \<Longrightarrow> ps_inv s'"
  using set_fallback_ok [of p s st s'] by (auto simp: ps_inv_def)

lemma set_override_inv:
  assumes "ps_inv s" "set_override r p s = (st, s')" "is_ok st"
  shows "ps_inv s'"
proof (cases "ps_index s r")
  case None
  note ok = set_override_ok [OF assms(2,3)]
  from None assms(1) have pos: "position r (ps_overrides s) = None" by (simp add: ps_inv_def)
  then have "r \<notin> set (map ov_resource (ps_overrides s))" using position_None by metis
  moreover have "(\<lambda>k. position k (ps_overrides s))(r \<mapsto> length (ps_overrides s)) =
      (\<lambda>k. position k (ps_overrides s @ [\<lparr>ov_resource = r, ov_policy = p\<rparr>]))"
    using pos by (auto simp: position_append fun_eq_iff split: option.splits)
  ultimately show ?thesis using assms(1) ok(1-3) ok(4) [OF None] by (auto simp: ps_inv_def)
next
  case (Some i)
  note ok = set_override_ok [OF assms(2,3)]
  from Some assms(1) have i: "i < length (ps_overrides s)" "ov_resource (ps_overrides s ! i) = r"
    using position_Some [of r "ps_overrides s" i] by (simp_all add: ps_inv_def)
  then have "map ov_resource ((ps_overrides s)[i := (ps_overrides s ! i)\<lparr>ov_policy := p\<rparr>]) =
      map ov_resource (ps_overrides s)"
    by (simp add: map_update list_update_same_conv)
  with assms(1) i ok(1-3) ok(5) [OF Some] show ?thesis
    by (auto simp: ps_inv_def position_update list_all_iff dest!: set_update_subset_insert [THEN subsetD])
qed

lemma erase_at_subset: "set (erase_at i xs) \<subseteq> set xs"
  unfolding erase_at_def using set_take_subset set_drop_subset by fastforce

lemma distinct_erase_at: "distinct (map f xs) \<Longrightarrow> distinct (map f (erase_at i xs))"
proof -
  assume d: "distinct (map f xs)"
  have "map f xs = map f (take i xs) @ map f (drop i xs)" by (simp flip: map_append)
  with d have "distinct (map f (take i xs) @ map f (drop i xs))" by simp
  moreover have "set (map f (drop (Suc i) xs)) \<subseteq> set (map f (drop i xs))"
    using set_drop_subset_set_drop [of i "Suc i" xs] by auto
  moreover have "distinct (map f (drop (Suc i) xs))" using d distinct_drop [of "map f xs" "Suc i"] by (simp add: drop_map)
  ultimately show ?thesis by (auto simp: erase_at_def)
qed

lemma length_erase_at: "length (erase_at i xs) \<le> length xs"
  by (simp add: erase_at_def)

lemma remove_override_inv:
  assumes "ps_inv s" "remove_override r s = (st, s')" "is_ok st"
  shows "ps_inv s'"
proof -
  obtain i where i: "unat (ps_generation s') = Suc (unat (ps_generation s))"
    "s' = recompute_digest (s\<lparr>ps_generation := ps_generation s + 1,
       ps_overrides := erase_at i (ps_overrides s),
       ps_index := (\<lambda>r. position r (erase_at i (ps_overrides s)))\<rparr>)"
    using remove_override_ok [OF assms(2,3)] by metis
  have "length (erase_at i (ps_overrides s)) \<le> kMaxPolicyOverrides"
    using length_erase_at [of i "ps_overrides s"] assms(1) by (simp add: ps_inv_def)
  then show ?thesis
    using i assms(1) erase_at_subset [of i "ps_overrides s"]
      distinct_erase_at [of ov_resource "ps_overrides s" i]
    by (auto simp: ps_inv_def list_all_iff)
qed

lemma resolve_set_fallback:
  assumes "ps_inv s" "set_fallback p s = (st, s')" "is_ok st"
  shows "resolve s' r = (if has_override r s then resolve s r else p)"
  using set_fallback_ok(3) [OF assms(2,3)] by (auto simp: resolve_def has_override_def split: option.splits)

lemma resolve_set_override:
  assumes "ps_inv s" "set_override r p s = (st, s')" "is_ok st"
  shows "resolve s' r' = (if r' = r then p else resolve s r')"
proof -
  note inv' = set_override_inv [OF assms] and ok = set_override_ok [OF assms(2,3)]
  have l: "ps_lookup (ps_overrides s') = (ps_lookup (ps_overrides s))(r \<mapsto> p) \<and> ps_fallback s' = ps_fallback s"
  proof (cases "ps_index s r")
    case None
    then have "ps_lookup (ps_overrides s) r = None" using assms(1) by (simp add: ps_inv_def ps_lookup_None)
    then show ?thesis using ok(4) [OF None]
      ps_lookup_snoc [of "ps_overrides s" "\<lparr>ov_resource = r, ov_policy = p\<rparr>"] by simp
  next
    case (Some i)
    then have "i < length (ps_overrides s)" "ov_resource (ps_overrides s ! i) = r"
      using assms(1) position_Some [of r "ps_overrides s" i] by (simp_all add: ps_inv_def)
    then show ?thesis using ok(5) [OF Some] assms(1) ps_lookup_update [of "ps_overrides s" i p]
      by (simp add: ps_inv_def)
  qed
  then show ?thesis by (simp add: resolve_eq [OF assms(1)] resolve_eq [OF inv'] split: option.split)
qed

lemma resolve_remove_override:
  assumes "ps_inv s" "remove_override r s = (st, s')" "is_ok st"
  shows "resolve s' r' = (if r' = r then ps_fallback s else resolve s r')"
proof -
  note inv' = remove_override_inv [OF assms]
  obtain i where i: "ps_index s r = Some i" "ps_overrides s' = erase_at i (ps_overrides s)"
      "ps_fallback s' = ps_fallback s"
    using remove_override_ok [OF assms(2,3)] by (metis (no_types, lifting) recompute_simps(1,3)
        policy_set.select_convs(1,2) policy_set.surjective policy_set.update_convs(2,3,4))
  then have "i < length (ps_overrides s)" "ov_resource (ps_overrides s ! i) = r"
    using assms(1) position_Some [of r "ps_overrides s" i] by (simp_all add: ps_inv_def)
  then have "ps_lookup (ps_overrides s') = (ps_lookup (ps_overrides s))(r := None)"
    using i(2) assms(1) ps_lookup_erase [of "ps_overrides s" i] by (simp add: ps_inv_def)
  then show ?thesis using i(3) by (simp add: resolve_eq [OF assms(1)] resolve_eq [OF inv'] split: option.split)
qed


section \<open>Generations\<close>

text \<open>
  The contract decisions rest on when they are bound to a generation: an operation either leaves
  the state alone or advances its version by one, and versions never wrap. So two states of one
  history with the same version are the same state.
\<close>

locale versioned =
  fixes step :: "'op \<Rightarrow> 's \<Rightarrow> 's"
    and ver :: "'s \<Rightarrow> nat"
    and inv :: "'s \<Rightarrow> bool"
  assumes step_inv: "inv s \<Longrightarrow> inv (step op s)"
    and step_ver: "inv s \<Longrightarrow> step op s = s \<or> ver (step op s) = Suc (ver s)"
begin

lemma run_inv: "inv s \<Longrightarrow> inv (fold step ops s)"
  by (induction ops arbitrary: s) (auto simp: step_inv)

lemma run_ver_mono: "inv s \<Longrightarrow> ver s \<le> ver (fold step ops s)"
proof (induction ops arbitrary: s)
  case (Cons op ops)
  from Cons.IH [OF step_inv [OF Cons.prems]] step_ver [OF Cons.prems, of op]
  show ?case by (metis Suc_leD fold_simps(2))
qed simp

lemma run_same_ver: "inv s \<Longrightarrow> ver (fold step ops s) = ver s \<Longrightarrow> fold step ops s = s"
proof (induction ops arbitrary: s)
  case (Cons op ops)
  have "ver (step op s) \<le> ver s"
    using run_ver_mono [OF step_inv [OF Cons.prems(1)], of op ops] Cons.prems(2) by simp
  then have "step op s = s" using step_ver [OF Cons.prems(1), of op] by auto
  with Cons show ?case by simp
qed simp

end

datatype policy_op = SetFallback policy | SetOverride u64 policy | RemoveOverride u64 | ClearOverrides

fun policy_step :: "policy_op \<Rightarrow> policy_set \<Rightarrow> policy_set" where
  "policy_step (SetFallback p) s = snd (set_fallback p s)"
| "policy_step (SetOverride r p) s = snd (set_override r p s)"
| "policy_step (RemoveOverride r) s = snd (remove_override r s)"
| "policy_step ClearOverrides s = clear_overrides s"

lemma clear_overrides_cases:
  obtains "clear_overrides s = s"
  | "ps_overrides s \<noteq> []" "unat (ps_generation s + 1) = Suc (unat (ps_generation s))"
    "clear_overrides s = recompute_digest (s\<lparr>ps_generation := ps_generation s + 1,
       ps_overrides := [], ps_index := Map.empty\<rparr>)"
proof (cases "ps_overrides s = []")
  case True
  then show ?thesis by (intro that(1)) (simp add: clear_overrides_def)
next
  case False
  then show ?thesis
    by (cases s rule: bump_generation_cases)
      (use that in \<open>simp_all add: clear_overrides_def\<close>)
qed

lemma clear_overrides_inv: "ps_inv s \<Longrightarrow> ps_inv (clear_overrides s)"
  by (cases s rule: clear_overrides_cases) (auto simp: ps_inv_def)

lemma policy_step_inv: "ps_inv s \<Longrightarrow> ps_inv (policy_step op s)"
proof (cases op)
  case (SetFallback p)
  then show "ps_inv s \<Longrightarrow> ?thesis"
    by (cases "set_fallback p s") (metis policy_step.simps(1) set_fallback_failed set_fallback_inv snd_conv)
next
  case (SetOverride r p)
  then show "ps_inv s \<Longrightarrow> ?thesis"
    by (cases "set_override r p s") (metis policy_step.simps(2) set_override_failed set_override_inv snd_conv)
next
  case (RemoveOverride r)
  then show "ps_inv s \<Longrightarrow> ?thesis"
    by (cases "remove_override r s") (metis policy_step.simps(3) remove_override_failed remove_override_inv snd_conv)
qed (simp add: clear_overrides_inv)

lemma policy_step_generation:
  "policy_step op s = s \<or> unat (ps_generation (policy_step op s)) = Suc (unat (ps_generation s))"
proof (cases op)
  case (SetFallback p)
  then show ?thesis
    by (cases "set_fallback p s") (metis policy_step.simps(1) set_fallback_failed set_fallback_ok(2) snd_conv)
next
  case (SetOverride r p)
  then show ?thesis
    by (cases "set_override r p s") (metis policy_step.simps(2) set_override_failed set_override_ok(3) snd_conv)
next
  case (RemoveOverride r)
  then show ?thesis
    by (cases "remove_override r s") (metis policy_step.simps(3) remove_override_failed remove_override_ok snd_conv)
next
  case ClearOverrides
  then show ?thesis by (cases s rule: clear_overrides_cases) auto
qed

interpretation policy_versions: versioned policy_step "\<lambda>s. unat (ps_generation s)" ps_inv
  by unfold_locales (rule policy_step_inv policy_step_generation; assumption?)+

text \<open>A restored set satisfies the invariant and answers as the recovered list does.\<close>

lemma restore_overrides_ok:
  assumes "restore_overrides es done m = Inr (es', m')" "m = (\<lambda>r. position r done)"
    "distinct (map ov_resource done)"
    "list_all (\<lambda>e. id_valid (ov_resource e) \<and> is_ok (validate_policy (ov_policy e))) done"
  shows "es' = done @ es \<and> m' = (\<lambda>r. position r es') \<and> distinct (map ov_resource es') \<and>
    list_all (\<lambda>e. id_valid (ov_resource e) \<and> is_ok (validate_policy (ov_policy e))) es'"
  using assms
proof (induction es "done" m rule: restore_overrides.induct)
  case (2 e es "done" m)
  then have pos: "position (ov_resource e) done = None"
    by (auto simp: Let_def split: if_splits)
  then have "ov_resource e \<notin> set (map ov_resource done)" using position_None by metis
  then have "distinct (map ov_resource (done @ [e]))" using "2.prems"(3) by simp
  with 2 emplace_position [OF pos] show ?case
    by (simp add: Let_def split: if_split_asm) (elim conjE, simp)
qed simp

lemma policy_set_restore_ok:
  assumes "policy_set_restore fallback es g = Inr s"
  shows "ps_inv s" "ps_fallback s = fallback" "ps_overrides s = es" "ps_generation s = g"
proof -
  from assms obtain es' m where r: "restore_overrides es [] Map.empty = Inr (es', m)"
    and s: "s = recompute_digest (policy_set_init\<lparr>ps_overrides := es', ps_index := m,
            ps_fallback := fallback, ps_generation := g\<rparr>)"
    and c: "g \<noteq> 0" "length es \<le> kMaxPolicyOverrides" "is_ok (validate_policy fallback)"
    by (auto simp: policy_set_restore_def Let_def not_less split: if_splits sum.splits)
  from restore_overrides_ok [OF r] have "es' = es \<and> m = (\<lambda>r. position r es) \<and> distinct (map ov_resource es) \<and>
      list_all (\<lambda>e. id_valid (ov_resource e) \<and> is_ok (validate_policy (ov_policy e))) es" by auto
  with s c show "ps_inv s" "ps_fallback s = fallback" "ps_overrides s = es" "ps_generation s = g"
    by (auto simp: ps_inv_def)
qed

end
