(* ===== verification/Window.thy ===== *)
theory Window
  imports Quantities Policies
begin

text \<open>
  The bounded evidence window of one stream (\<open>include/mbg/detect/window.hpp\<close>,
  \<open>src/detect/window.cpp\<close>): a ring buffer of samples with the counters of what it refused, and
  the metrics computed from it. The ring is refined to the list of the retained samples, oldest
  first; the tick source of the window is the one of theory \<open>Ticks\<close>.
\<close>

section \<open>State\<close>

datatype window_accept = WaAccepted | WaDuplicate | WaReordered | WaDiscontinuity | WaCapacityChanged

primrec window_accept_to_string :: "window_accept \<Rightarrow> string" where
  "window_accept_to_string WaAccepted = ''accepted''"
| "window_accept_to_string WaDuplicate = ''duplicate''"
| "window_accept_to_string WaReordered = ''reordered''"
| "window_accept_to_string WaDiscontinuity = ''discontinuity''"
| "window_accept_to_string WaCapacityChanged = ''capacity-changed''"

record window =
  ew_samples :: "sample list"
  ew_capacity :: nat
  ew_head :: nat
  ew_size :: nat
  ew_duplicates :: u64
  ew_reordered :: u64
  ew_discontinuities :: u64
  ew_counter_resets :: u64
  ew_counter_rollovers :: u64
  ew_capacity_changes :: u64
  ew_sparse_samples :: u64
  ew_synthetic_samples :: u64
  ew_accepted_total :: u64
  ew_max_observed_gap :: u64
  ew_last_gap :: u64
  ew_tick_source :: tick_source

definition window_default :: window where
  "window_default = \<lparr>ew_samples = [], ew_capacity = 0, ew_head = 0, ew_size = 0, ew_duplicates = 0,
     ew_reordered = 0, ew_discontinuities = 0, ew_counter_resets = 0, ew_counter_rollovers = 0,
     ew_capacity_changes = 0, ew_sparse_samples = 0, ew_synthetic_samples = 0,
     ew_accepted_total = 0, ew_max_observed_gap = 0, ew_last_gap = 0,
     ew_tick_source = tick_source_init\<rparr>"

definition win_clear :: "window \<Rightarrow> window" where
  "win_clear w = w\<lparr>ew_head := 0, ew_size := 0, ew_duplicates := 0, ew_reordered := 0,
     ew_discontinuities := 0, ew_counter_resets := 0, ew_counter_rollovers := 0,
     ew_capacity_changes := 0, ew_sparse_samples := 0, ew_synthetic_samples := 0,
     ew_accepted_total := 0, ew_max_observed_gap := 0, ew_last_gap := 0,
     ew_tick_source := tick_source_init\<rparr>"

definition win_reset :: "nat \<Rightarrow> window \<Rightarrow> window" where
  "win_reset capacity w =
     (let bounded = min capacity kMaxWindowCapacity;
          c = max bounded kMinWindowCapacity
      in win_clear (w\<lparr>ew_capacity := c, ew_samples := replicate c sample_default,
           ew_head := 0, ew_size := 0\<rparr>))"

definition win_at :: "window \<Rightarrow> nat \<Rightarrow> sample" where
  "win_at w i = ew_samples w ! ((ew_head w + i) mod ew_capacity w)"

definition win_empty :: "window \<Rightarrow> bool" where
  "win_empty w \<longleftrightarrow> ew_size w = 0"

definition win_newest :: "window \<Rightarrow> sample" where
  "win_newest w = win_at w (ew_size w - 1)"

definition win_oldest :: "window \<Rightarrow> sample" where
  "win_oldest w = win_at w 0"

section \<open>Offering a sample\<close>

definition count_flags :: "sample \<Rightarrow> window \<Rightarrow> window" where
  "count_flags s w =
     (let w = (if has_flag (sm_flags s) flag_sparse
               then w\<lparr>ew_sparse_samples := ew_sparse_samples w + 1\<rparr> else w);
          w = (if has_flag (sm_flags s) flag_synthetic
               then w\<lparr>ew_synthetic_samples := ew_synthetic_samples w + 1\<rparr> else w);
          w = (if has_flag (sm_flags s) flag_counter_reset
               then w\<lparr>ew_counter_resets := ew_counter_resets w + 1\<rparr> else w)
      in if \<not> win_empty w \<and> has_flag (sm_flags s) flag_capacity_change
         then w\<lparr>ew_capacity_changes := ew_capacity_changes w + 1\<rparr> else w)"

text \<open>Storing an accepted sample, overwriting the oldest one when the ring is full.\<close>

definition win_push :: "sample \<Rightarrow> window \<Rightarrow> window" where
  "win_push s w =
     (if ew_size w = ew_capacity w then
        w\<lparr>ew_samples := (ew_samples w)[ew_head w := s],
          ew_head := (ew_head w + 1) mod ew_capacity w\<rparr>
      else
        w\<lparr>ew_samples := (ew_samples w)[(ew_head w + ew_size w) mod ew_capacity w := s],
          ew_size := ew_size w + 1\<rparr>)"

definition offer :: "sample \<Rightarrow> u64 \<Rightarrow> window \<Rightarrow> window_accept \<times> window" where
  "offer s tolerance w =
     (let w = count_flags s w;
          (step, source) = observe (sm_tick s) tolerance (ew_tick_source w);
          w = w\<lparr>ew_tick_source := source\<rparr>
      in case ts_observation step of
           ObsDuplicate \<Rightarrow> (WaDuplicate, w\<lparr>ew_duplicates := ew_duplicates w + 1\<rparr>)
         | ObsReorder \<Rightarrow> (WaReordered, w\<lparr>ew_reordered := ew_reordered w + 1\<rparr>)
         | ObsDiscontinuity \<Rightarrow> (WaDiscontinuity, w\<lparr>ew_discontinuities := ew_discontinuities w + 1\<rparr>)
         | _ \<Rightarrow>
           (let w = (if ts_observation step = ObsRollover
                     then w\<lparr>ew_counter_rollovers := ew_counter_rollovers w + 1\<rparr> else w);
                w = w\<lparr>ew_last_gap := ts_forward step\<rparr>;
                w = (if ts_observation step \<noteq> ObsFirst
                     then w\<lparr>ew_max_observed_gap := max (ew_max_observed_gap w) (ts_forward step)\<rparr> else w);
                capacity_changed = (\<not> win_empty w \<and>
                  sm_capacity_bytes (win_newest w) \<noteq> sm_capacity_bytes s \<and>
                  sm_capacity_bytes s \<noteq> 0 \<and> sm_capacity_bytes (win_newest w) \<noteq> 0);
                w = win_push s w;
                w = w\<lparr>ew_accepted_total := ew_accepted_total w + 1\<rparr>
            in if capacity_changed then
                 (WaCapacityChanged, w\<lparr>ew_capacity_changes := ew_capacity_changes w + 1\<rparr>)
               else (WaAccepted, w)))"

section \<open>Metrics\<close>

record window_metrics =
  wm_samples :: u64
  wm_expected_samples :: u64
  wm_completeness_permille :: u32
  wm_span_ticks :: u64
  wm_latest_depth :: u64
  wm_peak_depth :: u64
  wm_latest_occupancy_bytes :: u64
  wm_peak_occupancy_bytes :: u64
  wm_capacity_bytes :: u64
  wm_capacity_known :: bool
  wm_capacity_changed :: bool
  wm_window_slope_q16 :: i64
  wm_recent_slope_q16 :: i64
  wm_imbalance_q16 :: i64
  wm_drop_delta :: u64
  wm_mark_delta :: u64
  wm_ingress_delta :: u64
  wm_egress_delta :: u64
  wm_max_gap_ticks :: u64
  wm_sparse :: bool
  wm_synthetic :: bool
  wm_provenance :: u64
  wm_provenance_count :: u32
  wm_window_start :: tick
  wm_window_end :: tick

definition metrics_default :: window_metrics where
  "metrics_default = \<lparr>wm_samples = 0, wm_expected_samples = 0, wm_completeness_permille = 0,
     wm_span_ticks = 0, wm_latest_depth = 0, wm_peak_depth = 0, wm_latest_occupancy_bytes = 0,
     wm_peak_occupancy_bytes = 0, wm_capacity_bytes = 0, wm_capacity_known = False,
     wm_capacity_changed = False, wm_window_slope_q16 = 0, wm_recent_slope_q16 = 0,
     wm_imbalance_q16 = 0, wm_drop_delta = 0, wm_mark_delta = 0, wm_ingress_delta = 0,
     wm_egress_delta = 0, wm_max_gap_ticks = 0, wm_sparse = False, wm_synthetic = False,
     wm_provenance = id_invalid, wm_provenance_count = 0, wm_window_start = 0, wm_window_end = 0\<rparr>"

definition win_list :: "window \<Rightarrow> sample list" where
  "win_list w = map (win_at w) [0..<ew_size w]"

definition expected_samples :: "nat \<Rightarrow> u64 \<Rightarrow> u64 \<Rightarrow> u64" where
  "expected_samples capacity nominal span =
     (let interval = max nominal 1;
          expected = saturating_add_u (span div interval) 1;
          ceiling = saturating_mul_u (of_nat capacity) 64
      in min expected (max ceiling 1))"

definition completeness :: "u64 \<Rightarrow> u64 \<Rightarrow> u32" where
  "completeness samples expected =
     (let ratio = saturating_mul_u samples 1000
      in ucast (if expected = 0 then 1000 else min 1000 (ratio div expected)))"

text \<open>The locals of the loop over the retained samples.\<close>

record scan =
  sc_peak_depth :: u64
  sc_peak_occupancy :: u64
  sc_provenance_count :: u32
  sc_variants :: u64
  sc_first_capacity :: u64
  sc_sparse :: bool
  sc_synthetic :: bool

definition scan_step :: "u64 \<Rightarrow> sample \<Rightarrow> scan \<Rightarrow> scan" where
  "scan_step provenance s c =
     \<lparr>sc_peak_depth = max (sc_peak_depth c) (sm_depth s),
      sc_peak_occupancy = max (sc_peak_occupancy c) (sm_occupancy_bytes s),
      sc_provenance_count = (if id_valid (sm_provenance s) \<and> sm_provenance s \<noteq> provenance
        then sc_provenance_count c + 1 else sc_provenance_count c),
      sc_variants = (if sm_capacity_bytes s \<noteq> 0 \<and> sc_first_capacity c \<noteq> 0 \<and>
          sm_capacity_bytes s \<noteq> sc_first_capacity c then sc_variants c + 1 else sc_variants c),
      sc_first_capacity = (if sm_capacity_bytes s \<noteq> 0 \<and> sc_first_capacity c = 0
        then sm_capacity_bytes s else sc_first_capacity c),
      sc_sparse = (sc_sparse c \<or> has_flag (sm_flags s) flag_sparse),
      sc_synthetic = (sc_synthetic c \<or> has_flag (sm_flags s) flag_synthetic)\<rparr>"

definition scan_window :: "window \<Rightarrow> scan" where
  "scan_window w =
     (let n = win_newest w in
      fold (scan_step (sm_provenance n)) (win_list w)
        \<lparr>sc_peak_depth = sm_depth n, sc_peak_occupancy = sm_occupancy_bytes n,
         sc_provenance_count = (if id_valid (sm_provenance n) then 1 else 0), sc_variants = 0,
         sc_first_capacity = 0, sc_sparse = has_flag (sm_flags n) flag_sparse,
         sc_synthetic = has_flag (sm_flags n) flag_synthetic\<rparr>)"

definition max_gap :: "window \<Rightarrow> u64" where
  "max_gap w =
     fold (\<lambda>i g. let step = tick_delta (sm_tick (win_at w (i - 1))) (sm_tick (win_at w i))
                 in if step > 0 then max g (word_of_int step) else g)
       [1..<ew_size w] 0"

definition metrics :: "detection_policy \<Rightarrow> window \<Rightarrow> window_metrics" where
  "metrics p w =
     (if ew_size w = 0 then metrics_default
      else let n = win_newest w; old = win_oldest w;
               span = word_of_int (tick_delta (sm_tick old) (sm_tick n));
               samples = of_nat (ew_size w);
               expected = expected_samples (ew_capacity w) (dp_nominal_sample_interval_ticks p) span;
               scan = scan_window w;
               reset = has_flag (sm_flags n) flag_counter_reset
           in \<lparr>wm_samples = samples, wm_expected_samples = expected,
               wm_completeness_permille = completeness samples expected, wm_span_ticks = span,
               wm_latest_depth = sm_depth n, wm_peak_depth = sc_peak_depth scan,
               wm_latest_occupancy_bytes = sm_occupancy_bytes n,
               wm_peak_occupancy_bytes = sc_peak_occupancy scan,
               wm_capacity_bytes = sm_capacity_bytes n, wm_capacity_known = (sm_capacity_bytes n \<noteq> 0),
               wm_capacity_changed = (sc_variants scan > 0 \<or> ew_capacity_changes w > 0),
               wm_window_slope_q16 = compute_slope_q16 (sm_depth n - sm_depth old) span,
               wm_recent_slope_q16 =
                 (if ew_size w \<ge> 2 then
                    let prior = win_at w (ew_size w - 2) in
                    compute_slope_q16 (sm_depth n - sm_depth prior)
                      (word_of_int (tick_delta (sm_tick prior) (sm_tick n)))
                  else 0),
               wm_imbalance_q16 = sm_ingress_rate_q16 n - sm_egress_rate_q16 n,
               wm_drop_delta = window_counter_delta (sm_drop_total old) (sm_drop_total n) reset,
               wm_mark_delta = window_counter_delta (sm_mark_total old) (sm_mark_total n) reset,
               wm_ingress_delta = window_counter_delta (sm_ingress_total old) (sm_ingress_total n) reset,
               wm_egress_delta = window_counter_delta (sm_egress_total old) (sm_egress_total n) reset,
               wm_max_gap_ticks = max_gap w,
               wm_sparse = sc_sparse scan, wm_synthetic = sc_synthetic scan,
               wm_provenance = sm_provenance n, wm_provenance_count = sc_provenance_count scan,
               wm_window_start = sm_tick old, wm_window_end = sm_tick n\<rparr>)"

definition staleness_ticks :: "tick \<Rightarrow> window \<Rightarrow> u64" where
  "staleness_ticks now w =
     (if ew_size w = 0 then 0
      else let delta = tick_delta (sm_tick (win_newest w)) now
           in if delta \<le> 0 then 0 else word_of_int delta)"


section \<open>The bounded queue contract\<close>

text \<open>The last \<open>n\<close> elements of a list.\<close>

definition take_last :: "nat \<Rightarrow> 'a list \<Rightarrow> 'a list" where
  "take_last n xs = drop (length xs - n) xs"

lemma length_take_last [simp]: "length (take_last n xs) = min n (length xs)"
  by (simp add: take_last_def)

lemma take_last_short: "length xs \<le> n \<Longrightarrow> take_last n xs = xs"
  by (simp add: take_last_def)

lemma take_last_append: "take_last n (take_last n xs @ ys) = take_last n (xs @ ys)"
  by (cases "n \<le> length xs") (auto simp: take_last_def add.commute)

lemma set_take_last: "set (take_last n xs) \<subseteq> set xs"
  by (simp add: take_last_def set_drop_subset)

locale bounded_fifo =
  fixes push :: "'a \<Rightarrow> 's \<Rightarrow> 's"
    and contents :: "'s \<Rightarrow> 'a list"
    and cap :: "'s \<Rightarrow> nat"
    and inv :: "'s \<Rightarrow> bool"
  assumes push_inv: "inv q \<Longrightarrow> inv (push x q)"
    and push_cap: "cap (push x q) = cap q"
    and push_contents: "inv q \<Longrightarrow> contents (push x q) = take_last (cap q) (contents q @ [x])"
    and contents_bound: "inv q \<Longrightarrow> length (contents q) \<le> cap q"
begin

lemma pushes_inv: "inv q \<Longrightarrow> inv (fold push xs q)"
  by (induction xs arbitrary: q) (auto simp: push_inv)

lemma pushes_contents:
  "inv q \<Longrightarrow> contents (fold push xs q) = take_last (cap q) (contents q @ xs)"
proof (induction xs arbitrary: q)
  case Nil
  then show ?case by (simp add: take_last_short contents_bound)
next
  case (Cons x xs)
  then show ?case
    using take_last_append [of "cap q" "contents q @ [x]" xs] by (simp add: push_inv push_cap push_contents)
qed

end

section \<open>The ring is a bounded queue\<close>

definition ring_inv :: "window \<Rightarrow> bool" where
  "ring_inv w \<longleftrightarrow> length (ew_samples w) = ew_capacity w \<and> 0 < ew_capacity w \<and>
     ew_head w < ew_capacity w \<and> ew_size w \<le> ew_capacity w \<and>
     (ew_size w < ew_capacity w \<longrightarrow> ew_head w = 0)"

lemma length_win_list [simp]: "length (win_list w) = ew_size w"
  by (simp add: win_list_def)

lemma nth_win_list: "i < ew_size w \<Longrightarrow> win_list w ! i = win_at w i"
  by (simp add: win_list_def)

lemma win_list_push:
  assumes "ring_inv w"
  shows "win_list (win_push s w) = take_last (ew_capacity w) (win_list w @ [s])"
proof (cases "ew_size w = ew_capacity w")
  case full: True
  define c h where "c = ew_capacity w" and "h = ew_head w"
  have c: "0 < c" "h < c" "length (ew_samples w) = c" using assms by (simp_all add: ring_inv_def c_def h_def)
  have slot: "(Suc h mod c + i) mod c = Suc (h + i) mod c" for i
    by (metis add_Suc mod_add_left_eq)
  have far: "Suc (h + i) mod c \<noteq> h" if "i + 1 < c" for i
    using that c by (auto simp: mod_if)
  have wrap: "Suc (h + i) mod c = h" if "i + 1 = c" for i
    using that c by (metis add.commute add_Suc_right mod_add_self2 mod_less plus_1_eq_Suc)
  have at: "win_at (win_push s w) i = (ew_samples w)[h := s] ! (Suc (h + i) mod c)" for i
    using full by (simp add: win_at_def win_push_def slot flip: c_def h_def)
  have "win_at (win_push s w) i = (if i + 1 = c then s else win_at w (i + 1))" if "i < c" for i
    unfolding at using that c far [of i] wrap [of i] by (auto simp: win_at_def simp flip: c_def h_def)
  then show ?thesis
    using full c
    by (intro nth_equalityI)
      (auto simp: win_push_def nth_win_list take_last_def nth_append c_def nth_tl)
next
  case False
  then have "ew_head w = 0" "ew_size w < ew_capacity w" "length (ew_samples w) = ew_capacity w"
    using assms by (auto simp: ring_inv_def)
  then show ?thesis
    by (intro nth_equalityI)
      (auto simp: win_push_def nth_win_list take_last_short nth_append win_at_def less_Suc_eq)
qed

lemma win_push_ring_inv: "ring_inv w \<Longrightarrow> ring_inv (win_push s w)"
  by (auto simp: ring_inv_def win_push_def)

lemma win_push_capacity [simp]: "ew_capacity (win_push s w) = ew_capacity w"
  by (simp add: win_push_def)

interpretation ring: bounded_fifo win_push win_list ew_capacity ring_inv
  by unfold_locales (simp_all add: win_push_ring_inv win_list_push, simp add: ring_inv_def)

lemma win_newest_last: "ew_size w \<noteq> 0 \<Longrightarrow> win_newest w = last (win_list w)"
  by (simp add: win_newest_def last_conv_nth nth_win_list flip: length_0_conv)

lemma win_oldest_hd: "ew_size w \<noteq> 0 \<Longrightarrow> win_oldest w = hd (win_list w)"
  by (simp add: win_oldest_def hd_conv_nth nth_win_list flip: length_0_conv)


section \<open>Offering a sample\<close>

text \<open>Two windows with the same ring; the counters may differ.\<close>

definition same_ring :: "window \<Rightarrow> window \<Rightarrow> bool" where
  "same_ring v w \<longleftrightarrow> ew_samples v = ew_samples w \<and> ew_capacity v = ew_capacity w \<and>
     ew_head v = ew_head w \<and> ew_size v = ew_size w"

lemma same_ring_cong:
  assumes "same_ring v w"
  shows "win_list v = win_list w" "ring_inv v = ring_inv w" "ew_capacity v = ew_capacity w"
    "ew_size v = ew_size w" "win_newest v = win_newest w" "same_ring (win_push s v) (win_push s w)"
    "win_empty v = win_empty w"
proof -
  have "win_at v = win_at w" using assms by (simp add: same_ring_def win_at_def fun_eq_iff)
  then show "win_list v = win_list w" "ring_inv v = ring_inv w" "ew_capacity v = ew_capacity w"
    "ew_size v = ew_size w" "win_newest v = win_newest w" "same_ring (win_push s v) (win_push s w)"
    "win_empty v = win_empty w"
    using assms by (simp_all add: same_ring_def win_list_def ring_inv_def win_newest_def win_push_def win_empty_def)
qed

lemma count_flags_ring: "same_ring (count_flags s w) w" "ew_tick_source (count_flags s w) = ew_tick_source w"
  by (simp_all add: count_flags_def same_ring_def Let_def)

definition window_takes :: "window_accept \<Rightarrow> bool" where
  "window_takes a \<longleftrightarrow> a = WaAccepted \<or> a = WaCapacityChanged"

lemma offer_cases:
  assumes "offer s tol w = (a, w')"
  defines "ob \<equiv> ts_observation (fst (observe (sm_tick s) tol (ew_tick_source w)))"
  shows "window_takes a \<longleftrightarrow> accepted_obs ob"
    "same_ring w' (if accepted_obs ob then win_push s w else w)"
    "ew_tick_source w' = snd (observe (sm_tick s) tol (ew_tick_source w))"
  using assms(1) count_flags_ring [of s w]
  by (auto simp: offer_def ob_def accepted_obs_def window_takes_def same_ring_def win_push_def Let_def
      split: prod.splits observation.splits if_splits)

lemma offer_list:
  assumes "ring_inv w" "offer s tol w = (a, w')"
  shows "ring_inv w'" "ew_capacity w' = ew_capacity w"
    "win_list w' = (if window_takes a then take_last (ew_capacity w) (win_list w @ [s]) else win_list w)"
  using offer_cases [OF assms(2)] assms(1) same_ring_cong [of w' "win_push s w"] same_ring_cong [of w' w]
  by (auto simp: win_list_push win_push_ring_inv)

lemma win_newest_push: "ring_inv w \<Longrightarrow> win_newest (win_push s w) = s"
proof -
  assume r: "ring_inv w"
  then have "ew_size (win_push s w) \<noteq> 0" by (auto simp: ring_inv_def win_push_def)
  then have "win_newest (win_push s w) = last (take_last (ew_capacity w) (win_list w @ [s]))"
    by (simp add: win_newest_last win_list_push [OF r])
  also have "\<dots> = s" using r by (simp add: take_last_def ring_inv_def last_drop)
  finally show ?thesis .
qed

text \<open>The window invariant: the ring is well formed and the tick source follows the newest sample.\<close>

definition win_inv :: "window \<Rightarrow> bool" where
  "win_inv w \<longleftrightarrow> ring_inv w \<and> kMinWindowCapacity \<le> ew_capacity w \<and> ew_capacity w \<le> kMaxWindowCapacity \<and>
     (src_has (ew_tick_source w) \<longleftrightarrow> ew_size w \<noteq> 0) \<and>
     (ew_size w \<noteq> 0 \<longrightarrow> src_last (ew_tick_source w) = sm_tick (win_newest w))"

lemma win_reset_inv: "win_inv (win_reset c w)"
  by (simp add: win_inv_def ring_inv_def win_reset_def win_clear_def kMinWindowCapacity_def
      kMaxWindowCapacity_def tick_source_init_def Let_def)

lemma win_reset_size [simp]: "ew_size (win_reset c w) = 0" "win_list (win_reset c w) = []"
  by (simp_all add: win_reset_def win_clear_def win_list_def Let_def)

lemma offer_inv:
  assumes "win_inv w" "offer s tol w = (a, w')"
  shows "win_inv w'"
proof -
  define src where "src = ew_tick_source w"
  note o = offer_cases [OF assms(2), folded src_def]
  have ring: "ring_inv w" using assms(1) by (simp add: win_inv_def)
  note l = offer_list [OF ring assms(2)]
  show ?thesis
  proof (cases "accepted_obs (ts_observation (fst (observe (sm_tick s) tol src)))")
    case True
    then have r: "same_ring w' (win_push s w)" using o(2) by simp
    have "ew_size (win_push s w) \<noteq> 0" using ring by (auto simp: ring_inv_def win_push_def)
    then have "ew_size w' \<noteq> 0" "win_newest w' = s"
      using same_ring_cong [OF r] win_newest_push [OF ring] by simp_all
    then show ?thesis using assms(1) l(1,2) o(3) True by (simp add: win_inv_def observe_last)
  next
    case False
    then have r: "same_ring w' w" using o(2) by simp
    have "src_has src" using False observe_first [of src] by (auto simp: accepted_obs_def)
    then show ?thesis
      using assms(1) l(1,2) o(3) False same_ring_cong [OF r] by (simp add: win_inv_def observe_last src_def)
  qed
qed

lemma win_inv_size: "win_inv w \<Longrightarrow> ew_size w \<le> kMaxWindowCapacity"
  by (simp add: win_inv_def ring_inv_def)

text \<open>
  The abstract window: at tolerance 0 a sample is admitted when it is strictly after the last
  admitted one. Offering a whole trace keeps the last admitted samples, up to the capacity.
\<close>

fun admit :: "tick option \<Rightarrow> sample list \<Rightarrow> sample list" where
  "admit prev [] = []"
| "admit prev (s # ss) =
     (if (case prev of None \<Rightarrow> True | Some t \<Rightarrow> tick_after t (sm_tick s))
      then s # admit (Some (sm_tick s)) ss else admit prev ss)"

definition offer_all :: "sample list \<Rightarrow> window \<Rightarrow> window" where
  "offer_all ss w = fold (\<lambda>s w. snd (offer s 0 w)) ss w"

definition last_tick :: "window \<Rightarrow> tick option" where
  "last_tick w = (if ew_size w = 0 then None else Some (sm_tick (win_newest w)))"

lemma offer_takes_iff:
  assumes "win_inv w" "offer s 0 w = (a, w')"
  shows "window_takes a \<longleftrightarrow> (case last_tick w of None \<Rightarrow> True | Some t \<Rightarrow> tick_after t (sm_tick s))"
  using assms offer_cases(1) [OF assms(2)] observe_first [of "ew_tick_source w" "sm_tick s" 0]
    observe_zero_tolerance [of "ew_tick_source w" "sm_tick s"]
  by (auto simp: last_tick_def win_inv_def accepted_obs_def)

lemma last_tick_offer:
  assumes "win_inv w" "offer s 0 w = (a, w')"
  shows "last_tick w' = (if window_takes a then Some (sm_tick s) else last_tick w)"
proof -
  have ring: "ring_inv w" using assms(1) by (simp add: win_inv_def)
  have "ew_size (win_push s w) \<noteq> 0" using ring by (auto simp: ring_inv_def win_push_def)
  then show ?thesis
    using offer_cases(1,2) [OF assms(2)] same_ring_cong [of w' "win_push s w"] same_ring_cong [of w' w]
      win_newest_push [OF ring] by (auto simp: last_tick_def)
qed

lemma offer_all_admit:
  "win_inv w \<Longrightarrow> win_inv (offer_all ss w) \<and> ew_capacity (offer_all ss w) = ew_capacity w \<and>
   win_list (offer_all ss w) = take_last (ew_capacity w) (win_list w @ admit (last_tick w) ss)"
proof (induction ss arbitrary: w)
  case Nil
  then show ?case by (simp add: offer_all_def take_last_short win_inv_def ring_inv_def)
next
  case (Cons s ss)
  obtain a w' where o: "offer s 0 w = (a, w')" by (cases "offer s 0 w")
  have ring: "ring_inv w" using Cons.prems by (simp add: win_inv_def)
  note facts = offer_list [OF ring o] offer_takes_iff [OF Cons.prems o] last_tick_offer [OF Cons.prems o]
  have "offer_all (s # ss) w = offer_all ss w'" using o by (simp add: offer_all_def)
  then show ?case
    using Cons.IH [OF offer_inv [OF Cons.prems o]] facts
      take_last_append [of "ew_capacity w" "win_list w @ [s]" "admit (Some (sm_tick s)) ss"]
    by (auto split: if_splits)
qed

lemma admit_increasing:
  "successively (\<lambda>a b. tick_after (sm_tick a) (sm_tick b)) (admit prev ss) \<and>
   (\<forall>t. prev = Some t \<longrightarrow> admit prev ss \<noteq> [] \<longrightarrow> tick_after t (sm_tick (hd (admit prev ss))))"
  by (induction prev ss rule: admit.induct) (auto simp: successively_Cons split: option.splits)

end
