(* ===== verification/Events.thy ===== *)
theory Events
  imports Bytes Samples Severity Explanation Interventions
begin

text \<open>
  Burst events (\<open>include/mbg/model/event.hpp\<close>, \<open>src/model/event.cpp\<close>): the lifecycle and
  closure vocabularies, the evidence summary, the metrics, the deterministic event identity and
  the record codec. A close reason outside the enumeration is accepted by the decoder: \<open>CrRaw\<close>.
\<close>

section \<open>Data\<close>

datatype event_lifecycle = ElOpen | ElRecovering | ElClosed | ElFenced

primrec lifecycle_raw :: "event_lifecycle \<Rightarrow> u8" where
  "lifecycle_raw ElOpen = 0"
| "lifecycle_raw ElRecovering = 1"
| "lifecycle_raw ElClosed = 2"
| "lifecycle_raw ElFenced = 3"

definition lifecycle_of_raw :: "u8 \<Rightarrow> event_lifecycle" where
  "lifecycle_of_raw b =
     (if b = 0 then ElOpen
      else if b = 1 then ElRecovering
      else if b = 2 then ElClosed
      else ElFenced)"

primrec lifecycle_to_string :: "event_lifecycle \<Rightarrow> string" where
  "lifecycle_to_string ElOpen = ''open''"
| "lifecycle_to_string ElRecovering = ''recovering''"
| "lifecycle_to_string ElClosed = ''closed''"
| "lifecycle_to_string ElFenced = ''fenced''"

datatype close_reason = CrNone | CrReleaseConfirmed | CrEpisodeTimeout | CrEvidenceStale | CrPolicyChanged | CrAuthorityLost | CrRestart | CrCapacityChanged | CrReplayEnd | CrRaw u8

primrec close_raw :: "close_reason \<Rightarrow> u8" where
  "close_raw CrNone = 0"
| "close_raw CrReleaseConfirmed = 1"
| "close_raw CrEpisodeTimeout = 2"
| "close_raw CrEvidenceStale = 3"
| "close_raw CrPolicyChanged = 4"
| "close_raw CrAuthorityLost = 5"
| "close_raw CrRestart = 6"
| "close_raw CrCapacityChanged = 7"
| "close_raw CrReplayEnd = 8"
| "close_raw (CrRaw b) = b"

definition close_of_raw :: "u8 \<Rightarrow> close_reason" where
  "close_of_raw b =
     (if b = 0 then CrNone
      else if b = 1 then CrReleaseConfirmed
      else if b = 2 then CrEpisodeTimeout
      else if b = 3 then CrEvidenceStale
      else if b = 4 then CrPolicyChanged
      else if b = 5 then CrAuthorityLost
      else if b = 6 then CrRestart
      else if b = 7 then CrCapacityChanged
      else if b = 8 then CrReplayEnd
      else CrRaw b)"

primrec close_reason_to_string :: "close_reason \<Rightarrow> string" where
  "close_reason_to_string CrNone = ''none''"
| "close_reason_to_string CrReleaseConfirmed = ''release-confirmed''"
| "close_reason_to_string CrEpisodeTimeout = ''episode-timeout''"
| "close_reason_to_string CrEvidenceStale = ''evidence-stale''"
| "close_reason_to_string CrPolicyChanged = ''policy-changed''"
| "close_reason_to_string CrAuthorityLost = ''authority-lost''"
| "close_reason_to_string CrRestart = ''restart''"
| "close_reason_to_string CrCapacityChanged = ''capacity-changed''"
| "close_reason_to_string CrReplayEnd = ''replay-end''"
| "close_reason_to_string (CrRaw b) = ''unknown''"

record evidence_summary =
  es_window_start :: tick
  es_window_end :: tick
  es_samples :: u64
  es_expected_samples :: u64
  es_completeness_permille :: u32
  es_gaps :: u64
  es_reordered :: u64
  es_duplicates :: u64
  es_counter_resets :: u64
  es_counter_rollovers :: u64
  es_dropped_samples :: u64
  es_capacity_known :: bool
  es_capacity_bytes :: u64
  es_sparse :: bool
  es_synthetic :: bool
  es_provenance :: u64
  es_provenance_count :: u32

definition evidence_summary_default :: evidence_summary where
  "evidence_summary_default = \<lparr>es_window_start = 0, es_window_end = 0, es_samples = 0,
     es_expected_samples = 0, es_completeness_permille = 0, es_gaps = 0, es_reordered = 0,
     es_duplicates = 0, es_counter_resets = 0, es_counter_rollovers = 0, es_dropped_samples = 0,
     es_capacity_known = False, es_capacity_bytes = 0, es_sparse = False, es_synthetic = False,
     es_provenance = id_invalid, es_provenance_count = 0\<rparr>"

record burst_metrics =
  bm_peak_depth :: u64
  bm_peak_occupancy_bytes :: u64
  bm_capacity_bytes :: u64
  bm_peak_slope_q16 :: i64
  bm_peak_imbalance_q16 :: i64
  bm_onset_tick :: tick
  bm_peak_tick :: tick
  bm_last_update_tick :: tick
  bm_end_tick :: tick
  bm_duration_ticks :: u64
  bm_drop_delta :: u64
  bm_mark_delta :: u64

definition burst_metrics_default :: burst_metrics where
  "burst_metrics_default = \<lparr>bm_peak_depth = 0, bm_peak_occupancy_bytes = 0, bm_capacity_bytes = 0,
     bm_peak_slope_q16 = 0, bm_peak_imbalance_q16 = 0, bm_onset_tick = 0, bm_peak_tick = 0,
     bm_last_update_tick = 0, bm_end_tick = 0, bm_duration_ticks = 0, bm_drop_delta = 0,
     bm_mark_delta = 0\<rparr>"

record burst_event =
  ev_id :: u64
  ev_stream :: stream_key
  ev_resource_generation :: u32
  ev_lifecycle :: event_lifecycle
  ev_severity :: severity
  ev_authority :: evidence_authority
  ev_metrics :: burst_metrics
  ev_evidence :: evidence_summary
  ev_policy_id :: u64
  ev_policy_generation :: u32
  ev_policy_digest :: u64
  ev_epoch :: u32
  ev_incarnation :: u64
  ev_boot :: u64
  ev_close_reason :: close_reason
  ev_closed_tick :: tick
  ev_opened_seq :: u64
  ev_last_seq :: u64
  ev_revision :: u32

definition event_default :: burst_event where
  "event_default = \<lparr>ev_id = id_invalid, ev_stream = stream_key_default,
     ev_resource_generation = id_invalid, ev_lifecycle = ElOpen, ev_severity = SevNone,
     ev_authority = EvUnknown, ev_metrics = burst_metrics_default,
     ev_evidence = evidence_summary_default, ev_policy_id = id_invalid,
     ev_policy_generation = id_invalid, ev_policy_digest = 0, ev_epoch = id_invalid,
     ev_incarnation = id_invalid, ev_boot = id_invalid, ev_close_reason = CrNone, ev_closed_tick = 0,
     ev_opened_seq = id_invalid, ev_last_seq = id_invalid, ev_revision = 0\<rparr>"

definition event_open :: "burst_event \<Rightarrow> bool" where
  "event_open e \<longleftrightarrow> ev_lifecycle e = ElOpen \<or> ev_lifecycle e = ElRecovering"

definition event_positive :: "burst_event \<Rightarrow> bool" where
  "event_positive e \<longleftrightarrow> ev_severity e \<noteq> SevNone"

section \<open>Event identity\<close>

definition event_id_hash :: "stream_key \<Rightarrow> tick \<Rightarrow> u64" where
  "event_id_hash k onset =
     (let h = 0xA5A5A5A5DEADBEEF;
          h = hash_combine h (sk_resource k);
          h = hash_combine h (sk_queue k);
          h = hash_combine h (if id_valid (sk_path k) then sk_path k else 0)
      in hash_combine h onset)"

definition make_event_id :: "stream_key \<Rightarrow> tick \<Rightarrow> u64" where
  "make_event_id k onset =
     (let h = event_id_hash k onset in if h = id_invalid then h XOR 0x5DEECE66D else h)"

section \<open>Codec\<close>

primrec evidence_authority_raw :: "evidence_authority \<Rightarrow> u8" where
  "evidence_authority_raw EvAuthoritative = 0"
| "evidence_authority_raw EvDegraded = 1"
| "evidence_authority_raw EvUnknown = 2"

definition evidence_authority_of_raw :: "u8 \<Rightarrow> evidence_authority" where
  "evidence_authority_of_raw b = (if b = 0 then EvAuthoritative else if b = 1 then EvDegraded else EvUnknown)"

definition encode_summary :: "evidence_summary \<Rightarrow> byte list" where
  "encode_summary s =
     put_u64 (es_window_start s) @ put_u64 (es_window_end s) @ put_u64 (es_samples s) @
     put_u64 (es_expected_samples s) @ put_u32 (es_completeness_permille s) @ put_u64 (es_gaps s) @
     put_u64 (es_reordered s) @ put_u64 (es_duplicates s) @ put_u64 (es_counter_resets s) @
     put_u64 (es_counter_rollovers s) @ put_u64 (es_dropped_samples s) @
     put_bool (es_capacity_known s) @ put_u64 (es_capacity_bytes s) @ put_bool (es_sparse s) @
     put_bool (es_synthetic s) @ put_u64 (es_provenance s) @ put_u32 (es_provenance_count s)"

definition decode_summary :: "reader \<Rightarrow> (evidence_summary \<times> reader) result" where
  "decode_summary r =
     (let (window_start, r) = get_u64 r; (window_end, r) = get_u64 r; (samples, r) = get_u64 r;
          (expected, r) = get_u64 r; (completeness, r) = get_u32 r; (gaps, r) = get_u64 r;
          (reordered, r) = get_u64 r; (duplicates, r) = get_u64 r; (resets, r) = get_u64 r;
          (rollovers, r) = get_u64 r; (dropped, r) = get_u64 r; (known, r) = get_bool r;
          (capacity, r) = get_u64 r; (sparse, r) = get_bool r; (synthetic, r) = get_bool r;
          (provenance, r) = get_u64 r; (provenance_count, r) = get_u32 r
      in if \<not> rd_ok r then Inl (failure StTruncated ''evidence summary payload is truncated'')
         else if completeness > 1000 then
           Inl (failure StCorrupt ''evidence completeness above 1000 per-mille'')
         else Inr (\<lparr>es_window_start = window_start, es_window_end = window_end,
             es_samples = samples, es_expected_samples = expected,
             es_completeness_permille = completeness, es_gaps = gaps, es_reordered = reordered,
             es_duplicates = duplicates, es_counter_resets = resets,
             es_counter_rollovers = rollovers, es_dropped_samples = dropped,
             es_capacity_known = known, es_capacity_bytes = capacity, es_sparse = sparse,
             es_synthetic = synthetic, es_provenance = provenance,
             es_provenance_count = provenance_count\<rparr>, r))"

definition encode_metrics :: "burst_metrics \<Rightarrow> byte list" where
  "encode_metrics m =
     put_u64 (bm_peak_depth m) @ put_u64 (bm_peak_occupancy_bytes m) @ put_u64 (bm_capacity_bytes m) @
     put_i64 (bm_peak_slope_q16 m) @ put_i64 (bm_peak_imbalance_q16 m) @ put_u64 (bm_onset_tick m) @
     put_u64 (bm_peak_tick m) @ put_u64 (bm_last_update_tick m) @ put_u64 (bm_end_tick m) @
     put_u64 (bm_duration_ticks m) @ put_u64 (bm_drop_delta m) @ put_u64 (bm_mark_delta m)"

definition decode_metrics :: "reader \<Rightarrow> burst_metrics \<times> reader" where
  "decode_metrics r =
     (let (depth, r) = get_u64 r; (occupancy, r) = get_u64 r; (capacity, r) = get_u64 r;
          (slope, r) = get_i64 r; (imbalance, r) = get_i64 r; (onset, r) = get_u64 r;
          (peak, r) = get_u64 r; (last_update, r) = get_u64 r; (end_tick, r) = get_u64 r;
          (duration, r) = get_u64 r; (drops, r) = get_u64 r; (marks, r) = get_u64 r
      in (\<lparr>bm_peak_depth = depth, bm_peak_occupancy_bytes = occupancy, bm_capacity_bytes = capacity,
            bm_peak_slope_q16 = slope, bm_peak_imbalance_q16 = imbalance, bm_onset_tick = onset,
            bm_peak_tick = peak, bm_last_update_tick = last_update, bm_end_tick = end_tick,
            bm_duration_ticks = duration, bm_drop_delta = drops, bm_mark_delta = marks\<rparr>, r))"

definition encode_event :: "burst_event \<Rightarrow> byte list" where
  "encode_event e =
     put_u64 (ev_id e) @ put_u64 (sk_resource (ev_stream e)) @ put_u64 (sk_queue (ev_stream e)) @
     put_path (sk_path (ev_stream e)) @ put_u32 (ev_resource_generation e) @
     put_u8 (lifecycle_raw (ev_lifecycle e)) @ put_u8 (severity_raw (ev_severity e)) @
     put_u8 (evidence_authority_raw (ev_authority e)) @
     encode_metrics (ev_metrics e) @ encode_summary (ev_evidence e) @
     put_u64 (ev_policy_id e) @ put_u32 (ev_policy_generation e) @ put_u64 (ev_policy_digest e) @
     put_u32 (ev_epoch e) @ put_u64 (ev_incarnation e) @ put_u64 (ev_boot e) @
     put_u8 (close_raw (ev_close_reason e)) @ put_u64 (ev_closed_tick e) @
     put_u64 (ev_opened_seq e) @ put_u64 (ev_last_seq e) @ put_u32 (ev_revision e)"

text \<open>The checks after the whole record has been read, on the raw enumeration bytes.\<close>

definition event_checks :: "bool \<Rightarrow> stream_key \<Rightarrow> u8 \<Rightarrow> u8 \<Rightarrow> u8 \<Rightarrow> status" where
  "event_checks ok stream lifecycle sev authority =
     (if \<not> ok then failure StTruncated ''burst event payload is truncated''
      else if \<not> stream_key_valid stream then
        failure StCorrupt ''burst event stream identity is incomplete''
      else if lifecycle > lifecycle_raw ElFenced then
        failure StCorrupt ''burst event lifecycle is out of range''
      else if \<not> is_valid_severity sev then failure StCorrupt ''burst event severity is out of range''
      else if authority > evidence_authority_raw EvUnknown then
        failure StCorrupt ''burst event authority is out of range''
      else if sev \<noteq> severity_raw SevNone \<and> authority = evidence_authority_raw EvUnknown then
        failure StCorrupt ''positive severity cannot carry unknown evidence authority''
      else status_ok)"

definition decode_event :: "reader \<Rightarrow> (burst_event \<times> reader) result" where
  "decode_event r =
     (let (i, r) = get_u64 r; (resource, r) = get_u64 r; (queue, r) = get_u64 r;
          (path, r) = get_u64 r; (generation, r) = get_u32 r; (lifecycle, r) = get_u8 r;
          (sev, r) = get_u8 r; (authority, r) = get_u8 r; (metrics, r) = decode_metrics r
      in case decode_summary r of
           Inl e \<Rightarrow> Inl e
         | Inr (summary, r) \<Rightarrow>
     (let (policy_id, r) = get_u64 r; (policy_generation, r) = get_u32 r;
          (policy_digest, r) = get_u64 r; (epoch, r) = get_u32 r; (incarnation, r) = get_u64 r;
          (boot, r) = get_u64 r; (close, r) = get_u8 r; (closed, r) = get_u64 r;
          (opened_seq, r) = get_u64 r; (last_seq, r) = get_u64 r; (revision, r) = get_u32 r;
          stream = StreamKey resource queue path;
          checks = event_checks (rd_ok r) stream lifecycle sev authority
      in if \<not> is_ok checks then Inl checks
         else Inr (\<lparr>ev_id = i, ev_stream = stream, ev_resource_generation = generation,
             ev_lifecycle = lifecycle_of_raw lifecycle, ev_severity = severity_of_raw sev,
             ev_authority = evidence_authority_of_raw authority, ev_metrics = metrics,
             ev_evidence = summary, ev_policy_id = policy_id,
             ev_policy_generation = policy_generation, ev_policy_digest = policy_digest,
             ev_epoch = epoch, ev_incarnation = incarnation, ev_boot = boot,
             ev_close_reason = close_of_raw close, ev_closed_tick = closed,
             ev_opened_seq = opened_seq, ev_last_seq = last_seq, ev_revision = revision\<rparr>, r)))"

definition render_event_line :: "burst_event \<Rightarrow> string" where
  "render_event_line e =
     (let out = ''event='' @ to_string_u (ev_id e) @
            '' resource='' @ to_string_u (sk_resource (ev_stream e)) @
            '' queue='' @ to_string_u (sk_queue (ev_stream e)) @
            '' lifecycle='' @ lifecycle_to_string (ev_lifecycle e) @
            '' severity='' @ severity_to_string (ev_severity e) @
            '' authority='' @ authority_to_string (ev_authority e) @
            '' onset='' @ to_string_u (bm_onset_tick (ev_metrics e)) @
            '' peak='' @ to_string_u (bm_peak_tick (ev_metrics e)) @
            '' peak_depth='' @ to_string_u (bm_peak_depth (ev_metrics e)) @
            '' duration='' @ to_string_u (bm_duration_ticks (ev_metrics e)) @
            '' completeness='' @ to_string_u (es_completeness_permille (ev_evidence e)) @
            '' policy_gen='' @ to_string_u (ev_policy_generation e) @
            '' close='' @ close_reason_to_string (ev_close_reason e)
      in if length out > kMaxRenderedExplanationBytes then take kMaxRenderedExplanationBytes out else out)"

section \<open>Laws\<close>

lemma lifecycle_of_raw_raw [simp]: "lifecycle_of_raw (lifecycle_raw s) = s"
  by (cases s) (simp_all add: lifecycle_of_raw_def)

lemma lifecycle_raw_le [simp]: "lifecycle_raw s \<le> 3"
  by (cases s) simp_all

lemma evidence_authority_of_raw_raw [simp]: "evidence_authority_of_raw (evidence_authority_raw s) = s"
  by (cases s) (simp_all add: evidence_authority_of_raw_def)

lemma evidence_authority_raw_le [simp]: "evidence_authority_raw s \<le> 2"
  by (cases s) simp_all

lemma evidence_authority_raw_2 [simp]: "evidence_authority_raw s = 2 \<longleftrightarrow> s = EvUnknown"
  by (cases s) simp_all

lemma close_raw_of_raw [simp]: "close_raw (close_of_raw b) = b"
  by (simp add: close_of_raw_def)

definition close_wf :: "close_reason \<Rightarrow> bool" where
  "close_wf c \<longleftrightarrow> close_of_raw (close_raw c) = c"

definition summary_wf :: "evidence_summary \<Rightarrow> bool" where
  "summary_wf s \<longleftrightarrow> es_completeness_permille s \<le> 1000"

interpretation summary_codec: decoder encode_summary decode_summary summary_wf
proof unfold_locales
  fix s pre rest
  assume "summary_wf s"
  then show "decode_summary (rd_at pre (encode_summary s @ rest)) = Inr (s, rd_at (pre @ encode_summary s) rest)"
    unfolding summary_wf_def decode_summary_def encode_summary_def append_assoc
    by (simp add: codec not_less)
qed

lemma decode_metrics_encode [codec]:
  "decode_metrics (rd_at pre (encode_metrics m @ rest)) = (m, rd_at (pre @ encode_metrics m) rest)"
  unfolding decode_metrics_def encode_metrics_def append_assoc by (simp add: codec)

text \<open>The events the decoder accepts: a positive severity never carries unknown evidence.\<close>

definition event_wf :: "burst_event \<Rightarrow> bool" where
  "event_wf e \<longleftrightarrow> stream_key_valid (ev_stream e) \<and> severity_wf (ev_severity e) \<and>
     is_valid_severity (severity_raw (ev_severity e)) \<and> close_wf (ev_close_reason e) \<and>
     summary_wf (ev_evidence e) \<and> (event_positive e \<longrightarrow> ev_authority e \<noteq> EvUnknown)"

lemma severity_raw_0_iff: "severity_wf s \<Longrightarrow> severity_raw s = 0 \<longleftrightarrow> s = SevNone"
  by (cases s) (auto simp: severity_wf_def severity_of_raw_def split: if_splits)

lemma event_checks_wf:
  assumes "event_wf e"
  shows "event_checks True (ev_stream e) (lifecycle_raw (ev_lifecycle e)) (severity_raw (ev_severity e))
     (evidence_authority_raw (ev_authority e)) = status_ok"
  using assms severity_raw_0_iff [of "ev_severity e"]
  by (auto simp: event_checks_def event_wf_def event_positive_def leD)

interpretation event_codec: decoder encode_event decode_event event_wf
proof unfold_locales
  fix e pre rest
  assume w: "event_wf e"
  note checks = event_checks_wf [OF w]
  from w have "summary_wf (ev_evidence e)" "severity_wf (ev_severity e)" "close_wf (ev_close_reason e)"
    by (simp_all add: event_wf_def)
  then show "decode_event (rd_at pre (encode_event e @ rest)) = Inr (e, rd_at (pre @ encode_event e) rest)"
    unfolding decode_event_def encode_event_def append_assoc put_path_eq
    using checks by (simp add: codec summary_codec.dec_enc severity_of_raw_raw close_wf_def Let_def)
qed

lemma event_wf_decode:
  assumes "decode_event r = Inr (e, r')"
  shows "event_wf e"
proof -
  have s: "summary_wf s" if "decode_summary q = Inr (s, q')" for s q q'
    using that by (auto simp: decode_summary_def summary_wf_def Let_def case_prod_beta not_less split: if_splits)
  have c: "is_ok (event_checks k st l v a) \<longleftrightarrow>
      k \<and> stream_key_valid st \<and> l \<le> 3 \<and> is_valid_severity v \<and> a \<le> 2 \<and> (v = 0 \<or> a \<noteq> 2)" for k st l v a
    by (auto simp: event_checks_def not_less)
  have p: "severity_of_raw v \<noteq> SevNone \<longleftrightarrow> v \<noteq> 0" for v by (simp add: severity_of_raw_def)
  have a: "evidence_authority_of_raw v \<noteq> EvUnknown" if "v \<le> 2" "v \<noteq> 2" for v
    using that by (auto simp: evidence_authority_of_raw_def word_le_nat_alt word_unat_eq_iff)
  show ?thesis
    using assms unfolding decode_event_def
    by (auto simp: c p event_wf_def event_positive_def close_wf_def Let_def case_prod_beta
        dest: s a split: if_splits sum.splits)
qed

text \<open>Two onsets of the same stream collide only on the value remapped from the sentinel.\<close>

lemma make_event_id_valid: "id_valid (make_event_id k onset)"
  by (simp add: make_event_id_def id_valid_def id_invalid_def Let_def)

lemma event_id_hash_inject: "event_id_hash k a = event_id_hash k b \<longleftrightarrow> a = b"
  by (simp add: event_id_hash_def Let_def)

end
