(* ===== verification/Classifier.thy ===== *)
theory Classifier
  imports Window Events
begin

text \<open>
  Grading of a burst and the summary of its evidence (\<open>src/detect/classifier.cpp\<close>).
\<close>

record grade_breakdown =
  gb_occupancy :: severity
  gb_depth :: severity
  gb_slope :: severity
  gb_duration :: severity
  gb_drops :: severity
  gb_overall :: severity

text \<open>
  One graded dimension: a crossed step adds a reason with the threshold of that step. The grade
  of a ladder never exceeds its number of steps, so the index is in range.
\<close>

definition note_grade ::
  "severity \<Rightarrow> reason_code \<Rightarrow> i64 \<Rightarrow> grade_ladder \<Rightarrow> tick \<Rightarrow> explanation \<Rightarrow> explanation" where
  "note_grade g code observed ladder t e =
     (if g \<noteq> SevNone then expl_add code observed (ladder ! (unat (severity_raw g) - 1)) t e else e)"

definition classify ::
  "burst_metrics \<Rightarrow> evidence_summary \<Rightarrow> detection_policy \<Rightarrow> tick \<Rightarrow> explanation \<Rightarrow>
     grade_breakdown \<times> explanation" where
  "classify m ev p t e =
     (let occupancy_permille = compute_permille (bm_peak_occupancy_bytes m) (bm_capacity_bytes m);
          occupancy = grade (dp_occupancy_permille_ladder p) (ucast occupancy_permille);
          e = note_grade occupancy RcOccupancyGradeCrossed (ucast occupancy_permille)
                (dp_occupancy_permille_ladder p) t e;
          depth = grade (dp_depth_ladder p) (bm_peak_depth m);
          e = note_grade depth RcDepthGradeCrossed (bm_peak_depth m) (dp_depth_ladder p) t e;
          slope = grade_rate (dp_slope_ladder p) (bm_peak_slope_q16 m);
          e = note_grade slope RcSlopeGradeCrossed (bm_peak_slope_q16 m) (dp_slope_ladder p) t e;
          duration = grade (dp_duration_ladder p) (bm_duration_ticks m);
          e = note_grade duration RcDurationGradeCrossed (bm_duration_ticks m) (dp_duration_ladder p) t e;
          drops = grade (dp_drop_ladder p) (bm_drop_delta m);
          e = note_grade drops RcDropGradeCrossed (bm_drop_delta m) (dp_drop_ladder p) t e;
          overall = severity_max SevNone occupancy;
          overall = severity_max overall depth;
          overall = severity_max overall slope;
          overall = severity_max overall duration;
          overall = severity_max overall drops;
          overall = (if overall = SevNone then SevMinor else overall);
          overall = (if \<not> es_capacity_known ev then severity_min overall SevModerate else overall)
      in (\<lparr>gb_occupancy = occupancy, gb_depth = depth, gb_slope = slope, gb_duration = duration,
           gb_drops = drops, gb_overall = overall\<rparr>, e))"

definition summarize :: "window_metrics \<Rightarrow> window \<Rightarrow> evidence_summary" where
  "summarize m w =
     evidence_summary_default\<lparr>es_window_start := wm_window_start m, es_window_end := wm_window_end m,
       es_samples := wm_samples m, es_expected_samples := wm_expected_samples m,
       es_completeness_permille := wm_completeness_permille m,
       es_gaps := ew_discontinuities w, es_reordered := ew_reordered w,
       es_duplicates := ew_duplicates w, es_counter_resets := ew_counter_resets w,
       es_counter_rollovers := ew_counter_rollovers w,
       es_dropped_samples := ew_discontinuities w + ew_reordered w + ew_duplicates w,
       es_capacity_known := wm_capacity_known m, es_capacity_bytes := wm_capacity_bytes m,
       es_sparse := wm_sparse m, es_synthetic := wm_synthetic m,
       es_provenance := wm_provenance m, es_provenance_count := wm_provenance_count m\<rparr>"

section \<open>Laws\<close>

lemma grade_loop_le:
  "severity_raw s \<le> 4 \<Longrightarrow> unat i + length l \<le> 4 \<Longrightarrow> severity_raw (grade_loop i l v s) \<le> 4"
proof (induction i l v s rule: grade_loop.induct)
  case (2 i t ts v s)
  then have "unat (i + 1) = unat i + 1" by (subst unat_add_no_wrap) simp_all
  with 2 show ?case by (simp add: word_le_nat_alt)
qed simp

lemma grade_le: "length l = kSteps \<Longrightarrow> severity_raw (grade l v) \<le> 4"
  by (simp add: grade_def grade_loop_le kSteps_def)

lemma grade_rate_le: "length l = kSteps \<Longrightarrow> severity_raw (grade_rate l v) \<le> 4"
  by (simp add: grade_rate_def grade_le)

lemma note_grade_ok [simp]: "expl_ok e \<Longrightarrow> expl_ok (note_grade g c ob l t e)"
  by (simp add: note_grade_def)

lemma classify_expl_ok: "expl_ok e \<Longrightarrow> expl_ok (snd (classify m ev p t e))"
  by (simp add: classify_def Let_def)

text \<open>
  A confirmed burst is at least minor, never above critical, and at most moderate when the buffer
  capacity is unknown.
\<close>

lemma severity_max_None [simp]: "severity_max SevNone s = (if severity_raw s = 0 then SevNone else s)"
  by (simp add: severity_max_def)

lemma classify_overall:
  assumes "list_all (\<lambda>l. length l = kSteps) [dp_occupancy_permille_ladder p, dp_depth_ladder p,
    dp_slope_ladder p, dp_duration_ladder p, dp_drop_ladder p]"
    and g: "g = gb_overall (fst (classify m ev p t e))"
  shows "severity_wf g" "1 \<le> severity_raw g" "severity_raw g \<le> 4"
    "\<not> es_capacity_known ev \<Longrightarrow> severity_raw g \<le> 2"
proof -
  define o5 where "o5 = severity_max (severity_max (severity_max (severity_max (severity_max SevNone
      (grade (dp_occupancy_permille_ladder p)
         (ucast (compute_permille (bm_peak_occupancy_bytes m) (bm_capacity_bytes m)))))
      (grade (dp_depth_ladder p) (bm_peak_depth m)))
      (grade_rate (dp_slope_ladder p) (bm_peak_slope_q16 m)))
      (grade (dp_duration_ladder p) (bm_duration_ticks m)))
      (grade (dp_drop_ladder p) (bm_drop_delta m))"
  define o6 where "o6 = (if o5 = SevNone then SevMinor else o5)"
  have w5: "severity_wf o5" "severity_raw o5 \<le> 4"
    using assms(1) by (simp_all add: o5_def severity_raw_max grade_le grade_rate_le del: severity_max_None)
  have w6: "severity_wf o6" "1 \<le> severity_raw o6" "severity_raw o6 \<le> 4"
    using w5 severity_raw_0_iff [OF w5(1)] by (auto simp: o6_def word_le_nat_alt unat_gt_0 Suc_le_eq)
  have g': "g = (if \<not> es_capacity_known ev then severity_min o6 SevModerate else o6)"
    unfolding g classify_def o6_def o5_def by (simp add: Let_def del: severity_max_None)
  show "severity_wf g" "1 \<le> severity_raw g" "severity_raw g \<le> 4"
    "\<not> es_capacity_known ev \<Longrightarrow> severity_raw g \<le> 2"
    unfolding g' using w6 by (auto simp: severity_raw_min min_def)
qed

end
