(* ===== verification/Detector.thy ===== *)
theory Detector
  imports Classifier
begin

text \<open>
  The per-stream microburst detector (\<open>include/mbg/detect/detector.hpp\<close>,
  \<open>src/detect/detector.cpp\<close>): the onset, release, cooldown and inadmissibility accounting, and the
  episode state machine. \<open>evaluate\<close> is split along the blocks of the code, in its order:
  the evidence gates, the inadmissible branch, the onset rules, the release rules, the cooldown, the
  switch on the state and the episode ceiling.
\<close>

section \<open>State\<close>

datatype detector_state = DsIdle | DsActive | DsRecovering

primrec detector_state_to_string :: "detector_state \<Rightarrow> string" where
  "detector_state_to_string DsIdle = ''idle''"
| "detector_state_to_string DsActive = ''active''"
| "detector_state_to_string DsRecovering = ''recovering''"

record decision =
  dd_classification :: classification
  dd_authority :: evidence_authority
  dd_severity :: severity
  dd_grades :: grade_breakdown
  dd_stream :: stream_key
  dd_tick :: tick
  dd_event :: u64
  dd_resource_generation :: u32
  dd_policy_generation :: u32
  dd_policy_digest :: u64
  dd_opened :: bool
  dd_updated :: bool
  dd_closed :: bool
  dd_fenced :: bool
  dd_suppressed_by_cooldown :: bool
  dd_close_reason :: close_reason
  dd_evidence :: evidence_summary
  dd_metrics :: burst_metrics
  dd_explanation :: explanation
  dd_staleness_ticks :: u64
  dd_onset_progress_ticks :: u64
  dd_release_progress_ticks :: u64

definition grade_breakdown_default :: grade_breakdown where
  "grade_breakdown_default = \<lparr>gb_occupancy = SevNone, gb_depth = SevNone, gb_slope = SevNone,
     gb_duration = SevNone, gb_drops = SevNone, gb_overall = SevNone\<rparr>"

definition decision_default :: decision where
  "decision_default = \<lparr>dd_classification = ClUnknown, dd_authority = EvUnknown,
     dd_severity = SevNone, dd_grades = grade_breakdown_default, dd_stream = stream_key_default,
     dd_tick = 0, dd_event = id_invalid, dd_resource_generation = id_invalid,
     dd_policy_generation = id_invalid, dd_policy_digest = 0, dd_opened = False, dd_updated = False,
     dd_closed = False, dd_fenced = False, dd_suppressed_by_cooldown = False,
     dd_close_reason = CrNone, dd_evidence = evidence_summary_default,
     dd_metrics = burst_metrics_default, dd_explanation = explanation_empty, dd_staleness_ticks = 0,
     dd_onset_progress_ticks = 0, dd_release_progress_ticks = 0\<rparr>"

record detector =
  dt_key :: stream_key
  dt_policy :: policy
  dt_generation :: u32
  dt_resource_generation :: u32
  dt_window :: window
  dt_state :: detector_state
  dt_episode :: burst_event
  dt_last_decision :: decision
  dt_last_evaluated :: tick
  dt_has_evaluated :: bool
  dt_onset_run_active :: bool
  dt_onset_start_tick :: tick
  dt_onset_run_ticks :: u64
  dt_onset_rise_observed :: bool
  dt_release_sustaining :: bool
  dt_release_progress_ticks :: u64
  dt_recovery_start_tick :: tick
  dt_cooldown_until :: tick
  dt_inadmissible_since_set :: bool
  dt_inadmissible_since :: tick
  dt_last_accept :: window_accept

definition reset_window :: "detector \<Rightarrow> window" where
  "reset_window d = win_reset (unat (dp_window_capacity (po_detection (dt_policy d)))) (dt_window d)"

definition configure :: "stream_key \<Rightarrow> policy \<Rightarrow> u32 \<Rightarrow> detector \<Rightarrow> detector" where
  "configure key p generation d =
     (let d = d\<lparr>dt_key := key, dt_policy := p, dt_generation := generation\<rparr>
      in d\<lparr>dt_window := reset_window d, dt_state := DsIdle, dt_episode := event_default,
           dt_last_decision := decision_default, dt_has_evaluated := False, dt_last_evaluated := 0,
           dt_onset_run_active := False, dt_onset_start_tick := 0, dt_onset_run_ticks := 0,
           dt_onset_rise_observed := False, dt_release_sustaining := False,
           dt_release_progress_ticks := 0, dt_recovery_start_tick := 0, dt_cooldown_until := 0,
           dt_inadmissible_since_set := False, dt_inadmissible_since := 0\<rparr>)"

text \<open>The members of a default constructed detector, before \<open>configure\<close>.\<close>

definition detector_blank :: "policy \<Rightarrow> detector" where
  "detector_blank p = \<lparr>dt_key = stream_key_default, dt_policy = p, dt_generation = id_invalid,
     dt_resource_generation = id_invalid, dt_window = window_default, dt_state = DsIdle,
     dt_episode = event_default, dt_last_decision = decision_default, dt_last_evaluated = 0,
     dt_has_evaluated = False, dt_onset_run_active = False, dt_onset_start_tick = 0,
     dt_onset_run_ticks = 0, dt_onset_rise_observed = False, dt_release_sustaining = False,
     dt_release_progress_ticks = 0, dt_recovery_start_tick = 0, dt_cooldown_until = 0,
     dt_inadmissible_since_set = False, dt_inadmissible_since = 0, dt_last_accept = WaAccepted\<rparr>"

definition detector_new :: "stream_key \<Rightarrow> policy \<Rightarrow> u32 \<Rightarrow> detector" where
  "detector_new key p generation = configure key p generation (detector_blank p)"

definition has_open_episode :: "detector \<Rightarrow> bool" where
  "has_open_episode d \<longleftrightarrow> dt_state d = DsActive \<or> dt_state d = DsRecovering"

definition in_cooldown :: "tick \<Rightarrow> detector \<Rightarrow> bool" where
  "in_cooldown now d \<longleftrightarrow> tick_after now (dt_cooldown_until d)"

definition forward_gap :: "tick \<Rightarrow> tick \<Rightarrow> u64" where
  "forward_gap from to = (let delta = tick_delta from to in if delta \<le> 0 then 0 else word_of_int delta)"

definition add_ticks_saturating :: "tick \<Rightarrow> u64 \<Rightarrow> tick" where
  "add_ticks_saturating base span =
     (case add_checked_u base span of Some t \<Rightarrow> t | None \<Rightarrow> NOT 0)"

text \<open>\<open>std::max\<close> on signed values.\<close>

definition max_s :: "i64 \<Rightarrow> i64 \<Rightarrow> i64" where
  "max_s a b = (if sint a < sint b then b else a)"

definition dd_reason :: "reason_code \<Rightarrow> i64 \<Rightarrow> i64 \<Rightarrow> tick \<Rightarrow> decision \<Rightarrow> decision" where
  "dd_reason code observed threshold t dec =
     dec\<lparr>dd_explanation := expl_add code observed threshold t (dd_explanation dec)\<rparr>"

section \<open>Episodes\<close>

definition open_episode :: "tick \<Rightarrow> detector \<Rightarrow> decision \<Rightarrow> detector \<times> decision" where
  "open_episode now d dec =
     (let e = event_default\<lparr>ev_stream := dt_key d, ev_resource_generation := dt_resource_generation d,
            ev_id := make_event_id (dt_key d) (dt_onset_start_tick d), ev_lifecycle := ElOpen,
            ev_policy_id := po_id (dt_policy d), ev_policy_generation := dt_generation d,
            ev_policy_digest := policy_digest (dt_policy d),
            ev_metrics := burst_metrics_default\<lparr>bm_onset_tick := dt_onset_start_tick d,
              bm_peak_tick := now, bm_last_update_tick := now, bm_end_tick := now\<rparr>,
            ev_revision := 1\<rparr>;
          d = d\<lparr>dt_episode := e, dt_state := DsActive, dt_release_sustaining := False,
                dt_release_progress_ticks := 0\<rparr>
      in (d, dd_reason RcEpisodeOpened (dt_onset_start_tick d) now now
               (dec\<lparr>dd_opened := True, dd_event := ev_id e\<rparr>)))"

definition update_metrics :: "tick \<Rightarrow> window_metrics \<Rightarrow> burst_metrics \<Rightarrow> burst_metrics" where
  "update_metrics now m b =
     (let new_peak = wm_peak_depth m > bm_peak_depth b
      in b\<lparr>bm_peak_depth := max (bm_peak_depth b) (wm_peak_depth m),
           bm_peak_occupancy_bytes := max (bm_peak_occupancy_bytes b) (wm_peak_occupancy_bytes m),
           bm_peak_slope_q16 := max_s (bm_peak_slope_q16 b) (wm_recent_slope_q16 m),
           bm_peak_imbalance_q16 := max_s (bm_peak_imbalance_q16 b) (wm_imbalance_q16 m),
           bm_capacity_bytes := wm_capacity_bytes m,
           bm_drop_delta := max (bm_drop_delta b) (wm_drop_delta m),
           bm_mark_delta := max (bm_mark_delta b) (wm_mark_delta m),
           bm_last_update_tick := now, bm_end_tick := now,
           bm_duration_ticks := forward_gap (bm_onset_tick b) now,
           bm_peak_tick := (if new_peak then now else bm_peak_tick b)\<rparr>)"

definition update_episode ::
  "tick \<Rightarrow> window_metrics \<Rightarrow> detector \<Rightarrow> decision \<Rightarrow> detector \<times> decision" where
  "update_episode now m d dec =
     (if \<not> has_open_episode d then (d, dec)
      else
        let p = po_detection (dt_policy d);
            b = update_metrics now m (ev_metrics (dt_episode d));
            (breakdown, explanation) = classify b (dd_evidence dec) p now (dd_explanation dec);
            overall = gb_overall breakdown;
            capped = (if dd_authority dec = EvDegraded
                      then severity_min overall (dp_degraded_severity_cap p) else overall);
            dec = dec\<lparr>dd_explanation := explanation\<rparr>;
            dec = (if capped \<noteq> overall
                   then dd_reason RcAuthorityDegraded (ucast (severity_raw overall))
                          (ucast (severity_raw capped)) now dec
                   else dec);
            e = (dt_episode d)\<lparr>ev_metrics := b, ev_evidence := dd_evidence dec, ev_severity := capped,
                  ev_authority := dd_authority dec,
                  ev_revision := saturating_add_u (ev_revision (dt_episode d)) 1\<rparr>
        in (d\<lparr>dt_episode := e\<rparr>,
            dec\<lparr>dd_metrics := b, dd_severity := capped, dd_event := ev_id e, dd_updated := True,
                dd_grades := breakdown\<lparr>gb_overall := capped\<rparr>\<rparr>))"

definition close_episode ::
  "close_reason \<Rightarrow> tick \<Rightarrow> bool \<Rightarrow> detector \<Rightarrow> decision \<Rightarrow> detector \<times> decision" where
  "close_episode reason now fenced d dec =
     (let b = (ev_metrics (dt_episode d))\<lparr>bm_end_tick := now,
            bm_duration_ticks := forward_gap (bm_onset_tick (ev_metrics (dt_episode d))) now\<rparr>;
          e = (dt_episode d)\<lparr>ev_lifecycle := (if fenced then ElFenced else ElClosed),
            ev_close_reason := reason, ev_closed_tick := now, ev_metrics := b,
            ev_revision := saturating_add_u (ev_revision (dt_episode d)) 1\<rparr>;
          d = d\<lparr>dt_episode := e, dt_state := DsIdle,
            dt_cooldown_until := add_ticks_saturating now (dp_cooldown_ticks (po_detection (dt_policy d))),
            dt_onset_run_active := False, dt_onset_run_ticks := 0, dt_onset_rise_observed := False,
            dt_release_sustaining := False, dt_release_progress_ticks := 0,
            dt_inadmissible_since_set := False\<rparr>;
          dec = dec\<lparr>dd_closed := True, dd_fenced := fenced, dd_event := ev_id e,
            dd_close_reason := reason, dd_metrics := b, dd_severity := ev_severity e,
            dd_evidence := (if es_samples (dd_evidence dec) = 0
              then dd_evidence (dt_last_decision d) else dd_evidence dec)\<rparr>;
          dec = dd_reason (if fenced then RcEpisodeFenced else RcEpisodeClosed) now
                  (bm_duration_ticks b) now dec
      in (d, if fenced then dd_reason RcAuthorityFenced 0 0 now dec else dec))"

text \<open>The decision of a fence: identity of the stream, then the closed episode.\<close>

definition identity_decision :: "tick \<Rightarrow> detector \<Rightarrow> decision" where
  "identity_decision now d = decision_default\<lparr>dd_stream := dt_key d, dd_tick := now,
     dd_policy_generation := dt_generation d, dd_policy_digest := policy_digest (dt_policy d),
     dd_resource_generation := dt_resource_generation d\<rparr>"

definition fence_decision :: "close_reason \<Rightarrow> tick \<Rightarrow> detector \<Rightarrow> detector \<times> decision" where
  "fence_decision reason now d =
     (let (d, dec) = close_episode reason now True d (identity_decision now d)
      in (d, dec\<lparr>dd_classification := ClFenced\<rparr>))"

definition rearm :: "policy \<Rightarrow> u32 \<Rightarrow> tick \<Rightarrow> detector \<Rightarrow> decision option \<times> detector" where
  "rearm p generation now d =
     (let (emit, d) = (if has_open_episode d
            then let (d, dec) = fence_decision CrPolicyChanged now d in (Some dec, d)
            else (None, d));
          d = d\<lparr>dt_policy := p, dt_generation := generation\<rparr>
      in (emit, d\<lparr>dt_window := reset_window d, dt_onset_run_active := False, dt_onset_run_ticks := 0,
            dt_onset_rise_observed := False, dt_release_sustaining := False,
            dt_release_progress_ticks := 0, dt_state := DsIdle, dt_has_evaluated := False,
            dt_last_evaluated := 0, dt_inadmissible_since_set := False\<rparr>))"

definition fence :: "close_reason \<Rightarrow> tick \<Rightarrow> detector \<Rightarrow> decision option \<times> detector" where
  "fence reason now d =
     (if \<not> has_open_episode d then (None, d)
      else let (d', dec) = fence_decision reason now d
           in (Some (dec\<lparr>dd_evidence := dd_evidence (dt_last_decision d)\<rparr>), d'))"


section \<open>Evaluation\<close>

text \<open>The evidence gates.\<close>

record gates =
  gt_has_samples :: bool
  gt_enough :: bool
  gt_complete :: bool
  gt_fresh :: bool
  gt_gaps_ok :: bool
  gt_stable :: bool
  gt_authoritative :: bool
  gt_degraded_allowed :: bool

definition evidence_gates :: "detection_policy \<Rightarrow> window_metrics \<Rightarrow> u64 \<Rightarrow> gates" where
  "evidence_gates p m staleness =
     (let has_samples = wm_samples m > 0;
          enough = wm_samples m \<ge> dp_min_samples_for_classification p;
          complete = wm_completeness_permille m \<ge> dp_min_completeness_permille p;
          fresh = (has_samples \<and> staleness \<le> dp_staleness_limit_ticks p);
          gaps_ok = wm_max_gap_ticks m \<le> dp_max_sample_gap_ticks p;
          stable = (dp_allow_capacity_change_within_window p \<or> \<not> wm_capacity_changed m);
          authoritative = (has_samples \<and> enough \<and> complete \<and> fresh \<and> gaps_ok \<and> stable);
          degraded = (\<not> authoritative \<and> dp_allow_degraded_classification p \<and> has_samples \<and> fresh \<and>
            stable \<and> wm_samples m \<ge> 2 \<and>
            wm_completeness_permille m \<ge> dp_degraded_min_completeness_permille p)
      in \<lparr>gt_has_samples = has_samples, gt_enough = enough, gt_complete = complete, gt_fresh = fresh,
          gt_gaps_ok = gaps_ok, gt_stable = stable, gt_authoritative = authoritative,
          gt_degraded_allowed = degraded\<rparr>)"

definition reason_if :: "bool \<Rightarrow> reason_code \<Rightarrow> i64 \<Rightarrow> i64 \<Rightarrow> tick \<Rightarrow> decision \<Rightarrow> decision" where
  "reason_if c code observed threshold t dec =
     (if c then dd_reason code observed threshold t dec else dec)"

definition explain_evidence ::
  "detection_policy \<Rightarrow> window_metrics \<Rightarrow> window \<Rightarrow> gates \<Rightarrow> tick \<Rightarrow> decision \<Rightarrow> decision" where
  "explain_evidence p m w g now dec =
     (let dec = (if \<not> gt_has_samples g then dd_reason RcEvidenceNoSamples 0 0 now dec
        else
          let dec = reason_if (\<not> gt_enough g) RcEvidenceInsufficientSamples (wm_samples m)
                      (dp_min_samples_for_classification p) now dec;
              dec = reason_if (\<not> gt_complete g) RcEvidenceIncomplete
                      (ucast (wm_completeness_permille m)) (ucast (dp_min_completeness_permille p)) now dec;
              dec = reason_if (\<not> gt_gaps_ok g) RcEvidenceGap (wm_max_gap_ticks m)
                      (dp_max_sample_gap_ticks p) now dec;
              dec = reason_if (\<not> gt_stable g) RcEvidenceCapacityChanged (wm_capacity_bytes m)
                      (wm_capacity_bytes m) now dec;
              dec = reason_if (\<not> gt_fresh g) RcEvidenceStale (dd_staleness_ticks dec)
                      (dp_staleness_limit_ticks p) now dec;
              dec = reason_if (ew_duplicates w \<noteq> 0) RcEvidenceDuplicate (ew_duplicates w) 0 now dec;
              dec = reason_if (ew_reordered w \<noteq> 0) RcEvidenceReordered (ew_reordered w) 0 now dec;
              dec = reason_if (ew_counter_resets w \<noteq> 0) RcEvidenceCounterReset (ew_counter_resets w) 0 now dec
          in reason_if (ew_counter_rollovers w \<noteq> 0) RcEvidenceTickRollover (ew_counter_rollovers w) 0 now dec)
      in if gt_authoritative g then dd_reason RcEvidenceAccepted 0 0 now dec
         else if gt_degraded_allowed g then dd_reason RcEvidenceDegradedAllowed 0 0 now dec
         else dd_reason RcEvidenceDegradedRefused 0 0 now dec)"

text \<open>The branch for evidence that is not admissible: suspend within the grace, then fence.\<close>

definition evaluate_inadmissible ::
  "tick \<Rightarrow> gates \<Rightarrow> detector \<Rightarrow> decision \<Rightarrow> detector \<times> decision" where
  "evaluate_inadmissible now g d dec =
     (let p = po_detection (dt_policy d);
          dec = dec\<lparr>dd_classification := ClUnknown, dd_authority := EvUnknown, dd_severity := SevNone\<rparr>
      in if \<not> has_open_episode d then (d, dec)
         else
           let d = (if \<not> dt_inadmissible_since_set d
                    then d\<lparr>dt_inadmissible_since_set := True, dt_inadmissible_since := now\<rparr> else d);
               stale_excess = (if dd_staleness_ticks dec > dp_staleness_limit_ticks p
                 then dd_staleness_ticks dec - dp_staleness_limit_ticks p else 0);
               held = max (forward_gap (dt_inadmissible_since d) now) stale_excess
           in if held \<le> dp_evidence_grace_ticks p then
                (d, dec\<lparr>dd_classification := ClRecovering, dd_authority := EvUnknown,
                        dd_event := ev_id (dt_episode d), dd_metrics := ev_metrics (dt_episode d),
                        dd_severity := ev_severity (dt_episode d)\<rparr>)
              else
                let reason = (if \<not> gt_fresh g then CrEvidenceStale
                       else if \<not> gt_stable g then CrCapacityChanged else CrEvidenceStale);
                    (d, dec) = close_episode reason now True d dec
                in (d, dec\<lparr>dd_classification := ClFenced\<rparr>))"

definition steepest_slope :: "window_metrics \<Rightarrow> i64" where
  "steepest_slope m =
     (if sint (wm_recent_slope_q16 m) > sint (wm_window_slope_q16 m) then wm_recent_slope_q16 m
      else wm_window_slope_q16 m)"

text \<open>R1 depth, R2 rise inside the onset window; R3 is \<open>onset_confirmed\<close>.\<close>

definition onset_update :: "tick \<Rightarrow> u64 \<Rightarrow> window_metrics \<Rightarrow> detector \<Rightarrow> detector" where
  "onset_update now gap m d =
     (let p = po_detection (dt_policy d);
          slope_ok = sint (steepest_slope m) \<ge> sint (dp_onset_min_slope_q16 p)
      in if wm_latest_depth m \<ge> dp_onset_min_depth p then
           let d = (if \<not> dt_onset_run_active d
                    then d\<lparr>dt_onset_run_active := True, dt_onset_start_tick := now,
                           dt_onset_run_ticks := 0, dt_onset_rise_observed := False\<rparr>
                    else d\<lparr>dt_onset_run_ticks := saturating_add_u (dt_onset_run_ticks d) gap\<rparr>)
           in if slope_ok \<and> dt_onset_run_ticks d \<le> dp_onset_slope_window_ticks p
              then d\<lparr>dt_onset_rise_observed := True\<rparr> else d
         else d\<lparr>dt_onset_run_active := False, dt_onset_run_ticks := 0, dt_onset_rise_observed := False\<rparr>)"

definition onset_confirmed :: "detector \<Rightarrow> bool" where
  "onset_confirmed d \<longleftrightarrow> dt_onset_run_active d \<and> dt_onset_rise_observed d \<and>
     dt_onset_run_ticks d \<ge> dp_onset_sustain_ticks (po_detection (dt_policy d))"

definition release_now :: "detection_policy \<Rightarrow> window_metrics \<Rightarrow> bool" where
  "release_now p m \<longleftrightarrow> wm_latest_depth m \<le> dp_release_depth p \<and>
     sint (wm_recent_slope_q16 m) \<le> sint (dp_release_slope_q16 p)"

definition release_update :: "u64 \<Rightarrow> window_metrics \<Rightarrow> detector \<Rightarrow> detector" where
  "release_update gap m d =
     (if release_now (po_detection (dt_policy d)) m \<and> has_open_episode d then
        (if \<not> dt_release_sustaining d
         then d\<lparr>dt_release_sustaining := True, dt_release_progress_ticks := 0\<rparr>
         else d\<lparr>dt_release_progress_ticks := saturating_add_u (dt_release_progress_ticks d) gap\<rparr>)
      else d\<lparr>dt_release_sustaining := False, dt_release_progress_ticks := 0\<rparr>)"

definition release_confirmed :: "window_metrics \<Rightarrow> detector \<Rightarrow> bool" where
  "release_confirmed m d \<longleftrightarrow> release_now (po_detection (dt_policy d)) m \<and> dt_release_sustaining d \<and>
     dt_release_progress_ticks d \<ge> dp_release_sustain_ticks (po_detection (dt_policy d))"

text \<open>The explanation of the onset, release and cooldown blocks.\<close>

definition explain_rules ::
  "tick \<Rightarrow> window_metrics \<Rightarrow> detector \<Rightarrow> decision \<Rightarrow> decision" where
  "explain_rules now m d dec =
     (let p = po_detection (dt_policy d);
          dec = reason_if (wm_latest_depth m \<ge> dp_onset_min_depth p) RcOnsetDepthCrossed
                  (wm_latest_depth m) (dp_onset_min_depth p) now dec;
          dec = reason_if (dt_onset_rise_observed d) RcOnsetSlopeCrossed (steepest_slope m)
                  (dp_onset_min_slope_q16 p) now dec;
          dec = reason_if (onset_confirmed d) RcOnsetSustainMet (dt_onset_run_ticks d)
                  (dp_onset_sustain_ticks p) now dec;
          dec = reason_if (release_now p m \<and> has_open_episode d) RcReleaseDepthCrossed (wm_latest_depth m)
                  (dp_release_depth p) now dec;
          dec = reason_if (release_confirmed m d) RcReleaseSustainMet (dt_release_progress_ticks d)
                  (dp_release_sustain_ticks p) now dec;
          dec = (if in_cooldown now d
                 then dd_reason RcCooldownActive now (dt_cooldown_until d) now
                        (dec\<lparr>dd_suppressed_by_cooldown := True\<rparr>)
                 else dec)
      in dec\<lparr>dd_onset_progress_ticks := dt_onset_run_ticks d,
             dd_release_progress_ticks := dt_release_progress_ticks d\<rparr>)"

definition positive_class :: "bool \<Rightarrow> classification" where
  "positive_class degraded = (if degraded then ClDegradedMicroburst else ClMicroburst)"

text \<open>The switch on the state, one definition per case.\<close>

definition step_idle ::
  "tick \<Rightarrow> window_metrics \<Rightarrow> bool \<Rightarrow> detector \<Rightarrow> decision \<Rightarrow> detector \<times> decision" where
  "step_idle now m degraded d dec =
     (if onset_confirmed d \<and> \<not> in_cooldown now d then
        let (d, dec) = open_episode now d dec;
            (d, dec) = update_episode now m d dec
        in (d, dec\<lparr>dd_classification := positive_class degraded\<rparr>)
      else if dt_onset_run_active d then (d, dec\<lparr>dd_classification := ClCandidate\<rparr>)
      else (d, dec\<lparr>dd_classification := ClQuiescent\<rparr>))"

definition step_active ::
  "tick \<Rightarrow> window_metrics \<Rightarrow> bool \<Rightarrow> detector \<Rightarrow> decision \<Rightarrow> detector \<times> decision" where
  "step_active now m degraded d dec =
     (let confirmed = release_confirmed m d;
          (d, dec) = update_episode now m d dec
      in if confirmed then
           (d\<lparr>dt_state := DsRecovering, dt_recovery_start_tick := now\<rparr>,
            (dd_reason RcEpisodeRecovering 0 0 now dec)\<lparr>dd_classification := ClRecovering\<rparr>)
         else (d, dec\<lparr>dd_classification := positive_class degraded\<rparr>))"

definition step_recovering ::
  "tick \<Rightarrow> window_metrics \<Rightarrow> bool \<Rightarrow> detector \<Rightarrow> decision \<Rightarrow> detector \<times> decision" where
  "step_recovering now m degraded d dec =
     (if dt_onset_run_active d then
        let d = d\<lparr>dt_state := DsActive, dt_release_sustaining := False, dt_release_progress_ticks := 0\<rparr>;
            (d, dec) = update_episode now m d (dd_reason RcEpisodeMerged 0 0 now dec)
        in (d, dec\<lparr>dd_classification := positive_class degraded\<rparr>)
      else if forward_gap (dt_recovery_start_tick d) now \<ge> dp_cooldown_ticks (po_detection (dt_policy d)) then
        let (d, dec) = update_episode now m d dec;
            (d, dec) = close_episode CrReleaseConfirmed now False d dec
        in (d, dec\<lparr>dd_classification := ClQuiescent\<rparr>)
      else
        let (d, dec) = update_episode now m d dec
        in (d, dec\<lparr>dd_classification := ClRecovering\<rparr>))"

definition step_state ::
  "tick \<Rightarrow> window_metrics \<Rightarrow> bool \<Rightarrow> detector \<Rightarrow> decision \<Rightarrow> detector \<times> decision" where
  "step_state now m degraded d dec =
     (case dt_state d of
        DsIdle \<Rightarrow> step_idle now m degraded d dec
      | DsActive \<Rightarrow> step_active now m degraded d dec
      | DsRecovering \<Rightarrow> step_recovering now m degraded d dec)"

text \<open>The episode ceiling.\<close>

definition step_timeout :: "tick \<Rightarrow> detector \<Rightarrow> decision \<Rightarrow> detector \<times> decision" where
  "step_timeout now d dec =
     (let p = po_detection (dt_policy d); duration = bm_duration_ticks (ev_metrics (dt_episode d))
      in if has_open_episode d \<and> duration \<ge> dp_max_episode_ticks p then
           let dec = dd_reason RcEpisodeTimedOut duration (dp_max_episode_ticks p) now dec;
               (d, dec) = close_episode CrEpisodeTimeout now False d dec
           in (d, dec\<lparr>dd_classification := ClQuiescent\<rparr>)
         else (d, dec))"

definition evaluate_admissible ::
  "tick \<Rightarrow> u64 \<Rightarrow> window_metrics \<Rightarrow> bool \<Rightarrow> detector \<Rightarrow> decision \<Rightarrow> detector \<times> decision" where
  "evaluate_admissible now gap m degraded d dec =
     (let dec = dec\<lparr>dd_authority := (if degraded then EvDegraded else EvAuthoritative)\<rparr>;
          d = release_update gap m (onset_update now gap m (d\<lparr>dt_inadmissible_since_set := False\<rparr>));
          dec = explain_rules now m d dec;
          (d, dec) = step_state now m degraded d dec
      in step_timeout now d dec)"

definition initial_decision :: "tick \<Rightarrow> window_metrics \<Rightarrow> detector \<Rightarrow> decision" where
  "initial_decision now m d =
     (identity_decision now d)\<lparr>dd_staleness_ticks := staleness_ticks now (dt_window d),
        dd_evidence := summarize m (dt_window d), dd_onset_progress_ticks := dt_onset_run_ticks d,
        dd_release_progress_ticks := dt_release_progress_ticks d\<rparr>"

definition evaluate_fresh :: "tick \<Rightarrow> detector \<Rightarrow> detector \<times> decision" where
  "evaluate_fresh now d =
     (let gap = (if dt_has_evaluated d then forward_gap (dt_last_evaluated d) now else 0);
          d = d\<lparr>dt_last_evaluated := now, dt_has_evaluated := True\<rparr>;
          p = po_detection (dt_policy d);
          m = metrics p (dt_window d);
          dec = initial_decision now m d;
          g = evidence_gates p m (dd_staleness_ticks dec);
          dec = explain_evidence p m (dt_window d) g now dec;
          (d, dec) = (if \<not> (gt_authoritative g \<or> gt_degraded_allowed g)
            then evaluate_inadmissible now g d dec
            else evaluate_admissible now gap m (gt_degraded_allowed g) d dec)
      in (d\<lparr>dt_last_decision := dec\<rparr>, dec))"

definition evaluate :: "tick \<Rightarrow> detector \<Rightarrow> decision \<times> detector" where
  "evaluate now d =
     (if dt_has_evaluated d \<and> \<not> tick_after (dt_last_evaluated d) now then (dt_last_decision d, d)
      else let (d, dec) = evaluate_fresh now d in (dec, d))"

section \<open>Operations\<close>

definition detector_ingest :: "sample \<Rightarrow> detector \<Rightarrow> decision result \<times> detector" where
  "detector_ingest s d =
     (if sm_stream s \<noteq> dt_key d then
        (Inl (failure StInvalidArgument ''sample stream does not match detector''), d)
      else let valid = validate_sample s in
      if \<not> is_ok valid then (Inl valid, d)
      else
        let changed = (id_valid (sm_resource_generation s) \<and> id_valid (dt_resource_generation d) \<and>
              sm_resource_generation s \<noteq> dt_resource_generation d)
        in if changed \<and> has_open_episode d then
             let (d, dec) = fence_decision CrCapacityChanged (sm_tick s) d;
                 d = d\<lparr>dt_resource_generation := sm_resource_generation s\<rparr>
             in (Inr dec, d\<lparr>dt_window := reset_window d, dt_last_accept := WaCapacityChanged\<rparr>)
           else
             let d = (if changed
                      then d\<lparr>dt_resource_generation := sm_resource_generation s,
                             dt_window := reset_window d\<rparr>
                      else if id_valid (sm_resource_generation s)
                      then d\<lparr>dt_resource_generation := sm_resource_generation s\<rparr> else d);
                 (accept, w) = offer s (dp_reorder_tolerance_ticks (po_detection (dt_policy d))) (dt_window d);
                 (dec, d) = evaluate (sm_tick s) (d\<lparr>dt_window := w, dt_last_accept := accept\<rparr>)
             in (Inr dec, d))"

definition detector_advance :: "tick \<Rightarrow> detector \<Rightarrow> decision \<times> detector" where
  "detector_advance now d = evaluate now d"


section \<open>What each block leaves unchanged\<close>

lemma dd_reason_frame [simp]:
  "dd_classification (dd_reason c ob th t dec) = dd_classification dec"
  "dd_authority (dd_reason c ob th t dec) = dd_authority dec"
  "dd_severity (dd_reason c ob th t dec) = dd_severity dec"
  "dd_opened (dd_reason c ob th t dec) = dd_opened dec"
  "dd_updated (dd_reason c ob th t dec) = dd_updated dec"
  "dd_closed (dd_reason c ob th t dec) = dd_closed dec"
  "dd_fenced (dd_reason c ob th t dec) = dd_fenced dec"
  "dd_close_reason (dd_reason c ob th t dec) = dd_close_reason dec"
  "dd_event (dd_reason c ob th t dec) = dd_event dec"
  "dd_stream (dd_reason c ob th t dec) = dd_stream dec"
  "dd_tick (dd_reason c ob th t dec) = dd_tick dec"
  "dd_evidence (dd_reason c ob th t dec) = dd_evidence dec"
  "dd_metrics (dd_reason c ob th t dec) = dd_metrics dec"
  "dd_staleness_ticks (dd_reason c ob th t dec) = dd_staleness_ticks dec"
  "dd_explanation (dd_reason c ob th t dec) = expl_add c ob th t (dd_explanation dec)"
  by (simp_all add: dd_reason_def)

lemma reason_if_frame [simp]:
  "dd_classification (reason_if b c ob th t dec) = dd_classification dec"
  "dd_authority (reason_if b c ob th t dec) = dd_authority dec"
  "dd_severity (reason_if b c ob th t dec) = dd_severity dec"
  "dd_opened (reason_if b c ob th t dec) = dd_opened dec"
  "dd_updated (reason_if b c ob th t dec) = dd_updated dec"
  "dd_closed (reason_if b c ob th t dec) = dd_closed dec"
  "dd_fenced (reason_if b c ob th t dec) = dd_fenced dec"
  "dd_close_reason (reason_if b c ob th t dec) = dd_close_reason dec"
  "dd_event (reason_if b c ob th t dec) = dd_event dec"
  "dd_stream (reason_if b c ob th t dec) = dd_stream dec"
  "dd_tick (reason_if b c ob th t dec) = dd_tick dec"
  "dd_evidence (reason_if b c ob th t dec) = dd_evidence dec"
  "dd_metrics (reason_if b c ob th t dec) = dd_metrics dec"
  "dd_staleness_ticks (reason_if b c ob th t dec) = dd_staleness_ticks dec"
  "expl_ok (dd_explanation dec) \<Longrightarrow> expl_ok (dd_explanation (reason_if b c ob th t dec))"
  by (simp_all add: reason_if_def)

text \<open>The parts of a decision the explanation blocks do not touch.\<close>

definition same_verdict :: "decision \<Rightarrow> decision \<Rightarrow> bool" where
  "same_verdict a b \<longleftrightarrow> dd_classification a = dd_classification b \<and> dd_authority a = dd_authority b \<and>
     dd_severity a = dd_severity b \<and> dd_opened a = dd_opened b \<and> dd_updated a = dd_updated b \<and>
     dd_closed a = dd_closed b \<and> dd_fenced a = dd_fenced b \<and> dd_close_reason a = dd_close_reason b \<and>
     dd_event a = dd_event b \<and> dd_stream a = dd_stream b \<and> dd_tick a = dd_tick b \<and>
     dd_evidence a = dd_evidence b \<and> dd_metrics a = dd_metrics b \<and>
     dd_staleness_ticks a = dd_staleness_ticks b \<and>
     (expl_ok (dd_explanation b) \<longrightarrow> expl_ok (dd_explanation a))"

lemma explain_evidence_frame: "same_verdict (explain_evidence p m w g now dec) dec"
  by (simp add: same_verdict_def explain_evidence_def Let_def)

lemma explain_rules_frame: "same_verdict (explain_rules now m d dec) dec"
  by (simp add: same_verdict_def explain_rules_def Let_def)

lemma onset_update_frame [simp]:
  "dt_key (onset_update now gap m d) = dt_key d"
  "dt_policy (onset_update now gap m d) = dt_policy d"
  "dt_window (onset_update now gap m d) = dt_window d"
  "dt_state (onset_update now gap m d) = dt_state d"
  "dt_episode (onset_update now gap m d) = dt_episode d"
  "dt_last_decision (onset_update now gap m d) = dt_last_decision d"
  "dt_last_evaluated (onset_update now gap m d) = dt_last_evaluated d"
  "dt_has_evaluated (onset_update now gap m d) = dt_has_evaluated d"
  "dt_release_sustaining (onset_update now gap m d) = dt_release_sustaining d"
  "dt_cooldown_until (onset_update now gap m d) = dt_cooldown_until d"
  "dt_recovery_start_tick (onset_update now gap m d) = dt_recovery_start_tick d"
  "has_open_episode (onset_update now gap m d) = has_open_episode d"
  by (simp_all add: onset_update_def has_open_episode_def Let_def)

lemma release_update_frame [simp]:
  "dt_key (release_update gap m d) = dt_key d"
  "dt_policy (release_update gap m d) = dt_policy d"
  "dt_window (release_update gap m d) = dt_window d"
  "dt_state (release_update gap m d) = dt_state d"
  "dt_episode (release_update gap m d) = dt_episode d"
  "dt_last_decision (release_update gap m d) = dt_last_decision d"
  "dt_last_evaluated (release_update gap m d) = dt_last_evaluated d"
  "dt_has_evaluated (release_update gap m d) = dt_has_evaluated d"
  "dt_cooldown_until (release_update gap m d) = dt_cooldown_until d"
  "dt_recovery_start_tick (release_update gap m d) = dt_recovery_start_tick d"
  "dt_onset_run_active (release_update gap m d) = dt_onset_run_active d"
  "dt_onset_run_ticks (release_update gap m d) = dt_onset_run_ticks d"
  "dt_onset_rise_observed (release_update gap m d) = dt_onset_rise_observed d"
  "dt_onset_start_tick (release_update gap m d) = dt_onset_start_tick d"
  "onset_confirmed (release_update gap m d) = onset_confirmed d"
  by (simp_all add: release_update_def onset_confirmed_def)

lemma update_metrics_onset [simp]: "bm_onset_tick (update_metrics now m b) = bm_onset_tick b"
  by (simp add: update_metrics_def Let_def)

lemma update_episode_frame [simp]:
  "dt_key (fst (update_episode now m d dec)) = dt_key d"
  "dt_policy (fst (update_episode now m d dec)) = dt_policy d"
  "dt_window (fst (update_episode now m d dec)) = dt_window d"
  "dt_state (fst (update_episode now m d dec)) = dt_state d"
  "dt_last_evaluated (fst (update_episode now m d dec)) = dt_last_evaluated d"
  "dt_has_evaluated (fst (update_episode now m d dec)) = dt_has_evaluated d"
  "dt_cooldown_until (fst (update_episode now m d dec)) = dt_cooldown_until d"
  "dt_release_sustaining (fst (update_episode now m d dec)) = dt_release_sustaining d"
  "dt_onset_run_active (fst (update_episode now m d dec)) = dt_onset_run_active d"
  "dt_onset_rise_observed (fst (update_episode now m d dec)) = dt_onset_rise_observed d"
  "dt_last_decision (fst (update_episode now m d dec)) = dt_last_decision d"
  "ev_id (dt_episode (fst (update_episode now m d dec))) = ev_id (dt_episode d)"
  "ev_stream (dt_episode (fst (update_episode now m d dec))) = ev_stream (dt_episode d)"
  "ev_lifecycle (dt_episode (fst (update_episode now m d dec))) = ev_lifecycle (dt_episode d)"
  "bm_onset_tick (ev_metrics (dt_episode (fst (update_episode now m d dec)))) =
     bm_onset_tick (ev_metrics (dt_episode d))"
  by (simp_all add: update_episode_def Let_def case_prod_beta)

lemma update_episode_decision [simp]:
  "dd_classification (snd (update_episode now m d dec)) = dd_classification dec"
  "dd_authority (snd (update_episode now m d dec)) = dd_authority dec"
  "dd_opened (snd (update_episode now m d dec)) = dd_opened dec"
  "dd_closed (snd (update_episode now m d dec)) = dd_closed dec"
  "dd_fenced (snd (update_episode now m d dec)) = dd_fenced dec"
  "dd_close_reason (snd (update_episode now m d dec)) = dd_close_reason dec"
  "dd_stream (snd (update_episode now m d dec)) = dd_stream dec"
  "dd_tick (snd (update_episode now m d dec)) = dd_tick dec"
  "dd_evidence (snd (update_episode now m d dec)) = dd_evidence dec"
  "expl_ok (dd_explanation dec) \<Longrightarrow> expl_ok (dd_explanation (snd (update_episode now m d dec)))"
  by (simp_all add: update_episode_def Let_def case_prod_beta classify_expl_ok)

lemma open_episode_frame [simp]:
  "dt_key (fst (open_episode now d dec)) = dt_key d"
  "dt_policy (fst (open_episode now d dec)) = dt_policy d"
  "dt_window (fst (open_episode now d dec)) = dt_window d"
  "dt_state (fst (open_episode now d dec)) = DsActive"
  "dt_last_evaluated (fst (open_episode now d dec)) = dt_last_evaluated d"
  "dt_has_evaluated (fst (open_episode now d dec)) = dt_has_evaluated d"
  "dt_cooldown_until (fst (open_episode now d dec)) = dt_cooldown_until d"
  "dt_onset_run_active (fst (open_episode now d dec)) = dt_onset_run_active d"
  "dt_onset_rise_observed (fst (open_episode now d dec)) = dt_onset_rise_observed d"
  "dt_release_sustaining (fst (open_episode now d dec)) = False"
  "dt_last_decision (fst (open_episode now d dec)) = dt_last_decision d"
  "dt_episode (fst (open_episode now d dec)) =
     event_default\<lparr>ev_stream := dt_key d, ev_resource_generation := dt_resource_generation d,
       ev_id := make_event_id (dt_key d) (dt_onset_start_tick d), ev_lifecycle := ElOpen,
       ev_policy_id := po_id (dt_policy d), ev_policy_generation := dt_generation d,
       ev_policy_digest := policy_digest (dt_policy d),
       ev_metrics := burst_metrics_default\<lparr>bm_onset_tick := dt_onset_start_tick d,
         bm_peak_tick := now, bm_last_update_tick := now, bm_end_tick := now\<rparr>,
       ev_revision := 1\<rparr>"
  by (simp_all add: open_episode_def Let_def)

lemma open_episode_decision [simp]:
  "dd_authority (snd (open_episode now d dec)) = dd_authority dec"
  "dd_classification (snd (open_episode now d dec)) = dd_classification dec"
  "dd_opened (snd (open_episode now d dec))"
  "dd_closed (snd (open_episode now d dec)) = dd_closed dec"
  "dd_fenced (snd (open_episode now d dec)) = dd_fenced dec"
  "dd_stream (snd (open_episode now d dec)) = dd_stream dec"
  "dd_evidence (snd (open_episode now d dec)) = dd_evidence dec"
  "dd_event (snd (open_episode now d dec)) = make_event_id (dt_key d) (dt_onset_start_tick d)"
  "expl_ok (dd_explanation dec) \<Longrightarrow> expl_ok (dd_explanation (snd (open_episode now d dec)))"
  by (simp_all add: open_episode_def Let_def)

lemma close_episode_frame [simp]:
  "dt_key (fst (close_episode r now f d dec)) = dt_key d"
  "dt_policy (fst (close_episode r now f d dec)) = dt_policy d"
  "dt_window (fst (close_episode r now f d dec)) = dt_window d"
  "dt_state (fst (close_episode r now f d dec)) = DsIdle"
  "\<not> has_open_episode (fst (close_episode r now f d dec))"
  "dt_last_evaluated (fst (close_episode r now f d dec)) = dt_last_evaluated d"
  "dt_has_evaluated (fst (close_episode r now f d dec)) = dt_has_evaluated d"
  "dt_onset_run_active (fst (close_episode r now f d dec)) = False"
  "dt_onset_rise_observed (fst (close_episode r now f d dec)) = False"
  "dt_release_sustaining (fst (close_episode r now f d dec)) = False"
  "dt_last_decision (fst (close_episode r now f d dec)) = dt_last_decision d"
  "dt_cooldown_until (fst (close_episode r now f d dec)) =
     add_ticks_saturating now (dp_cooldown_ticks (po_detection (dt_policy d)))"
  "ev_lifecycle (dt_episode (fst (close_episode r now f d dec))) = (if f then ElFenced else ElClosed)"
  by (simp_all add: close_episode_def has_open_episode_def Let_def)

lemma close_episode_decision [simp]:
  "dd_closed (snd (close_episode r now f d dec))"
  "dd_fenced (snd (close_episode r now f d dec)) = f"
  "dd_close_reason (snd (close_episode r now f d dec)) = r"
  "dd_authority (snd (close_episode r now f d dec)) = dd_authority dec"
  "dd_opened (snd (close_episode r now f d dec)) = dd_opened dec"
  "dd_stream (snd (close_episode r now f d dec)) = dd_stream dec"
  "dd_event (snd (close_episode r now f d dec)) = ev_id (dt_episode d)"
  "dd_severity (snd (close_episode r now f d dec)) = ev_severity (dt_episode d)"
  "expl_ok (dd_explanation dec) \<Longrightarrow> expl_ok (dd_explanation (snd (close_episode r now f d dec)))"
  by (simp_all add: close_episode_def Let_def)


section \<open>The detector invariant\<close>

lemma completeness_le: "unat (completeness n e) \<le> 1000"
proof -
  define c :: u64 where "c = (if e = 0 then 1000 else min 1000 (saturating_mul_u n 1000 div e))"
  have c: "unat c \<le> 1000" by (auto simp: c_def min_def word_le_nat_alt)
  have "completeness n e = ucast c" by (simp add: completeness_def c_def Let_def)
  then show ?thesis using c by (simp add: unsigned_ucast_eq take_bit_nat_eq_self)
qed

lemma summarize_wf: "summary_wf (summarize (metrics p w) v)"
  using completeness_le [of "of_nat (ew_size w)"]
  by (auto simp: summary_wf_def summarize_def metrics_def metrics_default_def word_le_nat_alt Let_def)

text \<open>
  The policy in force is valid, the window is well formed, and an open episode is a well-formed
  open event of this stream whose identity is derived from its onset tick.
\<close>

definition policy_in_force :: "policy \<Rightarrow> bool" where
  "policy_in_force p \<longleftrightarrow> is_ok (validate_policy p) \<and> policy_shape p \<and>
     severity_wf (dp_degraded_severity_cap (po_detection p))"

definition episode_ok :: "stream_key \<Rightarrow> burst_event \<Rightarrow> bool" where
  "episode_ok k e \<longleftrightarrow> event_wf e \<and> ev_stream e = k \<and> ev_lifecycle e = ElOpen \<and>
     ev_id e = make_event_id k (bm_onset_tick (ev_metrics e))"

definition det_core :: "detector \<Rightarrow> bool" where
  "det_core d \<longleftrightarrow> stream_key_valid (dt_key d) \<and> policy_in_force (dt_policy d) \<and> win_inv (dt_window d) \<and>
     (has_open_episode d \<longrightarrow> episode_ok (dt_key d) (dt_episode d)) \<and>
     (dt_release_sustaining d \<longrightarrow> has_open_episode d) \<and>
     (dt_onset_rise_observed d \<longrightarrow> dt_onset_run_active d)"

lemma close_wf_named [simp]:
  "close_wf CrNone" "close_wf CrReleaseConfirmed" "close_wf CrEpisodeTimeout" "close_wf CrEvidenceStale"
  "close_wf CrPolicyChanged" "close_wf CrAuthorityLost" "close_wf CrRestart" "close_wf CrCapacityChanged"
  "close_wf CrReplayEnd"
  by (simp_all add: close_wf_def close_of_raw_def)

lemma policy_in_force_ladders:
  "policy_in_force p \<Longrightarrow> list_all (\<lambda>l. length l = kSteps) [dp_occupancy_permille_ladder (po_detection p),
     dp_depth_ladder (po_detection p), dp_slope_ladder (po_detection p),
     dp_duration_ladder (po_detection p), dp_drop_ladder (po_detection p)]"
  by (simp add: policy_in_force_def policy_shape_def Let_def)

lemma open_event_wf: "stream_key_valid (dt_key d) \<Longrightarrow>
   episode_ok (dt_key d) (dt_episode (fst (open_episode now d dec)))"
  by (simp add: episode_ok_def event_wf_def event_positive_def event_default_def summary_wf_def
      evidence_summary_default_def is_valid_severity_def)

lemma core_open: "det_core d \<Longrightarrow> det_core (fst (open_episode now d dec))"
  using open_event_wf [of d now dec] by (simp add: det_core_def has_open_episode_def)

text \<open>The severity an update settles on.\<close>

definition settled :: "decision \<Rightarrow> detection_policy \<Rightarrow> severity \<Rightarrow> severity" where
  "settled dec p overall = (if dd_authority dec = EvDegraded
     then severity_min overall (dp_degraded_severity_cap p) else overall)"

lemma update_episode_open:
  assumes "has_open_episode d"
    and b: "b = update_metrics now m (ev_metrics (dt_episode d))"
    and sev: "sev = settled dec (po_detection (dt_policy d))
    (gb_overall (fst (classify b (dd_evidence dec) (po_detection (dt_policy d)) now (dd_explanation dec))))"
  shows "ev_metrics (dt_episode (fst (update_episode now m d dec))) = b"
    "ev_evidence (dt_episode (fst (update_episode now m d dec))) = dd_evidence dec"
    "ev_severity (dt_episode (fst (update_episode now m d dec))) = sev"
    "ev_authority (dt_episode (fst (update_episode now m d dec))) = dd_authority dec"
    "ev_close_reason (dt_episode (fst (update_episode now m d dec))) = ev_close_reason (dt_episode d)"
    "dd_severity (snd (update_episode now m d dec)) = sev"
    "dd_metrics (snd (update_episode now m d dec)) = b"
    "dd_updated (snd (update_episode now m d dec))"
    "dd_event (snd (update_episode now m d dec)) = ev_id (dt_episode d)"
  using assms(1) by (simp_all add: update_episode_def settled_def b sev Let_def case_prod_beta)

lemma settled_severity:
  assumes "policy_in_force p"
    and sev: "sev = settled dec (po_detection p)
      (gb_overall (fst (classify b ev (po_detection p) now e)))"
  shows "severity_wf sev" "severity_raw sev \<le> 4"
    "dd_authority dec = EvDegraded \<Longrightarrow> severity_raw sev \<le> severity_raw (dp_degraded_severity_cap (po_detection p))"
    "dd_authority dec \<noteq> EvDegraded \<Longrightarrow> 1 \<le> severity_raw sev"
  using classify_overall [OF policy_in_force_ladders [OF assms(1)], of _ b ev now e] assms
  by (simp_all add: settled_def policy_in_force_def severity_raw_min min.coboundedI1)

lemma core_update:
  assumes "det_core d" "dd_authority dec \<noteq> EvUnknown" "summary_wf (dd_evidence dec)"
  shows "det_core (fst (update_episode now m d dec))"
proof (cases "has_open_episode d")
  case True
  define d' where "d' = fst (update_episode now m d dec)"
  note u = update_episode_open [OF True refl refl, of now m dec]
  have p: "policy_in_force (dt_policy d)" using assms(1) by (simp add: det_core_def)
  note sev = settled_severity [OF p refl]
  have "episode_ok (dt_key d) (dt_episode d)" "stream_key_valid (dt_key d)"
    using assms(1) True by (simp_all add: det_core_def)
  then have "episode_ok (dt_key d) (dt_episode d')"
    using assms(2,3) sev(1,2) unfolding d'_def
    by (simp add: episode_ok_def event_wf_def u is_valid_severity_def)
  then show ?thesis using assms(1) True unfolding d'_def det_core_def
    by (simp add: has_open_episode_def)
qed (use assms in \<open>simp add: update_episode_def\<close>)

lemma core_close: "det_core d \<Longrightarrow> det_core (fst (close_episode r now f d dec))"
  by (simp add: det_core_def)

lemma core_onset: "det_core d \<Longrightarrow> det_core (onset_update now gap m d)"
  unfolding det_core_def
  by (simp, auto simp: onset_update_def Let_def)

lemma core_release: "det_core d \<Longrightarrow> det_core (release_update gap m d)"
  by (auto simp: det_core_def release_update_def has_open_episode_def)

lemma core_step_idle:
  "det_core d \<Longrightarrow> dd_authority dec \<noteq> EvUnknown \<Longrightarrow> summary_wf (dd_evidence dec) \<Longrightarrow>
   det_core (fst (step_idle now m deg d dec))"
  by (simp add: step_idle_def case_prod_beta Let_def core_open core_update)

lemma core_step_active:
  "det_core d \<Longrightarrow> dt_state d = DsActive \<Longrightarrow> dd_authority dec \<noteq> EvUnknown \<Longrightarrow>
   summary_wf (dd_evidence dec) \<Longrightarrow> det_core (fst (step_active now m deg d dec))"
  using core_update [of d dec now m]
  by (auto simp: step_active_def det_core_def case_prod_beta has_open_episode_def Let_def)

lemma core_step_recovering:
  assumes "det_core d" "dt_state d = DsRecovering" "dd_authority dec \<noteq> EvUnknown"
    "summary_wf (dd_evidence dec)"
  shows "det_core (fst (step_recovering now m deg d dec))"
proof -
  have "det_core (d\<lparr>dt_state := DsActive, dt_release_sustaining := False, dt_release_progress_ticks := 0\<rparr>)"
    using assms(1,2) by (auto simp: det_core_def has_open_episode_def)
  then show ?thesis using assms
    by (simp add: step_recovering_def case_prod_beta Let_def core_update core_close)
qed

lemma core_step_timeout: "det_core d \<Longrightarrow> det_core (fst (step_timeout now d dec))"
  by (simp add: step_timeout_def case_prod_beta Let_def core_close)

lemma core_step_state:
  "det_core d \<Longrightarrow> dd_authority dec \<noteq> EvUnknown \<Longrightarrow> summary_wf (dd_evidence dec) \<Longrightarrow>
   det_core (fst (step_state now m deg d dec))"
  by (cases "dt_state d") (simp_all add: step_state_def core_step_idle core_step_active core_step_recovering)

lemma core_admissible:
  assumes "det_core d" "summary_wf (dd_evidence dec)"
  shows "det_core (fst (evaluate_admissible now gap m deg d dec))"
proof -
  define d1 where "d1 = release_update gap m (onset_update now gap m (d\<lparr>dt_inadmissible_since_set := False\<rparr>))"
  define dec1 where "dec1 = explain_rules now m d1 (dec\<lparr>dd_authority := (if deg then EvDegraded else EvAuthoritative)\<rparr>)"
  have "det_core (d\<lparr>dt_inadmissible_since_set := False\<rparr>)"
    using assms(1) by (simp add: det_core_def has_open_episode_def)
  then have 1: "det_core d1" unfolding d1_def by (intro core_release core_onset)
  have "same_verdict dec1 (dec\<lparr>dd_authority := (if deg then EvDegraded else EvAuthoritative)\<rparr>)"
    unfolding dec1_def by (rule explain_rules_frame)
  then have "dd_authority dec1 \<noteq> EvUnknown" "summary_wf (dd_evidence dec1)"
    using assms(2) by (auto simp: same_verdict_def)
  then have "det_core (fst (step_state now m deg d1 dec1))" using 1 by (rule_tac core_step_state)
  then show ?thesis
    by (simp add: evaluate_admissible_def case_prod_beta core_step_timeout Let_def flip: d1_def dec1_def)
qed

lemma core_inadmissible: "det_core d \<Longrightarrow> det_core (fst (evaluate_inadmissible now g d dec))"
proof -
  assume d: "det_core d"
  then have "det_core (d\<lparr>dt_inadmissible_since_set := True, dt_inadmissible_since := now\<rparr>)"
    by (simp add: det_core_def has_open_episode_def)
  with d show ?thesis by (simp add: evaluate_inadmissible_def case_prod_beta core_close Let_def)
qed


section \<open>Soundness of a fresh evaluation\<close>

definition gates_at :: "tick \<Rightarrow> detector \<Rightarrow> gates" where
  "gates_at now d =
     (let p = po_detection (dt_policy d)
      in evidence_gates p (metrics p (dt_window d)) (staleness_ticks now (dt_window d)))"

definition fresh_tick :: "tick \<Rightarrow> detector \<Rightarrow> bool" where
  "fresh_tick now d \<longleftrightarrow> \<not> (dt_has_evaluated d \<and> \<not> tick_after (dt_last_evaluated d) now)"

text \<open>The detector and decision a fresh evaluation works on after the evidence gates.\<close>

definition gated :: "tick \<Rightarrow> detector \<Rightarrow> detector \<times> decision" where
  "gated now d =
     (let d' = d\<lparr>dt_last_evaluated := now, dt_has_evaluated := True\<rparr>;
          p = po_detection (dt_policy d);
          m = metrics p (dt_window d)
      in (d', explain_evidence p m (dt_window d) (gates_at now d) now (initial_decision now m d')))"

lemma evaluate_fresh_eq:
  "evaluate_fresh now d =
     (let (d1, dec1) = gated now d;
          m = metrics (po_detection (dt_policy d)) (dt_window d);
          g = gates_at now d;
          gap = (if dt_has_evaluated d then forward_gap (dt_last_evaluated d) now else 0);
          (d', dec) = (if \<not> (gt_authoritative g \<or> gt_degraded_allowed g)
            then evaluate_inadmissible now g d1 dec1
            else evaluate_admissible now gap m (gt_degraded_allowed g) d1 dec1)
      in (d'\<lparr>dt_last_decision := dec\<rparr>, dec))"
  by (simp add: evaluate_fresh_def gated_def gates_at_def initial_decision_def Let_def)

lemma gated_facts:
  assumes "gated now d = (d1, dec1)"
  shows "d1 = d\<lparr>dt_last_evaluated := now, dt_has_evaluated := True\<rparr>"
    "dd_stream dec1 = dt_key d" "dd_tick dec1 = now" "\<not> dd_opened dec1" "\<not> dd_closed dec1"
    "\<not> dd_updated dec1" "dd_severity dec1 = SevNone" "summary_wf (dd_evidence dec1)"
    "expl_ok (dd_explanation dec1)" "dd_staleness_ticks dec1 = staleness_ticks now (dt_window d)"
    "dd_evidence dec1 = summarize (metrics (po_detection (dt_policy d)) (dt_window d)) (dt_window d)"
  using assms explain_evidence_frame [of "po_detection (dt_policy d)"
      "metrics (po_detection (dt_policy d)) (dt_window d)" "dt_window d" "gates_at now d" now
      "initial_decision now (metrics (po_detection (dt_policy d)) (dt_window d))
         (d\<lparr>dt_last_evaluated := now, dt_has_evaluated := True\<rparr>)"]
  by (auto simp: gated_def Let_def same_verdict_def initial_decision_def identity_decision_def
      decision_default_def summarize_wf)

lemma gates_exclusive: "\<not> (gt_authoritative (gates_at now d) \<and> gt_degraded_allowed (gates_at now d))"
  by (simp add: gates_at_def evidence_gates_def Let_def)

lemma inadmissible_verdict:
  assumes "evaluate_inadmissible now g d dec = (d', dec')"
  shows "\<not> is_positive (dd_classification dec')" "dd_authority dec' = EvUnknown"
    "dd_opened dec' = dd_opened dec" "dd_stream dec' = dd_stream dec" "dd_updated dec' = dd_updated dec"
    "expl_ok (dd_explanation dec) \<Longrightarrow> expl_ok (dd_explanation dec')"
  using assms
  by (auto simp: evaluate_inadmissible_def close_episode_def Let_def split: if_splits)

text \<open>A severity that grading and the degraded cap may have produced.\<close>

definition settled_by :: "evidence_authority \<Rightarrow> policy \<Rightarrow> severity \<Rightarrow> bool" where
  "settled_by a p sev \<longleftrightarrow> (\<exists>dec b ev t e. dd_authority dec = a \<and>
     sev = settled dec (po_detection p) (gb_overall (fst (classify b ev (po_detection p) t e))))"

lemma update_settled:
  assumes "has_open_episode d"
  shows "settled_by (dd_authority dec) (dt_policy d) (dd_severity (snd (update_episode now m d dec)))"
  using update_episode_open(6) [OF assms refl refl, of now m dec] unfolding settled_by_def by metis

lemma settled_by_bounds:
  assumes "policy_in_force p" "settled_by a p sev"
  shows "severity_wf sev" "severity_raw sev \<le> 4"
    "a = EvDegraded \<Longrightarrow> severity_raw sev \<le> severity_raw (dp_degraded_severity_cap (po_detection p))"
    "a \<noteq> EvDegraded \<Longrightarrow> 1 \<le> severity_raw sev"
proof -
  from assms(2) obtain dec b ev t e where a: "dd_authority dec = a" and
    sev: "sev = settled dec (po_detection p) (gb_overall (fst (classify b ev (po_detection p) t e)))"
    unfolding settled_by_def by metis
  note settled_severity [OF assms(1) sev]
  with a show "severity_wf sev" "severity_raw sev \<le> 4"
    "a = EvDegraded \<Longrightarrow> severity_raw sev \<le> severity_raw (dp_degraded_severity_cap (po_detection p))"
    "a \<noteq> EvDegraded \<Longrightarrow> 1 \<le> severity_raw sev" by simp_all
qed

text \<open>What the switch on the state may conclude.\<close>

definition admissible_verdict :: "bool \<Rightarrow> detector \<Rightarrow> decision \<Rightarrow> detector \<Rightarrow> decision \<Rightarrow> bool" where
  "admissible_verdict deg d dec d' dec' \<longleftrightarrow>
     dd_authority dec' = dd_authority dec \<and> dd_stream dec' = dd_stream dec \<and>
     (expl_ok (dd_explanation dec) \<longrightarrow> expl_ok (dd_explanation dec')) \<and>
     (is_positive (dd_classification dec') \<longrightarrow>
        dd_classification dec' = positive_class deg \<and> has_open_episode d' \<and> dd_updated dec' \<and>
        dd_event dec' = ev_id (dt_episode d') \<and> dd_severity dec' = ev_severity (dt_episode d') \<and>
        settled_by (dd_authority dec) (dt_policy d) (dd_severity dec')) \<and>
     (dd_opened dec' \<and> \<not> dd_opened dec \<longrightarrow>
        \<not> has_open_episode d \<and> onset_confirmed d \<and> \<not> in_cooldown (dd_tick dec) d)"

lemma step_idle_verdict:
  assumes "dt_state d = DsIdle"
  shows "admissible_verdict deg d dec (fst (step_idle (dd_tick dec) m deg d dec)) (snd (step_idle (dd_tick dec) m deg d dec))"
proof (cases "onset_confirmed d \<and> \<not> in_cooldown (dd_tick dec) d")
  case True
  define d1 where "d1 = fst (open_episode (dd_tick dec) d dec)"
  define dec1 where "dec1 = snd (open_episode (dd_tick dec) d dec)"
  have o: "has_open_episode d1" by (simp add: d1_def has_open_episode_def)
  have "has_open_episode (fst (update_episode (dd_tick dec) m d1 dec1))"
    using o by (simp add: has_open_episode_def)
  then show ?thesis
    using True assms update_episode_open(3,6,8,9) [OF o refl refl, of "dd_tick dec" m dec1]
      update_settled [OF o, of dec1 "dd_tick dec" m]
    by (simp add: admissible_verdict_def step_idle_def case_prod_beta Let_def has_open_episode_def
        d1_def dec1_def)
next
  case False
  then show ?thesis by (auto simp: admissible_verdict_def step_idle_def)
qed

lemma step_active_verdict:
  assumes "dt_state d = DsActive"
  shows "admissible_verdict deg d dec (fst (step_active now m deg d dec)) (snd (step_active now m deg d dec))"
proof -
  have o: "has_open_episode d" using assms by (simp add: has_open_episode_def)
  show ?thesis
    using assms update_episode_open(3,6,8,9) [OF o refl refl, of now m dec] update_settled [OF o, of dec now m]
    by (auto simp: admissible_verdict_def step_active_def case_prod_beta Let_def has_open_episode_def)
qed

lemma step_recovering_verdict:
  assumes "dt_state d = DsRecovering"
  shows "admissible_verdict deg d dec (fst (step_recovering now m deg d dec)) (snd (step_recovering now m deg d dec))"
proof -
  define d1 where "d1 = d\<lparr>dt_state := DsActive, dt_release_sustaining := False, dt_release_progress_ticks := 0\<rparr>"
  have o: "has_open_episode d1" by (simp add: d1_def has_open_episode_def)
  show ?thesis
    using assms update_episode_open(3,6,8,9) [OF o refl refl, of now m "dd_reason RcEpisodeMerged 0 0 now dec"]
      update_settled [OF o, of "dd_reason RcEpisodeMerged 0 0 now dec" now m]
    by (auto simp: admissible_verdict_def step_recovering_def case_prod_beta Let_def has_open_episode_def d1_def)
qed

lemma step_state_verdict:
  "admissible_verdict deg d dec (fst (step_state (dd_tick dec) m deg d dec)) (snd (step_state (dd_tick dec) m deg d dec))"
  by (cases "dt_state d")
    (simp_all add: step_state_def step_idle_verdict step_active_verdict step_recovering_verdict)

lemma step_timeout_verdict:
  assumes "admissible_verdict deg d dec d1 dec1"
  shows "admissible_verdict deg d dec (fst (step_timeout now d1 dec1)) (snd (step_timeout now d1 dec1))"
  using assms by (auto simp: admissible_verdict_def step_timeout_def case_prod_beta Let_def)


text \<open>The detector the switch on the state sees, after the onset and release accounting.\<close>

definition ruled :: "tick \<Rightarrow> detector \<Rightarrow> detector" where
  "ruled now d =
     (let m = metrics (po_detection (dt_policy d)) (dt_window d);
          gap = (if dt_has_evaluated d then forward_gap (dt_last_evaluated d) now else 0)
      in release_update gap m (onset_update now gap m
           (d\<lparr>dt_last_evaluated := now, dt_has_evaluated := True, dt_inadmissible_since_set := False\<rparr>)))"

lemma ruled_policy [simp]: "dt_policy (ruled now d) = dt_policy d"
  by (simp add: ruled_def Let_def)

lemma admissible_result:
  assumes "evaluate_admissible now gap m deg d dec = (d', dec')" "dd_tick dec = now"
  obtains d1 dec1 where
    "d1 = release_update gap m (onset_update now gap m (d\<lparr>dt_inadmissible_since_set := False\<rparr>))"
    "dd_authority dec1 = (if deg then EvDegraded else EvAuthoritative)" "dd_stream dec1 = dd_stream dec"
    "dd_opened dec1 = dd_opened dec" "dd_updated dec1 = dd_updated dec"
    "expl_ok (dd_explanation dec) \<longrightarrow> expl_ok (dd_explanation dec1)" "dd_tick dec1 = now"
    "admissible_verdict deg d1 dec1 d' dec'"
proof -
  define d1 where "d1 = release_update gap m (onset_update now gap m (d\<lparr>dt_inadmissible_since_set := False\<rparr>))"
  define dec0 where "dec0 = dec\<lparr>dd_authority := (if deg then EvDegraded else EvAuthoritative)\<rparr>"
  define dec1 where "dec1 = explain_rules now m d1 dec0"
  have f: "same_verdict dec1 dec0" unfolding dec1_def by (rule explain_rules_frame)
  then have t: "dd_tick dec1 = now" using assms(2) by (simp add: same_verdict_def dec0_def)
  have "(d', dec') = step_timeout now (fst (step_state now m deg d1 dec1)) (snd (step_state now m deg d1 dec1))"
    using assms(1) by (simp add: evaluate_admissible_def case_prod_beta Let_def flip: dec0_def d1_def dec1_def)
  then have "admissible_verdict deg d1 dec1 d' dec'"
    using step_timeout_verdict [OF step_state_verdict [of deg d1 dec1 m], of now] t by (metis fst_conv snd_conv)
  then show ?thesis
    using f t by (intro that [OF d1_def, of dec1]) (simp_all add: same_verdict_def dec0_def)
qed

text \<open>
  A fresh evaluation: either the evidence is not admissible and nothing positive is claimed, or
  it is, and the decision carries the authority of the gate it passed.
\<close>

lemma evaluate_fresh_verdict:
  assumes "fresh_tick now d" "evaluate now d = (dec, d')"
  defines "g \<equiv> gates_at now d"
  shows "dd_stream dec = dt_key d" "expl_ok (dd_explanation dec)" "dt_last_decision d' = dec"
    "\<not> gt_authoritative g \<and> \<not> gt_degraded_allowed g \<Longrightarrow>
       \<not> is_positive (dd_classification dec) \<and> dd_authority dec = EvUnknown \<and> \<not> dd_opened dec"
    "gt_authoritative g \<or> gt_degraded_allowed g \<Longrightarrow>
       dd_authority dec = (if gt_degraded_allowed g then EvDegraded else EvAuthoritative) \<and>
       (is_positive (dd_classification dec) \<longrightarrow>
          dd_classification dec = positive_class (gt_degraded_allowed g) \<and> has_open_episode d' \<and>
          dd_updated dec \<and> dd_event dec = ev_id (dt_episode d') \<and>
          dd_severity dec = ev_severity (dt_episode d') \<and>
          settled_by (dd_authority dec) (dt_policy d) (dd_severity dec)) \<and>
       (dd_opened dec \<longrightarrow> \<not> has_open_episode (ruled now d) \<and> onset_confirmed (ruled now d) \<and>
          \<not> in_cooldown now (ruled now d))"
proof -
  obtain d1 dec1 where gd: "gated now d = (d1, dec1)" by (cases "gated now d")
  note gf = gated_facts [OF gd]
  define m where "m = metrics (po_detection (dt_policy d)) (dt_window d)"
  define gap where "gap = (if dt_has_evaluated d then forward_gap (dt_last_evaluated d) now else 0)"
  define res where "res = (if \<not> (gt_authoritative g \<or> gt_degraded_allowed g)
            then evaluate_inadmissible now g d1 dec1
            else evaluate_admissible now gap m (gt_degraded_allowed g) d1 dec1)"
  obtain d2 where res: "res = (d2, dec)" and d': "d' = d2\<lparr>dt_last_decision := dec\<rparr>"
  proof -
    have "evaluate_fresh now d = (case res of (d2, dec2) \<Rightarrow> (d2\<lparr>dt_last_decision := dec2\<rparr>, dec2))"
      by (simp add: evaluate_fresh_eq gd Let_def res_def m_def gap_def g_def)
    moreover have "evaluate now d = (case evaluate_fresh now d of (d, dec) \<Rightarrow> (dec, d))"
      using assms(1) by (auto simp: evaluate_def fresh_tick_def)
    ultimately show ?thesis using that assms(2) by (cases res) simp
  qed
  have eff: "has_open_episode d' = has_open_episode d2" "dt_episode d' = dt_episode d2"
    unfolding d' by (simp_all add: has_open_episode_def)
  show "dt_last_decision d' = dec" by (simp add: d')
  show bad: "\<not> gt_authoritative g \<and> \<not> gt_degraded_allowed g \<Longrightarrow>
       \<not> is_positive (dd_classification dec) \<and> dd_authority dec = EvUnknown \<and> \<not> dd_opened dec"
    using inadmissible_verdict [of now g d1 dec1 d2 dec] res gf by (simp add: res_def)
  have good: "\<exists>dec0. dd_authority dec0 = (if gt_degraded_allowed g then EvDegraded else EvAuthoritative) \<and>
      dd_stream dec0 = dt_key d \<and> \<not> dd_opened dec0 \<and> expl_ok (dd_explanation dec0) \<and> dd_tick dec0 = now \<and>
      admissible_verdict (gt_degraded_allowed g) (ruled now d) dec0 d2 dec"
    if adm: "gt_authoritative g \<or> gt_degraded_allowed g"
  proof -
    have e: "evaluate_admissible now gap m (gt_degraded_allowed g) d1 dec1 = (d2, dec)"
      using res adm by (auto simp: res_def)
    have "ruled now d = release_update gap m (onset_update now gap m (d1\<lparr>dt_inadmissible_since_set := False\<rparr>))"
      by (simp add: ruled_def gf(1) m_def gap_def Let_def)
    then show ?thesis using admissible_result [OF e gf(3)] gf by metis
  qed
  show "gt_authoritative g \<or> gt_degraded_allowed g \<Longrightarrow>
       dd_authority dec = (if gt_degraded_allowed g then EvDegraded else EvAuthoritative) \<and>
       (is_positive (dd_classification dec) \<longrightarrow>
          dd_classification dec = positive_class (gt_degraded_allowed g) \<and> has_open_episode d' \<and>
          dd_updated dec \<and> dd_event dec = ev_id (dt_episode d') \<and>
          dd_severity dec = ev_severity (dt_episode d') \<and>
          settled_by (dd_authority dec) (dt_policy d) (dd_severity dec)) \<and>
       (dd_opened dec \<longrightarrow> \<not> has_open_episode (ruled now d) \<and> onset_confirmed (ruled now d) \<and>
          \<not> in_cooldown now (ruled now d))"
    using good by (auto simp: admissible_verdict_def eff)
  show "dd_stream dec = dt_key d"
    using good inadmissible_verdict(4) [of now g d1 dec1 d2 dec] res gf
    by (cases "gt_authoritative g \<or> gt_degraded_allowed g") (auto simp: admissible_verdict_def res_def)
  show "expl_ok (dd_explanation dec)"
    using good inadmissible_verdict(6) [of now g d1 dec1 d2 dec] res gf
    by (cases "gt_authoritative g \<or> gt_degraded_allowed g") (auto simp: admissible_verdict_def res_def)
qed

lemma evaluate_cached: "\<not> fresh_tick now d \<Longrightarrow> evaluate now d = (dt_last_decision d, d)"
  by (simp add: evaluate_def fresh_tick_def)

lemma core_evaluate: "det_core d \<Longrightarrow> evaluate now d = (dec, d') \<Longrightarrow> det_core d'"
proof (cases "fresh_tick now d")
  case True
  assume d: "det_core d" and e: "evaluate now d = (dec, d')"
  obtain d1 dec1 where gd: "gated now d = (d1, dec1)" by (cases "gated now d")
  note gf = gated_facts [OF gd]
  have 1: "det_core d1" using d by (simp add: gf(1) det_core_def has_open_episode_def)
  have "det_core (d2\<lparr>dt_last_decision := x\<rparr>) = det_core d2" for d2 x
    by (simp add: det_core_def has_open_episode_def)
  then show ?thesis using e True gd core_inadmissible [OF 1] core_admissible [OF 1 gf(8)]
    by (auto simp: evaluate_def fresh_tick_def evaluate_fresh_eq Let_def case_prod_beta split: if_splits)
qed (simp add: evaluate_cached)

section \<open>The detector as a state machine\<close>

datatype detector_input =
    InIngest sample | InAdvance tick | InFence close_reason tick | InRearm policy u32 tick

definition detector_run :: "detector_input \<Rightarrow> detector \<Rightarrow> detector" where
  "detector_run i d = (case i of
       InIngest s \<Rightarrow> snd (detector_ingest s d)
     | InAdvance t \<Rightarrow> snd (detector_advance t d)
     | InFence r t \<Rightarrow> snd (fence r t d)
     | InRearm p g t \<Rightarrow> snd (rearm p g t d))"

text \<open>The inputs the governor supplies: policies come out of a validated set.\<close>

definition input_ok :: "detector_input \<Rightarrow> bool" where
  "input_ok i = (case i of InRearm p g t \<Rightarrow> policy_in_force p | InFence r t \<Rightarrow> close_wf r | _ \<Rightarrow> True)"

inductive det_reachable :: "stream_key \<Rightarrow> detector \<Rightarrow> bool" for k where
  configured: "stream_key_valid k \<Longrightarrow> policy_in_force p \<Longrightarrow> det_reachable k (detector_new k p g)"
| stepped: "det_reachable k d \<Longrightarrow> input_ok i \<Longrightarrow> det_reachable k (detector_run i d)"

lemma reset_window_inv: "win_inv (reset_window d)"
  by (simp add: reset_window_def win_reset_inv)

lemma core_new: "stream_key_valid k \<Longrightarrow> policy_in_force p \<Longrightarrow> det_core (detector_new k p g)"
  by (simp add: det_core_def detector_new_def configure_def has_open_episode_def reset_window_inv Let_def)

lemma core_fence_decision: "det_core d \<Longrightarrow> det_core (fst (fence_decision r now d))"
  by (simp add: fence_decision_def case_prod_beta core_close Let_def)

lemma core_fence: "det_core d \<Longrightarrow> det_core (snd (fence r now d))"
  by (simp add: fence_def case_prod_beta core_fence_decision Let_def)

lemma core_rearm:
  assumes "det_core d" "policy_in_force p"
  shows "det_core (snd (rearm p g now d))"
proof -
  have "dt_key (fst (fence_decision CrPolicyChanged now d)) = dt_key d"
    by (simp add: fence_decision_def case_prod_beta Let_def)
  then show ?thesis using assms
    by (simp add: rearm_def det_core_def has_open_episode_def reset_window_inv case_prod_beta Let_def)
qed

lemma core_cong:
  assumes "det_core d" "win_inv w"
  shows "det_core (d\<lparr>dt_resource_generation := g, dt_window := w, dt_last_accept := a\<rparr>)"
    "det_core (d\<lparr>dt_window := w, dt_last_accept := a\<rparr>)"
    "det_core (d\<lparr>dt_resource_generation := g, dt_window := w\<rparr>)"
  using assms by (simp_all add: det_core_def has_open_episode_def)

lemma core_ingest: "det_core d \<Longrightarrow> det_core (snd (detector_ingest s d))"
proof -
  assume d: "det_core d"
  have off: "win_inv w \<Longrightarrow> win_inv (snd (offer s tol w))" for w tol
    using offer_inv [of w s tol] by (cases "offer s tol w") simp
  have ev: "det_core x \<Longrightarrow> det_core (snd (evaluate t x))" for x t
    using core_evaluate [of x t] by (cases "evaluate t x") simp
  have rw: "win_inv (reset_window x)" for x by (rule reset_window_inv)
  have gen: "det_core (x\<lparr>dt_resource_generation := g\<rparr>)" if "det_core x" for x g
    using that by (simp add: det_core_def has_open_episode_def)
  have w: "win_inv (dt_window x)" if "det_core x" for x using that by (simp add: det_core_def)
  show ?thesis
    using d unfolding detector_ingest_def
    by (auto simp: Let_def case_prod_beta intro!: ev core_cong off rw core_fence_decision gen w)
qed

lemma core_advance: "det_core d \<Longrightarrow> det_core (snd (detector_advance t d))"
  using core_evaluate [of d t] by (cases "evaluate t d") (simp add: detector_advance_def)

lemma core_run: "det_core d \<Longrightarrow> input_ok i \<Longrightarrow> det_core (detector_run i d)"
  by (cases i) (simp_all add: detector_run_def input_ok_def core_ingest core_fence core_rearm core_advance)

lemma det_reachable_core: "det_reachable k d \<Longrightarrow> det_core d"
  by (induction rule: det_reachable.induct) (simp_all add: core_new core_run)


section \<open>Onset, hysteresis, cooldown and ceilings\<close>

text \<open>Hysteresis: an interval cannot satisfy the release rule and the onset depth at once.\<close>

lemma release_excludes_onset:
  assumes "policy_in_force p" "release_now (po_detection p) m"
  shows "wm_latest_depth m < dp_onset_min_depth (po_detection p)"
  using assms validate_detection_ok(10) [of "po_detection p"]
  by (auto simp: policy_in_force_def validate_policy_ok_iff release_now_def)

lemma add_ticks_no_wrap:
  assumes "unat t + unat c < 2 ^ 64"
  shows "add_ticks_saturating t c = t + c" "unat (t + c) = unat t + unat c"
  using assms by (simp_all add: add_ticks_saturating_def add_checked_u_exact unat_add_no_wrap)

lemma cooldown_holds:
  assumes "dt_cooldown_until d = add_ticks_saturating t c" "unat t + unat c < 2 ^ 64" "unat c < 2 ^ 63"
    "unat t \<le> unat now" "unat now < unat t + unat c"
  shows "in_cooldown now d"
proof -
  have n: "int (unat (t + c)) = int (unat t) + int (unat c)"
    using add_ticks_no_wrap(2) [OF assms(2)] by linarith
  have "int (unat c) < 2 ^ 63" using assms(3) by (metis of_nat_less_iff of_nat_numeral of_nat_power)
  then have "\<bar>int (unat (t + c)) - int (unat now)\<bar> < 2 ^ 63" using n assms(4,5) by linarith
  from tick_delta_linear [OF this] n have "tick_delta now (t + c) > 0" using assms(5) by linarith
  then show ?thesis using assms(1,2) by (simp add: in_cooldown_def tick_after_def add_ticks_no_wrap)
qed

lemma ruled_cooldown [simp]: "in_cooldown now (ruled now' d) = in_cooldown now d"
  by (simp add: in_cooldown_def ruled_def Let_def)

lemma step_timeout_bounds:
  assumes "step_timeout now d dec = (d', dec')" "has_open_episode d'"
  shows "d' = d" "bm_duration_ticks (ev_metrics (dt_episode d')) < dp_max_episode_ticks (po_detection (dt_policy d))"
  using assms by (auto simp: step_timeout_def Let_def case_prod_beta not_le split: if_splits)

lemma step_state_policy [simp]: "dt_policy (fst (step_state now m deg d dec)) = dt_policy d"
  by (cases "dt_state d")
    (simp_all add: step_state_def step_idle_def step_active_def step_recovering_def case_prod_beta Let_def)

lemma admissible_bounds:
  assumes "evaluate_admissible now gap m deg d dec = (d', dec')" "has_open_episode d'"
  shows "bm_duration_ticks (ev_metrics (dt_episode d')) < dp_max_episode_ticks (po_detection (dt_policy d))"
  using step_timeout_bounds(2) [OF _ assms(2)] assms(1)
  by (force simp: evaluate_admissible_def case_prod_beta Let_def)

lemma inadmissible_bounds:
  assumes "evaluate_inadmissible now g d dec = (d', dec')" "has_open_episode d'"
  shows "forward_gap (dt_inadmissible_since d') now \<le> dp_evidence_grace_ticks (po_detection (dt_policy d))"
    "dt_inadmissible_since_set d'"
  using assms by (auto simp: evaluate_inadmissible_def has_open_episode_def Let_def case_prod_beta close_episode_def split: if_splits)

lemma evaluate_bounds:
  assumes "fresh_tick now d" "evaluate now d = (dec, d')" "has_open_episode d'"
  defines "p \<equiv> po_detection (dt_policy d)" and "g \<equiv> gates_at now d"
  shows "gt_authoritative g \<or> gt_degraded_allowed g \<Longrightarrow>
       bm_duration_ticks (ev_metrics (dt_episode d')) < dp_max_episode_ticks p"
    "\<not> (gt_authoritative g \<or> gt_degraded_allowed g) \<Longrightarrow>
       dt_inadmissible_since_set d' \<and> forward_gap (dt_inadmissible_since d') now \<le> dp_evidence_grace_ticks p"
proof -
  obtain d1 dec1 where gd: "gated now d = (d1, dec1)" by (cases "gated now d")
  note gf = gated_facts [OF gd]
  define gap where "gap = (if dt_has_evaluated d then forward_gap (dt_last_evaluated d) now else 0)"
  have ev: "evaluate now d = (case evaluate_fresh now d of (d, dec) \<Rightarrow> (dec, d))"
    using assms(1) by (auto simp: evaluate_def fresh_tick_def)
  have pol: "dt_policy d1 = dt_policy d" by (simp add: gf(1))
  show "bm_duration_ticks (ev_metrics (dt_episode d')) < dp_max_episode_ticks p"
    if a: "gt_authoritative g \<or> gt_degraded_allowed g"
  proof -
    obtain d2 dec2 where r: "evaluate_admissible now gap (metrics p (dt_window d)) (gt_degraded_allowed g) d1 dec1 = (d2, dec2)"
      by fastforce
    then have "d' = d2\<lparr>dt_last_decision := dec2\<rparr>"
      using ev assms(2) a by (auto simp: evaluate_fresh_eq gd Let_def g_def gap_def p_def)
    then show ?thesis using admissible_bounds [OF r] assms(3) pol by (simp add: has_open_episode_def p_def)
  qed
  show "dt_inadmissible_since_set d' \<and> forward_gap (dt_inadmissible_since d') now \<le> dp_evidence_grace_ticks p"
    if a: "\<not> (gt_authoritative g \<or> gt_degraded_allowed g)"
  proof -
    obtain d2 dec2 where r: "evaluate_inadmissible now g d1 dec1 = (d2, dec2)" by fastforce
    then have "d' = d2\<lparr>dt_last_decision := dec2\<rparr>"
      using ev assms(2) a by (auto simp: evaluate_fresh_eq gd Let_def g_def p_def)
    then show ?thesis using inadmissible_bounds [OF r] assms(3) pol by (simp add: has_open_episode_def p_def)
  qed
qed


lemma dt_last_evaluated_fresh:
  assumes "fresh_tick now d" "evaluate now d = (dec, d')"
  shows "dt_last_evaluated d' = now" "dt_has_evaluated d'"
proof -
  obtain d1 dec1 where gd: "gated now d = (d1, dec1)" by (cases "gated now d")
  note gf = gated_facts [OF gd]
  have i: "dt_last_evaluated (fst (evaluate_inadmissible t g x dc)) = dt_last_evaluated x"
    "dt_has_evaluated (fst (evaluate_inadmissible t g x dc)) = dt_has_evaluated x" for t g x dc
    by (simp_all add: evaluate_inadmissible_def case_prod_beta Let_def)
  have s: "dt_last_evaluated (fst (step_state t m deg x dc)) = dt_last_evaluated x"
    "dt_has_evaluated (fst (step_state t m deg x dc)) = dt_has_evaluated x" for t m deg x dc
    by (cases "dt_state x"; simp add: step_state_def step_idle_def step_active_def step_recovering_def
        case_prod_beta Let_def)+
  have a: "dt_last_evaluated (fst (evaluate_admissible t gap m deg x dc)) = dt_last_evaluated x"
    "dt_has_evaluated (fst (evaluate_admissible t gap m deg x dc)) = dt_has_evaluated x" for t gap m deg x dc
    by (simp_all add: evaluate_admissible_def step_timeout_def s case_prod_beta Let_def)
  have ev: "evaluate now d = (case evaluate_fresh now d of (d, dec) \<Rightarrow> (dec, d))"
    using assms(1) by (auto simp: evaluate_def fresh_tick_def)
  show "dt_last_evaluated d' = now" "dt_has_evaluated d'"
    using assms(2) unfolding ev evaluate_fresh_eq gd
    by (auto simp: case_prod_beta Let_def i a gf(1))
qed

lemma evaluate_again: "evaluate now (snd (evaluate now d)) = evaluate now d"
proof (cases "fresh_tick now d")
  case True
  obtain dec d' where e: "evaluate now d = (dec, d')" by (cases "evaluate now d")
  have "dt_last_decision d' = dec" using evaluate_fresh_verdict(3) [OF True e] .
  moreover have "\<not> fresh_tick now d'" using dt_last_evaluated_fresh [OF True e] by (simp add: fresh_tick_def)
  ultimately show ?thesis using e by (simp add: evaluate_cached)
qed (simp add: evaluate_cached)

end
