(* ===== verification/Hysteresis.thy ===== *)
theory Hysteresis
  imports Detector
begin

text \<open>
  When the detector may speak and when it must keep silent: without admissible evidence nothing positive
  is decided, an episode opens only on a confirmed onset outside of the cooldown, after one has
  closed none opens before its cooldown is over, whatever the detector is fed, and an open one closes
  exactly when its release is confirmed, it reaches its ceiling, or the evidence has been missing for
  longer than the grace period.
\<close>

section \<open>Evidence\<close>

text \<open>The evidence gates, in the terms of the policy.\<close>

lemma gate_conditions:
  fixes d now
  defines "p \<equiv> po_detection (dt_policy d)"
  defines "m \<equiv> metrics p (dt_window d)"
  shows "gt_authoritative (gates_at now d) \<longleftrightarrow> wm_samples m > 0 \<and> wm_samples m \<ge> dp_min_samples_for_classification p \<and>
      wm_completeness_permille m \<ge> dp_min_completeness_permille p \<and>
      staleness_ticks now (dt_window d) \<le> dp_staleness_limit_ticks p \<and>
      wm_max_gap_ticks m \<le> dp_max_sample_gap_ticks p \<and>
      (dp_allow_capacity_change_within_window p \<or> \<not> wm_capacity_changed m)"
    "gt_degraded_allowed (gates_at now d) \<Longrightarrow> dp_allow_degraded_classification p \<and> wm_samples m \<ge> 2 \<and>
      staleness_ticks now (dt_window d) \<le> dp_staleness_limit_ticks p \<and>
      (dp_allow_capacity_change_within_window p \<or> \<not> wm_capacity_changed m) \<and>
      wm_completeness_permille m \<ge> dp_degraded_min_completeness_permille p"
  by (auto simp: gates_at_def evidence_gates_def p_def m_def Let_def)

lemma degraded_verdict:
  assumes "fresh_tick now d" "evaluate now d = (dec, d')" "policy_in_force (dt_policy d)"
    "\<not> gt_authoritative (gates_at now d)" "is_positive (dd_classification dec)"
  shows "gt_degraded_allowed (gates_at now d)" "dd_classification dec = positive_class True"
    "dd_authority dec = EvDegraded"
    "severity_raw (dd_severity dec) \<le> severity_raw (dp_degraded_severity_cap (po_detection (dt_policy d)))"
proof -
  show g: "gt_degraded_allowed (gates_at now d)" using evaluate_fresh_verdict(4) [OF assms(1,2)] assms(4,5) by blast
  note v = evaluate_fresh_verdict(5) [OF assms(1,2) disjI2 [OF g]]
  show a: "dd_authority dec = EvDegraded" using v g by simp
  show "dd_classification dec = positive_class True" using v g assms(5) by simp
  have "settled_by (dd_authority dec) (dt_policy d) (dd_severity dec)" using v assms(5) by blast
  from settled_by_bounds(3) [OF assms(3) this a]
  show "severity_raw (dd_severity dec) \<le> severity_raw (dp_degraded_severity_cap (po_detection (dt_policy d)))" .
qed

section \<open>Onset\<close>

lemma ruled_open [simp]: "has_open_episode (ruled now d) = has_open_episode d"
  by (simp add: ruled_def onset_update_def release_update_def has_open_episode_def Let_def)

lemma opening_needs_onset:
  assumes "fresh_tick now d" "evaluate now d = (dec, d')" "dd_opened dec"
  shows "\<not> has_open_episode d" "onset_confirmed (ruled now d)" "\<not> in_cooldown now d"
proof -
  have "gt_authoritative (gates_at now d) \<or> gt_degraded_allowed (gates_at now d)"
    using evaluate_fresh_verdict(4) [OF assms(1,2)] assms(3) by blast
  then show "\<not> has_open_episode d" "onset_confirmed (ruled now d)" "\<not> in_cooldown now d"
    using evaluate_fresh_verdict(5) [OF assms(1,2)] assms(3) by simp_all
qed

text \<open>When an episode opens, exactly.\<close>

lemma ruled_confirmed_iff:
  fixes now d
  assumes "policy_in_force (dt_policy d)"
  defines "p \<equiv> po_detection (dt_policy d)"
  defines "m \<equiv> metrics p (dt_window d)"
  defines "t \<equiv> saturating_add_u (dt_onset_run_ticks d) (if dt_has_evaluated d then forward_gap (dt_last_evaluated d) now else 0)"
  shows "onset_confirmed (ruled now d) \<longleftrightarrow> dp_onset_min_depth p \<le> wm_latest_depth m \<and> dt_onset_run_active d \<and>
    dp_onset_sustain_ticks p \<le> t \<and> (dt_onset_rise_observed d \<or>
      sint (dp_onset_min_slope_q16 p) \<le> sint (steepest_slope m) \<and> t \<le> dp_onset_slope_window_ticks p)"
proof -
  have s: "dp_onset_sustain_ticks p \<noteq> 0"
    using assms(1) validate_detection_ok(7) [of p]
    by (simp add: policy_in_force_def validate_policy_ok_iff p_def)
  have r: "dt_onset_run_active (release_update g m x) = dt_onset_run_active x"
    "dt_onset_rise_observed (release_update g m x) = dt_onset_rise_observed x"
    "dt_onset_run_ticks (release_update g m x) = dt_onset_run_ticks x" "dt_policy (release_update g m x) = dt_policy x" for g m x
    by (simp_all add: release_update_def)
  show ?thesis using s unfolding ruled_def p_def m_def t_def
    by (auto simp: onset_confirmed_def onset_update_def r Let_def)
qed

lemma opened_by_step:
  assumes "\<not> has_open_episode d"
  shows "dd_opened (snd (step_timeout now (fst (step_state now m deg d dec)) (snd (step_state now m deg d dec)))) \<longleftrightarrow>
    dd_opened dec \<or> onset_confirmed d \<and> \<not> in_cooldown now d"
proof -
  have t: "dd_opened (snd (step_timeout now x y)) = dd_opened y" for x y
    by (simp add: step_timeout_def close_episode_def case_prod_beta Let_def)
  have u: "dd_opened (snd (update_episode now m x y)) = dd_opened y" for x y
    by (simp add: update_episode_def case_prod_beta Let_def)
  have "dt_state d = DsIdle" using assms by (cases "dt_state d") (simp_all add: has_open_episode_def)
  then show ?thesis
    by (auto simp: t step_state_def step_idle_def u open_episode_def case_prod_beta Let_def)
qed

lemma opening_iff:
  assumes "fresh_tick now d" "evaluate now d = (dec, d')"
  shows "dd_opened dec \<longleftrightarrow> (gt_authoritative (gates_at now d) \<or> gt_degraded_allowed (gates_at now d)) \<and>
    \<not> has_open_episode d \<and> onset_confirmed (ruled now d) \<and> \<not> in_cooldown now d"
proof
  assume o: "dd_opened dec"
  then show "(gt_authoritative (gates_at now d) \<or> gt_degraded_allowed (gates_at now d)) \<and>
    \<not> has_open_episode d \<and> onset_confirmed (ruled now d) \<and> \<not> in_cooldown now d"
    using opening_needs_onset [OF assms o] evaluate_fresh_verdict(4) [OF assms] by blast
next
  assume c: "(gt_authoritative (gates_at now d) \<or> gt_degraded_allowed (gates_at now d)) \<and>
    \<not> has_open_episode d \<and> onset_confirmed (ruled now d) \<and> \<not> in_cooldown now d"
  obtain d1 dec1 where g: "gated now d = (d1, dec1)" by (cases "gated now d")
  then have d1: "d1\<lparr>dt_inadmissible_since_set := False\<rparr> =
      d\<lparr>dt_last_evaluated := now, dt_has_evaluated := True, dt_inadmissible_since_set := False\<rparr>"
    by (auto simp: gated_def Let_def)
  define m where "m = metrics (po_detection (dt_policy d)) (dt_window d)"
  define gap where "gap = (if dt_has_evaluated d then forward_gap (dt_last_evaluated d) now else 0)"
  have cool: "in_cooldown now (ruled now d) = in_cooldown now d"
    by (simp add: ruled_def in_cooldown_def onset_update_def release_update_def Let_def)
  have f: "evaluate now d = (case evaluate_fresh now d of (d, dec) \<Rightarrow> (dec, d))"
    using assms(1) by (auto simp: evaluate_def fresh_tick_def)
  have "dec = snd (evaluate_fresh now d)" using assms(2) unfolding f by (simp add: case_prod_beta)
  also have "\<dots> = snd (evaluate_admissible now gap m (gt_degraded_allowed (gates_at now d)) d1 dec1)"
    using c by (auto simp: evaluate_fresh_eq g Let_def m_def gap_def case_prod_beta)
  finally have e: "dec = snd (evaluate_admissible now gap m (gt_degraded_allowed (gates_at now d)) d1 dec1)" .
  have r: "release_update gap m (onset_update now gap m (d1\<lparr>dt_inadmissible_since_set := False\<rparr>)) = ruled now d"
    unfolding d1 by (simp add: ruled_def m_def gap_def Let_def)
  show "dd_opened dec" unfolding e evaluate_admissible_def r case_prod_beta Let_def
    using c cool by (subst opened_by_step) simp_all
qed

section \<open>Cooldown\<close>

text \<open>What the cooldown depends on.\<close>

definition calm :: "detector \<Rightarrow> bool \<times> tick \<times> policy" where
  "calm d = (has_open_episode d, dt_cooldown_until d, dt_policy d)"

lemma calm_simps [simp]:
  "calm (d\<lparr>dt_last_decision := a\<rparr>) = calm d" "calm (d\<lparr>dt_window := b\<rparr>) = calm d"
  "calm (d\<lparr>dt_resource_generation := c\<rparr>) = calm d" "calm (d\<lparr>dt_last_accept := e\<rparr>) = calm d"
  "calm (d\<lparr>dt_last_evaluated := f\<rparr>) = calm d" "calm (d\<lparr>dt_has_evaluated := h\<rparr>) = calm d"
  "calm (d\<lparr>dt_inadmissible_since_set := i\<rparr>) = calm d" "calm (d\<lparr>dt_inadmissible_since := j\<rparr>) = calm d"
  by (simp_all add: calm_def has_open_episode_def)

lemma calm_updates [simp]: "calm (onset_update now gap m d) = calm d" "calm (release_update gap m d) = calm d"
  by (simp_all add: calm_def onset_update_def release_update_def has_open_episode_def Let_def)

lemma calm_update_episode [simp]: "calm (fst (update_episode now m d dec)) = calm d"
  by (simp add: calm_def has_open_episode_def)

lemma close_calm: "calm (fst (close_episode r now f d dec)) =
    (False, add_ticks_saturating now (dp_cooldown_ticks (po_detection (dt_policy d))), dt_policy d)"
  by (simp add: calm_def close_episode_def has_open_episode_def Let_def)

text \<open>In the cooldown an idle detector stays idle.\<close>

definition quiet_until :: "tick \<Rightarrow> detector \<Rightarrow> bool" where
  "quiet_until u d \<longleftrightarrow> \<not> has_open_episode d \<and> dt_cooldown_until d = u"

lemma quiet_calm: "calm d' = calm d \<Longrightarrow> quiet_until u d' = quiet_until u d"
  by (simp add: quiet_until_def calm_def)

lemma evaluate_calm:
  fixes now d
  defines "d1 \<equiv> fst (gated now d)" and "dec1 \<equiv> snd (gated now d)" and "g \<equiv> gates_at now d"
  shows "calm (snd (evaluate now d)) = calm d \<or>
     (\<exists>g dec. calm (snd (evaluate now d)) = calm (fst (evaluate_inadmissible now g d1 dec))) \<or>
     (\<exists>gap m deg dec. calm (snd (evaluate now d)) = calm (fst (evaluate_admissible now gap m deg d1 dec)))"
proof (cases "fresh_tick now d")
  case True
  have ev: "snd (evaluate now d) = fst (evaluate_fresh now d)"
    using True by (auto simp: evaluate_def fresh_tick_def case_prod_beta)
  show ?thesis unfolding ev evaluate_fresh_eq d1_def by (simp add: case_prod_beta Let_def) metis
qed (simp add: evaluate_cached)

lemma gated_calm [simp]: "calm (fst (gated now d)) = calm d"
  using gated_facts(1) [of now d "fst (gated now d)" "snd (gated now d)"] by simp

lemma timeout_calm:
  "calm (fst (step_timeout now d dec)) = calm d \<or> has_open_episode d \<and> calm (fst (step_timeout now d dec)) =
     (False, add_ticks_saturating now (dp_cooldown_ticks (po_detection (dt_policy d))), dt_policy d)"
  by (simp add: step_timeout_def close_calm case_prod_beta Let_def)

text \<open>An evaluation leaves the episode as it is, opens one outside of the cooldown, or closes it and starts one.\<close>

lemma step_state_calm:
  "calm (fst (step_state now m deg d dec)) = calm d \<or>
   has_open_episode d \<and> calm (fst (step_state now m deg d dec)) =
     (False, add_ticks_saturating now (dp_cooldown_ticks (po_detection (dt_policy d))), dt_policy d) \<or>
   \<not> has_open_episode d \<and> \<not> in_cooldown now d"
proof (cases "dt_state d")
  case DsIdle
  then show ?thesis by (auto simp: step_state_def step_idle_def has_open_episode_def calm_def)
next
  case DsActive
  have "calm (x\<lparr>dt_state := DsRecovering, dt_recovery_start_tick := now\<rparr>) = calm x" if "dt_state x = DsActive" for x
    using that by (simp add: calm_def has_open_episode_def)
  then show ?thesis using DsActive by (simp add: step_state_def step_active_def case_prod_beta Let_def)
next
  case DsRecovering
  have "calm (d\<lparr>dt_state := DsActive, dt_release_sustaining := False, dt_release_progress_ticks := 0\<rparr>) = calm d"
    using DsRecovering by (simp add: calm_def has_open_episode_def)
  then show ?thesis using DsRecovering
    by (simp add: step_state_def step_recovering_def close_calm has_open_episode_def case_prod_beta Let_def)
qed

text \<open>The detector after it has closed its episode at a tick.\<close>

definition closed_at :: "tick \<Rightarrow> detector \<Rightarrow> bool \<times> tick \<times> policy" where
  "closed_at now d = (False, add_ticks_saturating now (dp_cooldown_ticks (po_detection (dt_policy d))), dt_policy d)"

lemma calm_parts:
  "calm d' = calm d \<Longrightarrow> has_open_episode d' = has_open_episode d \<and> in_cooldown now d' = in_cooldown now d \<and>
     closed_at now d' = closed_at now d"
  "calm d' = closed_at now d \<Longrightarrow> \<not> has_open_episode d'"
  by (simp_all add: calm_def in_cooldown_def closed_at_def)

lemma admissible_calm:
  assumes "\<not> has_open_episode d \<Longrightarrow> in_cooldown now d"
  shows "calm (fst (evaluate_admissible now gap m deg d dec)) = calm d \<or>
    has_open_episode d \<and> calm (fst (evaluate_admissible now gap m deg d dec)) = closed_at now d"
proof -
  define d0 where "d0 = release_update gap m (onset_update now gap m (d\<lparr>dt_inadmissible_since_set := False\<rparr>))"
  define dec0 where "dec0 = explain_rules now m d0 (dec\<lparr>dd_authority := (if deg then EvDegraded else EvAuthoritative)\<rparr>)"
  define r where "r = step_state now m deg d0 dec0"
  have e: "fst (evaluate_admissible now gap m deg d dec) = fst (step_timeout now (fst r) (snd r))"
    by (simp add: evaluate_admissible_def case_prod_beta Let_def flip: d0_def dec0_def r_def)
  have c0: "calm d0 = calm d" by (simp add: d0_def)
  note p0 = calm_parts(1) [OF c0, of now]
  have "calm (fst r) = calm d \<or> has_open_episode d \<and> calm (fst r) = closed_at now d"
    using step_state_calm [of now m deg d0 dec0] assms c0 p0 unfolding r_def closed_at_def by auto
  then show ?thesis
  proof
    assume c: "calm (fst r) = calm d"
    show ?thesis using timeout_calm [of now "fst r" "snd r"] c calm_parts(1) [OF c, of now]
      unfolding e closed_at_def by auto
  next
    assume c: "has_open_episode d \<and> calm (fst r) = closed_at now d"
    then have "\<not> has_open_episode (fst r)" using calm_parts(2) by blast
    then show ?thesis using timeout_calm [of now "fst r" "snd r"] c unfolding e by auto
  qed
qed

lemma inadmissible_calm:
  "calm (fst (evaluate_inadmissible now g d dec)) = calm d \<or>
   has_open_episode d \<and> calm (fst (evaluate_inadmissible now g d dec)) = closed_at now d"
  by (simp add: evaluate_inadmissible_def close_calm closed_at_def case_prod_beta Let_def)

lemma evaluate_calms:
  assumes "\<not> has_open_episode d \<Longrightarrow> in_cooldown now d"
  shows "calm (snd (evaluate now d)) = calm d \<or> has_open_episode d \<and> calm (snd (evaluate now d)) = closed_at now d"
proof -
  let ?d = "fst (gated now d)"
  note p = calm_parts(1) [OF gated_calm [of now d], of now]
  have "calm (fst (evaluate_admissible now gap m deg ?d dec)) = calm d \<or>
      has_open_episode d \<and> calm (fst (evaluate_admissible now gap m deg ?d dec)) = closed_at now d" for gap m deg dec
    using admissible_calm [of ?d now gap m deg dec] assms p by simp
  moreover have "calm (fst (evaluate_inadmissible now g ?d dec)) = calm d \<or>
      has_open_episode d \<and> calm (fst (evaluate_inadmissible now g ?d dec)) = closed_at now d" for g dec
    using inadmissible_calm [of now g ?d dec] p by simp
  ultimately show ?thesis using evaluate_calm [of now d] by metis
qed

section \<open>Inputs\<close>

fun input_tick :: "detector_input \<Rightarrow> tick" where
  "input_tick (InIngest s) = sm_tick s"
| "input_tick (InAdvance t) = t"
| "input_tick (InFence r t) = t"
| "input_tick (InRearm p g t) = t"

lemma fence_calm: "calm (fst (fence_decision r now d)) = closed_at now d"
  by (simp add: fence_decision_def close_calm closed_at_def case_prod_beta Let_def)

text \<open>What an input may do to the episode; a rearmed detector works under its new policy.\<close>

definition calm_state :: "detector \<Rightarrow> bool \<times> tick" where
  "calm_state d = (has_open_episode d, dt_cooldown_until d)"

lemma calm_state_calm: "calm d' = calm d \<Longrightarrow> calm_state d' = calm_state d"
  "calm d' = closed_at now d \<Longrightarrow>
     calm_state d' = (False, add_ticks_saturating now (dp_cooldown_ticks (po_detection (dt_policy d))))"
  by (simp_all add: calm_def calm_state_def closed_at_def)

lemma ingest_calm:
  obtains (refused) "snd (detector_ingest s d) = d"
  | (fenced) "has_open_episode d" "calm (snd (detector_ingest s d)) = closed_at (sm_tick s) d"
  | (evaluated) x where "calm x = calm d" "snd (detector_ingest s d) = snd (evaluate (sm_tick s) x)"
proof (cases "sm_stream s \<noteq> dt_key d \<or> \<not> is_ok (validate_sample s)")
  case True
  then show ?thesis using refused by (auto simp: detector_ingest_def Let_def)
next
  case valid: False
  define changed where "changed \<longleftrightarrow> id_valid (sm_resource_generation s) \<and> id_valid (dt_resource_generation d) \<and>
    sm_resource_generation s \<noteq> dt_resource_generation d"
  show ?thesis
  proof (cases "changed \<and> has_open_episode d")
    case True
    then show ?thesis using fenced valid fence_calm [of CrCapacityChanged "sm_tick s" d]
      by (simp add: detector_ingest_def changed_def [symmetric] case_prod_beta Let_def)
  next
    case False
    define d1 where "d1 = (if changed then d\<lparr>dt_resource_generation := sm_resource_generation s, dt_window := reset_window d\<rparr>
      else if id_valid (sm_resource_generation s) then d\<lparr>dt_resource_generation := sm_resource_generation s\<rparr> else d)"
    define x where "x = d1\<lparr>dt_window := snd (offer s (dp_reorder_tolerance_ticks (po_detection (dt_policy d1))) (dt_window d1)),
      dt_last_accept := fst (offer s (dp_reorder_tolerance_ticks (po_detection (dt_policy d1))) (dt_window d1))\<rparr>"
    have "calm d1 = calm d" by (simp add: d1_def)
    then have "calm x = calm d" by (simp add: x_def)
    moreover have "snd (detector_ingest s d) = snd (evaluate (sm_tick s) x)"
      using valid False unfolding detector_ingest_def changed_def [symmetric] Let_def d1_def [symmetric]
      by (auto simp: case_prod_beta x_def)
    ultimately show ?thesis using evaluated by blast
  qed
qed

lemma run_calms:
  assumes "\<not> has_open_episode d \<Longrightarrow> in_cooldown (input_tick i) d"
  shows "calm_state (detector_run i d) = calm_state d \<or> has_open_episode d \<and> calm_state (detector_run i d) =
    (False, add_ticks_saturating (input_tick i) (dp_cooldown_ticks (po_detection (dt_policy d))))"
proof (cases i)
  case (InIngest s)
  then have r: "detector_run i d = snd (detector_ingest s d)" "input_tick i = sm_tick s" by (simp_all add: detector_run_def)
  show ?thesis unfolding r
  proof (cases s d rule: ingest_calm)
    case refused
    then show "calm_state (snd (detector_ingest s d)) = calm_state d \<or> has_open_episode d \<and>
      calm_state (snd (detector_ingest s d)) =
        (False, add_ticks_saturating (sm_tick s) (dp_cooldown_ticks (po_detection (dt_policy d))))" by simp
  next
    case fenced
    then show "calm_state (snd (detector_ingest s d)) = calm_state d \<or> has_open_episode d \<and>
      calm_state (snd (detector_ingest s d)) =
        (False, add_ticks_saturating (sm_tick s) (dp_cooldown_ticks (po_detection (dt_policy d))))"
      using calm_state_calm(2) by blast
  next
    case (evaluated x)
    have "\<not> has_open_episode x \<Longrightarrow> in_cooldown (sm_tick s) x"
      using calm_parts(1) [OF evaluated(1), of "sm_tick s"] assms r(2) by simp
    from evaluate_calms [OF this] show "calm_state (snd (detector_ingest s d)) = calm_state d \<or> has_open_episode d \<and>
      calm_state (snd (detector_ingest s d)) =
        (False, add_ticks_saturating (sm_tick s) (dp_cooldown_ticks (po_detection (dt_policy d))))"
      using calm_parts(1) [OF evaluated(1), of "sm_tick s"] evaluated calm_state_calm by metis
  qed
next
  case (InAdvance t)
  then show ?thesis using evaluate_calms [of d t] assms calm_state_calm(1) [of "snd (evaluate t d)" d]
      calm_state_calm(2) [of "snd (evaluate t d)" t d]
    by (auto simp: detector_run_def detector_advance_def)
next
  case (InFence r t)
  then show ?thesis using calm_state_calm(2) [OF fence_calm [of r t d]]
    by (simp add: detector_run_def fence_def case_prod_beta)
next
  case (InRearm p g t)
  have "calm_state (x\<lparr>dt_policy := p, dt_generation := g, dt_window := w, dt_onset_run_active := False, dt_onset_run_ticks := 0,
      dt_onset_rise_observed := False, dt_release_sustaining := False, dt_release_progress_ticks := 0, dt_state := DsIdle,
      dt_has_evaluated := False, dt_last_evaluated := 0, dt_inadmissible_since_set := False\<rparr>) =
      (False, dt_cooldown_until x)" for x w by (simp add: calm_state_def has_open_episode_def)
  then show ?thesis using InRearm calm_state_calm(2) [OF fence_calm [of CrPolicyChanged t d]]
    by (auto simp: detector_run_def rearm_def calm_state_def case_prod_beta Let_def)
qed

section \<open>No episode in the cooldown\<close>

lemma run_idle:
  assumes "\<not> has_open_episode d" "list_all (\<lambda>i. in_cooldown (input_tick i) d) inputs"
  shows "calm_state (fold detector_run inputs d) = calm_state d"
  using assms
proof (induction inputs arbitrary: d)
  case (Cons i inputs)
  have c: "calm_state (detector_run i d) = calm_state d" using run_calms [of d i] Cons.prems by auto
  then have "\<not> has_open_episode (detector_run i d)" "in_cooldown t (detector_run i d) = in_cooldown t d" for t
    using Cons.prems(1) by (simp_all add: calm_state_def in_cooldown_def)
  then show ?case using Cons.IH [of "detector_run i d"] Cons.prems(2) c by simp
qed simp

lemma cooldown_after_close:
  assumes "has_open_episode d" "\<not> has_open_episode (detector_run i d)"
    "unat (input_tick i) + unat c < 2 ^ 64" "unat c < 2 ^ 63" "c = dp_cooldown_ticks (po_detection (dt_policy d))"
    "list_all (\<lambda>j. unat (input_tick i) \<le> unat (input_tick j) \<and> unat (input_tick j) < unat (input_tick i) + unat c) inputs"
  shows "\<not> has_open_episode (fold detector_run inputs (detector_run i d))"
proof -
  have "calm_state (detector_run i d) = (False, add_ticks_saturating (input_tick i) c)"
    using run_calms [of d i] assms(1,2,5) by (auto simp: calm_state_def)
  then have u: "dt_cooldown_until (detector_run i d) = add_ticks_saturating (input_tick i) c"
    by (simp add: calm_state_def)
  have "list_all (\<lambda>j. in_cooldown (input_tick j) (detector_run i d)) inputs"
    using assms(6) cooldown_holds [OF u assms(3,4)] by (simp add: list_all_iff)
  from run_idle [OF assms(2) this] show ?thesis using assms(2) by (simp add: calm_state_def)
qed

section \<open>Closing\<close>

lemma close_flags [simp]:
  "dd_closed (snd (close_episode r now f d dec))" "dd_close_reason (snd (close_episode r now f d dec)) = r"
  "dd_fenced (snd (close_episode r now f d dec)) = f" "\<not> has_open_episode (fst (close_episode r now f d dec))"
  "dt_policy (fst (close_episode r now f d dec)) = dt_policy d"
  by (simp_all add: close_episode_def has_open_episode_def Let_def)

lemma update_flags [simp]:
  "dd_closed (snd (update_episode now m d dec)) = dd_closed dec"
  "dd_close_reason (snd (update_episode now m d dec)) = dd_close_reason dec"
  "dd_fenced (snd (update_episode now m d dec)) = dd_fenced dec"
  by (simp_all add: update_episode_def dd_reason_def case_prod_beta Let_def)

lemma update_duration:
  "has_open_episode d \<Longrightarrow> bm_duration_ticks (ev_metrics (dt_episode (fst (update_episode now m d dec)))) =
     forward_gap (bm_onset_tick (ev_metrics (dt_episode d))) now"
  by (simp add: update_episode_def update_metrics_def case_prod_beta Let_def)

text \<open>How an episode that is open after the switch on the state has lasted, and which one the switch closes.\<close>

definition episode_onset :: "detector \<Rightarrow> tick" where
  "episode_onset d = (if has_open_episode d then bm_onset_tick (ev_metrics (dt_episode d)) else dt_onset_start_tick d)"

definition released :: "tick \<Rightarrow> detector \<Rightarrow> bool" where
  "released now d \<longleftrightarrow> dt_state d = DsRecovering \<and> \<not> dt_onset_run_active d \<and>
     forward_gap (dt_recovery_start_tick d) now \<ge> dp_cooldown_ticks (po_detection (dt_policy d))"

definition switched :: "tick \<Rightarrow> detector \<Rightarrow> detector \<times> decision \<Rightarrow> bool" where
  "switched now d out \<longleftrightarrow> (dd_closed (snd out) \<longleftrightarrow> released now d) \<and>
     (dd_closed (snd out) \<longrightarrow> dd_close_reason (snd out) = CrReleaseConfirmed) \<and> \<not> dd_fenced (snd out) \<and>
     (has_open_episode (fst out) \<longleftrightarrow> (has_open_episode d \<or> dd_opened (snd out)) \<and> \<not> released now d) \<and>
     (has_open_episode (fst out) \<longrightarrow>
        bm_duration_ticks (ev_metrics (dt_episode (fst out))) = forward_gap (episode_onset d) now) \<and>
     dt_policy (fst out) = dt_policy d"

definition quiet_decision :: "decision \<Rightarrow> bool" where
  "quiet_decision dec \<longleftrightarrow> \<not> dd_closed dec \<and> \<not> dd_fenced dec \<and> \<not> dd_opened dec"

lemma update_parts [simp]:
  "has_open_episode (fst (update_episode now m d dec)) = has_open_episode d"
  "dd_opened (snd (update_episode now m d dec)) = dd_opened dec"
  "dt_policy (fst (update_episode now m d dec)) = dt_policy d"
  by (simp_all add: update_episode_def has_open_episode_def dd_reason_def case_prod_beta Let_def)

lemma switched_idle:
  assumes "dt_state d = DsIdle" "quiet_decision dec"
  shows "switched now d (step_idle now m deg d dec)"
proof -
  obtain d1 dec1 where q: "open_episode now d dec = (d1, dec1)" by fastforce
  have o: "has_open_episode d1" "dd_opened dec1" "dd_closed dec1 = dd_closed dec" "dd_fenced dec1 = dd_fenced dec"
    "bm_onset_tick (ev_metrics (dt_episode d1)) = dt_onset_start_tick d" "dt_policy d1 = dt_policy d"
    using q by (auto simp: open_episode_def has_open_episode_def burst_metrics_default_def event_default_def Let_def)
  have n: "\<not> has_open_episode d" "\<not> released now d" using assms(1) by (simp_all add: has_open_episode_def released_def)
  have e: "step_idle now m deg d dec =
    (if onset_confirmed d \<and> \<not> in_cooldown now d then (fst (update_episode now m d1 dec1),
        (snd (update_episode now m d1 dec1))\<lparr>dd_classification := positive_class deg\<rparr>)
     else (d, dec\<lparr>dd_classification := (if dt_onset_run_active d then ClCandidate else ClQuiescent)\<rparr>))"
    by (simp add: step_idle_def q case_prod_beta)
  show ?thesis unfolding e using o n assms(2)
    by (auto simp: switched_def quiet_decision_def update_duration episode_onset_def)
qed

lemma switched_active:
  assumes "dt_state d = DsActive" "quiet_decision dec"
  shows "switched now d (step_active now m deg d dec)"
proof -
  obtain d1 dec1 where q: "update_episode now m d dec = (d1, dec1)" by fastforce
  have n: "has_open_episode d" "\<not> released now d" using assms(1) by (simp_all add: has_open_episode_def released_def)
  have o: "has_open_episode d1" "dd_opened dec1 = dd_opened dec" "dd_closed dec1 = dd_closed dec" "dd_fenced dec1 = dd_fenced dec"
    "bm_duration_ticks (ev_metrics (dt_episode d1)) = forward_gap (episode_onset d) now" "dt_policy d1 = dt_policy d"
    using update_parts [of now m d dec] update_flags [of now m d dec] update_duration [OF n(1), of now m dec] n(1)
    by (simp_all add: q episode_onset_def)
  have r: "has_open_episode (d1\<lparr>dt_state := DsRecovering, dt_recovery_start_tick := now\<rparr>)"
    by (simp add: has_open_episode_def)
  show ?thesis using o n r assms(2) by (simp add: step_active_def q switched_def quiet_decision_def Let_def)
qed

lemma switched_recovering:
  assumes "dt_state d = DsRecovering" "quiet_decision dec"
  shows "switched now d (step_recovering now m deg d dec)"
proof -
  have n: "has_open_episode d" using assms(1) by (simp add: has_open_episode_def)
  define e where "e = d\<lparr>dt_state := DsActive, dt_release_sustaining := False, dt_release_progress_ticks := 0\<rparr>"
  have e: "has_open_episode e" "ev_metrics (dt_episode e) = ev_metrics (dt_episode d)" "dt_policy e = dt_policy d"
    by (simp_all add: e_def has_open_episode_def)
  obtain d1 dec1 where q: "update_episode now m d dec = (d1, dec1)" by fastforce
  obtain d2 dec2 where r: "update_episode now m e (dd_reason RcEpisodeMerged 0 0 now dec) = (d2, dec2)" by fastforce
  obtain d3 dec3 where c: "close_episode CrReleaseConfirmed now False d1 dec1 = (d3, dec3)" by fastforce
  have o1: "has_open_episode d1" "dd_opened dec1 = dd_opened dec" "dd_closed dec1 = dd_closed dec" "dd_fenced dec1 = dd_fenced dec"
    "bm_duration_ticks (ev_metrics (dt_episode d1)) = forward_gap (episode_onset d) now" "dt_policy d1 = dt_policy d"
    using update_parts [of now m d dec] update_flags [of now m d dec] update_duration [OF n, of now m dec] n
    by (simp_all add: q episode_onset_def)
  have o2: "has_open_episode d2" "dd_opened dec2 = dd_opened dec" "dd_closed dec2 = dd_closed dec" "dd_fenced dec2 = dd_fenced dec"
    "bm_duration_ticks (ev_metrics (dt_episode d2)) = forward_gap (episode_onset d) now" "dt_policy d2 = dt_policy d"
    using update_parts [of now m e "dd_reason RcEpisodeMerged 0 0 now dec"] e n
      update_flags [of now m e "dd_reason RcEpisodeMerged 0 0 now dec"]
      update_duration [OF e(1), of now m "dd_reason RcEpisodeMerged 0 0 now dec"]
    by (simp_all add: r episode_onset_def)
  have o3: "\<not> has_open_episode d3" "dd_closed dec3" "\<not> dd_fenced dec3" "dd_close_reason dec3 = CrReleaseConfirmed"
    "dt_policy d3 = dt_policy d"
    using close_flags [of CrReleaseConfirmed now False d1 dec1] o1(6) by (simp_all add: c)
  have eq: "step_recovering now m deg d dec =
    (if dt_onset_run_active d then (d2, dec2\<lparr>dd_classification := positive_class deg\<rparr>)
     else if released now d then (d3, dec3\<lparr>dd_classification := ClQuiescent\<rparr>)
     else (d1, dec1\<lparr>dd_classification := ClRecovering\<rparr>))"
    using assms(1) by (simp add: step_recovering_def released_def q r [unfolded e_def] c Let_def)
  have x: "dt_onset_run_active d \<Longrightarrow> \<not> released now d" by (simp add: released_def)
  show ?thesis unfolding eq using o1 o2 o3 n x assms(2) by (auto simp: switched_def quiet_decision_def)
qed

lemma switched_state: "quiet_decision dec \<Longrightarrow> switched now d (step_state now m deg d dec)"
  by (cases "dt_state d") (simp_all add: step_state_def switched_idle switched_active switched_recovering)

text \<open>The switch and the ceiling together.\<close>

lemma admissible_closing:
  fixes now m deg d dec
  assumes "quiet_decision dec"
  defines "out \<equiv> (let (d1, dec1) = step_state now m deg d dec in step_timeout now d1 dec1)"
  shows "dd_closed (snd out) \<longleftrightarrow> (has_open_episode d \<or> dd_opened (snd out)) \<and>
      (released now d \<or> dp_max_episode_ticks (po_detection (dt_policy d)) \<le> forward_gap (episode_onset d) now)"
    "dd_closed (snd out) \<Longrightarrow> dd_close_reason (snd out) = (if released now d then CrReleaseConfirmed else CrEpisodeTimeout)"
    "\<not> dd_fenced (snd out)"
    "has_open_episode (fst out) \<longleftrightarrow> (has_open_episode d \<or> dd_opened (snd out)) \<and> \<not> dd_closed (snd out)"
proof -
  obtain d1 dec1 where q: "step_state now m deg d dec = (d1, dec1)" by fastforce
  note s = switched_state [OF assms(1), of now d m deg, unfolded q switched_def fst_conv snd_conv]
  have r: "released now d \<Longrightarrow> has_open_episode d" by (simp add: released_def has_open_episode_def)
  have c: "dd_opened (snd (close_episode r now f e dec)) = dd_opened dec" for r f e dec
    by (simp add: close_episode_def Let_def)
  have out: "out = (if has_open_episode d1 \<and>
        dp_max_episode_ticks (po_detection (dt_policy d)) \<le> forward_gap (episode_onset d) now
      then (fst (close_episode CrEpisodeTimeout now False d1 (dd_reason RcEpisodeTimedOut
             (bm_duration_ticks (ev_metrics (dt_episode d1))) (dp_max_episode_ticks (po_detection (dt_policy d))) now dec1)),
            (snd (close_episode CrEpisodeTimeout now False d1 (dd_reason RcEpisodeTimedOut
             (bm_duration_ticks (ev_metrics (dt_episode d1))) (dp_max_episode_ticks (po_detection (dt_policy d))) now dec1)))
              \<lparr>dd_classification := ClQuiescent\<rparr>)
      else (d1, dec1))"
    using s by (auto simp: out_def q step_timeout_def case_prod_beta Let_def)
  show "dd_closed (snd out) \<longleftrightarrow> (has_open_episode d \<or> dd_opened (snd out)) \<and>
      (released now d \<or> dp_max_episode_ticks (po_detection (dt_policy d)) \<le> forward_gap (episode_onset d) now)"
    "dd_closed (snd out) \<Longrightarrow> dd_close_reason (snd out) = (if released now d then CrReleaseConfirmed else CrEpisodeTimeout)"
    "\<not> dd_fenced (snd out)"
    "has_open_episode (fst out) \<longleftrightarrow> (has_open_episode d \<or> dd_opened (snd out)) \<and> \<not> dd_closed (snd out)"
    unfolding out using s r by (auto simp: c)
qed

text \<open>The branch for evidence that is not admissible.\<close>

definition held_ticks :: "tick \<Rightarrow> detector \<Rightarrow> u64" where
  "held_ticks now d =
     (let p = po_detection (dt_policy d); staleness = staleness_ticks now (dt_window d)
      in max (if dt_inadmissible_since_set d then forward_gap (dt_inadmissible_since d) now else 0)
           (if staleness > dp_staleness_limit_ticks p then staleness - dp_staleness_limit_ticks p else 0))"

lemma forward_gap_self [simp]: "forward_gap t t = 0"
  by (simp add: forward_gap_def tick_delta_def)

lemma hold_open [simp]:
  "has_open_episode (d\<lparr>dt_inadmissible_since_set := a, dt_inadmissible_since := b\<rparr>) = has_open_episode d"
  by (simp add: has_open_episode_def)

lemma inadmissible_closing:
  assumes "quiet_decision dec" "dd_staleness_ticks dec = staleness_ticks now (dt_window d)"
  shows "dd_closed (snd (evaluate_inadmissible now g d dec)) \<longleftrightarrow>
      has_open_episode d \<and> dp_evidence_grace_ticks (po_detection (dt_policy d)) < held_ticks now d"
    "dd_fenced (snd (evaluate_inadmissible now g d dec)) = dd_closed (snd (evaluate_inadmissible now g d dec))"
    "dd_closed (snd (evaluate_inadmissible now g d dec)) \<Longrightarrow> dd_close_reason (snd (evaluate_inadmissible now g d dec)) =
       (if gt_fresh g \<and> \<not> gt_stable g then CrCapacityChanged else CrEvidenceStale)"
    "has_open_episode (fst (evaluate_inadmissible now g d dec)) \<longleftrightarrow>
       (has_open_episode d \<or> dd_opened (snd (evaluate_inadmissible now g d dec))) \<and>
       \<not> dd_closed (snd (evaluate_inadmissible now g d dec))"
  using assms
  by (auto simp: evaluate_inadmissible_def quiet_decision_def held_ticks_def less_max_iff_disj case_prod_beta not_le Let_def
      split: if_splits)

text \<open>What the rules on the onset leave alone, and the start of the run an episode is opened on.\<close>

lemma ruled_kept [simp]:
  "dt_state (ruled now d) = dt_state d" "dt_recovery_start_tick (ruled now d) = dt_recovery_start_tick d"
  "dt_episode (ruled now d) = dt_episode d" "dt_policy (ruled now d) = dt_policy d"
  "dt_onset_run_active (ruled now d) \<longleftrightarrow>
     dp_onset_min_depth (po_detection (dt_policy d)) \<le> wm_latest_depth (metrics (po_detection (dt_policy d)) (dt_window d))"
  by (simp_all add: ruled_def onset_update_def release_update_def Let_def)

lemma ruled_start: "dt_onset_run_active d \<Longrightarrow> dt_onset_start_tick (ruled now d) = dt_onset_start_tick d"
  by (simp add: ruled_def onset_update_def release_update_def Let_def)

text \<open>When a fresh evaluation closes the episode, and why.\<close>

lemma closing_iff:
  fixes now d
  assumes "fresh_tick now d" "evaluate now d = (dec, d')"
  defines "adm \<equiv> gt_authoritative (gates_at now d) \<or> gt_degraded_allowed (gates_at now d)"
    and "p \<equiv> po_detection (dt_policy d)"
  shows "dd_closed dec \<longleftrightarrow>
      (if adm then (has_open_episode d \<or> dd_opened dec) \<and>
         (released now (ruled now d) \<or> dp_max_episode_ticks p \<le> forward_gap (episode_onset (ruled now d)) now)
       else has_open_episode d \<and> dp_evidence_grace_ticks p < held_ticks now d)"
    "dd_fenced dec \<longleftrightarrow> dd_closed dec \<and> \<not> adm"
    "dd_closed dec \<Longrightarrow> dd_close_reason dec =
      (if adm then if released now (ruled now d) then CrReleaseConfirmed else CrEpisodeTimeout
       else if gt_fresh (gates_at now d) \<and> \<not> gt_stable (gates_at now d) then CrCapacityChanged else CrEvidenceStale)"
    "has_open_episode d' \<longleftrightarrow> (has_open_episode d \<or> dd_opened dec) \<and> \<not> dd_closed dec"
proof -
  obtain d1 dec1 where g: "gated now d = (d1, dec1)" by (cases "gated now d")
  have d1: "d1 = d\<lparr>dt_last_evaluated := now, dt_has_evaluated := True\<rparr>"
    "dec1 = explain_evidence p (metrics p (dt_window d)) (dt_window d) (gates_at now d) now
       (initial_decision now (metrics p (dt_window d)) d1)"
    using g by (auto simp: gated_def p_def Let_def)
  have v: "same_verdict dec1 (initial_decision now (metrics p (dt_window d)) d1)"
    unfolding d1(2) by (rule explain_evidence_frame)
  then have q1: "quiet_decision dec1" "dd_staleness_ticks dec1 = staleness_ticks now (dt_window d1)"
    by (simp_all add: same_verdict_def quiet_decision_def initial_decision_def identity_decision_def decision_default_def)
  define m where "m = metrics p (dt_window d)"
  define deg where "deg = gt_degraded_allowed (gates_at now d)"
  define gap where "gap = (if dt_has_evaluated d then forward_gap (dt_last_evaluated d) now else 0)"
  define out where "out = (if adm then evaluate_admissible now gap m deg d1 dec1
      else evaluate_inadmissible now (gates_at now d) d1 dec1)"
  have f: "evaluate now d = (case evaluate_fresh now d of (d, dec) \<Rightarrow> (dec, d))"
    using assms(1) by (auto simp: evaluate_def fresh_tick_def)
  have "evaluate_fresh now d = (fst out\<lparr>dt_last_decision := snd out\<rparr>, snd out)"
    by (auto simp: evaluate_fresh_eq g Let_def m_def gap_def adm_def p_def deg_def out_def case_prod_beta)
  then have e: "dec = snd out" "has_open_episode d' = has_open_episode (fst out)"
    using assms(2) unfolding f by (auto simp: has_open_episode_def)
  have same: "has_open_episode d1 = has_open_episode d" "held_ticks now d1 = held_ticks now d" "dt_policy d1 = dt_policy d"
    by (simp_all add: d1(1) has_open_episode_def held_ticks_def)
  define dec2 where "dec2 = explain_rules now m (ruled now d) (dec1\<lparr>dd_authority := (if deg then EvDegraded else EvAuthoritative)\<rparr>)"
  have "release_update gap m (onset_update now gap m (d1\<lparr>dt_inadmissible_since_set := False\<rparr>)) = ruled now d"
    by (simp add: ruled_def m_def gap_def p_def d1(1) Let_def)
  then have a: "(let (x, y) = step_state now m deg (ruled now d) dec2 in step_timeout now x y) =
      evaluate_admissible now gap m deg d1 dec1"
    by (simp add: evaluate_admissible_def dec2_def deg_def Let_def)
  have "same_verdict dec2 (dec1\<lparr>dd_authority := (if deg then EvDegraded else EvAuthoritative)\<rparr>)"
    unfolding dec2_def by (rule explain_rules_frame)
  then have q2: "quiet_decision dec2" using q1(1) by (simp add: same_verdict_def quiet_decision_def)
  note adm = admissible_closing [OF q2, of now m deg "ruled now d", unfolded a ruled_open ruled_kept(4), folded p_def]
  note inadm = inadmissible_closing [OF q1, of "gates_at now d", unfolded same, folded p_def]
  show "dd_closed dec \<longleftrightarrow>
      (if adm then (has_open_episode d \<or> dd_opened dec) \<and>
         (released now (ruled now d) \<or> dp_max_episode_ticks p \<le> forward_gap (episode_onset (ruled now d)) now)
       else has_open_episode d \<and> dp_evidence_grace_ticks p < held_ticks now d)"
    using adm(1) inadm(1) by (cases adm) (simp_all add: e out_def)
  show "dd_fenced dec \<longleftrightarrow> dd_closed dec \<and> \<not> adm" "has_open_episode d' \<longleftrightarrow> (has_open_episode d \<or> dd_opened dec) \<and> \<not> dd_closed dec"
    using adm(3,4) inadm(2,4) by (cases adm; simp add: e out_def)+
  show "dd_close_reason dec =
      (if adm then if released now (ruled now d) then CrReleaseConfirmed else CrEpisodeTimeout
       else if gt_fresh (gates_at now d) \<and> \<not> gt_stable (gates_at now d) then CrCapacityChanged else CrEvidenceStale)"
    if "dd_closed dec" using adm(2) inadm(3) that by (cases adm) (simp_all add: e out_def)
qed

text \<open>The same in the fields of the detector.\<close>

lemma closing_conditions:
  fixes now d
  assumes "fresh_tick now d" "evaluate now d = (dec, d')" "policy_in_force (dt_policy d)"
  defines "p \<equiv> po_detection (dt_policy d)"
  shows "released now (ruled now d) \<longleftrightarrow> dt_state d = DsRecovering \<and>
      wm_latest_depth (metrics p (dt_window d)) < dp_onset_min_depth p \<and>
      dp_cooldown_ticks p \<le> forward_gap (dt_recovery_start_tick d) now"
    "has_open_episode d \<or> dd_opened dec \<Longrightarrow> episode_onset (ruled now d) =
      (if has_open_episode d then bm_onset_tick (ev_metrics (dt_episode d)) else dt_onset_start_tick d)"
proof -
  show "released now (ruled now d) \<longleftrightarrow> dt_state d = DsRecovering \<and>
      wm_latest_depth (metrics p (dt_window d)) < dp_onset_min_depth p \<and>
      dp_cooldown_ticks p \<le> forward_gap (dt_recovery_start_tick d) now"
    by (simp add: released_def p_def not_le)
  assume o: "has_open_episode d \<or> dd_opened dec"
  show "episode_onset (ruled now d) =
      (if has_open_episode d then bm_onset_tick (ev_metrics (dt_episode d)) else dt_onset_start_tick d)"
    using o opening_needs_onset(2) [OF assms(1,2)] ruled_confirmed_iff [OF assms(3), of now] ruled_start
    by (auto simp: episode_onset_def)
qed

end
