(* ===== verification/Fence.thy ===== *)
theory Fence
  imports Checked
begin

text \<open>
  Authority identity (\<open>include/mbg/authority/fence.hpp\<close>, \<open>src/authority/fence.cpp\<close>): the
  validation of an identity claim against the current authority and the derivation of the
  authority of a new incarnation.
\<close>

record authority_state =
  as_epoch :: u32
  as_incarnation :: u64
  as_boot :: u64

definition authority_state_default :: authority_state where
  "authority_state_default = \<lparr>as_epoch = id_invalid, as_incarnation = id_invalid, as_boot = id_invalid\<rparr>"

definition authority_valid :: "authority_state \<Rightarrow> bool" where
  "authority_valid a \<longleftrightarrow> id_valid (as_epoch a) \<and> as_epoch a \<noteq> 0 \<and> id_valid (as_incarnation a) \<and> id_valid (as_boot a)"

datatype claim_verdict = CvAccepted | CvVersionMismatch | CvEpochMismatch | CvBootMismatch | CvNotBound | CvMalformed

primrec claim_verdict_raw :: "claim_verdict \<Rightarrow> u8" where
  "claim_verdict_raw CvAccepted = 0"
| "claim_verdict_raw CvVersionMismatch = 1"
| "claim_verdict_raw CvEpochMismatch = 2"
| "claim_verdict_raw CvBootMismatch = 3"
| "claim_verdict_raw CvNotBound = 4"
| "claim_verdict_raw CvMalformed = 5"

primrec claim_verdict_to_string :: "claim_verdict \<Rightarrow> string" where
  "claim_verdict_to_string CvAccepted = ''accepted''"
| "claim_verdict_to_string CvVersionMismatch = ''version-mismatch''"
| "claim_verdict_to_string CvEpochMismatch = ''epoch-mismatch''"
| "claim_verdict_to_string CvBootMismatch = ''boot-mismatch''"
| "claim_verdict_to_string CvNotBound = ''not-bound''"
| "claim_verdict_to_string CvMalformed = ''malformed''"

definition validate_claim :: "authority_state \<Rightarrow> authority_state \<Rightarrow> u16 \<Rightarrow> u16 \<Rightarrow> claim_verdict" where
  "validate_claim current claim claimed_protocol expected_protocol =
     (if \<not> authority_valid current then CvNotBound
      else if claimed_protocol \<noteq> expected_protocol then CvVersionMismatch
      else if \<not> id_valid (as_epoch claim) \<or> as_epoch claim = 0 then CvMalformed
      else if as_epoch claim \<noteq> as_epoch current then CvEpochMismatch
      else if as_boot claim \<noteq> as_boot current then CvBootMismatch
      else CvAccepted)"

definition advance_authority :: "authority_state \<Rightarrow> authority_state result" where
  "advance_authority previous =
     (case add_checked_u (as_epoch previous) 1 of
        None \<Rightarrow> Inl (failure StOverflow ''authority epoch is exhausted'')
      | Some epoch \<Rightarrow>
          (case add_checked_u (as_boot previous) 1 of
             None \<Rightarrow> Inl (failure StOverflow ''boot generation is exhausted'')
           | Some boot \<Rightarrow> Inr (previous\<lparr>as_epoch := epoch, as_boot := boot\<rparr>)))"

section \<open>Laws\<close>

lemma validate_claim_accepted_iff:
  "validate_claim current claim cp ep = CvAccepted \<longleftrightarrow>
     authority_valid current \<and> cp = ep \<and> as_epoch claim = as_epoch current \<and> as_boot claim = as_boot current"
  by (auto simp: validate_claim_def authority_valid_def)

lemma advance_authority_Inr:
  assumes "advance_authority a = Inr b"
  shows "unat (as_epoch b) = Suc (unat (as_epoch a))" "unat (as_boot b) = Suc (unat (as_boot a))"
    "as_incarnation b = as_incarnation a"
  using assms by (auto simp: advance_authority_def add_checked_u_exact unat_add_no_wrap split: option.splits if_splits)

text \<open>
  A claim of an earlier incarnation of the authority is never accepted again, however many
  restarts lie between.
\<close>

fun restarts :: "nat \<Rightarrow> authority_state \<Rightarrow> authority_state option" where
  "restarts 0 a = Some a"
| "restarts (Suc n) a = (case advance_authority a of Inl _ \<Rightarrow> None | Inr b \<Rightarrow> restarts n b)"

lemma restarts_epoch: "restarts n a = Some b \<Longrightarrow> unat (as_epoch b) = unat (as_epoch a) + n"
proof (induction n arbitrary: a)
  case (Suc n)
  then show ?case by (auto split: sum.splits dest!: advance_authority_Inr(1))
qed simp

end
