(* ===== verification/Snapshots.thy ===== *)
theory Snapshots
  imports Policies Events Interventions
begin

text \<open>
  The durable image of the governor (\<open>src/persist/snapshot.cpp\<close>,
  \<open>include/mbg/persist/snapshot.hpp\<close>): the policy set, the event history, the
  interventions and the counters, with the codec that stores and reads them. A state that
  the encoder can write is read back unchanged, the policy set included with its index and digest.
\<close>

section \<open>Recovery vocabulary\<close>

datatype recovered_category =
    RvDurableConfiguration | RvCommittedHistory | RvUnfinishedAttempt | RvAmbiguousOutcome
  | RvStaleLiveAuthority | RvEvidenceRequiringRevalidation

primrec category_to_string :: "recovered_category \<Rightarrow> string" where
  "category_to_string RvDurableConfiguration = ''durable-configuration''"
| "category_to_string RvCommittedHistory = ''committed-history''"
| "category_to_string RvUnfinishedAttempt = ''unfinished-attempt''"
| "category_to_string RvAmbiguousOutcome = ''ambiguous-outcome''"
| "category_to_string RvStaleLiveAuthority = ''stale-live-authority''"
| "category_to_string RvEvidenceRequiringRevalidation = ''evidence-requiring-revalidation''"

record restore_report =
  rr_snapshot_present :: bool
  rr_records_applied :: u64
  rr_configuration_items :: u64
  rr_history_items :: u64
  rr_unfinished_attempts :: u64
  rr_ambiguous_outcomes :: u64
  rr_stale_authority_items :: u64
  rr_evidence_requiring_revalidation :: u64
  rr_recovery_outcome :: string
  rr_detail :: string

definition restore_report_default :: restore_report where
  "restore_report_default = \<lparr>rr_snapshot_present = False, rr_records_applied = 0,
     rr_configuration_items = 0, rr_history_items = 0, rr_unfinished_attempts = 0,
     rr_ambiguous_outcomes = 0, rr_stale_authority_items = 0,
     rr_evidence_requiring_revalidation = 0, rr_recovery_outcome = '''', rr_detail = ''''\<rparr>"

primrec report_count :: "restore_report \<Rightarrow> recovered_category \<Rightarrow> u64" where
  "report_count r RvDurableConfiguration = rr_configuration_items r"
| "report_count r RvCommittedHistory = rr_history_items r"
| "report_count r RvUnfinishedAttempt = rr_unfinished_attempts r"
| "report_count r RvAmbiguousOutcome = rr_ambiguous_outcomes r"
| "report_count r RvStaleLiveAuthority = rr_stale_authority_items r"
| "report_count r RvEvidenceRequiringRevalidation = rr_evidence_requiring_revalidation r"

section \<open>The persisted state\<close>

record persisted_state =
  pd_boot :: u64
  pd_epoch :: u32
  pd_incarnation :: u64
  pd_policies :: policy_set
  pd_events :: "burst_event list"
  pd_interventions :: "intervention_intent list"
  pd_last_decision_seq :: u64
  pd_last_record_seq :: u64
  pd_last_tick :: u64
  pd_decisions :: u64
  pd_episodes_opened :: u64
  pd_episodes_closed :: u64
  pd_episodes_fenced :: u64
  pd_interventions_requested :: u64
  pd_interventions_revoked :: u64

definition persisted_state_default :: persisted_state where
  "persisted_state_default = \<lparr>pd_boot = id_invalid, pd_epoch = id_invalid, pd_incarnation = id_invalid,
     pd_policies = policy_set_init, pd_events = [], pd_interventions = [],
     pd_last_decision_seq = id_invalid, pd_last_record_seq = id_invalid, pd_last_tick = 0,
     pd_decisions = 0, pd_episodes_opened = 0, pd_episodes_closed = 0, pd_episodes_fenced = 0,
     pd_interventions_requested = 0, pd_interventions_revoked = 0\<rparr>"

definition kPersistedMagic :: u32 where "kPersistedMagic = 0x4D424750"

section \<open>Codec\<close>

definition encode_override :: "policy_override \<Rightarrow> byte list" where
  "encode_override e = put_u64 (ov_resource e) @ encode_policy (ov_policy e)"

definition decode_override :: "reader \<Rightarrow> (policy_override \<times> reader) result" where
  "decode_override r =
     (let (resource, r) = get_u64 r
      in case decode_policy r of
           Inl e \<Rightarrow> Inl e
         | Inr (p, r) \<Rightarrow> Inr (\<lparr>ov_resource = resource, ov_policy = p\<rparr>, r))"

definition encode_policy_set :: "policy_set \<Rightarrow> byte list" where
  "encode_policy_set s = put_u32 (ps_generation s) @ encode_policy (ps_fallback s) @
     put_u32 (of_nat (length (ps_overrides s))) @ concat (map encode_override (ps_overrides s))"

definition decode_policy_set :: "reader \<Rightarrow> (policy_set \<times> reader) result" where
  "decode_policy_set r =
     (let (generation, r) = get_u32 r
      in case decode_policy r of
           Inl e \<Rightarrow> Inl e
         | Inr (fallback, r) \<Rightarrow>
             let (count, r) = get_u32 r
             in if \<not> rd_ok r then Inl (failure StTruncated ''policy set payload is truncated'')
                else if unat count > kMaxPolicyOverrides then
                  Inl (failure StOversized ''policy override count exceeds the bound'')
                else case decode_many decode_override (unat count) r of
                  Inl e \<Rightarrow> Inl e
                | Inr (overrides, r) \<Rightarrow>
                    (case policy_set_restore fallback overrides generation of
                       Inl e \<Rightarrow> Inl e
                     | Inr s \<Rightarrow> Inr (s, r)))"

definition encode_state :: "persisted_state \<Rightarrow> byte list" where
  "encode_state s =
     put_u32 kPersistedMagic @ put_u16 kStateFormatVersion @ put_u16 0 @
     put_u64 (pd_boot s) @ put_u32 (pd_epoch s) @ put_u64 (pd_incarnation s) @
     encode_policy_set (pd_policies s) @
     put_u32 (of_nat (length (pd_events s))) @ concat (map encode_event (pd_events s)) @
     put_u32 (of_nat (length (pd_interventions s))) @ concat (map encode_intent (pd_interventions s)) @
     put_u64 (pd_last_decision_seq s) @ put_u64 (pd_last_record_seq s) @ put_u64 (pd_last_tick s) @
     put_u64 (pd_decisions s) @ put_u64 (pd_episodes_opened s) @ put_u64 (pd_episodes_closed s) @
     put_u64 (pd_episodes_fenced s) @ put_u64 (pd_interventions_requested s) @
     put_u64 (pd_interventions_revoked s)"

text \<open>The last block of \<open>decode\<close>: the sequences and counters, then the end of the buffer.\<close>

definition decode_counters ::
  "(u64 \<Rightarrow> u64 \<Rightarrow> u64 \<Rightarrow> u64 \<Rightarrow> u64 \<Rightarrow> u64 \<Rightarrow> u64 \<Rightarrow> u64 \<Rightarrow> u64 \<Rightarrow> persisted_state) \<Rightarrow>
     reader \<Rightarrow> persisted_state result" where
  "decode_counters mk r =
     (let (decision_seq, r) = get_u64 r; (record_seq, r) = get_u64 r; (t, r) = get_u64 r;
          (decisions, r) = get_u64 r; (opened, r) = get_u64 r; (closed, r) = get_u64 r;
          (fenced, r) = get_u64 r; (requested, r) = get_u64 r; (revoked, r) = get_u64 r
      in if \<not> rd_ok r then Inl (failure StTruncated ''persisted state is truncated'')
         else if \<not> rd_at_end r then
           Inl (failure StCorrupt ''persisted state carries trailing bytes'')
         else Inr (mk decision_seq record_seq t decisions opened closed fenced requested revoked))"

definition decode_lists ::
  "(burst_event list \<Rightarrow> intervention_intent list \<Rightarrow> u64 \<Rightarrow> u64 \<Rightarrow> u64 \<Rightarrow> u64 \<Rightarrow> u64 \<Rightarrow> u64 \<Rightarrow> u64 \<Rightarrow>
      u64 \<Rightarrow> u64 \<Rightarrow> persisted_state) \<Rightarrow> reader \<Rightarrow> persisted_state result" where
  "decode_lists mk r =
     (let (event_count, r) = get_u32 r
      in if \<not> rd_ok r then Inl (failure StTruncated ''persisted state is truncated'')
         else if unat event_count > kMaxEventsPersisted then
           Inl (failure StOversized ''persisted event count exceeds the bound'')
         else case decode_many decode_event (unat event_count) r of
           Inl e \<Rightarrow> Inl e
         | Inr (events, r) \<Rightarrow>
             let (intent_count, r) = get_u32 r
             in if \<not> rd_ok r then Inl (failure StTruncated ''persisted state is truncated'')
                else if unat intent_count > kMaxInterventions then
                  Inl (failure StOversized ''persisted intervention count exceeds the bound'')
                else case decode_many decode_intent (unat intent_count) r of
                  Inl e \<Rightarrow> Inl e
                | Inr (intents, r) \<Rightarrow> decode_counters (mk events intents) r)"

definition decode_state :: "byte list \<Rightarrow> persisted_state result" where
  "decode_state bytes =
     (if length bytes > kMaxSnapshotBytes then
        Inl (failure StOversized ''persisted state exceeds the bound'')
      else let (magic, r) = get_u32 (reader_of bytes)
      in if magic \<noteq> kPersistedMagic then
        Inl (failure StCorrupt ''persisted state magic mismatch'')
      else let (version, r) = get_u16 r
      in if version \<noteq> kStateFormatVersion then
        Inl (failure StUnsupported ''persisted state version is not supported'')
      else let (_, r) = get_u16 r; (boot, r) = get_u64 r; (epoch, r) = get_u32 r; (inc, r) = get_u64 r
      in case decode_policy_set r of
           Inl e \<Rightarrow> Inl e
         | Inr (policies, r) \<Rightarrow>
             decode_lists (\<lambda>events intents decision_seq record_seq t decisions opened closed fenced
                 requested revoked. \<lparr>pd_boot = boot, pd_epoch = epoch, pd_incarnation = inc,
               pd_policies = policies, pd_events = events, pd_interventions = intents,
               pd_last_decision_seq = decision_seq, pd_last_record_seq = record_seq, pd_last_tick = t,
               pd_decisions = decisions, pd_episodes_opened = opened, pd_episodes_closed = closed,
               pd_episodes_fenced = fenced, pd_interventions_requested = requested,
               pd_interventions_revoked = revoked\<rparr>) r)"

section \<open>Laws\<close>

definition policy_set_wf :: "policy_set \<Rightarrow> bool" where
  "policy_set_wf s \<longleftrightarrow> ps_inv s \<and> policy_wf (ps_fallback s) \<and>
     list_all (\<lambda>e. policy_wf (ov_policy e)) (ps_overrides s)"

interpretation override_codec: decoder encode_override decode_override "\<lambda>e. policy_wf (ov_policy e)"
  by unfold_locales
    (simp add: encode_override_def decode_override_def codec policy_codec.dec_enc case_prod_beta)

lemma restore_overrides_all:
  assumes "list_all (\<lambda>e. id_valid (ov_resource e) \<and> is_ok (validate_policy (ov_policy e))) es"
    "distinct (map ov_resource (done @ es))"
  shows "restore_overrides es done (\<lambda>r. position r done) = Inr (done @ es, \<lambda>r. position r (done @ es))"
  using assms
proof (induction es arbitrary: "done")
  case (Cons e es)
  then have "position (ov_resource e) done = None" by (auto simp: position_None)
  with Cons emplace_position [OF this] show ?case by (simp add: Let_def)
qed simp

lemma policy_set_restore_inv:
  assumes "ps_inv s"
  shows "policy_set_restore (ps_fallback s) (ps_overrides s) (ps_generation s) = Inr s"
proof -
  have "restore_overrides (ps_overrides s) [] Map.empty = Inr (ps_overrides s, ps_index s)"
    using assms restore_overrides_all [of "ps_overrides s" "[]"] by (simp add: ps_inv_def)
  then show ?thesis using assms
    by (simp add: policy_set_restore_def ps_inv_def recompute_digest_def policy_set_init_def Let_def)
qed

lemma unat_count [simp]: "n < 2 ^ 32 \<Longrightarrow> unat (of_nat n :: u32) = n"
  by (simp add: unat_of_nat take_bit_nat_eq_self)

interpretation policy_set_codec: decoder encode_policy_set decode_policy_set policy_set_wf
proof unfold_locales
  fix s pre rest
  assume w: "policy_set_wf s"
  have n: "length (ps_overrides s) \<le> kMaxPolicyOverrides" "length (ps_overrides s) < 2 ^ 32"
    using w by (auto simp: policy_set_wf_def ps_inv_def kMaxPolicyOverrides_def)
  have many: "decode_many decode_override (length (ps_overrides s))
      (rd_at q (concat (map encode_override (ps_overrides s)) @ rest)) =
    Inr (ps_overrides s, rd_at (q @ concat (map encode_override (ps_overrides s))) rest)" for q
    by (rule override_codec.decode_many_enc) (use w in \<open>auto simp: policy_set_wf_def list_all_iff\<close>)
  show "decode_policy_set (rd_at pre (encode_policy_set s @ rest)) =
      Inr (s, rd_at (pre @ encode_policy_set s) rest)"
    using w n many
    by (simp add: decode_policy_set_def encode_policy_set_def codec policy_codec.dec_enc
        policy_set_wf_def policy_set_restore_inv)
qed

definition state_wf :: "persisted_state \<Rightarrow> bool" where
  "state_wf s \<longleftrightarrow> policy_set_wf (pd_policies s) \<and> list_all event_wf (pd_events s) \<and>
     length (pd_events s) \<le> kMaxEventsPersisted \<and> list_all intent_wf (pd_interventions s) \<and>
     length (pd_interventions s) \<le> kMaxInterventions"

lemma decode_counters_at:
  "decode_counters mk (rd_at pre (put_u64 a @ put_u64 b @ put_u64 c @ put_u64 d @ put_u64 e @
      put_u64 f @ put_u64 g @ put_u64 h @ put_u64 i)) = Inr (mk a b c d e f g h i)"
  by (simp add: decode_counters_def codec)

lemma decode_lists_at:
  assumes "list_all event_wf es" "length es \<le> kMaxEventsPersisted"
    "list_all intent_wf ns" "length ns \<le> kMaxInterventions"
  shows "decode_lists mk (rd_at pre (put_u32 (of_nat (length es)) @ concat (map encode_event es) @
      put_u32 (of_nat (length ns)) @ concat (map encode_intent ns) @ rest)) =
    decode_counters (mk es ns) (rd_at (pre @ put_u32 (of_nat (length es)) @ concat (map encode_event es) @
      put_u32 (of_nat (length ns)) @ concat (map encode_intent ns)) rest)"
proof -
  have "length es < 2 ^ 32" "length ns < 2 ^ 32"
    using assms(2,4) by (simp_all add: kMaxEventsPersisted_def kMaxInterventions_def)
  moreover have "\<And>e. e \<in> set es \<Longrightarrow> event_wf e" "\<And>i. i \<in> set ns \<Longrightarrow> intent_wf i"
    using assms(1,3) by (simp_all add: list_all_iff)
  ultimately show ?thesis using assms(2,4)
    by (simp add: decode_lists_def codec event_codec.decode_many_enc intent_codec.decode_many_enc)
qed

lemma decode_encode_state:
  assumes "state_wf s" "length (encode_state s) \<le> kMaxSnapshotBytes"
  shows "decode_state (encode_state s) = Inr s"
proof -
  have n: "\<not> length (encode_state s) > kMaxSnapshotBytes" using assms(2) by simp
  show ?thesis
    using assms(1) n unfolding decode_state_def reader_of_rd_at encode_state_def state_wf_def
    by (simp add: codec policy_set_codec.dec_enc decode_lists_at decode_counters_at)
qed

end
