(* ===== verification/Journal.thy ===== *)
theory Journal
  imports Crc32c Bytes Checked
begin

text \<open>
  The durable store (\<open>src/persist/journal.cpp\<close>, \<open>include/mbg/persist/journal.hpp\<close>): an
  append-only journal of framed records and an atomically replaced snapshot.

  The two files are byte lists that may be absent, each with the number of leading bytes that an
  \<open>fsync\<close> has put on the disk, which is what a loss of power leaves at the least. What the operating system may refuse is an
  \<open>io\<close> record that every operation takes: each flag says whether one kind of call succeeds, and
  \<open>io_reached\<close> how many bytes of a refused write reached the file. The mutex has no
  counterpart: each operation is one step.
\<close>

section \<open>Data\<close>

datatype record_type =
    RtUnknown | RtAuthorityBound | RtPolicyInstalled | RtEpisodeOpened | RtEpisodeUpdated
  | RtEpisodeClosed | RtEpisodeFenced | RtInterventionRequested | RtInterventionStateChanged
  | RtCheckpoint

primrec record_type_raw :: "record_type \<Rightarrow> u16" where
  "record_type_raw RtUnknown = 0"
| "record_type_raw RtAuthorityBound = 1"
| "record_type_raw RtPolicyInstalled = 2"
| "record_type_raw RtEpisodeOpened = 3"
| "record_type_raw RtEpisodeUpdated = 4"
| "record_type_raw RtEpisodeClosed = 5"
| "record_type_raw RtEpisodeFenced = 6"
| "record_type_raw RtInterventionRequested = 7"
| "record_type_raw RtInterventionStateChanged = 8"
| "record_type_raw RtCheckpoint = 9"

definition record_type_of_raw :: "u16 \<Rightarrow> record_type" where
  "record_type_of_raw v =
     (if v = 1 then RtAuthorityBound else if v = 2 then RtPolicyInstalled
      else if v = 3 then RtEpisodeOpened else if v = 4 then RtEpisodeUpdated
      else if v = 5 then RtEpisodeClosed else if v = 6 then RtEpisodeFenced
      else if v = 7 then RtInterventionRequested else if v = 8 then RtInterventionStateChanged
      else if v = 9 then RtCheckpoint else RtUnknown)"

primrec record_type_to_string :: "record_type \<Rightarrow> string" where
  "record_type_to_string RtUnknown = ''unknown''"
| "record_type_to_string RtAuthorityBound = ''authority-bound''"
| "record_type_to_string RtPolicyInstalled = ''policy-installed''"
| "record_type_to_string RtEpisodeOpened = ''episode-opened''"
| "record_type_to_string RtEpisodeUpdated = ''episode-updated''"
| "record_type_to_string RtEpisodeClosed = ''episode-closed''"
| "record_type_to_string RtEpisodeFenced = ''episode-fenced''"
| "record_type_to_string RtInterventionRequested = ''intervention-requested''"
| "record_type_to_string RtInterventionStateChanged = ''intervention-state-changed''"
| "record_type_to_string RtCheckpoint = ''checkpoint''"

definition is_valid_record_type :: "u16 \<Rightarrow> bool" where
  "is_valid_record_type raw \<longleftrightarrow> raw \<ge> 1 \<and> raw \<le> 9"

datatype recovery_outcome = RoClean | RoTruncatedTail | RoCorruptTail | RoMissing | RoVersionMismatch | RoOversized

primrec outcome_to_string :: "recovery_outcome \<Rightarrow> string" where
  "outcome_to_string RoClean = ''clean''"
| "outcome_to_string RoTruncatedTail = ''truncated-tail''"
| "outcome_to_string RoCorruptTail = ''corrupt-tail''"
| "outcome_to_string RoMissing = ''missing''"
| "outcome_to_string RoVersionMismatch = ''version-mismatch''"
| "outcome_to_string RoOversized = ''oversized''"

record recovery_report =
  rp_outcome :: recovery_outcome
  rp_format_version :: u16
  rp_records_replayed :: u64
  rp_bytes_valid :: nat
  rp_bytes_discarded :: nat
  rp_snapshot_covered_seq :: u64
  rp_snapshot_present :: bool
  rp_detail :: string

definition recovery_report_default :: recovery_report where
  "recovery_report_default = \<lparr>rp_outcome = RoMissing, rp_format_version = 0, rp_records_replayed = 0,
     rp_bytes_valid = 0, rp_bytes_discarded = 0, rp_snapshot_covered_seq = 0,
     rp_snapshot_present = False, rp_detail = ''''\<rparr>"

record journaled_record =
  jr_type :: record_type
  jr_seq :: u64
  jr_tick :: u64
  jr_payload :: "byte list"

record store_config =
  sc_directory :: string
  sc_max_journal_bytes :: u64
  sc_fsync_on_append :: bool

text \<open>
  The members of the object, the two files as a reader sees them, and of each how many leading bytes an
  \<open>fsync\<close> has put on the disk.
\<close>

record store =
  ds_config :: store_config
  ds_open :: bool
  ds_journal_bytes :: u64
  ds_records_appended :: u64
  ds_syncs :: u64
  ds_compaction_required :: bool
  ds_last_sequence :: u64
  ds_journal :: "byte list option"
  ds_journal_synced :: nat
  ds_snapshot :: "byte list option"
  ds_snapshot_synced :: nat

record io =
  io_create :: bool
  io_open :: bool
  io_seek :: bool
  io_write :: bool
  io_flush :: bool
  io_sync :: bool
  io_rename :: bool
  io_truncate :: bool
  io_reopen :: bool
  io_read :: bool
  io_reached :: nat

definition io_fine :: io where
  "io_fine = \<lparr>io_create = True, io_open = True, io_seek = True, io_write = True, io_flush = True,
     io_sync = True, io_rename = True, io_truncate = True, io_reopen = True, io_read = True,
     io_reached = 0\<rparr>"

lemma io_fine_simps [simp]:
  "io_create io_fine" "io_open io_fine" "io_seek io_fine" "io_write io_fine" "io_flush io_fine"
  "io_sync io_fine" "io_rename io_fine" "io_truncate io_fine" "io_reopen io_fine" "io_read io_fine"
  by (simp_all add: io_fine_def)

section \<open>Framing\<close>

definition kRecordHeaderBytes :: nat where "kRecordHeaderBytes = 44"
definition kSnapshotHeaderBytes :: nat where "kSnapshotHeaderBytes = 40"
definition kSnapshotTrailerBytes :: nat where "kSnapshotTrailerBytes = 4"
definition kRecordHeaderCrcCoverage :: nat where "kRecordHeaderCrcCoverage = 36"
definition kSnapshotHeaderCrcCoverage :: nat where "kSnapshotHeaderCrcCoverage = 32"

lemmas framing_defs = kRecordHeaderBytes_def kSnapshotHeaderBytes_def kSnapshotTrailerBytes_def
  kRecordHeaderCrcCoverage_def kSnapshotHeaderCrcCoverage_def

text \<open>The bytes of \<open>MBGJRNL1\<close> and \<open>MBGSNAP1\<close>.\<close>

definition record_magic :: "byte list" where
  "record_magic = [0x4D, 0x42, 0x47, 0x4A, 0x52, 0x4E, 0x4C, 0x31]"

definition snapshot_magic :: "byte list" where
  "snapshot_magic = [0x4D, 0x42, 0x47, 0x53, 0x4E, 0x41, 0x50, 0x31]"

definition build_record :: "record_type \<Rightarrow> u64 \<Rightarrow> u64 \<Rightarrow> byte list \<Rightarrow> byte list" where
  "build_record t seq now payload =
     (let out = put_raw record_magic @ put_u16 kStateFormatVersion @ put_u16 (record_type_raw t) @
            put_u32 0 @ put_u64 seq @ put_u64 now @ put_u32 (of_nat (length payload))
      in out @ put_u32 (crc_compute out) @ put_u32 (crc_compute payload) @ put_raw payload)"

definition build_snapshot :: "byte list \<Rightarrow> u64 \<Rightarrow> u64 \<Rightarrow> byte list" where
  "build_snapshot payload covered_seq now =
     (let out = put_raw snapshot_magic @ put_u16 kStateFormatVersion @ put_u16 0 @
            put_u32 (of_nat (length payload)) @ put_u64 covered_seq @ put_u64 now;
          out = out @ put_u32 (crc_compute out) @ put_u32 (crc_compute payload) @ put_raw payload
      in out @ put_u32 (crc_compute out))"

section \<open>The store\<close>

text \<open>The status, and how many bytes of the file of this length are on the disk afterwards.\<close>

definition flush_handle :: "io \<Rightarrow> bool \<Rightarrow> bool \<Rightarrow> nat \<Rightarrow> nat \<Rightarrow> status \<times> nat" where
  "flush_handle i handle sync len synced =
     (if \<not> handle then (failure StIo ''durable store handle is not open'', synced)
      else if \<not> io_flush i then (failure StIo ''failed to flush durable store'', synced)
      else if \<not> sync then (status_ok, synced)
      else if \<not> io_sync i then (failure StIo ''failed to fsync durable store to disk'', synced)
      else (status_ok, len))"

definition file_length :: "byte list option \<Rightarrow> nat" where
  "file_length file = (case file of None \<Rightarrow> 0 | Some b \<Rightarrow> length b)"

lemma file_length_simps [simp]: "file_length None = 0" "file_length (Some b) = length b"
  by (simp_all add: file_length_def)

definition read_file :: "io \<Rightarrow> nat \<Rightarrow> byte list option \<Rightarrow> (byte list option) result" where
  "read_file i maximum file =
     (case file of
        None \<Rightarrow> Inr None
      | Some bytes \<Rightarrow>
          if length bytes > maximum then
            Inl (failure StOversized ''durable store file exceeds the size bound'')
          else if \<not> io_read i then Inl (failure StIo ''durable store file cannot be opened'')
          else Inr (Some bytes))"

definition store_new :: store where
  "store_new = \<lparr>ds_config = \<lparr>sc_directory = '''', sc_max_journal_bytes = of_nat kMaxJournalBytes,
       sc_fsync_on_append = True\<rparr>,
     ds_open = False, ds_journal_bytes = 0, ds_records_appended = 0, ds_syncs = 0,
     ds_compaction_required = False, ds_last_sequence = id_invalid,
     ds_journal = None, ds_journal_synced = 0, ds_snapshot = None, ds_snapshot_synced = 0\<rparr>"

definition store_open :: "io \<Rightarrow> store_config \<Rightarrow> store \<Rightarrow> status \<times> store" where
  "store_open i cfg s =
     (if sc_directory cfg = [] then
        (failure StInvalidArgument ''durable store directory is empty'', s)
      else if sc_max_journal_bytes cfg = 0 \<or> sc_max_journal_bytes cfg > of_nat kMaxJournalBytes then
        (failure StOutOfRange ''journal size bound outside supported range'', s)
      else if ds_open s then (failure StConflict ''durable store is already open'', s)
      else if \<not> io_create i then
        (failure StIo ''durable store directory cannot be created'', s)
      else let s = s\<lparr>ds_config := cfg\<rparr> in
      if \<not> io_open i then (failure StIo ''journal cannot be opened for append'', s)
      else let s = s\<lparr>ds_journal := (case ds_journal s of None \<Rightarrow> Some [] | Some b \<Rightarrow> Some b)\<rparr> in
      if \<not> io_seek i then (failure StIo ''journal cannot be positioned'', s)
      else (status_ok, s\<lparr>ds_open := True, ds_journal_bytes := of_nat (length (the (ds_journal s)))\<rparr>))"

definition needs_compaction :: "store \<Rightarrow> bool" where
  "needs_compaction s \<longleftrightarrow>
     ds_compaction_required s \<or> ds_journal_bytes s \<ge> sc_max_journal_bytes (ds_config s)"

text \<open>The bytes of an image that are in the file after the write and the flush.\<close>

definition written :: "io \<Rightarrow> byte list \<Rightarrow> byte list" where
  "written i img = (if io_write i \<and> io_flush i then img else take (io_reached i) img)"

definition store_append ::
  "io \<Rightarrow> record_type \<Rightarrow> u64 \<Rightarrow> u64 \<Rightarrow> byte list \<Rightarrow> store \<Rightarrow> status \<times> store" where
  "store_append i t seq now payload s =
     (if \<not> ds_open s then (failure StIo ''durable store is not open'', s)
      else if \<not> is_valid_record_type (record_type_raw t) then
        (failure StInvalidArgument ''journal record type is not writable'', s)
      else if length payload > kMaxJournalRecordBytes then
        (failure StOversized ''journal record payload exceeds the bound'', s)
      else let record_bytes = of_nat kRecordHeaderBytes + of_nat (length payload);
               projected = add_checked_u (ds_journal_bytes s) record_bytes
      in if (case projected of None \<Rightarrow> True | Some n \<Rightarrow> n > sc_max_journal_bytes (ds_config s)) then
        (failure StCapacityExceeded ''journal size bound reached, compaction required'',
         s\<lparr>ds_compaction_required := True\<rparr>)
      else let img = build_record t seq now payload;
               s = s\<lparr>ds_journal := map_option (\<lambda>b. b @ written i img) (ds_journal s)\<rparr>
      in if \<not> io_write i then (failure StIo ''journal record write failed'', s)
      else let (flushed, synced) = flush_handle i (ds_open s) (sc_fsync_on_append (ds_config s))
                 (file_length (ds_journal s)) (ds_journal_synced s)
      in if \<not> is_ok flushed then (flushed, s)
      else (status_ok, s\<lparr>ds_journal_synced := synced, ds_journal_bytes := the projected,
              ds_records_appended := ds_records_appended s + 1, ds_last_sequence := seq,
              ds_syncs := ds_syncs s + 1\<rparr>))"

definition store_flush :: "io \<Rightarrow> store \<Rightarrow> status \<times> store" where
  "store_flush i s =
     (if \<not> ds_open s then (failure StIo ''durable store is not open'', s)
      else let (st, synced) = flush_handle i (ds_open s) (sc_fsync_on_append (ds_config s))
                 (file_length (ds_journal s)) (ds_journal_synced s)
      in (st, if is_ok st then s\<lparr>ds_journal_synced := synced, ds_syncs := ds_syncs s + 1\<rparr> else s))"

definition reset_journal :: "io \<Rightarrow> store \<Rightarrow> status \<times> store" where
  "reset_journal i s =
     (if \<not> ds_open s then (failure StIo ''durable store is not open'', s)
      else if \<not> io_flush i then (failure StIo ''journal flush before truncation failed'', s)
      else let s = s\<lparr>ds_open := False\<rparr> in
      if \<not> io_open i then (failure StIo ''journal cannot be truncated'', s)
      else let s = s\<lparr>ds_journal := Some [], ds_journal_synced := 0\<rparr>;
               (flushed, _) = flush_handle i True True 0 0
      in if \<not> is_ok flushed then (flushed, s)
      else if \<not> io_reopen i then
        (failure StIo ''journal cannot be reopened after truncation'', s)
      else if \<not> io_seek i then
        (failure StIo ''journal cannot be repositioned after truncation'', s)
      else (status_ok, s\<lparr>ds_open := True, ds_journal_bytes := 0, ds_compaction_required := False\<rparr>))"

text \<open>
  The temporary file is created, written, flushed and renamed over the snapshot; every failure
  before the rename removes it and leaves the snapshot as it was. The rename installs what is in the
  temporary file, and as much of it is on the disk as was synced.
\<close>

definition install_snapshot :: "io \<Rightarrow> byte list \<Rightarrow> u64 \<Rightarrow> u64 \<Rightarrow> store \<Rightarrow> status \<times> store" where
  "install_snapshot i payload covered_seq now s =
     (if length payload > kMaxSnapshotBytes then
        (failure StOversized ''snapshot payload exceeds the bound'', s)
      else let img = build_snapshot payload covered_seq now
      in if \<not> io_open i then (failure StIo ''snapshot temporary file cannot be created'', s)
      else let temporary = written i img
      in if \<not> io_write i then (failure StIo ''snapshot write failed'', s)
      else let (flushed, synced) = flush_handle i True True (length temporary) 0
      in if \<not> is_ok flushed then (flushed, s)
      else if \<not> io_rename i then (failure StIo ''atomic replace of durable state failed'', s)
      else (status_ok, s\<lparr>ds_snapshot := Some temporary, ds_snapshot_synced := synced, ds_syncs := ds_syncs s + 1\<rparr>))"

definition write_snapshot :: "io \<Rightarrow> io \<Rightarrow> byte list \<Rightarrow> u64 \<Rightarrow> u64 \<Rightarrow> store \<Rightarrow> status \<times> store" where
  "write_snapshot i j payload covered_seq now s =
     (let (installed, s) = install_snapshot i payload covered_seq now s
      in if \<not> is_ok installed then (installed, s) else reset_journal j s)"

definition truncate_journal :: "io \<Rightarrow> nat \<Rightarrow> store \<Rightarrow> status \<times> store" where
  "truncate_journal i n s =
     (if \<not> ds_open s then (failure StIo ''durable store is not open'', s)
      else if \<not> io_flush i then (failure StIo ''journal flush before truncation failed'', s)
      else if \<not> io_truncate i then (failure StIo ''journal truncation failed'', s)
      else let s = s\<lparr>ds_journal := map_option (take n) (ds_journal s), ds_journal_synced := min n (ds_journal_synced s)\<rparr>
      in if \<not> io_seek i then (failure StIo ''journal reposition after truncation failed'', s)
      else let (flushed, synced) = flush_handle i True (sc_fsync_on_append (ds_config s))
                 (file_length (ds_journal s)) (ds_journal_synced s)
      in (flushed, s\<lparr>ds_journal_synced := synced, ds_journal_bytes := of_nat n\<rparr>))"

text \<open>
  A loss of power: the memory of the process is gone, and of each file at least what was synced and at
  most what was written is left, cut at the given length. The names and the order of creations, renames
  and truncations are kept by the file system.
\<close>

definition power_loss :: "nat \<Rightarrow> nat \<Rightarrow> store \<Rightarrow> store" where
  "power_loss m n s =
     (let j = map_option (take (max m (ds_journal_synced s))) (ds_journal s);
          p = map_option (take (max n (ds_snapshot_synced s))) (ds_snapshot s)
      in store_new\<lparr>ds_journal := j, ds_journal_synced := file_length j,
           ds_snapshot := p, ds_snapshot_synced := file_length p\<rparr>)"

section \<open>Recovery\<close>

text \<open>
  One record at the head of the remaining bytes: its total length, or the outcome that ends the
  scan. The sequence test of the code compares a raw identity with itself and never fails.
\<close>

definition scan_record :: "byte list \<Rightarrow> recovery_outcome \<times> string + nat" where
  "scan_record bs =
     (if length bs < kRecordHeaderBytes then
        Inl (RoTruncatedTail, ''journal ends inside a record header'')
      else let r = reader_of (take kRecordHeaderBytes bs); (magic, r) = get_raw 8 r
      in if magic \<noteq> Some record_magic then Inl (RoCorruptTail, ''journal record magic mismatch'')
      else let (version, r) = get_u16 r; (raw_type, r) = get_u16 r; (_, r) = get_u32 r;
               (_, r) = get_u64 r; (_, r) = get_u64 r; (payload_len, r) = get_u32 r;
               (header_crc, r) = get_u32 r; (_, r) = get_u32 r
      in if \<not> rd_ok r then Inl (RoTruncatedTail, ''journal record header is incomplete'')
      else if crc_compute (take kRecordHeaderCrcCoverage bs) \<noteq> header_crc then
        Inl (RoCorruptTail, ''journal record header checksum mismatch'')
      else if version \<noteq> kStateFormatVersion then
        Inl (RoVersionMismatch, ''journal record format version is not supported'')
      else if \<not> is_valid_record_type raw_type then
        Inl (RoCorruptTail, ''journal record type is not recognised'')
      else if unat payload_len > kMaxJournalRecordBytes then
        Inl (RoOversized, ''journal record payload exceeds the bound'')
      else let len = kRecordHeaderBytes + unat payload_len
      in if length bs < len then Inl (RoTruncatedTail, ''journal ends inside a record payload'')
      else Inr len)"

lemma scan_record_total: "scan_record bs = Inr n \<Longrightarrow> 44 \<le> n \<and> n \<le> length bs"
  by (auto simp: scan_record_def kRecordHeaderBytes_def Let_def not_less split: prod.splits if_splits)

function scan_journal :: "byte list \<Rightarrow> nat \<Rightarrow> nat \<times> recovery_outcome \<times> string" where
  "scan_journal bytes offset =
     (if offset < length bytes then
        case scan_record (drop offset bytes) of
          Inl (out, detail) \<Rightarrow> (offset, out, detail)
        | Inr len \<Rightarrow> scan_journal bytes (offset + len)
      else (offset, RoClean, ''''))"
  by pat_completeness auto
termination
  by (relation "measure (\<lambda>(bytes, offset). length bytes - offset)") (auto dest: scan_record_total)

declare scan_journal.simps [simp del]

definition snapshot_failed :: "recovery_outcome \<Rightarrow> string \<Rightarrow> recovery_report \<Rightarrow> (recovery_report \<times> byte list) result" where
  "snapshot_failed out detail report = Inr (report\<lparr>rp_outcome := out, rp_detail := detail\<rparr>, [])"

text \<open>
  The payload is empty unless the snapshot is verified; the caller passes an empty vector.
\<close>

definition load_snapshot :: "io \<Rightarrow> store \<Rightarrow> recovery_report \<Rightarrow> (recovery_report \<times> byte list) result" where
  "load_snapshot i s report =
     (case read_file i kMaxSnapshotBytes (ds_snapshot s) of
        Inl e \<Rightarrow> Inl e
      | Inr None \<Rightarrow> Inr (report\<lparr>rp_snapshot_present := False\<rparr>, [])
      | Inr (Some bs) \<Rightarrow>
          let report = report\<lparr>rp_snapshot_present := True\<rparr>
          in if length bs < kSnapshotHeaderBytes + kSnapshotTrailerBytes then
            snapshot_failed RoTruncatedTail ''snapshot is shorter than its header'' report
          else let r = reader_of (take kSnapshotHeaderBytes bs); (magic, r) = get_raw 8 r
          in if magic \<noteq> Some snapshot_magic then
            snapshot_failed RoCorruptTail ''snapshot magic mismatch'' report
          else let (version, r) = get_u16 r; (_, r) = get_u16 r; (payload_len, r) = get_u32 r;
                   (covered, r) = get_u64 r; (_, r) = get_u64 r; (header_crc, r) = get_u32 r;
                   (payload_crc, r) = get_u32 r
          in if version \<noteq> kStateFormatVersion then
            snapshot_failed RoVersionMismatch ''snapshot format version is not supported'' report
          else if crc_compute (take kSnapshotHeaderCrcCoverage bs) \<noteq> header_crc then
            snapshot_failed RoCorruptTail ''snapshot header checksum mismatch'' report
          else if length bs \<noteq> kSnapshotHeaderBytes + unat payload_len + kSnapshotTrailerBytes then
            snapshot_failed RoCorruptTail ''snapshot length does not match its header'' report
          else let body = take (unat payload_len) (drop kSnapshotHeaderBytes bs)
          in if crc_compute body \<noteq> payload_crc then
            snapshot_failed RoCorruptTail ''snapshot payload checksum mismatch'' report
          else let (file_crc, _) = get_u32 (reader_of (take kSnapshotTrailerBytes
                 (drop (kSnapshotHeaderBytes + unat payload_len) bs)))
          in if crc_compute (take (length bs - 4) bs) \<noteq> file_crc then
            snapshot_failed RoCorruptTail ''snapshot file checksum mismatch'' report
          else Inr (report\<lparr>rp_snapshot_covered_seq := covered\<rparr>, body))"

definition store_verify :: "io \<Rightarrow> store \<Rightarrow> recovery_report result" where
  "store_verify i s =
     (case load_snapshot i s recovery_report_default of
        Inl e \<Rightarrow> Inl e
      | Inr (report, _) \<Rightarrow>
          (case read_file i kMaxJournalBytes (ds_journal s) of
             Inl e \<Rightarrow> Inl e
           | Inr file \<Rightarrow>
               let img = (case file of None \<Rightarrow> [] | Some b \<Rightarrow> b);
                   report =
                     (if file = None \<and> \<not> rp_snapshot_present report then
                        report\<lparr>rp_outcome := RoMissing, rp_detail := ''no durable state present''\<rparr>
                      else if img \<noteq> [] then
                        let (valid_end, out, detail) = scan_journal img 0;
                            report = (if out \<noteq> RoClean
                              then report\<lparr>rp_outcome := out, rp_detail := detail\<rparr> else report)
                        in report\<lparr>rp_bytes_valid := valid_end,
                                  rp_bytes_discarded := length img - valid_end\<rparr>
                      else report)
               in Inr (report\<lparr>rp_format_version := kStateFormatVersion\<rparr>)))"

text \<open>The record at the head of the bytes that the scan has accepted, and its length.\<close>

definition parse_record :: "byte list \<Rightarrow> journaled_record \<times> nat" where
  "parse_record bs =
     (let r = reader_of (take kRecordHeaderBytes bs); (_, r) = get_raw 8 r; (_, r) = get_u16 r;
          (raw_type, r) = get_u16 r; (_, r) = get_u32 r; (seq, r) = get_u64 r; (t, r) = get_u64 r;
          (payload_len, r) = get_u32 r
      in (\<lparr>jr_type = record_type_of_raw raw_type, jr_seq = seq, jr_tick = t,
           jr_payload = take (unat payload_len) (drop kRecordHeaderBytes bs)\<rparr>,
          kRecordHeaderBytes + unat payload_len))"

lemma parse_record_positive: "0 < snd (parse_record bs)"
  by (simp add: parse_record_def kRecordHeaderBytes_def case_prod_beta Let_def)

lemma parse_record_positive': "(r, n) = parse_record bs \<Longrightarrow> 0 < n"
  using parse_record_positive [of bs] by (cases "parse_record bs") simp

function replay_records ::
  "(journaled_record \<Rightarrow> 's \<Rightarrow> status \<times> 's) \<Rightarrow> byte list \<Rightarrow> nat \<Rightarrow> nat \<Rightarrow> u64 \<Rightarrow> 's \<Rightarrow> (status + u64) \<times> 's" where
  "replay_records visitor img valid_end offset count acc =
     (if offset < valid_end then
        let (record, len) = parse_record (drop offset img); (visited, acc) = visitor record acc
        in if \<not> is_ok visited then (Inl visited, acc)
           else replay_records visitor img valid_end (offset + len) (count + 1) acc
      else (Inr count, acc))"
  by pat_completeness auto
termination
  by (relation "measure (\<lambda>(visitor, img, valid_end, offset, count, acc). valid_end - offset)")
    (auto simp: parse_record_positive' diff_less_mono2)

declare replay_records.simps [simp del]

text \<open>
  \<open>replay\<close>: the report, the snapshot payload and the visitor's state. The journal is cut at the
  last verified record, so the next append starts at a record boundary.
\<close>

definition store_replay ::
  "io \<Rightarrow> (journaled_record \<Rightarrow> 's \<Rightarrow> status \<times> 's) \<Rightarrow> store \<Rightarrow> 's \<Rightarrow>
     (recovery_report \<times> byte list) result \<times> store \<times> 's" where
  "store_replay i visitor s acc =
     (case load_snapshot i s (recovery_report_default\<lparr>rp_format_version := kStateFormatVersion\<rparr>) of
        Inl e \<Rightarrow> (Inl e, s, acc)
      | Inr (report, payload) \<Rightarrow>
          (case read_file i kMaxJournalBytes (ds_journal s) of
             Inl e \<Rightarrow> (Inl e, s, acc)
           | Inr file \<Rightarrow>
               let img = (case file of None \<Rightarrow> [] | Some b \<Rightarrow> b)
               in if file = None \<and> \<not> rp_snapshot_present report then
                 (Inr (report\<lparr>rp_outcome := RoMissing, rp_detail := ''no durable state present''\<rparr>, payload), s, acc)
               else if img = [] then
                 (Inr (if rp_snapshot_present report then report\<lparr>rp_outcome := RoClean\<rparr> else report, payload), s, acc)
               else let (valid_end, out, detail) = scan_journal img 0;
                        report = report\<lparr>rp_outcome := out, rp_detail := detail, rp_bytes_valid := valid_end,
                          rp_bytes_discarded := length img - valid_end\<rparr>;
                        (visited, acc) = replay_records visitor img valid_end 0 0 acc
               in case visited of
                 Inl e \<Rightarrow> (Inl e, s, acc)
               | Inr n \<Rightarrow>
                   let report = report\<lparr>rp_records_replayed := n\<rparr>
                   in if rp_bytes_discarded report \<noteq> 0 then
                     let (st, s) = truncate_journal i valid_end s
                     in if is_ok st then (Inr (report, payload), s, acc) else (Inl st, s, acc)
                   else (Inr (report, payload), s, acc)))"

section \<open>The framed log contract\<close>

text \<open>
  What recovery relies on: at the image of a record the scan steps over it; at the end of the log
  it reports a clean log, and inside a torn record it stops with the torn outcome. Then any log of
  whole records with a torn one behind them is recovered up to the last whole record.
\<close>

locale framed_log =
  fixes img :: "'r \<Rightarrow> byte list"
    and scan :: "byte list \<Rightarrow> nat \<Rightarrow> nat \<times> 'e"
    and clean :: "'e \<Rightarrow> bool"
    and torn :: "'e \<Rightarrow> bool"
    and wf :: "'r \<Rightarrow> bool"
  assumes scan_whole: "wf r \<Longrightarrow> scan (pre @ img r @ rest) (length pre) =
      scan (pre @ img r @ rest) (length pre + length (img r))"
    and scan_end: "\<exists>e. clean e \<and> scan pre (length pre) = (length pre, e)"
    and scan_torn: "wf r \<Longrightarrow> 0 < n \<Longrightarrow> n < length (img r) \<Longrightarrow>
      \<exists>e. torn e \<and> scan (pre @ take n (img r)) (length pre) = (length pre, e)"
begin

lemma scan_skip:
  assumes "\<And>r. r \<in> set rs \<Longrightarrow> wf r"
  shows "scan (pre @ concat (map img rs) @ rest) (length pre) =
    scan (pre @ concat (map img rs) @ rest) (length pre + length (concat (map img rs)))"
  using assms
proof (induction rs arbitrary: pre)
  case (Cons r rs)
  then show ?case
    using scan_whole [of r pre "concat (map img rs) @ rest"] Cons.IH [of "pre @ img r"]
    by (simp add: add.assoc)
qed simp

lemma scan_log:
  assumes "\<And>r. r \<in> set rs \<Longrightarrow> wf r"
  shows "\<exists>e. clean e \<and> scan (concat (map img rs)) 0 = (length (concat (map img rs)), e)"
  using scan_skip [of rs "[]" "[]"] scan_end [of "concat (map img rs)"] assms by simp

lemma scan_torn_log:
  assumes "\<And>r. r \<in> set rs \<Longrightarrow> wf r" "wf r" "0 < n" "n < length (img r)"
  shows "\<exists>e. torn e \<and> scan (concat (map img rs) @ take n (img r)) 0 = (length (concat (map img rs)), e)"
  using scan_skip [of rs "[]" "take n (img r)"] scan_torn [of r n "concat (map img rs)"] assms by simp

end

section \<open>The journal is a framed log\<close>

definition record_head :: "journaled_record \<Rightarrow> byte list" where
  "record_head r = record_magic @ put_u16 kStateFormatVersion @ put_u16 (record_type_raw (jr_type r)) @
     put_u32 0 @ put_u64 (jr_seq r) @ put_u64 (jr_tick r) @ put_u32 (of_nat (length (jr_payload r)))"

definition record_bytes :: "journaled_record \<Rightarrow> byte list" where
  "record_bytes r = build_record (jr_type r) (jr_seq r) (jr_tick r) (jr_payload r)"

definition record_wf :: "journaled_record \<Rightarrow> bool" where
  "record_wf r \<longleftrightarrow> jr_type r \<noteq> RtUnknown \<and> length (jr_payload r) \<le> kMaxJournalRecordBytes"

lemma record_bytes_eq:
  "record_bytes r = record_head r @ put_u32 (crc_compute (record_head r)) @
     put_u32 (crc_compute (jr_payload r)) @ jr_payload r"
  by (simp add: record_bytes_def build_record_def record_head_def put_raw_def Let_def)

lemma length_record_magic [simp]: "length record_magic = 8"
  by (simp add: record_magic_def)

lemma length_record_head [simp]: "length (record_head r) = 36"
  by (simp add: record_head_def wire_length)

lemma length_record_bytes [simp]: "length (record_bytes r) = 44 + length (jr_payload r)"
  by (simp add: record_bytes_eq wire_length)

lemma record_type_valid_iff: "is_valid_record_type (record_type_raw t) \<longleftrightarrow> t \<noteq> RtUnknown"
  by (cases t) (simp_all add: is_valid_record_type_def)

lemma record_type_of_raw_raw [simp]: "record_type_of_raw (record_type_raw t) = t"
  by (cases t) (simp_all add: record_type_of_raw_def)

lemma record_payload_length:
  "record_wf r \<Longrightarrow> unat (of_nat (length (jr_payload r)) :: u32) = length (jr_payload r)"
  by (simp add: record_wf_def kMaxJournalRecordBytes_def unat_of_nat take_bit_nat_eq_self)

text \<open>The scanner and the parser on a header followed by any bytes.\<close>

lemma scan_record_at:
  assumes "record_wf r"
  shows "scan_record (record_head r @ put_u32 (crc_compute (record_head r)) @ put_u32 c @ rest) =
    (if length rest < length (jr_payload r)
     then Inl (RoTruncatedTail, ''journal ends inside a record payload'')
     else Inr (44 + length (jr_payload r)))"
proof -
  define h where "h = record_head r @ put_u32 (crc_compute (record_head r)) @ put_u32 c"
  have h: "length h = 44" by (simp add: h_def wire_length)
  have n: "unat (of_nat (length (jr_payload r)) :: u32) = length (jr_payload r)"
    by (rule record_payload_length [OF assms])
  have "reader_of h = rd_at [] (record_magic @ put_u16 kStateFormatVersion @
      put_u16 (record_type_raw (jr_type r)) @ put_u32 0 @ put_u64 (jr_seq r) @ put_u64 (jr_tick r) @
      put_u32 (of_nat (length (jr_payload r))) @ put_u32 (crc_compute (record_head r)) @ put_u32 c)"
    by (simp add: reader_of_rd_at h_def record_head_def)
  moreover have "take 36 (h @ rest) = record_head r" by (simp add: h_def)
  moreover have "record_head r @ put_u32 (crc_compute (record_head r)) @ put_u32 c @ rest = h @ rest"
    by (simp add: h_def)
  ultimately show ?thesis using h n assms
    by (simp only:) (simp add: scan_record_def framing_defs codec get_raw_at record_type_valid_iff record_wf_def)
qed

lemma scan_record_short: "length bs < 44 \<Longrightarrow> scan_record bs = Inl (RoTruncatedTail, ''journal ends inside a record header'')"
  by (simp add: scan_record_def kRecordHeaderBytes_def)

lemma scan_record_whole:
  "record_wf r \<Longrightarrow> scan_record (record_bytes r @ rest) = Inr (44 + length (jr_payload r))"
  using scan_record_at [of r "crc_compute (jr_payload r)" "jr_payload r @ rest"] by (simp add: record_bytes_eq)

lemma scan_record_torn:
  assumes "record_wf r" "n < length (record_bytes r)"
  shows "\<exists>d. scan_record (take n (record_bytes r)) = Inl (RoTruncatedTail, d)"
proof (cases "n < 44")
  case False
  then have "take n (record_bytes r) = record_head r @ put_u32 (crc_compute (record_head r)) @
      put_u32 (crc_compute (jr_payload r)) @ take (n - 44) (jr_payload r)"
    by (simp add: record_bytes_eq wire_length)
  then show ?thesis using scan_record_at [OF assms(1)] assms(2) False by simp
qed (simp add: scan_record_short)

interpretation journal: framed_log record_bytes scan_journal "\<lambda>e. fst e = RoClean"
  "\<lambda>e. fst e = RoTruncatedTail" record_wf
proof unfold_locales
  fix r pre rest
  assume w: "record_wf r"
  show "scan_journal (pre @ record_bytes r @ rest) (length pre) =
      scan_journal (pre @ record_bytes r @ rest) (length pre + length (record_bytes r))"
    by (subst scan_journal.simps) (simp add: scan_record_whole [OF w] add.assoc)
next
  fix pre
  show "\<exists>e. fst e = RoClean \<and> scan_journal pre (length pre) = (length pre, e)"
    by (subst scan_journal.simps) simp
next
  fix r n pre
  assume w: "record_wf r" and n: "0 < n" "n < length (record_bytes r)"
  obtain d where "scan_record (take n (record_bytes r)) = Inl (RoTruncatedTail, d)"
    using scan_record_torn [OF w n(2)] by blast
  then show "\<exists>e. fst e = RoTruncatedTail \<and>
      scan_journal (pre @ take n (record_bytes r)) (length pre) = (length pre, e)"
    by (subst scan_journal.simps) (use n in simp)
qed

section \<open>Replay delivers the records of the log\<close>

definition log_bytes :: "journaled_record list \<Rightarrow> byte list" where
  "log_bytes rs = concat (map record_bytes rs)"

lemma log_bytes_simps [simp]:
  "log_bytes [] = []" "log_bytes (r # rs) = record_bytes r @ log_bytes rs"
  "log_bytes (rs @ rs') = log_bytes rs @ log_bytes rs'"
  by (simp_all add: log_bytes_def)

lemma record_bytes_not_Nil [simp]: "record_bytes r \<noteq> []"
  using length_record_bytes [of r] by (metis add_is_0 list.size(3) zero_neq_numeral)

lemma log_bytes_Nil_iff [simp]: "log_bytes rs = [] \<longleftrightarrow> rs = []"
  by (cases rs) simp_all

lemma parse_record_at:
  assumes "record_wf r"
  shows "parse_record (record_head r @ put_u32 c @ put_u32 c' @ rest) =
    (r\<lparr>jr_payload := take (length (jr_payload r)) rest\<rparr>, 44 + length (jr_payload r))"
proof -
  define h where "h = record_head r @ put_u32 c @ put_u32 c'"
  have h: "length h = 44" by (simp add: h_def wire_length)
  have n: "unat (of_nat (length (jr_payload r)) :: u32) = length (jr_payload r)"
    by (rule record_payload_length [OF assms])
  have "reader_of h = rd_at [] (record_magic @ put_u16 kStateFormatVersion @
      put_u16 (record_type_raw (jr_type r)) @ put_u32 0 @ put_u64 (jr_seq r) @ put_u64 (jr_tick r) @
      put_u32 (of_nat (length (jr_payload r))) @ put_u32 c @ put_u32 c')"
    by (simp add: reader_of_rd_at h_def record_head_def)
  moreover have "record_head r @ put_u32 c @ put_u32 c' @ rest = h @ rest" by (simp add: h_def)
  ultimately show ?thesis using h n
    by (simp only:) (simp add: parse_record_def framing_defs codec get_raw_at)
qed

lemma parse_record_whole:
  "record_wf r \<Longrightarrow> parse_record (record_bytes r @ rest) = (r, 44 + length (jr_payload r))"
  using parse_record_at [of r "crc_compute (record_head r)" "crc_compute (jr_payload r)" "jr_payload r @ rest"]
  by (simp add: record_bytes_eq)

text \<open>The visitor applied to a list of records, up to its first failure.\<close>

fun visit_all ::
  "(journaled_record \<Rightarrow> 's \<Rightarrow> status \<times> 's) \<Rightarrow> journaled_record list \<Rightarrow> u64 \<Rightarrow> 's \<Rightarrow> (status + u64) \<times> 's" where
  "visit_all v [] n acc = (Inr n, acc)"
| "visit_all v (r # rs) n acc =
     (let (st, acc) = v r acc in if \<not> is_ok st then (Inl st, acc) else visit_all v rs (n + 1) acc)"

lemma replay_records_log:
  assumes "list_all record_wf rs"
  shows "replay_records v (pre @ log_bytes rs @ rest) (length pre + length (log_bytes rs)) (length pre) n acc =
    visit_all v rs n acc"
  using assms
proof (induction rs arbitrary: pre n acc)
  case Nil
  show ?case by (subst replay_records.simps) simp
next
  case (Cons r rs)
  have p: "parse_record (record_bytes r @ log_bytes rs @ rest) = (r, 44 + length (jr_payload r))"
    using Cons.prems by (simp add: parse_record_whole)
  show ?case
    using Cons.IH [of "pre @ record_bytes r"] Cons.prems p
    by (subst replay_records.simps) (simp add: add.assoc Let_def split: prod.split)
qed

lemma visit_all_ok:
  assumes "\<And>r acc. is_ok (fst (v r acc))"
  shows "visit_all v rs n acc = (Inr (n + of_nat (length rs)), fold (\<lambda>r acc. snd (v r acc)) rs acc)"
proof (induction rs arbitrary: n acc)
  case (Cons r rs)
  show ?case using assms [of r acc] Cons.IH by (cases "v r acc") simp
qed simp

lemma if_returns:
  "\<exists>a b. x = Inr (a, b) \<Longrightarrow> \<exists>a b. y = Inr (a, b) \<Longrightarrow> \<exists>a b. (if c then x else y) = Inr (a, b)"
  by simp

lemma load_snapshot_returns:
  assumes "case ds_snapshot s of None \<Rightarrow> True | Some b \<Rightarrow> length b \<le> kMaxSnapshotBytes" "io_read i"
  shows "\<exists>rep payload. load_snapshot i s report = Inr (rep, payload)"
proof (cases "ds_snapshot s")
  case None
  then show ?thesis by (simp add: load_snapshot_def read_file_def)
next
  case (Some bs)
  with assms have rf: "read_file i kMaxSnapshotBytes (ds_snapshot s) = Inr (Some bs)" by (simp add: read_file_def)
  show ?thesis
    unfolding load_snapshot_def rf sum.case option.case Let_def case_prod_beta snapshot_failed_def
    by (intro if_returns; blast)
qed

text \<open>A store whose journal holds exactly these records.\<close>

definition store_holds :: "store \<Rightarrow> journaled_record list \<Rightarrow> bool" where
  "store_holds s rs \<longleftrightarrow> ds_open s \<and> ds_journal s = Some (log_bytes rs) \<and> list_all record_wf rs \<and>
     ds_journal_bytes s = of_nat (length (log_bytes rs)) \<and>
     length (log_bytes rs) \<le> unat (sc_max_journal_bytes (ds_config s)) \<and>
     unat (sc_max_journal_bytes (ds_config s)) \<le> kMaxJournalBytes \<and>
     (case ds_snapshot s of None \<Rightarrow> True | Some b \<Rightarrow> length b \<le> kMaxSnapshotBytes)"

lemma scan_log_torn:
  assumes "list_all record_wf rs" "record_wf r" "n < length (record_bytes r)"
  shows "\<exists>d. scan_journal (log_bytes rs @ take n (record_bytes r)) 0 =
    (length (log_bytes rs), if n = 0 then RoClean else RoTruncatedTail, d)"
proof -
  have wf: "\<And>r. r \<in> set rs \<Longrightarrow> record_wf r" using assms(1) by (simp add: list_all_iff)
  show ?thesis
    using journal.scan_log [OF wf] journal.scan_torn_log [OF wf assms(2) _ assms(3)]
    by (cases "n = 0") (auto simp: log_bytes_def)
qed

lemma replay_prefix:
  assumes wf: "list_all record_wf rs" and jfile: "ds_journal s = Some (log_bytes rs @ tail)" "ds_open s"
    and snap: "case ds_snapshot s of None \<Rightarrow> True | Some b \<Rightarrow> length b \<le> kMaxSnapshotBytes"
    and size: "length (log_bytes rs @ tail) \<le> kMaxJournalBytes"
    and scan: "scan_journal (log_bytes rs @ tail) 0 = (length (log_bytes rs), e)"
    and visitor: "\<And>r acc. is_ok (fst (v r acc))"
  shows "\<exists>rep payload s''. store_replay io_fine v s acc =
      (Inr (rep, payload), s'', fold (\<lambda>r acc. snd (v r acc)) rs acc) \<and>
      ds_journal s'' = Some (log_bytes rs)"
proof -
  obtain rep payload where ls:
    "load_snapshot io_fine s (recovery_report_default\<lparr>rp_format_version := kStateFormatVersion\<rparr>) = Inr (rep, payload)"
    using load_snapshot_returns [OF snap] io_fine_simps(10) by blast
  have rf: "read_file io_fine kMaxJournalBytes (ds_journal s) = Inr (Some (log_bytes rs @ tail))"
    using jfile size by (simp add: read_file_def)
  have replay: "replay_records v (log_bytes rs @ tail) (length (log_bytes rs)) 0 0 acc =
      (Inr (of_nat (length rs)), fold (\<lambda>r acc. snd (v r acc)) rs acc)"
    using replay_records_log [OF wf, of v "[]"]
      visit_all_ok [where v = v and rs = rs and n = 0 and acc = acc, OF visitor] by simp
  show ?thesis
  proof (cases "tail = []")
    case True
    then show ?thesis
      using ls rf scan replay jfile by (cases e; cases "rs = []") (auto simp: store_replay_def Let_def)
  next
    case False
    then show ?thesis
      using ls rf scan replay jfile
      by (cases e) (simp add: store_replay_def truncate_journal_def flush_handle_def Let_def)
  qed
qed

lemma replay_torn:
  assumes "store_holds s rs" "record_wf r" "n < length (record_bytes r)"
    "ds_journal s' = Some (log_bytes rs @ take n (record_bytes r))" "ds_open s'"
    "ds_snapshot s' = ds_snapshot s" "length (log_bytes rs @ take n (record_bytes r)) \<le> kMaxJournalBytes"
    and visitor: "\<And>r acc. is_ok (fst (v r acc))"
  shows "\<exists>rep payload s''. store_replay io_fine v s' acc =
      (Inr (rep, payload), s'', fold (\<lambda>r acc. snd (v r acc)) rs acc) \<and>
      ds_journal s'' = Some (log_bytes rs)"
proof -
  have wf: "list_all record_wf rs"
    "case ds_snapshot s' of None \<Rightarrow> True | Some b \<Rightarrow> length b \<le> kMaxSnapshotBytes"
    using assms(1,6) by (simp_all add: store_holds_def)
  obtain e where "scan_journal (log_bytes rs @ take n (record_bytes r)) 0 = (length (log_bytes rs), e)"
    using scan_log_torn [OF wf(1) assms(2,3)] by blast
  then show ?thesis by (rule replay_prefix [OF wf(1) assms(4,5) wf(2) assms(7) _ visitor])
qed

text \<open>One append: acknowledged exactly when the whole image is in the file.\<close>

lemma store_append_cases:
  assumes "store_holds s rs" "store_append i t seq now payload s = (st, s')"
  defines "r \<equiv> \<lparr>jr_type = t, jr_seq = seq, jr_tick = now, jr_payload = payload\<rparr>"
  shows "is_ok st \<Longrightarrow> store_holds s' (rs @ [r])"
    "\<not> is_ok st \<Longrightarrow> s' = s \<or> s' = s\<lparr>ds_compaction_required := True\<rparr> \<or>
       record_wf r \<and> s' = s\<lparr>ds_journal := Some (log_bytes rs @ written i (record_bytes r))\<rparr> \<and>
       length (log_bytes rs @ record_bytes r) \<le> kMaxJournalBytes"
proof -
  have h: "ds_open s" "ds_journal s = Some (log_bytes rs)" "list_all record_wf rs"
    "ds_journal_bytes s = of_nat (length (log_bytes rs))"
    "length (log_bytes rs) \<le> unat (sc_max_journal_bytes (ds_config s))"
    "unat (sc_max_journal_bytes (ds_config s)) \<le> kMaxJournalBytes"
    using assms(1) by (simp_all add: store_holds_def)
  define len where "len = of_nat kRecordHeaderBytes + (of_nat (length payload) :: u64)"
  have n: "length (log_bytes rs) \<le> 64 * 2 ^ 20" using h(5,6) by (simp add: kMaxJournalBytes_def)
  have room: "unat (ds_journal_bytes s + len) = length (log_bytes rs @ record_bytes r) \<and>
      add_checked_u (ds_journal_bytes s) len = Some (ds_journal_bytes s + len) \<and>
      len = of_nat (length (record_bytes r))"
    if "length payload \<le> kMaxJournalRecordBytes"
  proof -
    have p: "length payload \<le> 2 ^ 20" using that by (simp add: kMaxJournalRecordBytes_def)
    have small: "unat (of_nat k :: u64) = k" if "k \<le> 2 ^ 30" for k
      using that by (simp add: unat_of_nat take_bit_nat_eq_self)
    have 1: "ds_journal_bytes s + len = of_nat (length (log_bytes rs @ record_bytes r))"
      by (simp add: h(4) len_def kRecordHeaderBytes_def r_def)
    have 2: "len = of_nat (44 + length payload)" by (simp add: len_def kRecordHeaderBytes_def)
    have "unat (ds_journal_bytes s + len) = length (log_bytes rs @ record_bytes r)"
      unfolding 1 by (rule small) (use n p in \<open>simp add: r_def\<close>)
    moreover have "unat (ds_journal_bytes s) = length (log_bytes rs)"
      unfolding h(4) by (rule small) (use n in simp)
    moreover have "unat len = 44 + length payload" unfolding 2 by (rule small) (use p in simp)
    ultimately show ?thesis using n p 2 by (simp add: add_checked_u_exact r_def)
  qed
  have wf: "record_wf r" if "length payload \<le> kMaxJournalRecordBytes" "is_valid_record_type (record_type_raw t)"
    using that by (simp add: record_wf_def r_def record_type_valid_iff)
  show "store_holds s' (rs @ [r])" if "is_ok st"
    using assms(1,2) that h room wf
    by (auto simp: store_append_def store_holds_def flush_handle_def written_def record_bytes_def
        word_le_nat_alt not_less len_def [symmetric] r_def failure_def is_ok_def Let_def split: if_splits)
  show "s' = s \<or> s' = s\<lparr>ds_compaction_required := True\<rparr> \<or>
       record_wf r \<and> s' = s\<lparr>ds_journal := Some (log_bytes rs @ written i (record_bytes r))\<rparr> \<and>
       length (log_bytes rs @ record_bytes r) \<le> kMaxJournalBytes" if "\<not> is_ok st"
    using assms(2) that h room wf
    by (auto simp: store_append_def flush_handle_def record_bytes_def word_le_nat_alt not_less
        len_def [symmetric] r_def is_ok_def status_ok_def Let_def split: if_splits)
qed

lemma append_crash_safe:
  assumes "store_holds s rs" "store_append i t seq now payload s = (st, s')"
    and v: "\<And>r acc. is_ok (fst (v r acc))"
    and r: "r = \<lparr>jr_type = t, jr_seq = seq, jr_tick = now, jr_payload = payload\<rparr>"
  shows "\<exists>rep p s'' rs'. store_replay io_fine v s' acc =
      (Inr (rep, p), s'', fold (\<lambda>r acc. snd (v r acc)) rs' acc) \<and> ds_journal s'' = Some (log_bytes rs') \<and>
      (rs' = rs @ [r] \<or> \<not> is_ok st \<and> rs' = rs)"
proof -
  define good where "good rs' \<longleftrightarrow> (\<exists>rep p s''. store_replay io_fine v s' acc =
      (Inr (rep, p), s'', fold (\<lambda>r acc. snd (v r acc)) rs' acc) \<and> ds_journal s'' = Some (log_bytes rs'))" for rs'
  have goal: ?thesis if "good (rs @ [r]) \<or> \<not> is_ok st \<and> good rs"
    using that unfolding good_def by blast
  have h: "ds_open s" "ds_journal s = Some (log_bytes rs)" "length (log_bytes rs) \<le> kMaxJournalBytes"
    using assms(1) by (simp_all add: store_holds_def)
  have whole: "good (rs @ [r])"
    if x: "store_holds x (rs @ [r])" "ds_journal s' = ds_journal x" "ds_open s'" "ds_snapshot s' = ds_snapshot x" for x
  proof -
    have w: "record_wf r" "length (log_bytes (rs @ [r])) \<le> kMaxJournalBytes" "ds_journal x = Some (log_bytes (rs @ [r]))"
      using x(1) by (simp_all add: store_holds_def)
    show ?thesis unfolding good_def
      by (rule replay_torn [OF x(1) w(1), where n = 0]) (use x w v in simp_all)
  qed
  have keep: "good rs" if "record_wf q" "n < length (record_bytes q)" "ds_open s'" "ds_snapshot s' = ds_snapshot s"
      "ds_journal s' = Some (log_bytes rs @ take n (record_bytes q))"
      "length (log_bytes rs @ take n (record_bytes q)) \<le> kMaxJournalBytes" for q n
    unfolding good_def by (rule replay_torn [OF assms(1) that(1,2)]) (use that v in simp_all)
  show ?thesis
  proof (rule goal, cases "is_ok st")
    case True
    then have "store_holds s' (rs @ [r])" using store_append_cases(1) [OF assms(1,2)] r by simp
    then show "good (rs @ [r]) \<or> \<not> is_ok st \<and> good rs" using whole [of s'] by (simp add: store_holds_def)
  next
    case False
    from store_append_cases(2) [OF assms(1,2) False, folded r]
    consider "s' = s \<or> s' = s\<lparr>ds_compaction_required := True\<rparr>"
      | "record_wf r" "s' = s\<lparr>ds_journal := Some (log_bytes rs @ written i (record_bytes r))\<rparr>"
        "length (log_bytes rs @ record_bytes r) \<le> kMaxJournalBytes" by blast
    then show "good (rs @ [r]) \<or> \<not> is_ok st \<and> good rs"
    proof cases
      case 1
      define q where "q = \<lparr>jr_type = RtCheckpoint, jr_seq = 0, jr_tick = 0, jr_payload = []\<rparr>"
      have "record_wf q" by (simp add: q_def record_wf_def)
      then show ?thesis using keep [of q 0] 1 h False by auto
    next
      case 2
      obtain n where n: "written i (record_bytes r) = take n (record_bytes r)"
        by (metis written_def take_all order_refl)
      have s': "ds_open s'" "ds_snapshot s' = ds_snapshot s"
        "ds_journal s' = Some (log_bytes rs @ take n (record_bytes r))" using 2(2) h n by simp_all
      show ?thesis
      proof (cases "n < length (record_bytes r)")
        case True
        then show ?thesis using keep [OF 2(1) True s'] 2(3) False by simp
      next
        case nt: False
        define x where "x = s\<lparr>ds_journal := Some (log_bytes (rs @ [r])),
          ds_journal_bytes := of_nat (length (log_bytes (rs @ [r]))),
          ds_config := (ds_config s)\<lparr>sc_max_journal_bytes := of_nat kMaxJournalBytes\<rparr>\<rparr>"
        have "unat (of_nat kMaxJournalBytes :: u64) = kMaxJournalBytes" by (simp add: kMaxJournalBytes_def)
        then have "store_holds x (rs @ [r])" using assms(1) 2(1,3) by (simp add: store_holds_def x_def)
        then show ?thesis using whole [of x] s' nt by (simp add: x_def)
      qed
    qed
  qed
qed

section \<open>Snapshots\<close>

definition snapshot_head :: "byte list \<Rightarrow> u64 \<Rightarrow> u64 \<Rightarrow> byte list" where
  "snapshot_head p c now = snapshot_magic @ put_u16 kStateFormatVersion @ put_u16 0 @
     put_u32 (of_nat (length p)) @ put_u64 c @ put_u64 now"

lemma length_snapshot_magic [simp]: "length snapshot_magic = 8"
  by (simp add: snapshot_magic_def)

lemma length_snapshot_head [simp]: "length (snapshot_head p c now) = 32"
  by (simp add: snapshot_head_def wire_length)

definition snapshot_block :: "byte list \<Rightarrow> u64 \<Rightarrow> u64 \<Rightarrow> byte list" where
  "snapshot_block p c now = snapshot_head p c now @ put_u32 (crc_compute (snapshot_head p c now)) @
     put_u32 (crc_compute p) @ p"

lemma build_snapshot_eq:
  "build_snapshot p c now = snapshot_block p c now @ put_u32 (crc_compute (snapshot_block p c now))"
  by (simp add: build_snapshot_def snapshot_block_def snapshot_head_def put_raw_def Let_def)

lemma length_snapshot_block [simp]: "length (snapshot_block p c now) = 40 + length p"
  by (simp add: snapshot_block_def wire_length)

lemma length_build_snapshot [simp]: "length (build_snapshot p c now) = 44 + length p"
  by (simp add: build_snapshot_eq wire_length)

lemma read_written_u32: "get_u32 (reader_of (put_u32 x)) = (x, rd_at (put_u32 x) [])"
  using c32.get_put [of "[]" x "[]"] by (simp add: reader_of_rd_at)

lemma load_built_snapshot:
  assumes "ds_snapshot s = Some (build_snapshot p c now)" "length p + 44 \<le> kMaxSnapshotBytes" "io_read i"
  shows "load_snapshot i s rep = Inr (rep\<lparr>rp_snapshot_present := True, rp_snapshot_covered_seq := c\<rparr>, p)"
proof -
  define h where "h = snapshot_head p c now @ put_u32 (crc_compute (snapshot_head p c now)) @ put_u32 (crc_compute p)"
  have h: "length h = 40" by (simp add: h_def wire_length)
  define x where "x = crc_compute (h @ p)"
  have n: "unat (of_nat (length p) :: u32) = length p"
    using assms(2) by (simp add: kMaxSnapshotBytes_def unat_of_nat take_bit_nat_eq_self)
  have b: "build_snapshot p c now = h @ p @ put_u32 x"
    by (simp add: build_snapshot_eq snapshot_block_def h_def x_def)
  have r: "reader_of h = rd_at [] (snapshot_magic @ put_u16 kStateFormatVersion @ put_u16 0 @
      put_u32 (of_nat (length p)) @ put_u64 c @ put_u64 now @
      put_u32 (crc_compute (snapshot_head p c now)) @ put_u32 (crc_compute p))"
    by (simp add: reader_of_rd_at h_def snapshot_head_def)
  have hd: "take 32 h = snapshot_head p c now" by (simp add: h_def)
  have "length (h @ p @ put_u32 x) \<le> kMaxSnapshotBytes" using assms(2) h by (simp add: wire_length)
  then have rf: "read_file i kMaxSnapshotBytes (ds_snapshot s) = Inr (Some (h @ p @ put_u32 x))"
    using assms(1,3) b by (simp add: read_file_def)
  show ?thesis unfolding load_snapshot_def rf
    using h n r hd
    by (simp add: framing_defs codec get_raw_at wire_length read_written_u32 x_def Let_def)
qed

lemma load_oversized_snapshot:
  assumes "ds_snapshot s = Some (build_snapshot p c now)" "kMaxSnapshotBytes < length p + 44"
  shows "load_snapshot i s rep = Inl (failure StOversized ''durable store file exceeds the size bound'')"
  using assms by (simp add: load_snapshot_def read_file_def)

text \<open>What the two halves of writing a snapshot leave.\<close>

lemma install_snapshot_cases:
  assumes "install_snapshot i p c now s = (st, s')"
  shows "\<not> is_ok st \<and> s' = s \<or>
    is_ok st \<and> s' = s\<lparr>ds_snapshot := Some (build_snapshot p c now),
      ds_snapshot_synced := length (build_snapshot p c now), ds_syncs := ds_syncs s + 1\<rparr>"
  using assms
  by (auto simp: install_snapshot_def flush_handle_def written_def is_ok_def failure_def status_ok_def Let_def
      split: if_splits)

lemma reset_journal_cases:
  assumes "reset_journal j s = (st, s')"
  shows "ds_snapshot s' = ds_snapshot s \<and> ds_snapshot_synced s' = ds_snapshot_synced s \<and>
    (\<not> is_ok st \<and> ds_journal s' = ds_journal s \<and> ds_journal_synced s' = ds_journal_synced s \<or>
     ds_journal s' = Some [] \<and> ds_journal_synced s' = 0)"
  using assms
  by (auto simp: reset_journal_def flush_handle_def is_ok_def failure_def status_ok_def Let_def split: if_splits)

lemma write_snapshot_cases:
  assumes "write_snapshot i j p c now s = (st, s')"
  shows "\<not> is_ok st \<and> s' = s \<and> snd (install_snapshot i p c now s) = s \<or>
    is_ok (fst (install_snapshot i p c now s)) \<and> reset_journal j (snd (install_snapshot i p c now s)) = (st, s')"
  using assms install_snapshot_cases [of i p c now s]
  by (cases "install_snapshot i p c now s") (auto simp: write_snapshot_def split: if_splits)

lemma write_snapshot_outcome:
  assumes "write_snapshot i j p c now s = (st, s')"
  shows "\<not> is_ok st \<and> s' = s \<or> ds_snapshot s' = Some (build_snapshot p c now) \<and>
    (\<not> is_ok st \<and> ds_journal s' = ds_journal s \<or> ds_journal s' = Some [])"
proof -
  obtain st1 s1 where i: "install_snapshot i p c now s = (st1, s1)" by fastforce
  show ?thesis using write_snapshot_cases [OF assms] install_snapshot_cases [OF i] reset_journal_cases [of j s1 st s']
    by (auto simp: i)
qed

text \<open>
  Between its system calls the operation leaves the named files as they were before it, with the new
  image installed, or as they are at its end. Whichever of these states a crash or a loss of power meets,
  the snapshot is the old one or the new image in full, and the journal goes only once the new image is
  on the disk.
\<close>

definition snapshot_points :: "io \<Rightarrow> io \<Rightarrow> byte list \<Rightarrow> u64 \<Rightarrow> u64 \<Rightarrow> store \<Rightarrow> store list" where
  "snapshot_points i j p c now s = [s, snd (install_snapshot i p c now s), snd (write_snapshot i j p c now s)]"

definition old_or_new :: "byte list \<Rightarrow> store \<Rightarrow> store \<Rightarrow> bool" where
  "old_or_new img old u \<longleftrightarrow> ds_snapshot u = ds_snapshot old \<and> ds_journal u = ds_journal old \<or>
     ds_snapshot u = Some img \<and> (ds_journal u = ds_journal old \<or> ds_journal u = Some [])"

text \<open>The files and what of them is on the disk.\<close>

definition disk :: "store \<Rightarrow> byte list option \<times> nat \<times> byte list option \<times> nat" where
  "disk s = (ds_journal s, ds_journal_synced s, ds_snapshot s, ds_snapshot_synced s)"

lemma write_snapshot_points:
  assumes "t \<in> set (snapshot_points i j p c now s)"
  defines "img \<equiv> build_snapshot p c now"
  shows "disk t = disk s \<or> disk t = (ds_journal s, ds_journal_synced s, Some img, length img) \<or>
    disk t = (Some [], 0, Some img, length img)"
proof -
  obtain st1 s1 where i: "install_snapshot i p c now s = (st1, s1)" by fastforce
  obtain st s' where w: "write_snapshot i j p c now s = (st, s')" by fastforce
  have "disk s1 = disk s \<or> disk s1 = (ds_journal s, ds_journal_synced s, Some img, length img)"
    using install_snapshot_cases [OF i] by (auto simp: disk_def img_def)
  moreover have "s' = s \<or> disk s' = (ds_journal s, ds_journal_synced s, Some img, length img) \<or>
      disk s' = (Some [], 0, Some img, length img)"
    using write_snapshot_cases [OF w] install_snapshot_cases [OF i] reset_journal_cases [of j s1 st s']
    by (auto simp: disk_def img_def i)
  ultimately show ?thesis using assms(1) by (auto simp: snapshot_points_def i w)
qed

lemma snapshot_crash_safe:
  assumes "t \<in> set (snapshot_points i j p c now s)"
  shows "old_or_new (build_snapshot p c now) s t"
    "old_or_new (build_snapshot p c now) (power_loss m n s) (power_loss m n t)"
proof -
  note d = write_snapshot_points [OF assms]
  show "old_or_new (build_snapshot p c now) s t" using d by (auto simp: old_or_new_def disk_def)
  show "old_or_new (build_snapshot p c now) (power_loss m n s) (power_loss m n t)"
    using d by (auto simp: old_or_new_def disk_def power_loss_def Let_def)
qed

lemma write_snapshot_ok:
  assumes "write_snapshot i j p c now s = (st, s')" "is_ok st"
  shows "ds_open s'" "ds_journal s' = Some []" "ds_snapshot s' = Some (build_snapshot p c now)"
proof -
  obtain st1 s1 where i: "install_snapshot i p c now s = (st1, s1)" by fastforce
  have r: "reset_journal j s1 = (st, s')" "ds_snapshot s1 = Some (build_snapshot p c now)"
    using write_snapshot_cases [OF assms(1)] install_snapshot_cases [OF i] assms(2) by (auto simp: i)
  then show "ds_open s'" "ds_journal s' = Some []" "ds_snapshot s' = Some (build_snapshot p c now)"
    using assms(2) by (auto simp: reset_journal_def failure_def is_ok_def status_ok_def Let_def split: if_splits prod.splits)
qed

lemma written_snapshot_lasts:
  assumes "write_snapshot i j p c now s = (st, s')" "is_ok st"
  shows "ds_snapshot (power_loss m n s') = Some (build_snapshot p c now)" "ds_journal (power_loss m n s') = Some []"
proof -
  obtain st1 s1 where i: "install_snapshot i p c now s = (st1, s1)" by fastforce
  have "ds_snapshot s' = Some (build_snapshot p c now) \<and> ds_snapshot_synced s' = length (build_snapshot p c now) \<and>
      ds_journal s' = Some []"
    using write_snapshot_cases [OF assms(1)] install_snapshot_cases [OF i] reset_journal_cases [of j s1 st s'] assms(2)
    by (auto simp: i)
  then show "ds_snapshot (power_loss m n s') = Some (build_snapshot p c now)" "ds_journal (power_loss m n s') = Some []"
    by (simp_all add: power_loss_def Let_def)
qed

text \<open>The checksum of the whole file refuses every snapshot with one byte changed.\<close>

lemma if_payload:
  "p \<noteq> [] \<Longrightarrow> (if c then Inr (a, []) else x) = Inr (r, p) \<longleftrightarrow> \<not> c \<and> x = Inr (r, p)"
  by auto

lemma load_snapshot_file_crc:
  assumes "load_snapshot i s rep = Inr (rep', p)" "p \<noteq> []" "ds_snapshot s = Some bs"
  shows "4 \<le> length bs \<and> get_u32 (reader_of (drop (length bs - 4) bs)) =
    (crc_compute (take (length bs - 4) bs), snd (get_u32 (reader_of (drop (length bs - 4) bs))))"
proof -
  have rf: "read_file i kMaxSnapshotBytes (ds_snapshot s) = Inr (Some bs)"
    using assms by (cases "read_file i kMaxSnapshotBytes (ds_snapshot s)")
      (auto simp: load_snapshot_def read_file_def split: if_splits)
  define n where "n = unat (fst (get_u32 (snd (get_u16 (snd (get_u16 (snd (get_raw 8
    (reader_of (take kSnapshotHeaderBytes bs))))))))))"
  have "length bs = kSnapshotHeaderBytes + n + kSnapshotTrailerBytes \<and>
    crc_compute (take (length bs - 4) bs) =
      fst (get_u32 (reader_of (take kSnapshotTrailerBytes (drop (kSnapshotHeaderBytes + n) bs))))"
    using assms(1) unfolding load_snapshot_def rf n_def snapshot_failed_def sum.case option.case
      case_prod_beta Let_def if_payload [OF assms(2)] not_not by (elim conjE) (intro conjI; assumption)
  then show ?thesis by (auto simp: framing_defs prod_eq_iff)
qed

lemma corrupted_snapshot_refused:
  assumes "ds_snapshot s = Some ((build_snapshot q c now)[k := b])" "k < length (build_snapshot q c now)"
    "b \<noteq> build_snapshot q c now ! k" "load_snapshot i s rep = Inr (rep', p)"
  shows "p = []"
proof (rule ccontr)
  assume p: "p \<noteq> []"
  define B where "B = snapshot_block q c now"
  define m where "m = length B"
  define bs where "bs = (B @ put_u32 (crc_compute B))[k := b]"
  have bs: "ds_snapshot s = Some bs" using assms(1) by (simp add: bs_def B_def build_snapshot_eq)
  have len: "length bs = m + 4" by (simp add: bs_def m_def wire_length)
  have b: "b \<noteq> (B @ put_u32 (crc_compute B)) ! k" "k < m + 4"
    using assms(2,3) by (simp_all add: build_snapshot_eq B_def m_def wire_length)
  have crc: "fst (get_u32 (reader_of (drop m bs))) = crc_compute (take m bs)"
    using load_snapshot_file_crc [OF assms(4) p bs] len by (simp add: prod_eq_iff)
  show False
  proof (cases "k < m")
    case True
    then have "bs = B[k := b] @ put_u32 (crc_compute B)" by (simp add: bs_def m_def list_update_append)
    then have "crc_compute B = crc_compute (B[k := b])" using crc by (simp add: m_def read_written_u32)
    then show False using crc_compute_update_byte [of k B b] True b by (simp add: m_def nth_append)
  next
    case False
    define t where "t = (put_u32 (crc_compute B))[k - m := b]"
    have bst: "bs = B @ t" using False by (simp add: bs_def m_def t_def list_update_append)
    have "length t = 4 + 0" by (simp add: t_def wire_length)
    then obtain x where x: "t = put_u32 x" using split_u32 by fastforce
    then have "x = crc_compute B" using crc bst by (simp add: m_def read_written_u32)
    then have "(put_u32 (crc_compute B))[k - m := b] = put_u32 (crc_compute B)" using x t_def by simp
    moreover have "b \<noteq> put_u32 (crc_compute B) ! (k - m)" "k - m < length (put_u32 (crc_compute B))"
      using b False by (simp_all add: m_def nth_append wire_length)
    ultimately show False by (metis nth_list_update_eq)
  qed
qed

section \<open>Where the journal protects less than it says\<close>

text \<open>
  The payload checksum of a record is written and never compared: any payload of the right length
  behind an intact header is scanned as clean and handed to the visitor.
\<close>

lemma payload_checksum_unused:
  assumes "record_wf r" "length q = length (jr_payload r)"
  defines "bs \<equiv> record_head r @ put_u32 (crc_compute (record_head r)) @ put_u32 (crc_compute (jr_payload r)) @ q"
  shows "scan_record bs = Inr (length bs)" "parse_record bs = (r\<lparr>jr_payload := q\<rparr>, length bs)"
  using scan_record_at [OF assms(1)] parse_record_at [OF assms(1)] assms(2)
  by (simp_all add: bs_def wire_length)

text \<open>
  A refused append leaves its torn bytes in the file and the file position behind them, so the
  records that later appends acknowledge lie behind bytes that recovery does not get past.
\<close>

definition behind :: "byte list \<Rightarrow> bool" where
  "behind bs \<longleftrightarrow> bs = [] \<or> hd bs = 0x4D"

lemma scan_record_shifted:
  assumes "0 < n" "n < 8" "behind rest"
  shows "scan_record (take n record_magic @ rest) \<in>
    {Inl (RoTruncatedTail, ''journal ends inside a record header''), Inl (RoCorruptTail, ''journal record magic mismatch'')}"
proof -
  define bs where "bs = take n record_magic @ rest"
  show ?thesis
  proof (cases "length bs < 44")
    case False
    then have r: "rest \<noteq> []" using assms(2) by (auto simp: bs_def)
    have "n \<in> {1,2,3,4,5,6,7}" using assms by auto
    then have "record_magic ! n \<noteq> 0x4D" by (auto simp: record_magic_def)
    moreover have "take 8 bs ! n = 0x4D"
      using assms r by (simp add: bs_def nth_append behind_def hd_conv_nth)
    ultimately have m: "take 8 bs \<noteq> record_magic" "length (take 8 bs) = 8"
      using False by (metis, simp)
    have "reader_of (take 44 bs) = rd_at [] (take 8 bs @ take 36 (drop 8 bs))"
      by (simp add: reader_of_rd_at flip: take_add)
    then have "fst (get_raw 8 (reader_of (take 44 bs))) = Some (take 8 bs)"
      using m(2) by (simp add: get_raw_at)
    then show ?thesis using False m(1) unfolding bs_def [symmetric]
      by (simp add: scan_record_def kRecordHeaderBytes_def case_prod_beta Let_def)
  qed (simp add: scan_record_short bs_def)
qed

lemma scan_behind_torn:
  assumes "list_all record_wf rs" "behind rest" "0 < n" "n < 8"
  shows "\<exists>e. scan_journal (log_bytes rs @ take n (record_bytes r) @ rest) 0 = (length (log_bytes rs), e) \<and>
    fst e \<noteq> RoClean"
proof -
  have t: "take n (record_bytes r) = take n record_magic"
    using assms(4) by (simp add: record_bytes_eq record_head_def)
  have ne: "take n record_magic \<noteq> []" using assms(3) by (simp add: record_magic_def)
  have wf: "\<And>r. r \<in> set rs \<Longrightarrow> record_wf r" using assms(1) by (simp add: list_all_iff)
  have "scan_journal (log_bytes rs @ take n (record_bytes r) @ rest) 0 =
      scan_journal (log_bytes rs @ take n (record_bytes r) @ rest) (length (log_bytes rs))"
    using journal.scan_skip [of rs "[]"] wf by (simp add: log_bytes_def)
  also have "\<exists>e. \<dots> = (length (log_bytes rs), e) \<and> fst e \<noteq> RoClean"
    using scan_record_shifted [OF assms(3,4,2)] ne by (subst scan_journal.simps) (auto simp: t)
  finally show ?thesis .
qed

text \<open>Any number of later appends, whatever the operating system answers to each.\<close>

fun append_all :: "(io \<times> journaled_record) list \<Rightarrow> store \<Rightarrow> bool list \<times> store" where
  "append_all [] s = ([], s)"
| "append_all ((i, r) # xs) s =
     (let (st, s) = store_append i (jr_type r) (jr_seq r) (jr_tick r) (jr_payload r) s; (acks, s) = append_all xs s
      in (is_ok st # acks, s))"

lemma append_extends:
  assumes "ds_open s" "ds_journal s = Some b" "store_append i t seq now p s = (st, s')"
  shows "ds_open s' \<and> ds_snapshot s' = ds_snapshot s \<and> ds_config s' = ds_config s \<and>
    (\<exists>rest. behind rest \<and> ds_journal s' = Some (b @ rest))"
proof -
  have "hd (take k (build_record t seq now p)) = 0x4D \<or> take k (build_record t seq now p) = []" for k
    by (cases k) (simp_all add: build_record_def put_raw_def record_magic_def Let_def)
  then have "behind (written i (build_record t seq now p))" "behind []"
    by (auto simp: written_def behind_def build_record_def put_raw_def record_magic_def Let_def)
  then have w: "\<exists>rest. behind rest \<and> b @ written i (build_record t seq now p) = b @ rest" "\<exists>rest. behind rest \<and> b = b @ rest"
    by blast+
  show ?thesis using assms w
    by (auto simp: store_append_def Let_def split: if_splits prod.splits)
qed

lemma behind_append: "behind a \<Longrightarrow> behind b \<Longrightarrow> behind (a @ b)"
  by (cases a) (auto simp: behind_def)

lemma append_all_extends:
  assumes "ds_open s" "ds_journal s = Some b" "append_all xs s = (acks, s')"
  shows "ds_open s' \<and> ds_snapshot s' = ds_snapshot s \<and> (\<exists>rest. behind rest \<and> ds_journal s' = Some (b @ rest))"
  using assms
proof (induction xs arbitrary: s b acks)
  case Nil
  then show ?case by (simp add: behind_def)
next
  case (Cons x xs)
  obtain i r where x: "x = (i, r)" by (cases x)
  obtain st s1 where a: "store_append i (jr_type r) (jr_seq r) (jr_tick r) (jr_payload r) s = (st, s1)" by fastforce
  obtain c where c: "behind c" "ds_open s1" "ds_snapshot s1 = ds_snapshot s" "ds_journal s1 = Some (b @ c)"
    using append_extends [OF Cons.prems(1,2) a] by blast
  obtain acks' where "append_all xs s1 = (acks', s')" using Cons.prems(3) by (auto simp: x a split: prod.splits)
  from Cons.IH [OF c(2,4) this] show ?case using c(1,3) behind_append by fastforce
qed

text \<open>An append is acknowledged when there is room and the operating system works.\<close>

lemma append_acknowledged:
  assumes "ds_open s" "record_wf r" "unat (ds_journal_bytes s) + length (record_bytes r) \<le> unat (sc_max_journal_bytes (ds_config s))"
    "store_append io_fine (jr_type r) (jr_seq r) (jr_tick r) (jr_payload r) s = (st, s')"
  shows "is_ok st" "ds_open s'" "ds_config s' = ds_config s"
    "unat (ds_journal_bytes s') = unat (ds_journal_bytes s) + length (record_bytes r)"
proof -
  define n where "n = (of_nat kRecordHeaderBytes :: u64) + of_nat (length (jr_payload r))"
  have p: "length (jr_payload r) \<le> 2 ^ 20" using assms(2) by (simp add: record_wf_def kMaxJournalRecordBytes_def)
  have small: "unat (of_nat k :: u64) = k" if "k \<le> 2 ^ 30" for k
    using that by (simp add: unat_of_nat take_bit_nat_eq_self)
  have "n = of_nat (44 + length (jr_payload r))" by (simp add: n_def kRecordHeaderBytes_def)
  also have "unat \<dots> = 44 + length (jr_payload r)" by (rule small) (use p in simp)
  finally have n: "unat n = length (record_bytes r)" by simp
  have m: "unat (sc_max_journal_bytes (ds_config s)) < 2 ^ 64" using unat_bound [of "sc_max_journal_bytes (ds_config s)"] by simp
  have add: "add_checked_u (ds_journal_bytes s) n = Some (ds_journal_bytes s + n)"
    "unat (ds_journal_bytes s + n) = unat (ds_journal_bytes s) + length (record_bytes r)"
    using assms(3) m n by (simp_all add: add_checked_u_exact unat_add_no_wrap)
  have v: "is_valid_record_type (record_type_raw (jr_type r))" "length (jr_payload r) \<le> kMaxJournalRecordBytes"
    using assms(2) by (simp_all add: record_wf_def record_type_valid_iff)
  have le: "\<not> sc_max_journal_bytes (ds_config s) < ds_journal_bytes s + n"
    using assms(3) add(2) by (simp add: word_less_nat_alt)
  from assms(4,1) v add le
  show "is_ok st" "ds_open s'" "ds_config s' = ds_config s"
    "unat (ds_journal_bytes s') = unat (ds_journal_bytes s) + length (record_bytes r)"
    by (auto simp: store_append_def flush_handle_def n_def [symmetric] Let_def split: if_splits)
qed

lemma append_all_acknowledged:
  assumes "ds_open s" "list_all (\<lambda>(i, r). i = io_fine \<and> record_wf r) xs" "append_all xs s = (acks, s')"
    "unat (ds_journal_bytes s) + length (log_bytes (map snd xs)) \<le> unat (sc_max_journal_bytes (ds_config s))"
  shows "acks = replicate (length xs) True"
  using assms
proof (induction xs arbitrary: s acks)
  case (Cons x xs)
  obtain r where x: "x = (io_fine, r)" "record_wf r" using Cons.prems(2) by (cases x) simp
  obtain st s1 where a: "store_append io_fine (jr_type r) (jr_seq r) (jr_tick r) (jr_payload r) s = (st, s1)" by fastforce
  have room: "unat (ds_journal_bytes s) + length (record_bytes r) \<le> unat (sc_max_journal_bytes (ds_config s))"
    using Cons.prems(4) by (simp add: x log_bytes_def)
  note ok = append_acknowledged [OF Cons.prems(1) x(2) room a]
  obtain acks' where acks': "append_all xs s1 = (acks', s')" "acks = is_ok st # acks'"
    using Cons.prems(3) by (auto simp: x a split: prod.splits)
  have "acks' = replicate (length xs) True"
    by (rule Cons.IH [OF ok(2) _ acks'(1)]) (use Cons.prems ok in \<open>simp_all add: x log_bytes_def\<close>)
  then show ?case using acks' ok(1) by simp
qed simp

lemma torn_append_hides:
  assumes "store_holds s rs" "store_append i t seq now p s = (st, s1)" "ds_journal s1 \<noteq> ds_journal s"
    "\<not> (io_write i \<and> io_flush i)" "0 < io_reached i" "io_reached i < 8" "append_all xs s1 = (acks, s2)"
    and visitor: "\<And>r acc. is_ok (fst (v r acc))"
    and size: "length (the (ds_journal s2)) \<le> kMaxJournalBytes"
  shows "\<not> is_ok st"
    "\<exists>rep payload s3. store_replay io_fine v s2 acc =
      (Inr (rep, payload), s3, fold (\<lambda>r acc. snd (v r acc)) rs acc) \<and> ds_journal s3 = Some (log_bytes rs)"
proof -
  define r where "r = \<lparr>jr_type = t, jr_seq = seq, jr_tick = now, jr_payload = p\<rparr>"
  have h: "list_all record_wf rs" "ds_journal s = Some (log_bytes rs)" "ds_open s"
    "case ds_snapshot s of None \<Rightarrow> True | Some b \<Rightarrow> length b \<le> kMaxSnapshotBytes"
    using assms(1) by (simp_all add: store_holds_def)
  show st: "\<not> is_ok st" using assms(2,4) h(3)
    by (auto simp: store_append_def flush_handle_def failure_def is_ok_def Let_def split: if_splits)
  with store_append_cases(2) [OF assms(1,2)] assms(3)
  have s1: "s1 = s\<lparr>ds_journal := Some (log_bytes rs @ take (io_reached i) (record_bytes r))\<rparr>"
    using assms(4) by (auto simp: written_def r_def)
  have o: "ds_open s1" "ds_journal s1 = Some (log_bytes rs @ take (io_reached i) (record_bytes r))"
    using h(3) by (simp_all add: s1)
  obtain rest where q: "behind rest" "ds_open s2" "ds_snapshot s2 = ds_snapshot s"
    "ds_journal s2 = Some (log_bytes rs @ take (io_reached i) (record_bytes r) @ rest)"
    using append_all_extends [OF o assms(7)] s1 by auto
  obtain e where scan: "scan_journal (log_bytes rs @ take (io_reached i) (record_bytes r) @ rest) 0 =
      (length (log_bytes rs), e)"
    using scan_behind_torn [OF h(1) q(1) assms(5,6)] by blast
  show "\<exists>rep payload s3. store_replay io_fine v s2 acc =
      (Inr (rep, payload), s3, fold (\<lambda>r acc. snd (v r acc)) rs acc) \<and> ds_journal s3 = Some (log_bytes rs)"
    by (rule replay_prefix [OF h(1) q(4) q(2) _ _ scan visitor]) (use h(4) q(3,4) size in simp_all)
qed

end
