(* ===== verification/Governor.thy ===== *)
theory Governor
  imports Detector Snapshots Journal "HOL-Library.Multiset"
begin

text \<open>
  The governor (\<open>src/governor.cpp\<close>, \<open>include/mbg/governor.hpp\<close>): one record holds what the class
  keeps, and every public operation and every \<open>_locked\<close> body is a function of it.

  \<open>std::map\<close> of streams is an association list kept in key order; the \<open>std::unordered_map\<close>s of open
  events and interventions are association lists with distinct keys, whose order stands for the
  iteration order C++ leaves open (the model appends). The bound store is part of the record; what
  the operating system answers to the store's calls is the sequence \<open>gv_env\<close>, one \<open>io\<close> per call.
  \<open>StateLock\<close> makes each operation one step, so it has no counterpart.
\<close>

section \<open>Data\<close>

datatype emission_kind =
    EkEpisodeOpened | EkEpisodeClosed | EkEpisodeFenced | EkInterventionRequested
  | EkInterventionStateChanged | EkPolicyInstalled | EkAuthorityBound

primrec emission_kind_to_string :: "emission_kind \<Rightarrow> string" where
  "emission_kind_to_string EkEpisodeOpened = ''episode-opened''"
| "emission_kind_to_string EkEpisodeClosed = ''episode-closed''"
| "emission_kind_to_string EkEpisodeFenced = ''episode-fenced''"
| "emission_kind_to_string EkInterventionRequested = ''intervention-requested''"
| "emission_kind_to_string EkInterventionStateChanged = ''intervention-state-changed''"
| "emission_kind_to_string EkPolicyInstalled = ''policy-installed''"
| "emission_kind_to_string EkAuthorityBound = ''authority-bound''"

record emission =
  em_kind :: emission_kind
  em_tick :: tick
  em_event :: burst_event
  em_intervention :: intervention_intent
  em_policy_generation :: u32
  em_epoch :: u32
  em_incarnation :: u64

definition emission_of :: "emission_kind \<Rightarrow> tick \<Rightarrow> emission" where
  "emission_of k now = \<lparr>em_kind = k, em_tick = now, em_event = event_default,
     em_intervention = intent_default, em_policy_generation = id_invalid, em_epoch = id_invalid,
     em_incarnation = id_invalid\<rparr>"

record governor_stats =
  gs_samples_ingested :: u64
  gs_samples_rejected :: u64
  gs_samples_duplicate :: u64
  gs_samples_reordered :: u64
  gs_samples_discontinuity :: u64
  gs_evaluations :: u64
  gs_decisions :: u64
  gs_episodes_opened :: u64
  gs_episodes_closed :: u64
  gs_episodes_fenced :: u64
  gs_interventions_requested :: u64
  gs_interventions_refreshed :: u64
  gs_interventions_revoked :: u64
  gs_interventions_expired :: u64
  gs_interventions_suppressed :: u64
  gs_policy_changes :: u64
  gs_authority_changes :: u64
  gs_emissions_emitted :: u64
  gs_emissions_dropped :: u64
  gs_events_evicted :: u64
  gs_streams :: u64
  gs_reentrancy_rejections :: u64
  gs_durable_records_written :: u64
  gs_durable_append_failures :: u64
  gs_durable_compactions :: u64

definition stats_zero :: governor_stats where
  "stats_zero = \<lparr>gs_samples_ingested = 0, gs_samples_rejected = 0, gs_samples_duplicate = 0,
     gs_samples_reordered = 0, gs_samples_discontinuity = 0, gs_evaluations = 0, gs_decisions = 0,
     gs_episodes_opened = 0, gs_episodes_closed = 0, gs_episodes_fenced = 0,
     gs_interventions_requested = 0, gs_interventions_refreshed = 0, gs_interventions_revoked = 0,
     gs_interventions_expired = 0, gs_interventions_suppressed = 0, gs_policy_changes = 0,
     gs_authority_changes = 0, gs_emissions_emitted = 0, gs_emissions_dropped = 0,
     gs_events_evicted = 0, gs_streams = 0, gs_reentrancy_rejections = 0,
     gs_durable_records_written = 0, gs_durable_append_failures = 0, gs_durable_compactions = 0\<rparr>"

record stream_entry =
  se_detector :: detector
  se_last_processed :: tick
  se_has_processed :: bool

record governor_config =
  gc_policy :: policy
  gc_epoch :: u32
  gc_incarnation :: u64
  gc_boot :: u64
  gc_enable_interventions :: bool
  gc_enable_journal :: bool

definition governor_config_default :: governor_config where
  "governor_config_default = \<lparr>gc_policy = make_default_policy, gc_epoch = 1, gc_incarnation = id_invalid,
     gc_boot = id_invalid, gc_enable_interventions = True, gc_enable_journal = True\<rparr>"

record governor =
  gv_config :: governor_config
  gv_policies :: policy_set
  gv_streams :: "(stream_key \<times> stream_entry) list"
  gv_resource_generations :: "u64 \<rightharpoonup> u32"
  gv_open_events :: "(u64 \<times> burst_event) list"
  gv_history :: "burst_event list"
  gv_history_head :: nat
  gv_interventions :: "(u64 \<times> intervention_intent) list"
  gv_intervention_history :: "intervention_intent list"
  gv_emissions :: "emission list"
  gv_stats :: governor_stats
  gv_context :: authority_context
  gv_decision_seq :: u64
  gv_record_seq :: u64
  gv_store :: "store option"
  gv_last_tick :: tick
  gv_env :: "nat \<Rightarrow> io"
  gv_env_pos :: nat

record ingest_outcome =
  io_status :: status
  io_accept :: window_accept
  io_classification :: classification
  io_evaluated :: bool
  io_decision :: decision

record advance_result =
  ar_streams_evaluated :: nat
  ar_decisions_changed :: nat
  ar_interventions_changed :: nat

section \<open>Small helpers\<close>

definition make_intervention_id :: "u64 \<Rightarrow> intervention_kind \<Rightarrow> tick \<Rightarrow> u64" where
  "make_intervention_id event kind issued =
     (let h = 0x1D1E2D3C4B5A6978;
          h = hash_combine h event;
          h = hash_combine h (ucast (kind_raw kind));
          h = hash_combine h issued
      in if h = id_invalid then h XOR 0x9E3779B97F4A7C15 else h)"

definition scale_magnitude :: "u32 \<Rightarrow> severity \<Rightarrow> u32" where
  "scale_magnitude maximum sev =
     (let ordinal = ucast (severity_raw sev) :: u64;
          scaled = (ucast maximum * ordinal + 3) div 4;
          bounded = min scaled (ucast maximum)
      in ucast (max bounded 1))"

definition add_ticks_checked :: "tick \<Rightarrow> u64 \<Rightarrow> tick" where
  "add_ticks_checked base span =
     (case add_checked_u base span of None \<Rightarrow> - 1 | Some v \<Rightarrow> v)"

text \<open>\<open>m[k] = v\<close>, \<open>m.emplace(k, v)\<close> and \<open>m.erase(k)\<close> on an \<open>unordered_map\<close>.\<close>

fun assign :: "'k \<Rightarrow> 'v \<Rightarrow> ('k \<times> 'v) list \<Rightarrow> ('k \<times> 'v) list" where
  "assign k v [] = [(k, v)]"
| "assign k v ((a, b) # m) = (if a = k then (k, v) # m else (a, b) # assign k v m)"

definition emplace_new :: "'k \<Rightarrow> 'v \<Rightarrow> ('k \<times> 'v) list \<Rightarrow> ('k \<times> 'v) list" where
  "emplace_new k v m = (if map_of m k = None then m @ [(k, v)] else m)"

definition erase :: "'k \<Rightarrow> ('k \<times> 'v) list \<Rightarrow> ('k \<times> 'v) list" where
  "erase k m = filter (\<lambda>(a, b). a \<noteq> k) m"

text \<open>Insertion into the ordered map of streams.\<close>

fun insert_stream :: "stream_key \<Rightarrow> 'v \<Rightarrow> (stream_key \<times> 'v) list \<Rightarrow> (stream_key \<times> 'v) list" where
  "insert_stream k v [] = [(k, v)]"
| "insert_stream k v ((a, b) # m) =
     (if k < a then (k, v) # (a, b) # m else if k = a then (k, v) # m
      else (a, b) # insert_stream k v m)"

definition count_stat :: "((u64 \<Rightarrow> u64) \<Rightarrow> governor_stats \<Rightarrow> governor_stats) \<Rightarrow> governor \<Rightarrow> governor" where
  "count_stat field g = g\<lparr>gv_stats := field (\<lambda>n. n + 1) (gv_stats g)\<rparr>"

definition push_emission :: "emission \<Rightarrow> governor \<Rightarrow> governor" where
  "push_emission e g =
     (let g = (if length (gv_emissions g) \<ge> kMaxPendingEmissions
            then count_stat gs_emissions_dropped_update (g\<lparr>gv_emissions := tl (gv_emissions g)\<rparr>) else g)
      in count_stat gs_emissions_emitted_update (g\<lparr>gv_emissions := gv_emissions g @ [e]\<rparr>))"

definition record_event :: "burst_event \<Rightarrow> governor \<Rightarrow> governor" where
  "record_event e g =
     (if length (gv_history g) < kMaxEventHistory then g\<lparr>gv_history := gv_history g @ [e]\<rparr>
      else count_stat gs_events_evicted_update
        (g\<lparr>gv_history := (gv_history g)[gv_history_head g := e],
           gv_history_head := (gv_history_head g + 1) mod kMaxEventHistory\<rparr>))"

definition history_ordered :: "governor \<Rightarrow> burst_event list" where
  "history_ordered g = map (\<lambda>i. gv_history g ! ((gv_history_head g + i) mod length (gv_history g)))
     [0..<length (gv_history g)]"

section \<open>Durability\<close>

definition collect_persisted_interventions :: "governor \<Rightarrow> intervention_intent list" where
  "collect_persisted_interventions g =
     (let out = gv_intervention_history g @ map snd (gv_interventions g)
      in if length out > kMaxInterventions then drop (length out - kMaxInterventions) out else out)"

definition export_state :: "governor \<Rightarrow> persisted_state" where
  "export_state g =
     \<lparr>pd_boot = ax_boot (gv_context g), pd_epoch = ax_epoch (gv_context g),
      pd_incarnation = ax_incarnation (gv_context g), pd_policies = gv_policies g,
      pd_events = history_ordered g @ map snd (gv_open_events g),
      pd_interventions = collect_persisted_interventions g,
      pd_last_decision_seq = gv_decision_seq g, pd_last_record_seq = gv_record_seq g,
      pd_last_tick = gv_last_tick g, pd_decisions = gs_decisions (gv_stats g),
      pd_episodes_opened = gs_episodes_opened (gv_stats g),
      pd_episodes_closed = gs_episodes_closed (gv_stats g),
      pd_episodes_fenced = gs_episodes_fenced (gv_stats g),
      pd_interventions_requested = gs_interventions_requested (gv_stats g),
      pd_interventions_revoked = gs_interventions_revoked (gv_stats g)\<rparr>"

text \<open>The answer of the operating system to the next store call.\<close>

definition env_now :: "governor \<Rightarrow> io" where
  "env_now g = gv_env g (gv_env_pos g)"

definition compact :: "governor \<Rightarrow> status \<times> governor" where
  "compact g =
     (case gv_store g of
        None \<Rightarrow> (failure StNotFound ''no durable store is bound'', g)
      | Some s \<Rightarrow>
          let payload = encode_state (export_state g)
          in if length payload > kMaxSnapshotBytes then
               (failure StOversized ''checkpoint payload exceeds the bound'', g)
             else let (st, s) = write_snapshot (env_now g) (gv_env g (gv_env_pos g + 1)) payload
                    (gv_record_seq g) (gv_last_tick g) s
             in (st, g\<lparr>gv_store := Some s, gv_env_pos := gv_env_pos g + 2\<rparr>))"

definition call_append :: "record_type \<Rightarrow> byte list \<Rightarrow> tick \<Rightarrow> governor \<Rightarrow> status \<times> governor" where
  "call_append t payload now g =
     (case gv_store g of
        None \<Rightarrow> (failure StIo ''durable store is not open'', g)
      | Some s \<Rightarrow>
          let (st, s) = store_append (env_now g) t (gv_record_seq g) now payload s
          in (st, g\<lparr>gv_store := Some s, gv_env_pos := gv_env_pos g + 1\<rparr>))"

definition append_finish :: "status \<Rightarrow> governor \<Rightarrow> governor" where
  "append_finish st g =
     (if \<not> is_ok st then count_stat gs_durable_append_failures_update g
      else count_stat gs_durable_records_written_update g)"

definition append_record :: "record_type \<Rightarrow> byte list \<Rightarrow> tick \<Rightarrow> governor \<Rightarrow> governor" where
  "append_record t payload now g =
     (if gv_store g = None then g
      else
        let g = g\<lparr>gv_record_seq := gv_record_seq g + 1\<rparr>;
            (st, g) = call_append t payload now g
        in if st_code st = StCapacityExceeded then
             let (compacted, g) = compact g
             in if is_ok compacted then
                  let (st, g) = call_append t payload now (count_stat gs_durable_compactions_update g)
                  in append_finish st g
                else count_stat gs_durable_append_failures_update g
           else append_finish st g)"

text \<open>Every call site tests the store and the configuration first.\<close>

definition journal_record :: "record_type \<Rightarrow> byte list \<Rightarrow> tick \<Rightarrow> governor \<Rightarrow> governor" where
  "journal_record t payload now g =
     (if gv_store g \<noteq> None \<and> gc_enable_journal (gv_config g) then append_record t payload now g else g)"

section \<open>Authority\<close>

definition retire_intervention ::
  "u64 \<Rightarrow> intervention_intent \<Rightarrow> authority_verdict \<Rightarrow> tick \<Rightarrow> governor \<Rightarrow> governor" where
  "retire_intervention i intent verdict now g =
     (let intent = intent\<lparr>ii_state := (if verdict = AvExpired then IsExpired else IsRevoked),
            ii_revocation_verdict := verdict, ii_state_changed_tick := now\<rparr>;
          g = g\<lparr>gv_interventions := assign i intent (gv_interventions g)\<rparr>;
          g = (if ii_state intent = IsExpired then count_stat gs_interventions_expired_update g
               else count_stat gs_interventions_revoked_update g);
          hist = gv_intervention_history g @ [intent];
          g = g\<lparr>gv_intervention_history := (if length hist > kMaxInterventions then tl hist else hist)\<rparr>;
          g = push_emission ((emission_of EkInterventionStateChanged now)\<lparr>em_intervention := intent\<rparr>) g
      in journal_record RtInterventionStateChanged (encode_intent intent) now g)"

definition observed_generation :: "governor \<Rightarrow> u64 \<Rightarrow> u32" where
  "observed_generation g resource =
     (case gv_resource_generations g resource of None \<Rightarrow> id_invalid | Some generation \<Rightarrow> generation)"

definition intent_verdict :: "tick \<Rightarrow> governor \<Rightarrow> intervention_intent \<Rightarrow> authority_verdict" where
  "intent_verdict now g intent =
     (let verdict = evaluate_authority (ii_authority intent) (gv_context g)
            (observed_generation g (sk_resource (ii_stream intent))) now
      in if verdict = AvValid \<and> map_of (gv_open_events g) (ii_event intent) = None then AvEventClosed
         else verdict)"

text \<open>
  The loop over the interventions, by their identities at its start; it returns the identities to
  erase and the number of intents it has retired.
\<close>

fun refresh_loop :: "tick \<Rightarrow> u64 \<Rightarrow> u64 list \<Rightarrow> u64 list \<Rightarrow> nat \<Rightarrow> governor \<Rightarrow> u64 list \<times> nat \<times> governor" where
  "refresh_loop now only [] retire revoked g = (retire, revoked, g)"
| "refresh_loop now only (i # ids) retire revoked g =
     (case map_of (gv_interventions g) i of
        None \<Rightarrow> refresh_loop now only ids retire revoked g
      | Some intent \<Rightarrow>
          if id_valid only \<and> ii_event intent \<noteq> only then refresh_loop now only ids retire revoked g
          else if \<not> intent_live intent then refresh_loop now only ids (retire @ [i]) revoked g
          else let verdict = intent_verdict now g intent
          in if verdict = AvValid then refresh_loop now only ids retire revoked g
             else refresh_loop now only ids (retire @ [i]) (revoked + 1)
               (retire_intervention i intent verdict now g))"

definition refresh_authority :: "tick \<Rightarrow> u64 \<Rightarrow> governor \<Rightarrow> nat \<times> governor" where
  "refresh_authority now only g =
     (let (retire, revoked, g) = refresh_loop now only (map fst (gv_interventions g)) [] 0 g
      in (revoked, g\<lparr>gv_interventions := fold erase retire (gv_interventions g)\<rparr>))"

fun revoke_loop :: "authority_verdict \<Rightarrow> tick \<Rightarrow> u64 list \<Rightarrow> u64 list \<Rightarrow> nat \<Rightarrow> governor \<Rightarrow> u64 list \<times> nat \<times> governor" where
  "revoke_loop verdict now [] retire revoked g = (retire, revoked, g)"
| "revoke_loop verdict now (i # ids) retire revoked g =
     (case map_of (gv_interventions g) i of
        None \<Rightarrow> revoke_loop verdict now ids retire revoked g
      | Some intent \<Rightarrow>
          if \<not> intent_live intent then revoke_loop verdict now ids (retire @ [i]) revoked g
          else revoke_loop verdict now ids (retire @ [i]) (revoked + 1)
            (retire_intervention i intent verdict now g))"

definition revoke_all_live :: "authority_verdict \<Rightarrow> tick \<Rightarrow> governor \<Rightarrow> nat \<times> governor" where
  "revoke_all_live verdict now g =
     (let (retire, revoked, g) = revoke_loop verdict now (map fst (gv_interventions g)) [] 0 g
      in (revoked, g\<lparr>gv_interventions := fold erase retire (gv_interventions g)\<rparr>))"

section \<open>Interventions\<close>

definition refresh_intent ::
  "decision \<Rightarrow> kind_limit \<Rightarrow> tick \<Rightarrow> u64 \<Rightarrow> intervention_intent \<Rightarrow> intervention_intent" where
  "refresh_intent dec limit now seq intent =
     (let magnitude = scale_magnitude (kl_magnitude_permille limit) (dd_severity dec)
      in intent\<lparr>ii_magnitude_permille := max (ii_magnitude_permille intent) magnitude,
           ii_authority := (ii_authority intent)\<lparr>au_expiry_tick := add_ticks_checked now (kl_ttl_ticks limit)\<rparr>,
           ii_state := IsActive, ii_state_changed_tick := now, ii_seq := seq,
           ii_justification_severity := severity_max (ii_justification_severity intent) (dd_severity dec)\<rparr>)"

definition new_intent ::
  "decision \<Rightarrow> intervention_kind \<Rightarrow> kind_limit \<Rightarrow> tick \<Rightarrow> governor \<Rightarrow> intervention_intent" where
  "new_intent dec kind limit now g =
     (let c = gv_context g in
      intent_default\<lparr>ii_id := make_intervention_id (dd_event dec) kind now, ii_event := dd_event dec,
        ii_stream := dd_stream dec, ii_kind := kind, ii_state := IsRequested,
        ii_magnitude_permille := min (scale_magnitude (kl_magnitude_permille limit) (dd_severity dec))
          kMaxMagnitudePermille,
        ii_ttl_ticks := kl_ttl_ticks limit,
        ii_authority := \<lparr>au_policy_generation = ax_policy_generation c,
          au_policy_digest = ax_policy_digest c,
          au_evidence_generation = hash_combine (dd_event dec) (dd_tick dec),
          au_resource_generation = observed_generation g (sk_resource (dd_stream dec)),
          au_epoch = ax_epoch c, au_incarnation = ax_incarnation c, au_boot = ax_boot c,
          au_issued_tick = now, au_expiry_tick = add_ticks_checked now (kl_ttl_ticks limit)\<rparr>,
        ii_seq := gv_decision_seq g, ii_justification_severity := dd_severity dec,
        ii_trigger := RcInterventionRequested, ii_state_changed_tick := now\<rparr>)"

text \<open>The live intent of the same event and kind, if there is one.\<close>

definition find_live :: "u64 \<Rightarrow> intervention_kind \<Rightarrow> (u64 \<times> intervention_intent) list \<Rightarrow> (u64 \<times> intervention_intent) option" where
  "find_live event kind m =
     find (\<lambda>(i, intent). intent_live intent \<and> ii_event intent = event \<and> ii_kind intent = kind) m"

fun request_kinds ::
  "decision \<Rightarrow> tick \<Rightarrow> intervention_policy \<Rightarrow> (intervention_kind \<times> kind_limit) list \<Rightarrow> nat \<Rightarrow> nat \<Rightarrow>
     governor \<Rightarrow> governor" where
  "request_kinds dec now ip [] live_for_stream live_total g = g"
| "request_kinds dec now ip ((kind, limit) # rest) live_for_stream live_total g =
     (if \<not> kl_enabled limit \<or> \<not> severity_at_least (dd_severity dec) (kl_min_severity limit) \<or>
         ip_require_authoritative_evidence ip \<and> dd_authority dec \<noteq> EvAuthoritative then
        request_kinds dec now ip rest live_for_stream live_total
          (count_stat gs_interventions_suppressed_update g)
      else case find_live (dd_event dec) kind (gv_interventions g) of
        Some (i, intent) \<Rightarrow>
          let intent = refresh_intent dec limit now (gv_decision_seq g) intent;
              g = count_stat gs_interventions_refreshed_update
                    (g\<lparr>gv_interventions := assign i intent (gv_interventions g)\<rparr>);
              g = push_emission ((emission_of EkInterventionStateChanged now)\<lparr>em_intervention := intent\<rparr>) g;
              g = journal_record RtInterventionStateChanged (encode_intent intent) now g
          in request_kinds dec now ip rest live_for_stream live_total g
      | None \<Rightarrow>
          if live_for_stream \<ge> unat (ip_max_concurrent_per_stream ip) \<or>
             live_total \<ge> unat (ip_max_concurrent_total ip) \<or>
             length (gv_interventions g) \<ge> kMaxInterventions then
            request_kinds dec now ip rest live_for_stream live_total
              (count_stat gs_interventions_suppressed_update g)
          else
            let intent = new_intent dec kind limit now g;
                g = count_stat gs_interventions_requested_update
                      (g\<lparr>gv_interventions := emplace_new (ii_id intent) intent (gv_interventions g)\<rparr>);
                g = push_emission ((emission_of EkInterventionRequested now)\<lparr>em_intervention := intent\<rparr>) g;
                g = journal_record RtInterventionRequested (encode_intent intent) now g
            in request_kinds dec now ip rest (live_for_stream + 1) (live_total + 1) g)"

definition all_kinds :: "intervention_kind list" where
  "all_kinds = [IkRequestPacing, IkTemporaryAdmissionReduction, IkTemporaryHeadroomIncrease,
     IkEscalateToCongestionFabric]"

definition maybe_request_interventions :: "decision \<Rightarrow> tick \<Rightarrow> governor \<Rightarrow> governor" where
  "maybe_request_interventions dec now g =
     (if \<not> gc_enable_interventions (gv_config g) then count_stat gs_interventions_suppressed_update g
      else
        let ip = po_intervention (resolve (gv_policies g) (sk_resource (dd_stream dec)));
            live = filter (\<lambda>(i, intent). intent_live intent) (gv_interventions g);
            for_stream = filter (\<lambda>(i, intent). ii_stream intent = dd_stream dec) live
        in request_kinds dec now ip (zip all_kinds (ip_kinds ip)) (length for_stream) (length live) g)"

section \<open>Decisions\<close>

text \<open>The event of a decision, stamped with the authority and the decision sequence.\<close>

definition stamp_context :: "authority_context \<Rightarrow> burst_event \<Rightarrow> burst_event" where
  "stamp_context c e = e\<lparr>ev_epoch := ax_epoch c, ev_incarnation := ax_incarnation c, ev_boot := ax_boot c\<rparr>"

definition process_opened :: "burst_event \<Rightarrow> tick \<Rightarrow> governor \<Rightarrow> governor" where
  "process_opened e now g =
     (let g = count_stat gs_episodes_opened_update
                (g\<lparr>gv_open_events := assign (ev_id e) e (gv_open_events g)\<rparr>);
          g = push_emission ((emission_of EkEpisodeOpened now)\<lparr>em_event := e\<rparr>) g
      in journal_record RtEpisodeOpened (encode_event e) now g)"

definition process_closed :: "bool \<Rightarrow> burst_event \<Rightarrow> tick \<Rightarrow> governor \<Rightarrow> governor" where
  "process_closed fenced e now g =
     (let g = g\<lparr>gv_open_events := erase (ev_id e) (gv_open_events g)\<rparr>;
          (revoked, g) = refresh_authority now (ev_id e) g;
          g = record_event e g;
          g = (if fenced then count_stat gs_episodes_fenced_update g
               else count_stat gs_episodes_closed_update g);
          g = push_emission
                ((emission_of (if fenced then EkEpisodeFenced else EkEpisodeClosed) now)\<lparr>em_event := e\<rparr>) g
      in journal_record (if fenced then RtEpisodeFenced else RtEpisodeClosed) (encode_event e) now g)"

definition process_decision :: "detector \<Rightarrow> decision \<Rightarrow> tick \<Rightarrow> governor \<Rightarrow> governor" where
  "process_decision d dec now g =
     (let g = count_stat gs_decisions_update (count_stat gs_evaluations_update g);
          g = g\<lparr>gv_decision_seq := gv_decision_seq g + 1\<rparr>;
          e = stamp_context (gv_context g) (dt_episode d);
          e = e\<lparr>ev_last_seq := gv_decision_seq g\<rparr>;
          e = (if dd_opened dec then e\<lparr>ev_opened_seq := gv_decision_seq g\<rparr> else e);
          g = (if dd_opened dec then process_opened e now g
               else if dd_updated dec \<and> \<not> dd_closed dec
               then g\<lparr>gv_open_events := assign (ev_id e) e (gv_open_events g)\<rparr> else g);
          g = (if dd_closed dec then process_closed (dd_fenced dec) e now g else g)
      in if is_positive (dd_classification dec) \<and> \<not> dd_suppressed_by_cooldown dec
         then maybe_request_interventions dec now g else g)"

definition outcome_default :: ingest_outcome where
  "outcome_default = \<lparr>io_status = status_ok, io_accept = WaAccepted, io_classification = ClUnknown,
     io_evaluated = False, io_decision = decision_default\<rparr>"

definition count_accept :: "window_accept \<Rightarrow> governor \<Rightarrow> governor" where
  "count_accept a g =
     (case a of
        WaDuplicate \<Rightarrow> count_stat gs_samples_duplicate_update g
      | WaReordered \<Rightarrow> count_stat gs_samples_reordered_update g
      | WaDiscontinuity \<Rightarrow> count_stat gs_samples_discontinuity_update g
      | WaAccepted \<Rightarrow> count_stat gs_samples_ingested_update g
      | WaCapacityChanged \<Rightarrow> count_stat gs_samples_ingested_update g)"

definition entry_new :: "stream_key \<Rightarrow> policy \<Rightarrow> u32 \<Rightarrow> stream_entry" where
  "entry_new k p generation = \<lparr>se_detector = detector_new k p generation, se_last_processed = 0,
     se_has_processed = False\<rparr>"

definition entry_due :: "stream_entry \<Rightarrow> decision \<Rightarrow> bool" where
  "entry_due entry dec \<longleftrightarrow> \<not> se_has_processed entry \<or> tick_after (se_last_processed entry) (dd_tick dec)"

text \<open>The stream of a sample is created on its first sample, up to the stream bound.\<close>

definition find_or_create :: "stream_key \<Rightarrow> governor \<Rightarrow> (stream_entry \<times> governor) option" where
  "find_or_create k g =
     (case map_of (gv_streams g) k of
        Some entry \<Rightarrow> Some (entry, g)
      | None \<Rightarrow>
          if length (gv_streams g) \<ge> kMaxStreams then None
          else let entry = entry_new k (resolve (gv_policies g) (sk_resource k)) (ps_generation (gv_policies g));
                   g = g\<lparr>gv_streams := insert_stream k entry (gv_streams g)\<rparr>
               in Some (entry, g\<lparr>gv_stats := (gv_stats g)\<lparr>gs_streams := of_nat (length (gv_streams g))\<rparr>\<rparr>))"

definition ingest_decision ::
  "stream_key \<Rightarrow> stream_entry \<Rightarrow> decision \<Rightarrow> governor \<Rightarrow> bool \<times> governor" where
  "ingest_decision k entry dec g =
     (if entry_due entry dec then
        let entry = entry\<lparr>se_has_processed := True, se_last_processed := dd_tick dec\<rparr>;
            g = g\<lparr>gv_streams := insert_stream k entry (gv_streams g)\<rparr>;
            g = process_decision (se_detector entry) dec (dd_tick dec) g
        in (True, if dd_tick dec > gv_last_tick g then g\<lparr>gv_last_tick := dd_tick dec\<rparr> else g)
      else (False, g))"

definition governor_ingest :: "sample \<Rightarrow> governor \<Rightarrow> ingest_outcome \<times> governor" where
  "governor_ingest s g =
     (let valid = validate_sample s in
      if \<not> is_ok valid then
        (outcome_default\<lparr>io_status := valid\<rparr>, count_stat gs_samples_rejected_update g)
      else case find_or_create (sm_stream s) g of
        None \<Rightarrow> (outcome_default\<lparr>io_status := failure StCapacityExceeded ''stream capacity exhausted''\<rparr>,
                 count_stat gs_samples_rejected_update g)
      | Some (entry, g) \<Rightarrow>
          let g = (if id_valid (sm_resource_generation s)
                   then g\<lparr>gv_resource_generations :=
                     (gv_resource_generations g)(sk_resource (sm_stream s) \<mapsto> sm_resource_generation s)\<rparr>
                   else g);
              (res, d) = detector_ingest s (se_detector entry);
              entry = entry\<lparr>se_detector := d\<rparr>;
              g = g\<lparr>gv_streams := insert_stream (sm_stream s) entry (gv_streams g)\<rparr>
          in case res of
            Inl st \<Rightarrow> (outcome_default\<lparr>io_status := st\<rparr>, count_stat gs_samples_rejected_update g)
          | Inr dec \<Rightarrow>
              let g = count_accept (dt_last_accept d) g;
                  (evaluated, g) = ingest_decision (sm_stream s) entry dec g;
                  (revoked, g) = refresh_authority (dd_tick dec) id_invalid g
              in (outcome_default\<lparr>io_accept := dt_last_accept d, io_evaluated := evaluated,
                    io_classification := dd_classification dec, io_decision := dec\<rparr>, g))"

text \<open>The loop of \<open>advance\<close> over the streams; the remaining entries are those of the map.\<close>

fun advance_streams ::
  "tick \<Rightarrow> (stream_key \<times> stream_entry) list \<Rightarrow> nat \<Rightarrow> nat \<Rightarrow> governor \<Rightarrow> nat \<times> nat \<times> governor" where
  "advance_streams now [] evaluated changed g = (evaluated, changed, g)"
| "advance_streams now ((k, entry) # rest) evaluated changed g =
     (if dt_has_evaluated (se_detector entry) \<and> \<not> tick_after (dt_last_evaluated (se_detector entry)) now then
        advance_streams now rest evaluated changed g
      else
        let (dec, d) = detector_advance now (se_detector entry);
            entry = entry\<lparr>se_detector := d\<rparr>
        in if entry_due entry dec then
             let entry = entry\<lparr>se_has_processed := True, se_last_processed := dd_tick dec\<rparr>;
                 g = g\<lparr>gv_streams := insert_stream k entry (gv_streams g)\<rparr>
             in advance_streams now rest (evaluated + 1) (changed + 1) (process_decision d dec now g)
           else advance_streams now rest (evaluated + 1) changed
                  (g\<lparr>gv_streams := insert_stream k entry (gv_streams g)\<rparr>))"

definition governor_advance :: "tick \<Rightarrow> governor \<Rightarrow> advance_result \<times> governor" where
  "governor_advance now g =
     (let (evaluated, changed, g) = advance_streams now (gv_streams g) 0 0 g;
          (revoked, g) = refresh_authority now id_invalid g
      in (\<lparr>ar_streams_evaluated = evaluated, ar_decisions_changed = changed,
           ar_interventions_changed = revoked\<rparr>,
          if now > gv_last_tick g then g\<lparr>gv_last_tick := now\<rparr> else g))"

section \<open>Configuration\<close>

definition set_context_policy :: "governor \<Rightarrow> governor" where
  "set_context_policy g = g\<lparr>gv_context := (gv_context g)\<lparr>ax_policy_generation := ps_generation (gv_policies g),
     ax_policy_digest := ps_digest (gv_policies g)\<rparr>\<rparr>"

definition governor_new :: "governor_config \<Rightarrow> (nat \<Rightarrow> io) \<Rightarrow> governor" where
  "governor_new cfg env =
     (let g = \<lparr>gv_config = cfg, gv_policies = snd (set_fallback (gc_policy cfg) policy_set_init),
        gv_streams = [], gv_resource_generations = Map.empty, gv_open_events = [], gv_history = [],
        gv_history_head = 0, gv_interventions = [], gv_intervention_history = [], gv_emissions = [],
        gv_stats = stats_zero, gv_context = authority_context_default, gv_decision_seq = id_invalid,
        gv_record_seq = id_invalid, gv_store = None, gv_last_tick = 0, gv_env = env, gv_env_pos = 0\<rparr>;
          g = set_context_policy g
      in g\<lparr>gv_context := (gv_context g)\<lparr>ax_epoch := gc_epoch cfg, ax_incarnation := gc_incarnation cfg,
           ax_boot := gc_boot cfg\<rparr>\<rparr>)"

text \<open>One stream whose resource the change concerns: a rearmed detector fences its open episode.\<close>

definition rearm_stream :: "stream_key \<Rightarrow> stream_entry \<Rightarrow> governor \<Rightarrow> governor" where
  "rearm_stream k entry g =
     (let d = se_detector entry;
          resolved = resolve (gv_policies g) (sk_resource (dt_key d));
          (fenced, d) = rearm resolved (ps_generation (gv_policies g)) (gv_last_tick g) d;
          g = g\<lparr>gv_streams := insert_stream k (entry\<lparr>se_detector := d\<rparr>) (gv_streams g)\<rparr>
      in if fenced = None then g
         else
           let e = stamp_context (gv_context g) (dt_episode d);
               g = g\<lparr>gv_open_events := erase (ev_id e) (gv_open_events g)\<rparr>;
               e = e\<lparr>ev_lifecycle := ElFenced\<rparr>;
               g = count_stat gs_episodes_fenced_update (record_event e g)
           in push_emission ((emission_of EkEpisodeFenced (gv_last_tick g))\<lparr>em_event := e\<rparr>) g)"

definition rearm_streams :: "(stream_key \<times> stream_entry) list \<Rightarrow> governor \<Rightarrow> governor" where
  "rearm_streams entries g = fold (\<lambda>(k, entry). rearm_stream k entry) entries g"

definition install_policy :: "policy \<Rightarrow> governor \<Rightarrow> status \<times> governor" where
  "install_policy p g =
     (let (st, ps) = set_fallback p (gv_policies g)
      in if \<not> is_ok st then (st, g\<lparr>gv_policies := ps\<rparr>)
         else
           let g = count_stat gs_policy_changes_update (set_context_policy (g\<lparr>gv_policies := ps\<rparr>));
               g = rearm_streams (gv_streams g) g;
               (revoked, g) = refresh_authority (gv_last_tick g) id_invalid g;
               g = push_emission ((emission_of EkPolicyInstalled (gv_last_tick g))
                     \<lparr>em_policy_generation := ps_generation (gv_policies g), em_epoch := ax_epoch (gv_context g),
                      em_incarnation := ax_incarnation (gv_context g)\<rparr>) g;
               g = journal_record RtPolicyInstalled (put_u32 (ps_generation (gv_policies g)) @
                     encode_policy (ps_fallback (gv_policies g))) (gv_last_tick g) g
           in (status_ok, g))"

definition set_resource_policy :: "u64 \<Rightarrow> policy \<Rightarrow> governor \<Rightarrow> status \<times> governor" where
  "set_resource_policy resource p g =
     (let (st, ps) = set_override resource p (gv_policies g)
      in if \<not> is_ok st then (st, g\<lparr>gv_policies := ps\<rparr>)
         else
           let g = count_stat gs_policy_changes_update (set_context_policy (g\<lparr>gv_policies := ps\<rparr>));
               g = rearm_streams (filter (\<lambda>(k, entry). sk_resource (dt_key (se_detector entry)) = resource)
                     (gv_streams g)) g;
               (revoked, g) = refresh_authority (gv_last_tick g) id_invalid g
           in (status_ok, g))"

definition remove_resource_policy :: "u64 \<Rightarrow> governor \<Rightarrow> status \<times> governor" where
  "remove_resource_policy resource g =
     (let (st, ps) = remove_override resource (gv_policies g)
      in if \<not> is_ok st then (st, g\<lparr>gv_policies := ps\<rparr>)
         else
           let g = count_stat gs_policy_changes_update (set_context_policy (g\<lparr>gv_policies := ps\<rparr>));
               (revoked, g) = refresh_authority (gv_last_tick g) id_invalid g
           in (status_ok, g))"

definition authority_payload :: "u32 \<Rightarrow> u64 \<Rightarrow> u64 \<Rightarrow> byte list" where
  "authority_payload epoch inc boot = put_u32 epoch @ put_u64 inc @ put_u64 boot"

definition bind_authority :: "u32 \<Rightarrow> u64 \<Rightarrow> u64 \<Rightarrow> governor \<Rightarrow> status \<times> governor" where
  "bind_authority epoch inc boot g =
     (if \<not> id_valid epoch \<or> epoch = 0 then
        (failure StInvalidArgument ''authority epoch must be non-zero'', g)
      else
        let g = g\<lparr>gv_context := (gv_context g)\<lparr>ax_epoch := epoch, ax_incarnation := inc, ax_boot := boot\<rparr>\<rparr>;
            (revoked, g) = refresh_authority (gv_last_tick g) id_invalid (count_stat gs_authority_changes_update g);
            g = push_emission ((emission_of EkAuthorityBound (gv_last_tick g))
                  \<lparr>em_epoch := epoch, em_incarnation := inc\<rparr>) g
        in (status_ok, journal_record RtAuthorityBound (authority_payload epoch inc boot) (gv_last_tick g) g))"

definition set_resource_generation :: "u64 \<Rightarrow> u32 \<Rightarrow> governor \<Rightarrow> status \<times> governor" where
  "set_resource_generation resource generation g =
     (if \<not> id_valid resource then (failure StInvalidArgument ''resource identity is invalid'', g)
      else (status_ok, snd (refresh_authority (gv_last_tick g) id_invalid
        (g\<lparr>gv_resource_generations := (gv_resource_generations g)(resource \<mapsto> generation)\<rparr>))))"

definition set_interventions_enabled :: "bool \<Rightarrow> governor \<Rightarrow> governor" where
  "set_interventions_enabled enabled g =
     (let was_enabled = gc_enable_interventions (gv_config g);
          g = g\<lparr>gv_config := (gv_config g)\<lparr>gc_enable_interventions := enabled\<rparr>\<rparr>
      in if \<not> enabled \<and> was_enabled
         then snd (revoke_all_live AvInterventionsDisabled (gv_last_tick g) g) else g)"

definition drain_emissions :: "governor \<Rightarrow> emission list \<times> governor" where
  "drain_emissions g = (gv_emissions g, g\<lparr>gv_emissions := []\<rparr>)"

definition bind_store :: "store option \<Rightarrow> governor \<Rightarrow> status \<times> governor" where
  "bind_store s g =
     (let g = g\<lparr>gv_store := s\<rparr>
      in (status_ok, case s of
           None \<Rightarrow> g
         | Some st \<Rightarrow> g\<lparr>gv_record_seq :=
             (if id_valid (ds_last_sequence st) then ds_last_sequence st else 0)\<rparr>))"

text \<open>The sorted views.\<close>

definition open_episodes :: "governor \<Rightarrow> burst_event list" where
  "open_episodes g = sort_key ev_id (map snd (gv_open_events g))"

definition live_interventions :: "governor \<Rightarrow> intervention_intent list" where
  "live_interventions g = sort_key ii_id (filter intent_live (map snd (gv_interventions g)))"

definition is_open :: "u64 \<Rightarrow> governor \<Rightarrow> bool" where
  "is_open event g \<longleftrightarrow> map_of (gv_open_events g) event \<noteq> None"

definition policy_for :: "u64 \<Rightarrow> governor \<Rightarrow> policy" where
  "policy_for resource g = resolve (gv_policies g) resource"

definition event_history :: "governor \<Rightarrow> burst_event list" where
  "event_history g = history_ordered g"

text \<open>The plain views.\<close>

definition interventions_enabled :: "governor \<Rightarrow> bool" where
  "interventions_enabled g = gc_enable_interventions (gv_config g)"

definition governor_stats_view :: "governor \<Rightarrow> governor_stats" where
  "governor_stats_view g = gv_stats g"

definition intervention_history :: "governor \<Rightarrow> intervention_intent list" where
  "intervention_history g = gv_intervention_history g"

definition stream_count :: "governor \<Rightarrow> nat" where
  "stream_count g = length (gv_streams g)"

definition governor_policy_generation :: "governor \<Rightarrow> u32" where
  "governor_policy_generation g = ps_generation (gv_policies g)"

definition governor_policy_digest :: "governor \<Rightarrow> u64" where
  "governor_policy_digest g = ps_digest (gv_policies g)"

definition governor_authority_context :: "governor \<Rightarrow> authority_context" where
  "governor_authority_context g = gv_context g"

definition governor_epoch :: "governor \<Rightarrow> u32" where
  "governor_epoch g = ax_epoch (gv_context g)"

definition governor_incarnation :: "governor \<Rightarrow> u64" where
  "governor_incarnation g = ax_incarnation (gv_context g)"

definition governor_boot :: "governor \<Rightarrow> u64" where
  "governor_boot g = ax_boot (gv_context g)"

text \<open>The public name of \<open>compact\<close>.\<close>

definition governor_checkpoint :: "governor \<Rightarrow> status \<times> governor" where
  "governor_checkpoint g = compact g"

end
