(* ===== verification/State_Lock.thy ===== *)
theory State_Lock
  imports Governor
begin

text \<open>
  The state lock of the governor (class \<open>Governor::StateLock\<close> of \<open>governor.cpp\<close>): threads that call the public
  operations of one governor, each between locking the mutex and unlocking it, with the check of the
  owner that is to detect re-entry. An operation is not one step here: it reads the state at one point
  and writes it at a later one, so that two operations at a time would lose an update.
\<close>

section \<open>Threads\<close>

type_synonym operation = "governor \<Rightarrow> governor"

text \<open>
  Where a thread is. \<open>PhReentered\<close> is a thread that, inside an operation, has called another one and waits
  for the mutex that it holds itself.
\<close>

datatype phase =
    PhOutside
  | PhWaiting operation
  | PhLocked operation
  | PhReading operation
  | PhWriting operation governor
  | PhLeaving
  | PhCleared
  | PhReentered operation
  | PhAborted

text \<open>The mutex by its holder, the owner member, the state, the operations done so far, and the threads.\<close>

record shared =
  sh_mutex :: "nat option"
  sh_owner :: "nat option"
  sh_governor :: governor
  sh_log :: "operation list"
  sh_phase :: "nat \<Rightarrow> phase"

definition at_phase :: "nat \<Rightarrow> phase \<Rightarrow> shared \<Rightarrow> shared" where
  "at_phase t p s = s\<lparr>sh_phase := (sh_phase s)(t := p)\<rparr>"

section \<open>The lock\<close>

text \<open>The constructor: the mutex, then the comparison of the owner with no thread.\<close>

definition lock_mutex :: "nat \<Rightarrow> shared \<Rightarrow> shared option" where
  "lock_mutex t s = (case sh_mutex s of Some _ \<Rightarrow> None | None \<Rightarrow> Some (s\<lparr>sh_mutex := Some t\<rparr>))"

definition claim_owner :: "nat \<Rightarrow> shared \<Rightarrow> bool \<times> shared" where
  "claim_owner t s = (if sh_owner s = None then (True, s\<lparr>sh_owner := Some t\<rparr>) else (False, s))"

text \<open>The destructor, in its two steps.\<close>

definition clear_owner :: "shared \<Rightarrow> shared" where
  "clear_owner s = s\<lparr>sh_owner := None\<rparr>"

definition unlock_mutex :: "shared \<Rightarrow> shared" where
  "unlock_mutex s = s\<lparr>sh_mutex := None\<rparr>"

inductive lock_step :: "shared \<Rightarrow> shared \<Rightarrow> bool" where
  call: "sh_phase s t = PhOutside \<Longrightarrow> lock_step s (at_phase t (PhWaiting f) s)"
| acquire: "sh_phase s t \<in> {PhWaiting f, PhReentered f} \<Longrightarrow> lock_mutex t s = Some s' \<Longrightarrow>
    lock_step s (at_phase t (PhLocked f) s')"
| claim: "sh_phase s t = PhLocked f \<Longrightarrow> claim_owner t s = (True, s') \<Longrightarrow> lock_step s (at_phase t (PhReading f) s')"
| abort: "sh_phase s t = PhLocked f \<Longrightarrow> claim_owner t s = (False, s') \<Longrightarrow> lock_step s (at_phase t PhAborted s')"
| load: "sh_phase s t = PhReading f \<Longrightarrow> lock_step s (at_phase t (PhWriting f (sh_governor s)) s)"
| store: "sh_phase s t = PhWriting f g \<Longrightarrow>
    lock_step s (at_phase t PhLeaving (s\<lparr>sh_governor := f g, sh_log := sh_log s @ [f]\<rparr>))"
| reenter: "sh_phase s t = PhReading h \<Longrightarrow> lock_step s (at_phase t (PhReentered f) s)"
| clear: "sh_phase s t = PhLeaving \<Longrightarrow> lock_step s (at_phase t PhCleared (clear_owner s))"
| unlock: "sh_phase s t = PhCleared \<Longrightarrow> lock_step s (at_phase t PhOutside (unlock_mutex s))"

definition shared_new :: "governor \<Rightarrow> shared" where
  "shared_new g = \<lparr>sh_mutex = None, sh_owner = None, sh_governor = g, sh_log = [], sh_phase = (\<lambda>t. PhOutside)\<rparr>"

inductive lock_run :: "governor \<Rightarrow> shared \<Rightarrow> bool" for g where
  started: "lock_run g (shared_new g)"
| stepped: "lock_run g s \<Longrightarrow> lock_step s s' \<Longrightarrow> lock_run g s'"

section \<open>One operation at a time\<close>

fun holds_mutex :: "phase \<Rightarrow> bool" where
  "holds_mutex PhOutside \<longleftrightarrow> False"
| "holds_mutex (PhWaiting f) \<longleftrightarrow> False"
| "holds_mutex PhAborted \<longleftrightarrow> False"
| "holds_mutex _ \<longleftrightarrow> True"

fun owns_state :: "phase \<Rightarrow> bool" where
  "owns_state (PhReading f) \<longleftrightarrow> True"
| "owns_state (PhWriting f g) \<longleftrightarrow> True"
| "owns_state PhLeaving \<longleftrightarrow> True"
| "owns_state (PhReentered f) \<longleftrightarrow> True"
| "owns_state _ \<longleftrightarrow> False"

definition lock_ok :: "governor \<Rightarrow> shared \<Rightarrow> bool" where
  "lock_ok g s \<longleftrightarrow>
     (\<forall>t. holds_mutex (sh_phase s t) \<longleftrightarrow> sh_mutex s = Some t) \<and>
     (\<forall>t. owns_state (sh_phase s t) \<longleftrightarrow> sh_owner s = Some t) \<and>
     (\<forall>t. sh_phase s t \<noteq> PhAborted) \<and>
     (\<forall>t f h. sh_phase s t = PhWriting f h \<longrightarrow> h = sh_governor s) \<and>
     sh_governor s = fold (\<lambda>f. f) (sh_log s) g"

lemma lock_ok_phase:
  assumes "lock_ok g s" "sh_phase s t = p"
  shows "holds_mutex p \<Longrightarrow> sh_mutex s = Some t" "owns_state p \<Longrightarrow> sh_owner s = Some t"
    "\<not> holds_mutex p \<Longrightarrow> sh_mutex s \<noteq> Some t" "\<not> owns_state p \<Longrightarrow> sh_owner s \<noteq> Some t"
    "p = PhWriting f h \<Longrightarrow> h = sh_governor s"
  using assms unfolding lock_ok_def by blast+

text \<open>A step of one thread, described by what it does to the shared members.\<close>

lemma lock_okI:
  assumes ok: "lock_ok g s"
    and mutex: "sh_mutex s' = (if holds_mutex p then Some t else if sh_mutex s = Some t then None else sh_mutex s)"
    and free: "holds_mutex p \<Longrightarrow> sh_mutex s = None \<or> sh_mutex s = Some t"
    and owner: "sh_owner s' = (if owns_state p then Some t else if sh_owner s = Some t then None else sh_owner s)"
    and unowned: "owns_state p \<Longrightarrow> sh_owner s = None \<or> sh_owner s = Some t"
    and phase: "sh_phase s' = (sh_phase s)(t := p)" "p \<noteq> PhAborted" "\<And>f h. p = PhWriting f h \<Longrightarrow> h = sh_governor s'"
    and state: "sh_governor s' = fold (\<lambda>f. f) (sh_log s') g" "sh_governor s' = sh_governor s \<or> sh_mutex s = Some t"
  shows "lock_ok g s'"
proof -
  have "h = sh_governor s'" if "sh_phase s u = PhWriting f h" "u \<noteq> t" for u f h
  proof -
    have "sh_mutex s = Some u" "h = sh_governor s" using lock_ok_phase(1,5) [OF ok that(1)] by simp_all
    then show ?thesis using state(2) that(2) by auto
  qed
  moreover have "holds_mutex (sh_phase s' u) \<longleftrightarrow> sh_mutex s' = Some u" for u
    using ok mutex free phase(1) by (cases "u = t") (auto simp: lock_ok_def)
  moreover have "owns_state (sh_phase s' u) \<longleftrightarrow> sh_owner s' = Some u" for u
    using ok owner unowned phase(1) by (cases "u = t") (auto simp: lock_ok_def)
  moreover have "sh_phase s' u \<noteq> PhAborted" for u using ok phase(1,2) by (auto simp: lock_ok_def)
  ultimately show ?thesis unfolding lock_ok_def using phase(1,3) state(1) by simp
qed

lemma lock_step_ok: "lock_step s s' \<Longrightarrow> lock_ok g s \<Longrightarrow> lock_ok g s'"
proof (induction rule: lock_step.induct)
  case (call s t f)
  note p = lock_ok_phase [OF call(2,1)]
  show ?case by (rule lock_okI [OF call(2), where t = t and p = "PhWaiting f"])
      (use p call(2) in \<open>auto simp: at_phase_def lock_ok_def\<close>)
next
  case (acquire s t f s')
  then have m: "sh_mutex s = None" "s' = s\<lparr>sh_mutex := Some t\<rparr>"
    by (auto simp: lock_mutex_def split: option.splits)
  have "sh_phase s t = PhWaiting f" using acquire(1,3) m lock_ok_phase(1) [OF acquire(3), of t "PhReentered f"] by auto
  note p = lock_ok_phase [OF acquire(3) this]
  show ?case by (rule lock_okI [OF acquire(3), where t = t and p = "PhLocked f"])
      (use p m acquire(3) in \<open>auto simp: at_phase_def lock_ok_def\<close>)
next
  case (claim s t f s')
  note p = lock_ok_phase [OF claim(3,1)]
  have m: "sh_owner s = None" "s' = s\<lparr>sh_owner := Some t\<rparr>" using claim(2) by (auto simp: claim_owner_def split: if_splits)
  show ?case by (rule lock_okI [OF claim(3), where t = t and p = "PhReading f"])
      (use p m claim(3) in \<open>auto simp: at_phase_def lock_ok_def\<close>)
next
  case (abort s t f s')
  note p = lock_ok_phase [OF abort(3,1)]
  obtain u where u: "sh_owner s = Some u" using abort(2) by (auto simp: claim_owner_def split: if_splits)
  then have "owns_state (sh_phase s u)" using abort(3) by (simp add: lock_ok_def)
  then have "holds_mutex (sh_phase s u)" by (cases "sh_phase s u") simp_all
  then have "u = t" using p(1) abort(3) by (simp add: lock_ok_def)
  then show ?case using u p(4) by simp
next
  case (load s t f)
  note p = lock_ok_phase [OF load(2,1)]
  show ?case by (rule lock_okI [OF load(2), where t = t and p = "PhWriting f (sh_governor s)"])
      (use p load(2) in \<open>auto simp: at_phase_def lock_ok_def\<close>)
next
  case (store s t f h)
  note p = lock_ok_phase [OF store(2,1)]
  have "h = sh_governor s" using p(5) by blast
  then show ?case by (intro lock_okI [OF store(2), where t = t and p = PhLeaving])
      (use p store(2) in \<open>auto simp: at_phase_def lock_ok_def\<close>)
next
  case (reenter s t h f)
  note p = lock_ok_phase [OF reenter(2,1)]
  show ?case by (rule lock_okI [OF reenter(2), where t = t and p = "PhReentered f"])
      (use p reenter(2) in \<open>auto simp: at_phase_def lock_ok_def\<close>)
next
  case (clear s t)
  note p = lock_ok_phase [OF clear(2,1)]
  show ?case by (rule lock_okI [OF clear(2), where t = t and p = PhCleared])
      (use p clear(2) in \<open>auto simp: at_phase_def lock_ok_def clear_owner_def\<close>)
next
  case (unlock s t)
  note p = lock_ok_phase [OF unlock(2,1)]
  show ?case by (rule lock_okI [OF unlock(2), where t = t and p = PhOutside])
      (use p unlock(2) in \<open>auto simp: at_phase_def lock_ok_def unlock_mutex_def\<close>)
qed

lemma lock_run_ok: "lock_run g s \<Longrightarrow> lock_ok g s"
proof (induction rule: lock_run.induct)
  case started
  show ?case by (simp add: lock_ok_def shared_new_def)
next
  case (stepped s s')
  then show ?case using lock_step_ok by blast
qed

text \<open>A thread that re-enters stays where it is: the mutex it waits for is its own.\<close>

lemma reentered_is_stuck:
  assumes "lock_ok g s" "sh_phase s t = PhReentered f" "lock_step s s'"
  shows "sh_phase s' t = PhReentered f"
proof -
  have m: "sh_mutex s = Some t" using lock_ok_phase(1) [OF assms(1,2)] by simp
  show ?thesis using assms(3,2) m
    by cases (auto simp: at_phase_def lock_mutex_def claim_owner_def clear_owner_def unlock_mutex_def split: if_splits)
qed

lemma lock_steps_run: "lock_step\<^sup>*\<^sup>* s s' \<Longrightarrow> lock_run g s \<Longrightarrow> lock_run g s'"
  by (induction rule: rtranclp_induct) (auto intro: lock_run.stepped)

lemma reentered_forever:
  assumes "lock_step\<^sup>*\<^sup>* s s'" "lock_run g s" "sh_phase s t = PhReentered f"
  shows "sh_phase s' t = PhReentered f"
  using assms(1)
proof (induction rule: rtranclp_induct)
  case (step y z)
  then show ?case using reentered_is_stuck [OF lock_run_ok [OF lock_steps_run [OF step(1) assms(2)]]] by blast
qed (rule assms(3))

end
