(* ===== verification/Channel.thy ===== *)
theory Channel
  imports Frames
begin

text \<open>
  The framed channel (\<open>include/mbg/transport/socket.hpp\<close>, \<open>src/transport/socket.cpp\<close>). A connected
  socket is the bytes the peer has sent and not yet been read, the bytes handed to the peer, and
  the answers of the operating system: \<open>sk_os k\<close> is the answer to the k-th \<open>send\<close> or \<open>recv\<close>, \<open>None\<close>
  for an error, \<open>Some m\<close> for a willingness to move \<open>m\<close> bytes, of which a call moves at least one and
  at most what it asked for and, on receipt, at most what has arrived.
\<close>

section \<open>Sockets\<close>

record socket =
  sk_open :: bool
  sk_stream :: "byte list"
  sk_wire :: "byte list"
  sk_os :: "nat \<Rightarrow> nat option"
  sk_call :: nat

definition kTransferChunk :: nat where "kTransferChunk = 2 ^ 20"

text \<open>The number of bytes a call moves when at most \<open>room\<close> can be moved.\<close>

definition moved :: "nat \<Rightarrow> nat \<Rightarrow> nat" where
  "moved m room = max 1 (min m room)"

text \<open>The loop of \<open>send_all\<close>; the list is what is left to send.\<close>

function send_loop :: "byte list \<Rightarrow> socket \<Rightarrow> status \<times> socket" where
  "send_loop bs s =
     (if bs = [] then (status_ok, s)
      else let request = min (length bs) kTransferChunk
      in case sk_os s (sk_call s) of
           None \<Rightarrow> (failure StIo ''socket send failed'', s\<lparr>sk_call := sk_call s + 1\<rparr>)
         | Some m \<Rightarrow>
             let n = moved m request
             in send_loop (drop n bs) (s\<lparr>sk_call := sk_call s + 1, sk_wire := sk_wire s @ take n bs\<rparr>))"
  by pat_completeness auto
termination by (relation "measure (\<lambda>(bs, s). length bs)") (auto simp: moved_def)

declare send_loop.simps [simp del]

definition send_all :: "byte list \<Rightarrow> socket \<Rightarrow> status \<times> socket" where
  "send_all bs s = (if \<not> sk_open s then (failure StIo ''socket is not open'', s) else send_loop bs s)"

text \<open>The loop of \<open>recv_all\<close>: how many bytes are missing and those already read.\<close>

function recv_loop :: "nat \<Rightarrow> byte list \<Rightarrow> socket \<Rightarrow> byte list result \<times> socket" where
  "recv_loop need got s =
     (if need = 0 then (Inr got, s)
      else if sk_stream s = [] then
        (Inl (failure StIo ''peer closed the connection''), s\<lparr>sk_call := sk_call s + 1\<rparr>)
      else case sk_os s (sk_call s) of
        None \<Rightarrow> (Inl (failure StIo ''socket receive failed''), s\<lparr>sk_call := sk_call s + 1\<rparr>)
      | Some m \<Rightarrow>
          let n = moved m (min (min need kTransferChunk) (length (sk_stream s)))
          in recv_loop (need - n) (got @ take n (sk_stream s))
               (s\<lparr>sk_call := sk_call s + 1, sk_stream := drop n (sk_stream s)\<rparr>))"
  by pat_completeness auto
termination by (relation "measure (\<lambda>(need, got, s). need)") (auto simp: moved_def)

declare recv_loop.simps [simp del]

definition recv_all :: "nat \<Rightarrow> socket \<Rightarrow> byte list result \<times> socket" where
  "recv_all n s = (if \<not> sk_open s then (Inl (failure StIo ''socket is not open''), s) else recv_loop n [] s)"

definition socket_close :: "socket \<Rightarrow> socket" where
  "socket_close s = (if sk_open s then s\<lparr>sk_open := False\<rparr> else s)"

text \<open>\<open>shutdown\<close> on both directions: every later call fails.\<close>

definition socket_interrupt :: "socket \<Rightarrow> socket" where
  "socket_interrupt s = (if \<not> sk_open s then s else s\<lparr>sk_stream := [], sk_os := (\<lambda>k. None)\<rparr>)"

section \<open>Channels\<close>

record channel =
  ch_socket :: socket
  ch_frames_sent :: u64
  ch_frames_received :: u64

definition channel_new :: "socket \<Rightarrow> channel" where
  "channel_new s = \<lparr>ch_socket = s, ch_frames_sent = 0, ch_frames_received = 0\<rparr>"

definition channel_send :: "frame \<Rightarrow> channel \<Rightarrow> status \<times> channel" where
  "channel_send f ch =
     (case encode_frame f of
        Inl st \<Rightarrow> (st, ch)
      | Inr bs \<Rightarrow>
          let (st, s) = send_all bs (ch_socket ch); ch = ch\<lparr>ch_socket := s\<rparr>
          in if \<not> is_ok st then (st, ch)
             else (status_ok, ch\<lparr>ch_frames_sent := ch_frames_sent ch + 1\<rparr>))"

definition channel_receive :: "channel \<Rightarrow> frame result \<times> channel" where
  "channel_receive ch =
     (let (header, s) = recv_all kFrameHeaderBytes (ch_socket ch); ch = ch\<lparr>ch_socket := s\<rparr>
      in case header of
           Inl st \<Rightarrow> (Inl st, ch)
         | Inr header_bytes \<Rightarrow>
             (case decode_header header_bytes of
                Inl st \<Rightarrow> (Inl st, ch)
              | Inr h \<Rightarrow>
                  let (body, s) = (if fh_payload_length h \<noteq> 0
                        then recv_all (unat (fh_payload_length h)) (ch_socket ch)
                        else (Inr [], ch_socket ch));
                      ch = ch\<lparr>ch_socket := s\<rparr>
                  in case body of
                       Inl st \<Rightarrow> (Inl st, ch)
                     | Inr payload \<Rightarrow>
                         (case decode_frame (header_bytes @ payload) of
                            Inl st \<Rightarrow> (Inl st, ch)
                          | Inr f \<Rightarrow> (Inr f, ch\<lparr>ch_frames_received := ch_frames_received ch + 1\<rparr>))))"

definition channel_close :: "channel \<Rightarrow> channel" where
  "channel_close ch = ch\<lparr>ch_socket := socket_close (ch_socket ch)\<rparr>"

definition channel_interrupt :: "channel \<Rightarrow> channel" where
  "channel_interrupt ch = ch\<lparr>ch_socket := socket_interrupt (ch_socket ch)\<rparr>"

definition channel_valid :: "channel \<Rightarrow> bool" where
  "channel_valid ch \<longleftrightarrow> sk_open (ch_socket ch)"

section \<open>Laws\<close>

text \<open>Whatever the sizes of the transfers, a successful \<open>send_all\<close> hands over exactly its bytes.\<close>

lemma send_loop_spec:
  assumes "send_loop bs s = (st, s')"
  shows "\<exists>n\<le>length bs. sk_wire s' = sk_wire s @ take n bs \<and> (is_ok st \<longrightarrow> n = length bs) \<and>
    sk_stream s' = sk_stream s \<and> sk_open s' = sk_open s \<and> sk_os s' = sk_os s"
  using assms
proof (induction bs s rule: send_loop.induct)
  case (1 bs s)
  show ?case
  proof (cases "bs = []")
    case True
    then show ?thesis using "1.prems" by (simp add: send_loop.simps)
  next
    case bs: False
    show ?thesis
    proof (cases "sk_os s (sk_call s)")
      case None
      then show ?thesis using "1.prems" bs
        by (intro exI [of _ 0]) (auto simp: send_loop.simps failure_def is_ok_def)
    next
      case (Some m)
      define n where "n = moved m (min (length bs) kTransferChunk)"
      define s1 where "s1 = s\<lparr>sk_call := sk_call s + 1, sk_wire := sk_wire s @ take n bs\<rparr>"
      have n: "n \<le> length bs" using bs by (cases bs) (auto simp: n_def moved_def)
      have run: "send_loop (drop n bs) s1 = (st, s')"
        using "1.prems" bs Some by (simp add: send_loop.simps [of bs] n_def s1_def Let_def)
      from "1.IH" [OF bs refl Some n_def, folded s1_def, OF run] obtain k where
        k: "k \<le> length (drop n bs)" "sk_wire s' = sk_wire s1 @ take k (drop n bs)"
          "is_ok st \<longrightarrow> k = length (drop n bs)"
          "sk_stream s' = sk_stream s1" "sk_open s' = sk_open s1" "sk_os s' = sk_os s1" by blast
      show ?thesis
        by (intro exI [of _ "n + k"]) (use n k in \<open>auto simp: s1_def take_add\<close>)
    qed
  qed
qed

text \<open>
  A receipt either reads the next bytes of the stream, however they are cut into transfers, or
  reports an error; it never reads past what it was asked for.
\<close>

lemma recv_loop_spec:
  assumes "recv_loop need got s = (r, s')"
  shows "sk_wire s' = sk_wire s \<and> sk_open s' = sk_open s \<and> sk_os s' = sk_os s \<and>
    (\<forall>bs. r = Inr bs \<longrightarrow> need \<le> length (sk_stream s) \<and> bs = got @ take need (sk_stream s) \<and>
       sk_stream s' = drop need (sk_stream s)) \<and>
    (need \<le> length (sk_stream s) \<longrightarrow> (\<forall>k. sk_os s k \<noteq> None) \<longrightarrow> (\<exists>bs. r = Inr bs))"
  using assms
proof (induction need got s rule: recv_loop.induct)
  case (1 need got s)
  show ?case
  proof (cases "need = 0")
    case True
    then show ?thesis using "1.prems" by (auto simp: recv_loop.simps)
  next
    case need: False
    show ?thesis
    proof (cases "sk_stream s = []")
      case True
      then show ?thesis using "1.prems" need by (auto simp: recv_loop.simps)
    next
      case st: False
      show ?thesis
      proof (cases "sk_os s (sk_call s)")
        case None
        then have "r = Inl (failure StIo ''socket receive failed'')" "s' = s\<lparr>sk_call := sk_call s + 1\<rparr>"
          using "1.prems" need st by (simp_all add: recv_loop.simps)
        then show ?thesis using None by auto
      next
        case (Some m)
        define n where "n = moved m (min (min need kTransferChunk) (length (sk_stream s)))"
        define s1 where "s1 = s\<lparr>sk_call := sk_call s + 1, sk_stream := drop n (sk_stream s)\<rparr>"
        have n: "n \<le> need" "n \<le> length (sk_stream s)"
          using need st by (cases "sk_stream s"; auto simp: n_def moved_def)+
        have run: "recv_loop (need - n) (got @ take n (sk_stream s)) s1 = (r, s')"
          using "1.prems" need st Some by (simp add: recv_loop.simps [of need] n_def s1_def Let_def)
        note ih = "1.IH" [OF need st Some n_def, folded s1_def, OF run]
        have t: "take n (sk_stream s) @ take (need - n) (drop n (sk_stream s)) = take need (sk_stream s)"
          using n by (metis le_add_diff_inverse take_add)
        show ?thesis using ih n t by (auto simp: s1_def)
      qed
    qed
  qed
qed

lemma recv_all_spec:
  assumes "recv_all need s = (r, s')"
  shows "sk_wire s' = sk_wire s" "sk_open s' = sk_open s" "sk_os s' = sk_os s"
    "r = Inr bs \<Longrightarrow> need \<le> length (sk_stream s) \<and> bs = take need (sk_stream s) \<and> sk_stream s' = drop need (sk_stream s)"
    "sk_open s \<Longrightarrow> need \<le> length (sk_stream s) \<Longrightarrow> (\<And>k. sk_os s k \<noteq> None) \<Longrightarrow> \<exists>bs. r = Inr bs"
  using assms recv_loop_spec [of need "[]" s r s'] by (auto simp: recv_all_def split: if_splits)

text \<open>A receipt of the bytes of a frame, cut into any transfers, is that frame.\<close>

lemma receive_frame_bytes:
  assumes "frame_wf f" "sk_stream (ch_socket ch) = frame_bytes f @ rest" "sk_open (ch_socket ch)"
    "\<And>k. sk_os (ch_socket ch) k \<noteq> None"
  shows "\<exists>ch'. channel_receive ch = (Inr f, ch') \<and> sk_stream (ch_socket ch') = rest \<and>
    ch_frames_received ch' = ch_frames_received ch + 1"
proof -
  define hb where "hb = build_header (fr_header f) (crc_compute (fr_payload f))"
  have len: "length hb = 32" "length (fr_payload f) = unat (fh_payload_length (fr_header f))"
    using assms(1) by (simp_all add: hb_def build_header_def header_prefix_def wire_length frame_wf_def)
  have stream: "sk_stream (ch_socket ch) = hb @ fr_payload f @ rest"
    using assms(2) by (simp add: frame_bytes_def hb_def)
  obtain r1 s1 where r1: "recv_all kFrameHeaderBytes (ch_socket ch) = (r1, s1)" by fastforce
  have "\<exists>bs. r1 = Inr bs"
    by (rule recv_all_spec(5) [OF r1 assms(3)]) (use assms(4) stream len in \<open>auto simp: kFrameHeaderBytes_def\<close>)
  then have h: "r1 = Inr hb" "sk_stream s1 = fr_payload f @ rest"
    using recv_all_spec(4) [OF r1] stream len by (auto simp: kFrameHeaderBytes_def)
  have s1: "sk_open s1" "\<And>k. sk_os s1 k \<noteq> None" using recv_all_spec(2,3) [OF r1] assms(3,4) by simp_all
  have dh: "decode_header hb = Inr (fr_header f)"
    using assms(1) by (simp add: hb_def decode_build_header frame_wf_def)
  have df: "decode_frame (hb @ fr_payload f) = Inr f"
    using decode_frame_bytes [OF assms(1)] by (simp add: frame_bytes_def hb_def)
  show ?thesis
  proof (cases "fh_payload_length (fr_header f) = 0")
    case True
    then have "fr_payload f = []" using len(2) by simp
    then show ?thesis using True r1 h dh df by (simp add: channel_receive_def Let_def)
  next
    case False
    obtain r2 s2 where r2: "recv_all (unat (fh_payload_length (fr_header f))) s1 = (r2, s2)" by fastforce
    have "\<exists>bs. r2 = Inr bs" by (rule recv_all_spec(5) [OF r2 s1(1)]) (use s1(2) h len in auto)
    then have "r2 = Inr (fr_payload f)" "sk_stream s2 = rest"
      using recv_all_spec(4) [OF r2] h(2) len(2) by auto
    then show ?thesis using False r1 r2 h dh df by (simp add: channel_receive_def Let_def)
  qed
qed

lemma channel_delivers:
  assumes "channel_send f a = (st, a')" "is_ok st"
    "sk_stream (ch_socket b) = drop (length (sk_wire (ch_socket a))) (sk_wire (ch_socket a')) @ rest"
    "sk_open (ch_socket b)" "\<And>k. sk_os (ch_socket b) k \<noteq> None"
  shows "\<exists>g b'. channel_receive b = (Inr g, b') \<and> fr_payload g = fr_payload f \<and>
    fh_type (fr_header g) = fh_type (fr_header f) \<and> fh_seq (fr_header g) = fh_seq (fr_header f) \<and>
    sk_stream (ch_socket b') = rest"
proof -
  define g where "g = f\<lparr>fr_header := (fr_header f)\<lparr>fh_payload_length := of_nat (length (fr_payload f))\<rparr>\<rparr>"
  obtain bs where bs: "encode_frame f = Inr bs"
    using assms(1,2) by (cases "encode_frame f") (auto simp: channel_send_def encode_frame_def failure_def is_ok_def split: if_splits)
  obtain st1 s where sa: "send_all bs (ch_socket a) = (st1, s)" by fastforce
  have ok: "is_ok st1" "ch_socket a' = s" using assms(1,2) bs sa by (auto simp: channel_send_def Let_def split: if_splits)
  then have "send_loop bs (ch_socket a) = (st1, s)"
    using sa by (auto simp: send_all_def failure_def is_ok_def split: if_splits)
  from send_loop_spec [OF this] ok have "sk_wire (ch_socket a') = sk_wire (ch_socket a) @ bs" by auto
  then have "sk_stream (ch_socket b) = frame_bytes g @ rest"
    using assms(3) encode_frame_bytes(1) [OF bs] by (simp add: g_def)
  from receive_frame_bytes [OF _ this assms(4,5)] encode_frame_bytes(2) [OF bs]
  show ?thesis by (auto simp: g_def)
qed

end
