(* ===== verification/Governor_Laws.thy ===== *)
theory Governor_Laws
  imports Governor
begin

text \<open>
  Laws of the governor. What bookkeeping leaves alone is one locale, \<open>housekeeping\<close>, interpreted on
  every counter, emission, history and journal step; the authority sweep is proved to leave exactly
  the intents that the authority in force still justifies; and the invariant of the governor is
  kept by every operation.
\<close>

section \<open>Association lists\<close>

lemma map_of_assign [simp]: "map_of (assign k v m) = (map_of m)(k \<mapsto> v)"
  by (induction k v m rule: assign.induct) (auto simp: fun_eq_iff)

lemma keys_assign: "map fst (assign k v m) = (if k \<in> fst ` set m then map fst m else map fst m @ [k])"
  by (induction k v m rule: assign.induct) auto

lemma set_assign: "set (assign k v m) \<subseteq> insert (k, v) (set m)"
  by (induction k v m rule: assign.induct) auto

lemma distinct_assign: "distinct (map fst m) \<Longrightarrow> distinct (map fst (assign k v m))"
  by (auto simp: keys_assign)

lemma length_assign: "k \<in> fst ` set m \<Longrightarrow> length (assign k v m) = length m"
  by (induction k v m rule: assign.induct) auto

lemma set_erase: "set (erase k m) = {x \<in> set m. fst x \<noteq> k}"
  by (auto simp: erase_def)

lemma distinct_erase: "distinct (map fst m) \<Longrightarrow> distinct (map fst (erase k m))"
  by (induction m) (auto simp: erase_def)

lemma length_erase: "length (erase k m) \<le> length m"
  by (simp add: erase_def)

lemma set_fold_erase: "set (fold erase ks m) = {x \<in> set m. fst x \<notin> set ks}"
  by (induction ks arbitrary: m) (auto simp: set_erase)

lemma distinct_fold_erase: "distinct (map fst m) \<Longrightarrow> distinct (map fst (fold erase ks m))"
  by (induction ks arbitrary: m) (auto simp: distinct_erase)

lemma length_fold_erase: "length (fold erase ks m) \<le> length m"
  by (induction ks arbitrary: m) (auto intro: order_trans [OF _ length_erase])

lemma map_of_in_keys: "map_of m k = Some v \<Longrightarrow> k \<in> fst ` set m"
  by (force dest: map_of_SomeD)

abbreviation sorted_keys :: "(stream_key \<times> 'v) list \<Rightarrow> bool" where
  "sorted_keys m \<equiv> sorted_wrt (<) (map fst m)"

lemma set_insert_stream: "set (insert_stream k v m) \<subseteq> insert (k, v) (set m)"
  by (induction k v m rule: insert_stream.induct) auto

lemma keys_insert_stream: "fst ` set (insert_stream k v m) = insert k (fst ` set m)"
  by (induction k v m rule: insert_stream.induct) auto

lemma sorted_insert_stream: "sorted_keys m \<Longrightarrow> sorted_keys (insert_stream k v m)"
proof (induction k v m rule: insert_stream.induct)
  case (2 k v a b m)
  have "fst ` set (insert_stream k v m) = insert k (fst ` set m)" by (rule keys_insert_stream)
  with 2 show ?case by (fastforce simp: image_iff)
qed simp

lemma length_insert_stream:
  "sorted_keys m \<Longrightarrow> length (insert_stream k v m) = (if k \<in> fst ` set m then length m else Suc (length m))"
proof (induction k v m rule: insert_stream.induct)
  case (2 k v a b m)
  then show ?case by (cases k a rule: linorder_cases) auto
qed simp

lemma map_of_insert_stream: "sorted_keys m \<Longrightarrow> map_of (insert_stream k v m) = (map_of m)(k \<mapsto> v)"
proof (induction k v m rule: insert_stream.induct)
  case (2 k v a b m)
  then show ?case by (auto simp: fun_eq_iff)
qed simp

section \<open>Housekeeping\<close>

text \<open>What detection and authority depend on, and the bounded buffers.\<close>

definition gov_core ::
  "governor \<Rightarrow> governor_config \<times> policy_set \<times> (stream_key \<times> stream_entry) list \<times> (u64 \<rightharpoonup> u32) \<times>
     (u64 \<times> burst_event) list \<times> (u64 \<times> intervention_intent) list \<times> authority_context \<times> u64 \<times> tick" where
  "gov_core g = (gv_config g, gv_policies g, gv_streams g, gv_resource_generations g, gv_open_events g,
     gv_interventions g, gv_context g, gv_decision_seq g, gv_last_tick g)"

definition buffers_ok :: "governor \<Rightarrow> bool" where
  "buffers_ok g \<longleftrightarrow> length (gv_emissions g) \<le> kMaxPendingEmissions \<and>
     length (gv_history g) \<le> kMaxEventHistory \<and> gv_history_head g < kMaxEventHistory \<and>
     length (gv_intervention_history g) \<le> kMaxInterventions"

locale housekeeping =
  fixes op :: "governor \<Rightarrow> governor"
  assumes keeps_core: "gov_core (op g) = gov_core g"
    and keeps_buffers: "buffers_ok g \<Longrightarrow> buffers_ok (op g)"
begin

lemma keeps [simp]:
  "gv_config (op g) = gv_config g" "gv_policies (op g) = gv_policies g"
  "gv_streams (op g) = gv_streams g" "gv_resource_generations (op g) = gv_resource_generations g"
  "gv_open_events (op g) = gv_open_events g" "gv_interventions (op g) = gv_interventions g"
  "gv_context (op g) = gv_context g" "gv_decision_seq (op g) = gv_decision_seq g"
  "gv_last_tick (op g) = gv_last_tick g"
  using keeps_core [of g] by (simp_all add: gov_core_def)

lemma keeps_verdict [simp]: "intent_verdict now (op g) i = intent_verdict now g i"
  by (simp add: intent_verdict_def observed_generation_def)

end

interpretation count: housekeeping "count_stat f" for f
  by unfold_locales (simp_all add: count_stat_def gov_core_def buffers_ok_def)

interpretation emit: housekeeping "push_emission e" for e
  by unfold_locales (auto simp: push_emission_def count_stat_def gov_core_def buffers_ok_def
      kMaxPendingEmissions_def Let_def)

interpretation history: housekeeping "record_event e" for e
  by unfold_locales (auto simp: record_event_def count_stat_def gov_core_def buffers_ok_def kMaxEventHistory_def)

lemma call_append_core:
  "gov_core (snd (call_append t p now g)) = gov_core g \<and>
   (buffers_ok g \<longrightarrow> buffers_ok (snd (call_append t p now g)))"
  by (simp add: call_append_def gov_core_def buffers_ok_def case_prod_beta Let_def split: option.split)

interpretation appended: housekeeping "\<lambda>g. snd (call_append t p now g)" for t p now
  by unfold_locales (simp_all add: call_append_core)

lemma compact_core:
  "gov_core (snd (compact g)) = gov_core g \<and> (buffers_ok g \<longrightarrow> buffers_ok (snd (compact g)))"
  by (simp add: compact_def gov_core_def buffers_ok_def case_prod_beta Let_def split: option.split)

interpretation compacted: housekeeping "\<lambda>g. snd (compact g)"
  by unfold_locales (simp_all add: compact_core)

interpretation finished: housekeeping "append_finish st" for st
  by unfold_locales (simp_all add: append_finish_def count.keeps_core count.keeps_buffers)

lemma next_record_core:
  "gov_core (g\<lparr>gv_record_seq := n\<rparr>) = gov_core g" "buffers_ok (g\<lparr>gv_record_seq := n\<rparr>) = buffers_ok g"
  by (simp_all add: gov_core_def buffers_ok_def)

lemmas housekeeping_rules = count.keeps_core emit.keeps_core history.keeps_core appended.keeps_core
  compacted.keeps_core finished.keeps_core next_record_core
  count.keeps_buffers emit.keeps_buffers history.keeps_buffers appended.keeps_buffers
  compacted.keeps_buffers finished.keeps_buffers

interpretation recorded: housekeeping "append_record t p now" for t p now
  by unfold_locales (simp_all add: append_record_def housekeeping_rules case_prod_beta Let_def)

interpretation logged: housekeeping "journal_record t p now" for t p now
  by unfold_locales (simp_all add: journal_record_def recorded.keeps_core recorded.keeps_buffers)

section \<open>The authority sweep\<close>

text \<open>Retiring an intent changes its own entry and nothing else that matters here.\<close>

lemma retire_keeps [simp]:
  "gv_config (retire_intervention i x v now g) = gv_config g"
  "gv_policies (retire_intervention i x v now g) = gv_policies g"
  "gv_streams (retire_intervention i x v now g) = gv_streams g"
  "gv_resource_generations (retire_intervention i x v now g) = gv_resource_generations g"
  "gv_open_events (retire_intervention i x v now g) = gv_open_events g"
  "gv_context (retire_intervention i x v now g) = gv_context g"
  "gv_decision_seq (retire_intervention i x v now g) = gv_decision_seq g"
  "gv_last_tick (retire_intervention i x v now g) = gv_last_tick g"
  by (simp_all add: retire_intervention_def Let_def)

lemma retire_interventions [simp]:
  "\<exists>y. gv_interventions (retire_intervention i x v now g) = assign i y (gv_interventions g)"
  by (simp add: retire_intervention_def Let_def) blast

lemma retire_buffers: "buffers_ok g \<Longrightarrow> buffers_ok (retire_intervention i x v now g)"
  unfolding retire_intervention_def Let_def
  by (intro logged.keeps_buffers emit.keeps_buffers) (simp add: count_stat_def buffers_ok_def)

text \<open>Two governors that agree on everything the verdict of an intent looks at, and more.\<close>

definition same_authority :: "governor \<Rightarrow> governor \<Rightarrow> bool" where
  "same_authority g h \<longleftrightarrow> gv_config h = gv_config g \<and> gv_policies h = gv_policies g \<and>
     gv_streams h = gv_streams g \<and> gv_resource_generations h = gv_resource_generations g \<and>
     gv_open_events h = gv_open_events g \<and> gv_context h = gv_context g \<and>
     gv_decision_seq h = gv_decision_seq g \<and> gv_last_tick h = gv_last_tick g"

lemma same_authority_refl [simp]: "same_authority g g"
  by (simp add: same_authority_def)

lemma same_authority_trans [trans]: "same_authority g h \<Longrightarrow> same_authority h k \<Longrightarrow> same_authority g k"
  by (simp add: same_authority_def)

lemma same_authority_retire [simp]: "same_authority g (retire_intervention i x v now g)"
  by (simp add: same_authority_def)

lemma same_authority_verdict: "same_authority g h \<Longrightarrow> intent_verdict now h x = intent_verdict now g x"
  by (simp add: same_authority_def intent_verdict_def observed_generation_def)

text \<open>An intent survives the sweep when it is out of its scope, or live with a valid verdict.\<close>

definition survives :: "tick \<Rightarrow> u64 \<Rightarrow> governor \<Rightarrow> intervention_intent \<Rightarrow> bool" where
  "survives now only g x \<longleftrightarrow>
     id_valid only \<and> ii_event x \<noteq> only \<or> intent_live x \<and> intent_verdict now g x = AvValid"

lemma survives_cong: "same_authority g h \<Longrightarrow> survives now only h x = survives now only g x"
  by (simp add: survives_def same_authority_verdict)

text \<open>One step of the loop: the intent stays, is dropped because it is dead, or is retired.\<close>

lemma refresh_loop_step:
  assumes "map_of (gv_interventions g) i = Some x"
  shows "refresh_loop now only (i # ids) retire revoked g =
    (if survives now only g x then refresh_loop now only ids retire revoked g
     else if \<not> intent_live x then refresh_loop now only ids (retire @ [i]) revoked g
     else refresh_loop now only ids (retire @ [i]) (revoked + 1)
       (retire_intervention i x (intent_verdict now g x) now g))"
  using assms by (simp add: survives_def Let_def)

lemma refresh_loop_spec:
  assumes "refresh_loop now only ids retire revoked g = (retire', revoked', g')" "distinct ids"
    "set ids \<subseteq> fst ` set (gv_interventions g)"
  shows "same_authority g g' \<and> (buffers_ok g \<longrightarrow> buffers_ok g') \<and>
    map fst (gv_interventions g') = map fst (gv_interventions g) \<and>
    set retire' = set retire \<union> {j \<in> set ids. \<not> survives now only g (the (map_of (gv_interventions g) j))} \<and>
    (\<forall>j. j \<notin> set ids \<or> survives now only g (the (map_of (gv_interventions g) j)) \<longrightarrow>
      map_of (gv_interventions g') j = map_of (gv_interventions g) j)"
  using assms
proof (induction ids arbitrary: retire revoked g)
  case (Cons i ids)
  obtain x where x: "map_of (gv_interventions g) i = Some x"
    using Cons.prems(3) by (metis list.set_intros(1) map_of_eq_None_iff not_Some_eq subsetD)
  note run = Cons.prems(1) [unfolded refresh_loop_step [OF x]]
  have pre: "distinct ids" "set ids \<subseteq> fst ` set (gv_interventions g)" "i \<notin> set ids"
    using Cons.prems(2,3) by auto
  consider (stays) "survives now only g x" | (dead) "\<not> survives now only g x" "\<not> intent_live x"
    | (retired) "\<not> survives now only g x" "intent_live x" by blast
  then show ?case
  proof cases
    case stays
    with run have "refresh_loop now only ids retire revoked g = (retire', revoked', g')" by simp
    from Cons.IH [OF this pre(1,2)] show ?thesis using x stays by auto
  next
    case dead
    with run have "refresh_loop now only ids (retire @ [i]) revoked g = (retire', revoked', g')" by simp
    from Cons.IH [OF this pre(1,2)] show ?thesis using x dead by auto
  next
    case retired
    define h where "h = retire_intervention i x (intent_verdict now g x) now g"
    obtain y where y: "gv_interventions h = assign i y (gv_interventions g)"
      using retire_interventions unfolding h_def by blast
    have keys: "map fst (gv_interventions h) = map fst (gv_interventions g)"
      using y x by (simp add: keys_assign map_of_in_keys)
    have same: "map_of (gv_interventions h) j = map_of (gv_interventions g) j" if "j \<noteq> i" for j
      using y that by simp
    have gh: "same_authority g h" by (simp add: h_def)
    have "set ids \<subseteq> fst ` set (gv_interventions h)" using pre(2) keys by (metis list.set_map)
    moreover have "refresh_loop now only ids (retire @ [i]) (revoked + 1) h = (retire', revoked', g')"
      using run retired by (simp add: h_def)
    ultimately have ih: "same_authority h g' \<and> (buffers_ok h \<longrightarrow> buffers_ok g') \<and>
      map fst (gv_interventions g') = map fst (gv_interventions h) \<and>
      set retire' = set (retire @ [i]) \<union>
        {j \<in> set ids. \<not> survives now only g (the (map_of (gv_interventions h) j))} \<and>
      (\<forall>j. j \<notin> set ids \<or> survives now only g (the (map_of (gv_interventions h) j)) \<longrightarrow>
        map_of (gv_interventions g') j = map_of (gv_interventions h) j)"
      using Cons.IH [of "retire @ [i]" "revoked + 1" h] pre(1) unfolding survives_cong [OF gh] by blast
    have "{j \<in> set ids. \<not> survives now only g (the (map_of (gv_interventions h) j))} =
        {j \<in> set ids. \<not> survives now only g (the (map_of (gv_interventions g) j))}"
      using same pre(3) by force
    then have "set retire' = set retire \<union>
        {j \<in> set (i # ids). \<not> survives now only g (the (map_of (gv_interventions g) j))}"
      using ih x retired(1) by auto
    moreover have "map_of (gv_interventions g') j = map_of (gv_interventions g) j"
      if j: "j \<notin> set (i # ids) \<or> survives now only g (the (map_of (gv_interventions g) j))" for j
    proof -
      have "j \<noteq> i" using j x retired(1) by auto
      then show ?thesis using ih same j by simp
    qed
    moreover have "same_authority g g'" "buffers_ok g \<longrightarrow> buffers_ok g'"
      using gh ih same_authority_trans by (blast, simp add: h_def retire_buffers)
    ultimately show ?thesis using ih keys by simp
  qed
qed simp

text \<open>So the sweep is a filter: it keeps exactly the intents that survive, as they are.\<close>

lemma fold_erase_filter: "fold erase ks m = filter (\<lambda>(i, x). i \<notin> set ks) m"
proof (induction ks arbitrary: m)
  case (Cons k ks)
  have "fold erase (k # ks) m = filter (\<lambda>(i, x). i \<notin> set ks) (erase k m)" by (simp add: Cons.IH)
  also have "\<dots> = filter (\<lambda>(i, x). i \<notin> set (k # ks)) m"
    by (simp add: erase_def case_prod_beta' conj_commute)
  finally show ?case .
qed (simp add: case_prod_beta)

lemma filter_keys_eq:
  "map fst h = map fst m \<Longrightarrow> distinct (map fst m) \<Longrightarrow> (\<And>j. j \<notin> R \<Longrightarrow> map_of h j = map_of m j) \<Longrightarrow>
   filter (\<lambda>(i, x). i \<notin> R) h = filter (\<lambda>(i, x). i \<notin> R) m"
proof (induction m arbitrary: h)
  case (Cons a m)
  obtain k x where a: "a = (k, x)" by (cases a)
  obtain y h' where h: "h = (k, y) # h'" using Cons.prems(1) a by (cases h) auto
  have keys: "fst ` set h' = fst ` set m" using Cons.prems(1) by (simp add: a h) (metis list.set_map)
  have k: "map_of h' k = None" "map_of m k = None"
    using Cons.prems(2) keys by (simp_all add: a map_of_eq_None_iff)
  have "map_of h' j = map_of m j" if "j \<notin> R" for j
    using Cons.prems(3) [OF that] k by (cases "j = k") (simp_all add: a h)
  then have "filter (\<lambda>(i, x). i \<notin> R) h' = filter (\<lambda>(i, x). i \<notin> R) m"
    using Cons.prems(1,2) by (intro Cons.IH) (simp_all add: a h)
  moreover have "y = x" if "k \<notin> R" using Cons.prems(3) [OF that] by (simp add: a h)
  ultimately show ?case by (simp add: a h)
qed simp

lemma refresh_authority_spec:
  assumes "distinct (map fst (gv_interventions g))"
  shows "same_authority g (snd (refresh_authority now only g))"
    "buffers_ok g \<Longrightarrow> buffers_ok (snd (refresh_authority now only g))"
    "gv_interventions (snd (refresh_authority now only g)) =
       filter (\<lambda>(i, x). survives now only g x) (gv_interventions g)"
proof -
  obtain retire revoked h where
    l: "refresh_loop now only (map fst (gv_interventions g)) [] 0 g = (retire, revoked, h)"
    by (metis prod_cases3)
  note spec = refresh_loop_spec [OF l assms, simplified]
  have r: "snd (refresh_authority now only g) = h\<lparr>gv_interventions := fold erase retire (gv_interventions h)\<rparr>"
    using l by (simp add: refresh_authority_def)
  show "same_authority g (snd (refresh_authority now only g))"
    using spec by (simp add: r same_authority_def)
  show "buffers_ok (snd (refresh_authority now only g))" if "buffers_ok g"
    using spec that by (simp add: r buffers_ok_def)
  have R: "j \<in> set retire \<longleftrightarrow> j \<in> fst ` set (gv_interventions g) \<and>
      \<not> survives now only g (the (map_of (gv_interventions g) j))" for j
    using spec by blast
  have "map_of (gv_interventions h) j = map_of (gv_interventions g) j" if "j \<notin> set retire" for j
    using spec that R by blast
  then have "filter (\<lambda>(i, x). i \<notin> set retire) (gv_interventions h) =
      filter (\<lambda>(i, x). i \<notin> set retire) (gv_interventions g)"
    using spec assms by (intro filter_keys_eq) simp_all
  also have "\<dots> = filter (\<lambda>(i, x). survives now only g x) (gv_interventions g)"
  proof (rule filter_cong [OF refl], clarify)
    fix i x assume i: "(i, x) \<in> set (gv_interventions g)"
    then have "map_of (gv_interventions g) i = Some x" "i \<in> fst ` set (gv_interventions g)"
      using assms by (auto intro: rev_image_eqI)
    then show "(i \<notin> set retire) = survives now only g x" by (simp add: R)
  qed
  finally show "gv_interventions (snd (refresh_authority now only g)) =
      filter (\<lambda>(i, x). survives now only g x) (gv_interventions g)"
    by (simp add: r fold_erase_filter)
qed

end
