(* ===== verification/Recovery.thy ===== *)
theory Recovery
  imports Governor
begin

text \<open>
  Recovery (\<open>Governor::restore\<close> and its accumulators in \<open>src/governor.cpp\<close>): the snapshot and the
  journal are folded into an accumulator, and only configuration and history are rebuilt from it.
  Nothing that recovery reads becomes live again.
\<close>

section \<open>The accumulator\<close>

record recovery_accumulator =
  ra_open_events :: "(u64 \<times> burst_event) list"
  ra_closed_events :: "burst_event list"
  ra_intervention_index :: "u64 \<rightharpoonup> nat"
  ra_interventions :: "intervention_intent list"
  ra_fallback :: "policy option"
  ra_overrides :: "policy_override list"
  ra_generation :: u32
  ra_counters :: persisted_state

definition accumulator_empty :: recovery_accumulator where
  "accumulator_empty = \<lparr>ra_open_events = [], ra_closed_events = [], ra_intervention_index = Map.empty,
     ra_interventions = [], ra_fallback = None, ra_overrides = [], ra_generation = id_invalid,
     ra_counters = persisted_state_default\<rparr>"

definition accumulate_event :: "burst_event \<Rightarrow> recovery_accumulator \<Rightarrow> recovery_accumulator" where
  "accumulate_event e acc =
     (if event_open e then acc\<lparr>ra_open_events := assign (ev_id e) e (ra_open_events acc)\<rparr>
      else acc\<lparr>ra_closed_events := ra_closed_events acc @ [e]\<rparr>)"

definition accumulate_intent :: "intervention_intent \<Rightarrow> recovery_accumulator \<Rightarrow> recovery_accumulator" where
  "accumulate_intent i acc =
     (case ra_intervention_index acc (ii_id i) of
        None \<Rightarrow>
          if length (ra_interventions acc) \<ge> kMaxInterventions then acc
          else acc\<lparr>ra_intervention_index :=
                   (ra_intervention_index acc)(ii_id i \<mapsto> length (ra_interventions acc)),
                 ra_interventions := ra_interventions acc @ [i]\<rparr>
      | Some k \<Rightarrow> acc\<lparr>ra_interventions := (ra_interventions acc)[k := i]\<rparr>)"

definition accumulate_state :: "persisted_state \<Rightarrow> recovery_accumulator \<Rightarrow> recovery_accumulator" where
  "accumulate_state s acc =
     (let acc = acc\<lparr>ra_fallback := Some (ps_fallback (pd_policies s)),
            ra_overrides := ps_overrides (pd_policies s), ra_generation := ps_generation (pd_policies s)\<rparr>;
          acc = fold accumulate_event (pd_events s) acc;
          acc = fold accumulate_intent (pd_interventions s) acc
      in acc\<lparr>ra_counters := s\<rparr>)"

definition accumulate_policy :: "byte list \<Rightarrow> recovery_accumulator \<Rightarrow> recovery_accumulator" where
  "accumulate_policy payload acc =
     (let (generation, r) = get_u32 (reader_of payload)
      in case decode_policy r of
           Inl _ \<Rightarrow> acc
         | Inr (p, _) \<Rightarrow> acc\<lparr>ra_fallback := Some p, ra_generation := generation\<rparr>)"

definition accumulate_authority :: "byte list \<Rightarrow> recovery_accumulator \<Rightarrow> recovery_accumulator" where
  "accumulate_authority payload acc =
     (let (epoch, r) = get_u32 (reader_of payload); (inc, r) = get_u64 r; (boot, r) = get_u64 r
      in acc\<lparr>ra_counters := (ra_counters acc)\<lparr>pd_epoch := epoch, pd_incarnation := inc, pd_boot := boot\<rparr>\<rparr>)"

definition accumulate_record :: "journaled_record \<Rightarrow> recovery_accumulator \<Rightarrow> recovery_accumulator" where
  "accumulate_record rec acc =
     (let opened = (\<lambda>e. acc\<lparr>ra_open_events := assign (ev_id e) e (ra_open_events acc)\<rparr>);
          closed = (\<lambda>e. acc\<lparr>ra_open_events := erase (ev_id e) (ra_open_events acc),
                            ra_closed_events := ra_closed_events acc @ [e]\<rparr>);
          event = (\<lambda>f. case decode_event (reader_of (jr_payload rec)) of Inl _ \<Rightarrow> acc | Inr (e, _) \<Rightarrow> f e);
          intent = (case decode_intent (reader_of (jr_payload rec)) of
            Inl _ \<Rightarrow> acc | Inr (i, _) \<Rightarrow> accumulate_intent i acc)
      in case jr_type rec of
           RtPolicyInstalled \<Rightarrow> accumulate_policy (jr_payload rec) acc
         | RtEpisodeOpened \<Rightarrow> event opened
         | RtEpisodeClosed \<Rightarrow> event closed
         | RtEpisodeFenced \<Rightarrow> event closed
         | RtInterventionRequested \<Rightarrow> intent
         | RtInterventionStateChanged \<Rightarrow> intent
         | RtAuthorityBound \<Rightarrow> accumulate_authority (jr_payload rec) acc
         | RtEpisodeUpdated \<Rightarrow> acc
         | RtCheckpoint \<Rightarrow> acc
         | RtUnknown \<Rightarrow> acc)"

section \<open>Rebuilding\<close>

text \<open>The visitor of the replay: it collects the records up to the recovery bound.\<close>

definition collect_record :: "journaled_record \<Rightarrow> journaled_record list \<Rightarrow> status \<times> journaled_record list" where
  "collect_record rec recs =
     (if length recs \<ge> kMaxRecoveredRecords then
        (failure StOversized ''journal record count exceeds the bound'', recs)
      else (status_ok, recs @ [rec]))"

definition add_ambiguous :: "restore_report \<Rightarrow> restore_report" where
  "add_ambiguous r = r\<lparr>rr_ambiguous_outcomes := rr_ambiguous_outcomes r + 1\<rparr>"

definition restore_snapshot ::
  "bool \<Rightarrow> byte list \<Rightarrow> restore_report \<Rightarrow> restore_report \<times> recovery_accumulator" where
  "restore_snapshot present payload report =
     (if present \<and> payload \<noteq> [] then
        case decode_state payload of
          Inl st \<Rightarrow> ((add_ambiguous report)\<lparr>rr_detail := rr_detail report @
              ''; snapshot payload rejected: '' @ st_detail st\<rparr>, accumulator_empty)
        | Inr s \<Rightarrow> (report, accumulate_state s accumulator_empty)
      else (report, accumulator_empty))"

definition restore_policies ::
  "recovery_accumulator \<Rightarrow> restore_report \<Rightarrow> governor \<Rightarrow> restore_report \<times> governor" where
  "restore_policies acc report g =
     (case ra_fallback acc of
        None \<Rightarrow> (report, g)
      | Some fallback \<Rightarrow>
          (case policy_set_restore fallback (ra_overrides acc) (ra_generation acc) of
             Inl _ \<Rightarrow> (add_ambiguous report, g)
           | Inr ps \<Rightarrow> (report\<lparr>rr_configuration_items :=
                 rr_configuration_items report + 1 + of_nat (length (ra_overrides acc))\<rparr>,
               set_context_policy (g\<lparr>gv_policies := ps\<rparr>))))"

definition restore_closed :: "burst_event \<Rightarrow> restore_report \<times> governor \<Rightarrow> restore_report \<times> governor" where
  "restore_closed e = (\<lambda>(report, g).
     (report\<lparr>rr_history_items := rr_history_items report + 1\<rparr>, record_event (stamp_context (gv_context g) e) g))"

definition fenced_by_restart :: "authority_context \<Rightarrow> burst_event \<Rightarrow> burst_event" where
  "fenced_by_restart c e =
     (stamp_context c (e\<lparr>ev_lifecycle := ElFenced, ev_close_reason := CrRestart,
        ev_closed_tick := bm_last_update_tick (ev_metrics e)\<rparr>))\<lparr>ev_revision := ev_revision e + 1\<rparr>"

definition restore_open :: "burst_event \<Rightarrow> restore_report \<times> governor \<Rightarrow> restore_report \<times> governor" where
  "restore_open e = (\<lambda>(report, g).
     (report\<lparr>rr_unfinished_attempts := rr_unfinished_attempts report + 1,
             rr_history_items := rr_history_items report + 1\<rparr>,
      record_event (fenced_by_restart (gv_context g) e) g))"

definition restore_intent ::
  "intervention_intent \<Rightarrow> restore_report \<times> governor \<Rightarrow> restore_report \<times> governor" where
  "restore_intent i = (\<lambda>(report, g).
     if \<not> intent_live i then (report, g)
     else
       let copy = i\<lparr>ii_state := IsFenced, ii_revocation_verdict := AvBootChanged,
             ii_state_changed_tick := gv_last_tick g\<rparr>;
           hist = gv_intervention_history g @ [copy]
       in (report\<lparr>rr_stale_authority_items := rr_stale_authority_items report + 1\<rparr>,
           g\<lparr>gv_intervention_history := (if length hist > kMaxInterventions then tl hist else hist)\<rparr>))"

definition restore_counters :: "persisted_state \<Rightarrow> governor \<Rightarrow> governor" where
  "restore_counters c g =
     (let g = g\<lparr>gv_stats := (gv_stats g)\<lparr>gs_decisions := pd_decisions c,
            gs_episodes_opened := pd_episodes_opened c, gs_episodes_closed := pd_episodes_closed c,
            gs_episodes_fenced := pd_episodes_fenced c,
            gs_interventions_requested := pd_interventions_requested c,
            gs_interventions_revoked := pd_interventions_revoked c\<rparr>\<rparr>;
          g = (if pd_last_decision_seq c > gv_decision_seq g
               then g\<lparr>gv_decision_seq := pd_last_decision_seq c\<rparr> else g);
          g = (if pd_last_record_seq c > gv_record_seq g
               then g\<lparr>gv_record_seq := pd_last_record_seq c\<rparr> else g)
      in if pd_last_tick c > gv_last_tick g then g\<lparr>gv_last_tick := pd_last_tick c\<rparr> else g)"

definition restore_state ::
  "recovery_accumulator \<Rightarrow> restore_report \<Rightarrow> governor \<Rightarrow> restore_report \<times> governor" where
  "restore_state acc report g =
     (let (report, g) = restore_policies acc report g;
          (report, g) = fold restore_closed (ra_closed_events acc) (report, g);
          (report, g) = fold restore_open (map snd (ra_open_events acc)) (report, g);
          (report, g) = fold restore_intent (ra_interventions acc) (report, g);
          g = restore_counters (ra_counters acc) g
      in (report\<lparr>rr_evidence_requiring_revalidation :=
            of_nat (length (remdups (map (\<lambda>e. sk_resource (ev_stream e)) (gv_history g))))\<rparr>, g))"

definition restore_announce :: "governor \<Rightarrow> governor" where
  "restore_announce g =
     (let c = gv_context g;
          g = push_emission ((emission_of EkAuthorityBound (gv_last_tick g))
                \<lparr>em_epoch := ax_epoch c, em_incarnation := ax_incarnation c\<rparr>) g
      in if gc_enable_journal (gv_config g)
         then append_record RtAuthorityBound
           (authority_payload (ax_epoch c) (ax_incarnation c) (ax_boot c)) (gv_last_tick g) g
         else g)"

definition restore :: "governor \<Rightarrow> (status \<times> restore_report) \<times> governor" where
  "restore g =
     (case gv_store g of
        None \<Rightarrow> ((failure StNotFound ''no durable store is bound'', restore_report_default), g)
      | Some s \<Rightarrow>
          let (res, s, recs) = store_replay (env_now g) collect_record s [];
              g = g\<lparr>gv_store := Some s, gv_env_pos := gv_env_pos g + 1\<rparr>
          in case res of
               Inl st \<Rightarrow> ((st, restore_report_default), g)
             | Inr (recovery, payload) \<Rightarrow>
                 let report = restore_report_default\<lparr>rr_snapshot_present := rp_snapshot_present recovery,
                       rr_records_applied := rp_records_replayed recovery,
                       rr_recovery_outcome := outcome_to_string (rp_outcome recovery),
                       rr_detail := rp_detail recovery\<rparr>;
                     report = (if rp_outcome recovery = RoTruncatedTail \<or> rp_outcome recovery = RoCorruptTail
                       then add_ambiguous report else report);
                     (report, acc) = restore_snapshot (rp_snapshot_present recovery) payload report;
                     acc = fold (\<lambda>rec acc. if jr_seq rec \<le> rp_snapshot_covered_seq recovery then acc
                       else accumulate_record rec acc) recs acc;
                     (report, g) = restore_state acc report g
                 in ((status_ok, report), restore_announce g))"

section \<open>Nothing recovered is live\<close>

text \<open>The parts of the governor that no recovery step touches.\<close>

definition same_live :: "governor \<Rightarrow> governor \<Rightarrow> bool" where
  "same_live g h \<longleftrightarrow> gv_interventions h = gv_interventions g \<and> gv_open_events h = gv_open_events g \<and>
     gv_streams h = gv_streams g \<and> gv_config h = gv_config g \<and>
     gv_resource_generations h = gv_resource_generations g"

lemma same_live_refl [simp, intro]: "same_live g g"
  by (simp add: same_live_def)

lemma same_live_trans: "same_live g h \<Longrightarrow> same_live h k \<Longrightarrow> same_live g k"
  by (simp add: same_live_def)

lemma same_live_count [simp]: "same_live g (count_stat f h) \<longleftrightarrow> same_live g h"
  by (simp add: same_live_def count_stat_def)

lemma same_live_record [simp]: "same_live g (record_event e h) \<longleftrightarrow> same_live g h"
  by (simp add: same_live_def record_event_def count_stat_def)

lemma same_live_emission [simp]: "same_live g (push_emission e h) \<longleftrightarrow> same_live g h"
  by (simp add: same_live_def push_emission_def count_stat_def Let_def)

end
