(* ===== verification/Reports.thy ===== *)
theory Reports
  imports Detector
begin

text \<open>
  What a decision hands to the governor: whenever it opens, updates or closes an episode, the episode
  of the detector is an event the codec accepts, and a positive decision carries a severity in range.
  The cached decision of a repeated evaluation is covered by \<open>det_filed\<close>.
\<close>

section \<open>The key is never changed\<close>

lemma step_state_key [simp]: "dt_key (fst (step_state now m deg d dec)) = dt_key d"
  by (simp add: step_state_def step_idle_def step_active_def step_recovering_def case_prod_beta Let_def
      split: detector_state.split)

lemma step_timeout_key [simp]: "dt_key (fst (step_timeout now d dec)) = dt_key d"
  by (simp add: step_timeout_def case_prod_beta Let_def)

lemma evaluate_admissible_key [simp]: "dt_key (fst (evaluate_admissible now gap m deg d dec)) = dt_key d"
  by (simp add: evaluate_admissible_def case_prod_beta Let_def)

lemma evaluate_inadmissible_key [simp]: "dt_key (fst (evaluate_inadmissible now g d dec)) = dt_key d"
  by (simp add: evaluate_inadmissible_def case_prod_beta Let_def)

lemma evaluate_key [simp]: "dt_key (snd (evaluate now d)) = dt_key d"
  by (simp add: evaluate_def evaluate_fresh_def case_prod_beta Let_def)

lemma fence_decision_key [simp]: "dt_key (fst (fence_decision r now d)) = dt_key d"
  by (simp add: fence_decision_def case_prod_beta Let_def)

lemma detector_ingest_key [simp]: "dt_key (snd (detector_ingest s d)) = dt_key d"
  by (simp add: detector_ingest_def case_prod_beta Let_def)

lemma detector_advance_key [simp]: "dt_key (snd (detector_advance t d)) = dt_key d"
  by (simp add: detector_advance_def)

lemma rearm_key [simp]: "dt_key (snd (rearm p g now d)) = dt_key d"
  by (simp add: rearm_def case_prod_beta Let_def)

lemma detector_new_key [simp]: "dt_key (detector_new k p g) = k"
  by (simp add: detector_new_def configure_def detector_blank_def Let_def)

section \<open>Reports\<close>

definition reports_event :: "decision \<Rightarrow> bool" where
  "reports_event dec \<longleftrightarrow> dd_opened dec \<or> dd_updated dec \<or> dd_closed dec"

definition files :: "detector \<Rightarrow> decision \<Rightarrow> bool" where
  "files d dec \<longleftrightarrow> (reports_event dec \<longrightarrow> event_wf (dt_episode d))"

definition recordable :: "decision \<Rightarrow> detector \<Rightarrow> bool" where
  "recordable dec d \<longleftrightarrow> files d dec \<and> dd_stream dec = dt_key d \<and>
     (is_positive (dd_classification dec) \<longrightarrow>
        severity_wf (dd_severity dec) \<and> is_valid_severity (severity_raw (dd_severity dec)))"

definition det_filed :: "detector \<Rightarrow> bool" where
  "det_filed d \<longleftrightarrow> det_core d \<and> (dt_has_evaluated d \<longrightarrow> recordable (dt_last_decision d) d)"

section \<open>The steps of an evaluation\<close>

lemma core_episode: "det_core d \<Longrightarrow> has_open_episode d \<Longrightarrow> event_wf (dt_episode d)"
  by (simp add: det_core_def episode_ok_def)

lemma closed_episode: "event_wf (dt_episode d) \<Longrightarrow> close_wf r \<Longrightarrow> event_wf (dt_episode (fst (close_episode r now f d dec)))"
  by (simp add: close_episode_def event_wf_def event_positive_def Let_def)

lemma updated_episode:
  assumes "det_core d" "has_open_episode d" "dd_authority dec \<noteq> EvUnknown" "summary_wf (dd_evidence dec)"
  shows "event_wf (dt_episode (fst (update_episode now m d dec)))"
  using core_episode [OF core_update [OF assms(1,3,4)]] assms(2) by (simp add: has_open_episode_def)

lemma files_idle:
  assumes "det_core d" "files d dec" "dd_authority dec \<noteq> EvUnknown" "summary_wf (dd_evidence dec)"
  shows "files (fst (step_idle now m deg d dec)) (snd (step_idle now m deg d dec))"
proof -
  have "event_wf (dt_episode (fst (update_episode now m (fst (open_episode now d dec)) (snd (open_episode now d dec)))))"
    using assms by (intro updated_episode core_open) (simp_all add: has_open_episode_def)
  then show ?thesis using assms(2)
    by (auto simp: files_def reports_event_def step_idle_def case_prod_beta Let_def)
qed

lemma files_active:
  assumes "det_core d" "dt_state d = DsActive" "dd_authority dec \<noteq> EvUnknown" "summary_wf (dd_evidence dec)"
  shows "files (fst (step_active now m deg d dec)) (snd (step_active now m deg d dec))"
  using updated_episode [OF assms(1) _ assms(3,4), of now m] assms(2)
  by (simp add: files_def step_active_def has_open_episode_def case_prod_beta Let_def)

lemma files_recovering:
  assumes "det_core d" "dt_state d = DsRecovering" "dd_authority dec \<noteq> EvUnknown" "summary_wf (dd_evidence dec)"
  shows "files (fst (step_recovering now m deg d dec)) (snd (step_recovering now m deg d dec))"
proof -
  define d1 where "d1 = d\<lparr>dt_state := DsActive, dt_release_sustaining := False, dt_release_progress_ticks := 0\<rparr>"
  have "det_core d1" "has_open_episode d1" using assms(1,2) by (auto simp: d1_def det_core_def has_open_episode_def)
  then have "event_wf (dt_episode (fst (update_episode now m d1 (dd_reason RcEpisodeMerged 0 0 now dec))))"
    using assms(3,4) by (intro updated_episode) simp_all
  moreover have "event_wf (dt_episode (fst (update_episode now m d dec)))"
    using assms by (intro updated_episode) (simp_all add: has_open_episode_def)
  ultimately show ?thesis
    by (simp add: files_def step_recovering_def closed_episode case_prod_beta Let_def flip: d1_def)
qed

lemma files_step_state:
  "det_core d \<Longrightarrow> files d dec \<Longrightarrow> dd_authority dec \<noteq> EvUnknown \<Longrightarrow> summary_wf (dd_evidence dec) \<Longrightarrow>
   files (fst (step_state now m deg d dec)) (snd (step_state now m deg d dec))"
  by (cases "dt_state d") (simp_all add: step_state_def files_idle files_active files_recovering)

lemma files_step_timeout:
  "det_core d \<Longrightarrow> files d dec \<Longrightarrow> files (fst (step_timeout now d dec)) (snd (step_timeout now d dec))"
  by (simp add: step_timeout_def files_def reports_event_def closed_episode core_episode case_prod_beta Let_def)

lemma files_admissible:
  assumes "det_core d" "\<not> reports_event dec" "summary_wf (dd_evidence dec)"
  shows "files (fst (evaluate_admissible now gap m deg d dec)) (snd (evaluate_admissible now gap m deg d dec))"
proof -
  define d1 where "d1 = release_update gap m (onset_update now gap m (d\<lparr>dt_inadmissible_since_set := False\<rparr>))"
  define dec1 where "dec1 = explain_rules now m d1 (dec\<lparr>dd_authority := (if deg then EvDegraded else EvAuthoritative)\<rparr>)"
  have "det_core (d\<lparr>dt_inadmissible_since_set := False\<rparr>)"
    using assms(1) by (simp add: det_core_def has_open_episode_def)
  then have 1: "det_core d1" unfolding d1_def by (intro core_release core_onset)
  have f: "same_verdict dec1 (dec\<lparr>dd_authority := (if deg then EvDegraded else EvAuthoritative)\<rparr>)"
    unfolding dec1_def by (rule explain_rules_frame)
  then have a: "dd_authority dec1 \<noteq> EvUnknown" "summary_wf (dd_evidence dec1)" "files d1 dec1"
    using assms(2,3) by (auto simp: same_verdict_def files_def reports_event_def)
  have "files (fst (step_timeout now (fst (step_state now m deg d1 dec1)) (snd (step_state now m deg d1 dec1))))
      (snd (step_timeout now (fst (step_state now m deg d1 dec1)) (snd (step_state now m deg d1 dec1))))"
    by (intro files_step_timeout core_step_state files_step_state 1 a)
  then show ?thesis by (simp add: evaluate_admissible_def case_prod_beta Let_def flip: d1_def dec1_def)
qed

lemma files_inadmissible:
  assumes "det_core d" "\<not> reports_event dec"
  shows "files (fst (evaluate_inadmissible now g d dec)) (snd (evaluate_inadmissible now g d dec))"
  using assms core_episode [OF assms(1)]
  by (auto simp: evaluate_inadmissible_def files_def reports_event_def closed_episode case_prod_beta Let_def)

section \<open>Every decision the governor receives\<close>

lemma positive_recordable:
  assumes "fresh_tick now d" "evaluate now d = (dec, d')" "det_core d'" "is_positive (dd_classification dec)"
  shows "severity_wf (dd_severity dec) \<and> is_valid_severity (severity_raw (dd_severity dec))"
proof -
  have "has_open_episode d'" "dd_severity dec = ev_severity (dt_episode d')"
    using evaluate_fresh_verdict(4,5) [OF assms(1,2)] assms(4) by blast+
  then show ?thesis using core_episode [OF assms(3)] by (simp add: event_wf_def)
qed

lemma evaluate_recordable:
  assumes "det_filed d" "evaluate now d = (dec, d')"
  shows "det_filed d' \<and> recordable dec d'"
proof (cases "fresh_tick now d")
  case True
  have core: "det_core d" "det_core d'" using assms(1) core_evaluate [OF _ assms(2)] by (simp_all add: det_filed_def)
  note v = evaluate_fresh_verdict(1,3) [OF True assms(2)]
  obtain d1 dec1 where gd: "gated now d = (d1, dec1)" by (cases "gated now d")
  note gf = gated_facts [OF gd]
  have 1: "det_core d1" "\<not> reports_event dec1"
    using core(1) gf by (simp_all add: det_core_def has_open_episode_def reports_event_def)
  have same: "files (d2\<lparr>dt_last_decision := x\<rparr>) y = files d2 y" for d2 x y by (simp add: files_def)
  have "files d' dec"
    using assms(2) True gd files_inadmissible [OF 1] files_admissible [OF 1 gf(8)]
    by (auto simp: evaluate_def fresh_tick_def evaluate_fresh_eq Let_def case_prod_beta same split: if_splits)
  moreover have "dt_key d' = dt_key d" using evaluate_key [of now d] assms(2) by simp
  ultimately have "recordable dec d'"
    using v positive_recordable [OF True assms(2) core(2)] by (simp add: recordable_def)
  then show ?thesis using core(2) v by (simp add: det_filed_def)
next
  case False
  then have "dt_has_evaluated d" by (simp add: fresh_tick_def)
  moreover have "d' = d" "dec = dt_last_decision d" using assms(2) unfolding evaluate_cached [OF False] by auto
  ultimately show ?thesis using assms(1) by (simp add: det_filed_def)
qed

text \<open>A window or a generation change in between does not matter.\<close>

lemma recordable_cong:
  "dt_episode x = dt_episode d \<Longrightarrow> dt_key x = dt_key d \<Longrightarrow> recordable dec x = recordable dec d"
  by (simp add: recordable_def files_def)

lemma filed_cong:
  assumes "det_filed d" "det_core x" "dt_episode x = dt_episode d" "dt_key x = dt_key d"
    "dt_has_evaluated x = dt_has_evaluated d" "dt_last_decision x = dt_last_decision d"
  shows "det_filed x"
  using assms recordable_cong [OF assms(3,4)] by (simp add: det_filed_def)

lemma fenced_recordable:
  assumes "det_filed d" "has_open_episode d" "close_wf r" "fence_decision r now d = (d', dec)"
  shows "det_filed d' \<and> recordable dec d' \<and> event_wf (dt_episode d')"
proof -
  have core: "det_core d" using assms(1) by (simp add: det_filed_def)
  define c where "c = close_episode r now True d (identity_decision now d)"
  have eq: "d' = fst c" "dec = (snd c)\<lparr>dd_classification := ClFenced\<rparr>"
    using assms(4) by (simp_all add: fence_decision_def c_def Let_def case_prod_beta)
  have wf: "event_wf (dt_episode d')"
    unfolding eq c_def by (rule closed_episode [OF core_episode [OF core assms(2)] assms(3)])
  have key: "dt_key d' = dt_key d" "dt_has_evaluated d' = dt_has_evaluated d"
      "dt_last_decision d' = dt_last_decision d"
    by (simp_all add: eq c_def)
  have "recordable dec d'" using wf by (simp add: recordable_def files_def eq c_def identity_decision_def)
  moreover have "det_filed d'"
    using assms(1) wf core_close [OF core, of r now True "identity_decision now d"] key
    by (simp add: det_filed_def recordable_def files_def eq(1) c_def [symmetric])
  ultimately show ?thesis using wf by simp
qed

lemma advance_recordable:
  "det_filed d \<Longrightarrow> detector_advance now d = (dec, d') \<Longrightarrow> det_filed d' \<and> recordable dec d'"
  by (simp add: detector_advance_def evaluate_recordable)

lemma offered_recordable:
  assumes "det_filed d" "x \<in> {d, d\<lparr>dt_resource_generation := n\<rparr>,
      d\<lparr>dt_resource_generation := n, dt_window := reset_window d\<rparr>}"
    "offer s tol (dt_window x) = (a, w)" "evaluate t (x\<lparr>dt_window := w, dt_last_accept := a\<rparr>) = (dec, d')"
  shows "det_filed d' \<and> recordable dec d'"
proof -
  have core: "det_core d" using assms(1) by (simp add: det_filed_def)
  have same: "dt_episode x = dt_episode d" "dt_key x = dt_key d" "dt_has_evaluated x = dt_has_evaluated d"
    "dt_last_decision x = dt_last_decision d"
    using assms(2) by (elim insertE emptyE; simp)+
  have "det_core (d\<lparr>dt_resource_generation := n\<rparr>)"
    using core by (simp add: det_core_def has_open_episode_def)
  moreover have "det_core (d\<lparr>dt_resource_generation := n, dt_window := reset_window d\<rparr>)"
    by (rule core_cong(3) [OF core reset_window_inv])
  ultimately have x: "det_core x" using assms(2) core by (elim insertE emptyE) simp_all
  then have "win_inv w" using offer_inv [OF _ assms(3)] by (simp add: det_core_def)
  then have "det_core (x\<lparr>dt_window := w, dt_last_accept := a\<rparr>)" using x by (rule core_cong(2) [rotated])
  then have "det_filed (x\<lparr>dt_window := w, dt_last_accept := a\<rparr>)"
    by (rule filed_cong [OF assms(1)]) (simp_all add: same)
  from evaluate_recordable [OF this assms(4)] show ?thesis .
qed

lemma ingest_recordable:
  assumes "det_filed d" "detector_ingest s d = (res, d')"
  shows "det_filed d' \<and> (\<forall>dec. res = Inr dec \<longrightarrow> recordable dec d')"
proof -
  define changed where "changed \<longleftrightarrow> id_valid (sm_resource_generation s) \<and> id_valid (dt_resource_generation d) \<and>
     sm_resource_generation s \<noteq> dt_resource_generation d"
  define bad where "bad \<longleftrightarrow> sm_stream s \<noteq> dt_key d \<or> \<not> is_ok (validate_sample s)"
  consider (refused) bad | (fenced) "\<not> bad" "changed \<and> has_open_episode d"
    | (offered) "\<not> bad" "\<not> (changed \<and> has_open_episode d)" by blast
  then show ?thesis
  proof cases
    case refused
    then show ?thesis using assms by (auto simp: detector_ingest_def bad_def Let_def split: if_splits)
  next
    case fenced
    obtain f dec where fd: "fence_decision CrCapacityChanged (sm_tick s) d = (f, dec)" by (metis surj_pair)
    have d': "d' = (f\<lparr>dt_resource_generation := sm_resource_generation s\<rparr>)
        \<lparr>dt_window := reset_window (f\<lparr>dt_resource_generation := sm_resource_generation s\<rparr>),
         dt_last_accept := WaCapacityChanged\<rparr>" and res: "res = Inr dec"
      using assms(2) fenced fd by (auto simp: detector_ingest_def bad_def changed_def Let_def)
    have o: "has_open_episode d" using fenced by simp
    note f = fenced_recordable [OF assms(1) o close_wf_named(8) fd]
    have "det_core d'" using f reset_window_inv unfolding d' det_filed_def by (simp add: det_core_def has_open_episode_def)
    then have "det_filed d'" by (rule filed_cong [OF f [THEN conjunct1]]) (simp_all add: d')
    moreover have "recordable dec d' = recordable dec f" by (rule recordable_cong) (simp_all add: d')
    ultimately show ?thesis using f res by simp
  next
    case offered
    define x where "x = (if changed then d\<lparr>dt_resource_generation := sm_resource_generation s, dt_window := reset_window d\<rparr>
      else if id_valid (sm_resource_generation s) then d\<lparr>dt_resource_generation := sm_resource_generation s\<rparr> else d)"
    obtain a w where o: "offer s (dp_reorder_tolerance_ticks (po_detection (dt_policy x))) (dt_window x) = (a, w)"
      by (metis surj_pair)
    obtain dec d2 where e: "evaluate (sm_tick s) (x\<lparr>dt_window := w, dt_last_accept := a\<rparr>) = (dec, d2)"
      by (metis surj_pair)
    have key: "sm_stream s = dt_key d" "is_ok (validate_sample s) = True" using offered(1) by (simp_all add: bad_def)
    have "detector_ingest s d = (Inr dec, d2)"
      unfolding detector_ingest_def changed_def [symmetric] Let_def x_def [symmetric]
      by (simp only: key if_not_P [OF offered(2)] o e prod.case simp_thms if_False)
    then show ?thesis using assms(2) offered_recordable [OF assms(1) _ o e, of "sm_resource_generation s"]
      by (auto simp: x_def)
  qed
qed

lemma rearm_recordable:
  assumes "det_filed d" "policy_in_force p" "rearm p g now d = (fenced, d')"
  shows "det_filed d' \<and> (fenced \<noteq> None \<longrightarrow> event_wf (dt_episode d'))"
proof -
  have core: "det_core d" using assms(1) by (simp add: det_filed_def)
  have eq: "fenced = fst (rearm p g now d)" "d' = snd (rearm p g now d)" using assms(3) by simp_all
  have "det_core d'" unfolding eq by (rule core_rearm [OF core assms(2)])
  moreover have "\<not> dt_has_evaluated d'" unfolding eq by (simp add: rearm_def Let_def case_prod_beta)
  moreover have "event_wf (dt_episode d')" if "fenced \<noteq> None"
  proof -
    have o: "has_open_episode d" using that unfolding eq by (simp add: rearm_def Let_def case_prod_beta split: if_splits)
    obtain f dec where f: "fence_decision CrPolicyChanged now d = (f, dec)" by (metis surj_pair)
    have "dt_episode d' = dt_episode f" unfolding eq using o f by (simp add: rearm_def Let_def)
    then show ?thesis using fenced_recordable [OF assms(1) o close_wf_named(5) f] by simp
  qed
  ultimately show ?thesis by (simp add: det_filed_def)
qed

lemma filed_new: "stream_key_valid k \<Longrightarrow> policy_in_force p \<Longrightarrow> det_filed (detector_new k p g)"
  using core_new [of k p g] by (simp add: det_filed_def) (simp add: detector_new_def configure_def Let_def)

end
