(* ===== verification/Governor_Invariant.thy ===== *)
theory Governor_Invariant
  imports Governor_Laws Recovery Reports
begin

text \<open>
  The invariant of the governor and its preservation by every operation. The invariant is
  parametric in what is asked of the detectors and of the policies: \<open>detector_contract\<close> is the
  interface between the governor and the detector, interpreted on the trivial contract, which every
  operation keeps, recovery included, and on the full detector invariant.
\<close>

section \<open>The interface to the detectors\<close>

locale detector_contract =
  fixes P :: "detector \<Rightarrow> bool" and Q :: "policy \<Rightarrow> bool"
  assumes created: "stream_key_valid k \<Longrightarrow> Q p \<Longrightarrow> P (detector_new k p g)"
    and ingested: "P d \<Longrightarrow> P (snd (detector_ingest s d))"
    and advanced: "P d \<Longrightarrow> P (snd (detector_advance t d))"
    and rearmed: "P d \<Longrightarrow> Q p \<Longrightarrow> P (snd (rearm p g t d))"

section \<open>The invariant\<close>

definition policies_ok :: "(policy \<Rightarrow> bool) \<Rightarrow> policy_set \<Rightarrow> bool" where
  "policies_ok Q s \<longleftrightarrow> ps_inv s \<and> Q (ps_fallback s) \<and> list_all (\<lambda>e. Q (ov_policy e)) (ps_overrides s)"

definition entry_ok :: "(detector \<Rightarrow> bool) \<Rightarrow> stream_key \<times> stream_entry \<Rightarrow> bool" where
  "entry_ok P = (\<lambda>(k, entry). dt_key (se_detector entry) = k \<and> stream_key_valid k \<and> P (se_detector entry))"

definition streams_ok :: "(detector \<Rightarrow> bool) \<Rightarrow> (stream_key \<times> stream_entry) list \<Rightarrow> bool" where
  "streams_ok P m \<longleftrightarrow> sorted_keys m \<and> length m \<le> kMaxStreams \<and> list_all (entry_ok P) m"

definition interventions_ok :: "(u64 \<times> intervention_intent) list \<Rightarrow> bool" where
  "interventions_ok m \<longleftrightarrow> distinct (map fst m) \<and> length m \<le> kMaxInterventions \<and>
     list_all (\<lambda>(i, x). ii_id x = i \<and> ii_magnitude_permille x \<le> kMaxMagnitudePermille) m"

definition events_ok :: "(u64 \<times> burst_event) list \<Rightarrow> bool" where
  "events_ok m \<longleftrightarrow> distinct (map fst m) \<and> list_all (\<lambda>(i, e). ev_id e = i) m"

definition context_ok :: "governor \<Rightarrow> bool" where
  "context_ok g \<longleftrightarrow> ax_policy_generation (gv_context g) = ps_generation (gv_policies g) \<and>
     ax_policy_digest (gv_context g) = ps_digest (gv_policies g)"

definition gov_inv :: "(detector \<Rightarrow> bool) \<Rightarrow> (policy \<Rightarrow> bool) \<Rightarrow> governor \<Rightarrow> bool" where
  "gov_inv P Q g \<longleftrightarrow> buffers_ok g \<and> policies_ok Q (gv_policies g) \<and> context_ok g \<and>
     streams_ok P (gv_streams g) \<and> interventions_ok (gv_interventions g) \<and> events_ok (gv_open_events g) \<and>
     (\<not> gc_enable_interventions (gv_config g) \<longrightarrow> gv_interventions g = [])"

text \<open>Each part is kept by the updates of its own field.\<close>

lemma policies_ok_resolve: "policies_ok Q s \<Longrightarrow> Q (resolve s r)"
  by (cases "ps_lookup (ps_overrides s) r")
    (auto simp: policies_ok_def resolve_eq ps_lookup_def list_all_iff dest!: map_of_SomeD)

lemma streams_ok_insert:
  assumes "streams_ok P m" "entry_ok P (k, e)" "k \<in> fst ` set m \<or> length m < kMaxStreams"
  shows "streams_ok P (insert_stream k e m)"
proof -
  have "length (insert_stream k e m) \<le> kMaxStreams"
    using assms(1,3) by (auto simp: streams_ok_def length_insert_stream)
  then show ?thesis
    using assms(1,2) set_insert_stream [of k e m]
    by (auto simp: streams_ok_def sorted_insert_stream list_all_iff)
qed

lemma streams_ok_entry: "streams_ok P m \<Longrightarrow> (k, e) \<in> set m \<Longrightarrow> entry_ok P (k, e)"
  by (auto simp: streams_ok_def list_all_iff)

lemma interventions_ok_assign:
  "interventions_ok m \<Longrightarrow> ii_id x = i \<Longrightarrow> ii_magnitude_permille x \<le> kMaxMagnitudePermille \<Longrightarrow>
   i \<in> fst ` set m \<Longrightarrow> interventions_ok (assign i x m)"
  using set_assign [of i x m] by (auto simp: interventions_ok_def distinct_assign length_assign list_all_iff)

lemma interventions_ok_emplace:
  "interventions_ok m \<Longrightarrow> length m < kMaxInterventions \<Longrightarrow>
   ii_magnitude_permille x \<le> kMaxMagnitudePermille \<Longrightarrow> interventions_ok (emplace_new (ii_id x) x m)"
  by (auto simp: interventions_ok_def emplace_new_def list_all_iff map_of_eq_None_iff)

lemma interventions_ok_filter: "interventions_ok m \<Longrightarrow> interventions_ok (filter f m)"
  by (auto simp: interventions_ok_def list_all_iff distinct_map_filter intro: order_trans [OF length_filter_le])

lemma events_ok_assign: "events_ok m \<Longrightarrow> ev_id e = i \<Longrightarrow> events_ok (assign i e m)"
  using set_assign [of i e m] by (auto simp: events_ok_def distinct_assign list_all_iff)

lemma events_ok_erase: "events_ok m \<Longrightarrow> events_ok (erase i m)"
  by (auto simp: events_ok_def distinct_erase list_all_iff set_erase)

context housekeeping
begin

lemma keeps_inv: "gov_inv P Q g \<Longrightarrow> gov_inv P Q (op g)"
  by (simp add: gov_inv_def context_ok_def keeps_buffers)

end

lemmas kept = count.keeps_inv emit.keeps_inv history.keeps_inv recorded.keeps_inv logged.keeps_inv

section \<open>The sweeps and the requests\<close>

lemma refresh_inv: "gov_inv P Q g \<Longrightarrow> gov_inv P Q (snd (refresh_authority now only g))"
proof -
  assume g: "gov_inv P Q g"
  define h where "h = snd (refresh_authority now only g)"
  have d: "distinct (map fst (gv_interventions g))" using g by (simp add: gov_inv_def interventions_ok_def)
  note spec = refresh_authority_spec [OF d, of now only, folded h_def]
  have "interventions_ok (gv_interventions h)"
    using g unfolding spec(3) by (intro interventions_ok_filter) (simp add: gov_inv_def)
  moreover have "gv_interventions h = []" if "\<not> gc_enable_interventions (gv_config g)"
    using g spec(3) that by (simp add: gov_inv_def)
  ultimately show ?thesis using g spec(1,2) by (simp add: h_def [symmetric] gov_inv_def same_authority_def context_ok_def)
qed

lemma revoke_loop_spec:
  assumes "revoke_loop v now ids retire n g = (retire', n', g')" "set ids \<subseteq> fst ` set (gv_interventions g)"
  shows "same_authority g g' \<and> (buffers_ok g \<longrightarrow> buffers_ok g') \<and>
    map fst (gv_interventions g') = map fst (gv_interventions g) \<and> set retire' = set retire \<union> set ids"
  using assms
proof (induction v now ids retire n g rule: revoke_loop.induct)
  case (2 v now i ids retire n g)
  obtain x where x: "map_of (gv_interventions g) i = Some x"
    using "2.prems"(2) by (metis list.set_intros(1) map_of_eq_None_iff not_Some_eq subsetD)
  define h where "h = retire_intervention i x v now g"
  obtain y where y: "gv_interventions h = assign i y (gv_interventions g)"
    using retire_interventions unfolding h_def by blast
  have keys: "map fst (gv_interventions h) = map fst (gv_interventions g)"
    using y x by (simp add: keys_assign map_of_in_keys)
  then have sub: "set ids \<subseteq> fst ` set (gv_interventions h)"
    using "2.prems"(2) by (metis list.set_map set_subset_Cons subset_trans)
  have sub': "set ids \<subseteq> fst ` set (gv_interventions g)" using "2.prems"(2) by simp
  show ?case
  proof (cases "intent_live x")
    case True
    then have "revoke_loop v now ids (retire @ [i]) (n + 1) h = (retire', n', g')"
      using "2.prems"(1) x by (simp add: h_def)
    from "2.IH"(3) [OF x _ this [unfolded h_def]] True sub
    have "same_authority h g' \<and> (buffers_ok h \<longrightarrow> buffers_ok g') \<and>
      map fst (gv_interventions g') = map fst (gv_interventions h) \<and> set retire' = set (retire @ [i]) \<union> set ids"
      by (simp add: h_def)
    moreover have "same_authority g h" "buffers_ok g \<longrightarrow> buffers_ok h"
      by (simp_all add: h_def retire_buffers)
    ultimately show ?thesis using keys same_authority_trans by simp
  next
    case False
    then have "revoke_loop v now ids (retire @ [i]) n g = (retire', n', g')"
      using "2.prems"(1) x by simp
    from "2.IH"(2) [OF x False this sub'] show ?thesis by simp
  qed
qed simp

lemma revoke_all_spec:
  assumes "revoke_all_live v now g = (n, g')"
  shows "same_authority g g'" "buffers_ok g \<Longrightarrow> buffers_ok g'" "gv_interventions g' = []"
proof -
  obtain retire revoked h where
    l: "revoke_loop v now (map fst (gv_interventions g)) [] 0 g = (retire, revoked, h)"
    by (metis prod_cases3)
  then have g': "g' = h\<lparr>gv_interventions := fold erase retire (gv_interventions h)\<rparr>"
    using assms by (simp add: revoke_all_live_def)
  note spec = revoke_loop_spec [OF l]
  show "same_authority g g'" using spec by (simp add: g' same_authority_def)
  show "buffers_ok g \<Longrightarrow> buffers_ok g'" using spec by (simp add: g' buffers_ok_def)
  have "set (map fst (gv_interventions h)) = set retire" using spec by simp
  then have "fst ` set (gv_interventions h) = set retire" by simp
  then have "fst x \<in> set retire" if "x \<in> set (gv_interventions h)" for x using that by blast
  then have "set (gv_interventions g') = {}" by (auto simp: g' set_fold_erase)
  then show "gv_interventions g' = []" by simp
qed

lemma scale_magnitude_le: "m \<le> kMaxMagnitudePermille \<Longrightarrow> scale_magnitude m sev \<le> kMaxMagnitudePermille"
proof -
  assume m: "m \<le> kMaxMagnitudePermille"
  define b where "b = max (min ((ucast m * ucast (severity_raw sev) + 3) div 4) (ucast m :: u64)) 1"
  have "unat m < 2 ^ 64" using unsigned_less [of m, where ?'a = nat] by simp
  then have "unat (ucast m :: u64) = unat m" by (simp add: unsigned_ucast_eq take_bit_nat_eq_self)
  then have "unat b \<le> max (unat m) 1"
    unfolding b_def by (simp add: word_le_nat_alt max_def min_def)
  also have "\<dots> \<le> 1000" using m by (simp add: word_le_nat_alt kMaxMagnitudePermille_def)
  finally have b: "unat b \<le> 1000" .
  then have "unat (ucast b :: u32) = unat b" by (simp add: unsigned_ucast_eq take_bit_nat_eq_self)
  then show ?thesis using b
    by (simp add: scale_magnitude_def Let_def b_def [symmetric] word_le_nat_alt kMaxMagnitudePermille_def)
qed

lemma new_intent_magnitude: "ii_magnitude_permille (new_intent dec kind limit now g) \<le> kMaxMagnitudePermille"
  by (simp add: new_intent_def Let_def)

lemma inv_interventions:
  "gov_inv P Q g \<Longrightarrow> interventions_ok m \<Longrightarrow> gc_enable_interventions (gv_config g) \<Longrightarrow>
   gov_inv P Q (g\<lparr>gv_interventions := m\<rparr>)"
  by (simp add: gov_inv_def context_ok_def buffers_ok_def)

lemma find_live_some:
  "find_live e k m = Some (i, x) \<Longrightarrow> (i, x) \<in> set m \<and> intent_live x \<and> ii_event x = e \<and> ii_kind x = k"
  by (auto simp: find_live_def find_Some_iff dest: nth_mem)

text \<open>One kind of the request loop: suppressed, a refresh of the live intent, or a new intent.\<close>

definition refreshed :: "decision \<Rightarrow> kind_limit \<Rightarrow> tick \<Rightarrow> u64 \<Rightarrow> intervention_intent \<Rightarrow> governor \<Rightarrow> governor" where
  "refreshed dec limit now i x g =
     (let x = refresh_intent dec limit now (gv_decision_seq g) x
      in journal_record RtInterventionStateChanged (encode_intent x) now
           (push_emission ((emission_of EkInterventionStateChanged now)\<lparr>em_intervention := x\<rparr>)
             (count_stat gs_interventions_refreshed_update
               (g\<lparr>gv_interventions := assign i x (gv_interventions g)\<rparr>))))"

definition requested :: "decision \<Rightarrow> intervention_kind \<Rightarrow> kind_limit \<Rightarrow> tick \<Rightarrow> governor \<Rightarrow> governor" where
  "requested dec kind limit now g =
     (let x = new_intent dec kind limit now g
      in journal_record RtInterventionRequested (encode_intent x) now
           (push_emission ((emission_of EkInterventionRequested now)\<lparr>em_intervention := x\<rparr>)
             (count_stat gs_interventions_requested_update
               (g\<lparr>gv_interventions := emplace_new (ii_id x) x (gv_interventions g)\<rparr>))))"

lemma request_cases:
  obtains (suppressed) "request_kinds dec now ip ((kind, limit) # rest) s t g =
      request_kinds dec now ip rest s t (count_stat gs_interventions_suppressed_update g)"
  | (refreshed) i x where "find_live (dd_event dec) kind (gv_interventions g) = Some (i, x)" "kl_enabled limit"
      "request_kinds dec now ip ((kind, limit) # rest) s t g =
       request_kinds dec now ip rest s t (refreshed dec limit now i x g)"
  | (requested) "find_live (dd_event dec) kind (gv_interventions g) = None" "kl_enabled limit"
      "severity_at_least (dd_severity dec) (kl_min_severity limit)"
      "ip_require_authoritative_evidence ip \<longrightarrow> dd_authority dec = EvAuthoritative"
      "s < unat (ip_max_concurrent_per_stream ip)" "t < unat (ip_max_concurrent_total ip)"
      "length (gv_interventions g) < kMaxInterventions"
      "request_kinds dec now ip ((kind, limit) # rest) s t g =
       request_kinds dec now ip rest (s + 1) (t + 1) (requested dec kind limit now g)"
proof -
  define refused where "refused \<longleftrightarrow> \<not> kl_enabled limit \<or>
     \<not> severity_at_least (dd_severity dec) (kl_min_severity limit) \<or>
     ip_require_authoritative_evidence ip \<and> dd_authority dec \<noteq> EvAuthoritative"
  define capped where "capped \<longleftrightarrow> s \<ge> unat (ip_max_concurrent_per_stream ip) \<or>
     t \<ge> unat (ip_max_concurrent_total ip) \<or> length (gv_interventions g) \<ge> kMaxInterventions"
  have eq: "request_kinds dec now ip ((kind, limit) # rest) s t g =
     (if refused then request_kinds dec now ip rest s t (count_stat gs_interventions_suppressed_update g)
      else case find_live (dd_event dec) kind (gv_interventions g) of
        Some (i, x) \<Rightarrow> request_kinds dec now ip rest s t (refreshed dec limit now i x g)
      | None \<Rightarrow>
          if capped then request_kinds dec now ip rest s t (count_stat gs_interventions_suppressed_update g)
          else request_kinds dec now ip rest (s + 1) (t + 1) (requested dec kind limit now g))"
    unfolding request_kinds.simps refused_def capped_def refreshed_def requested_def Let_def by (rule refl)
  consider refused | "\<not> refused" "find_live (dd_event dec) kind (gv_interventions g) = None" capped
    | "\<not> refused" "find_live (dd_event dec) kind (gv_interventions g) = None" "\<not> capped"
    | i x where "\<not> refused" "find_live (dd_event dec) kind (gv_interventions g) = Some (i, x)"
    by (cases "find_live (dd_event dec) kind (gv_interventions g)") auto
  then show ?thesis
  proof cases
    case 3
    then show ?thesis using eq by (intro requested) (auto simp: refused_def capped_def)
  next
    case (4 i x)
    then show ?thesis using eq by (intro refreshed) (auto simp: refused_def)
  qed (use eq suppressed in \<open>simp_all del: request_kinds.simps\<close>)
qed

lemma refreshed_fields [simp]:
  "gv_config (refreshed dec limit now i x g) = gv_config g"
  "gv_policies (refreshed dec limit now i x g) = gv_policies g"
  "gv_streams (refreshed dec limit now i x g) = gv_streams g"
  "gv_resource_generations (refreshed dec limit now i x g) = gv_resource_generations g"
  "gv_open_events (refreshed dec limit now i x g) = gv_open_events g"
  "gv_context (refreshed dec limit now i x g) = gv_context g"
  "gv_last_tick (refreshed dec limit now i x g) = gv_last_tick g"
  "gv_interventions (refreshed dec limit now i x g) =
     assign i (refresh_intent dec limit now (gv_decision_seq g) x) (gv_interventions g)"
  by (simp_all add: refreshed_def Let_def)

lemma requested_fields [simp]:
  "gv_config (requested dec kind limit now g) = gv_config g"
  "gv_policies (requested dec kind limit now g) = gv_policies g"
  "gv_streams (requested dec kind limit now g) = gv_streams g"
  "gv_resource_generations (requested dec kind limit now g) = gv_resource_generations g"
  "gv_open_events (requested dec kind limit now g) = gv_open_events g"
  "gv_context (requested dec kind limit now g) = gv_context g"
  "gv_last_tick (requested dec kind limit now g) = gv_last_tick g"
  "gv_interventions (requested dec kind limit now g) =
     emplace_new (ii_id (new_intent dec kind limit now g)) (new_intent dec kind limit now g) (gv_interventions g)"
  by (simp_all add: requested_def Let_def)

lemma refresh_intent_id [simp]: "ii_id (refresh_intent dec limit now n x) = ii_id x"
  by (simp add: refresh_intent_def Let_def)

lemma refresh_intent_magnitude:
  "ii_magnitude_permille x \<le> kMaxMagnitudePermille \<Longrightarrow> kl_magnitude_permille limit \<le> kMaxMagnitudePermille \<Longrightarrow>
   ii_magnitude_permille (refresh_intent dec limit now n x) \<le> kMaxMagnitudePermille"
  by (simp add: refresh_intent_def Let_def scale_magnitude_le)

lemma refreshed_inv:
  assumes "gov_inv P Q g" "gc_enable_interventions (gv_config g)" "is_ok (validate_kind limit)" "kl_enabled limit"
    "find_live e kind (gv_interventions g) = Some (i, x)"
  shows "gov_inv P Q (refreshed dec limit now i x g)"
proof -
  have ok: "interventions_ok (gv_interventions g)" using assms(1) by (simp add: gov_inv_def)
  have "(i, x) \<in> set (gv_interventions g)" using find_live_some assms(5) by blast
  then have "ii_id x = i" "i \<in> fst ` set (gv_interventions g)"
      "ii_magnitude_permille x \<le> kMaxMagnitudePermille"
    using ok by (auto simp: interventions_ok_def list_all_iff rev_image_eqI)
  moreover have "kl_magnitude_permille limit \<le> kMaxMagnitudePermille"
    using assms(3,4) by (rule validate_kind_ok(2))
  ultimately have "interventions_ok (assign i (refresh_intent dec limit now n x) (gv_interventions g))" for n
    using ok by (intro interventions_ok_assign) (simp_all add: refresh_intent_magnitude)
  then show ?thesis using assms(1,2) by (simp add: refreshed_def Let_def kept inv_interventions)
qed

lemma requested_inv:
  assumes "gov_inv P Q g" "gc_enable_interventions (gv_config g)" "length (gv_interventions g) < kMaxInterventions"
  shows "gov_inv P Q (requested dec kind limit now g)"
proof -
  have "interventions_ok (gv_interventions g)" using assms(1) by (simp add: gov_inv_def)
  then show ?thesis using assms
    by (simp add: requested_def Let_def kept inv_interventions interventions_ok_emplace new_intent_magnitude)
qed

lemma request_kinds_inv:
  "gov_inv P Q g \<Longrightarrow> gc_enable_interventions (gv_config g) \<Longrightarrow>
   list_all (\<lambda>(kind, limit). is_ok (validate_kind limit)) ks \<Longrightarrow>
   gov_inv P Q (request_kinds dec now ip ks s t g)"
proof (induction ks arbitrary: s t g)
  case (Cons kl rest)
  obtain kind limit where kl: "kl = (kind, limit)" by (cases kl)
  show ?case
  proof (cases rule: request_cases [of dec now ip kind limit rest s t g])
    case suppressed
    then show ?thesis using Cons by (simp add: kl kept del: request_kinds.simps)
  next
    case (refreshed i x)
    then show ?thesis using Cons refreshed_inv by (simp add: kl del: request_kinds.simps)
  next
    case requested
    then show ?thesis using Cons requested_inv by (simp add: kl del: request_kinds.simps)
  qed
qed simp

lemma maybe_request_inv:
  "gov_inv P Q g \<Longrightarrow> gov_inv P Q (maybe_request_interventions dec now g)"
proof -
  assume g: "gov_inv P Q g"
  have "is_ok (validate_policy (resolve (gv_policies g) r))" for r
    using g by (simp add: resolve_valid gov_inv_def policies_ok_def)
  then have "list_all (\<lambda>(kind, limit). is_ok (validate_kind limit))
      (zip all_kinds (ip_kinds (po_intervention (resolve (gv_policies g) r))))" for r
    by (auto simp: validate_policy_ok_iff validate_kinds_ok_iff list_all_iff dest: set_zip_rightD)
  then show ?thesis using g by (simp add: maybe_request_interventions_def kept request_kinds_inv Let_def)
qed

section \<open>Samples and clock\<close>

lemma inv_events:
  "gov_inv P Q g \<Longrightarrow> events_ok m \<Longrightarrow> gov_inv P Q (g\<lparr>gv_open_events := m\<rparr>)"
  by (simp add: gov_inv_def context_ok_def buffers_ok_def)

lemma inv_streams:
  "gov_inv P Q g \<Longrightarrow> streams_ok P m \<Longrightarrow> gov_inv P Q (g\<lparr>gv_streams := m\<rparr>)"
  by (simp add: gov_inv_def context_ok_def buffers_ok_def)

text \<open>Fields the invariant does not look at.\<close>

lemma inv_other [simp]:
  "gov_inv P Q (g\<lparr>gv_decision_seq := n\<rparr>) = gov_inv P Q g"
  "gov_inv P Q (g\<lparr>gv_record_seq := n\<rparr>) = gov_inv P Q g"
  "gov_inv P Q (g\<lparr>gv_last_tick := t\<rparr>) = gov_inv P Q g"
  "gov_inv P Q (g\<lparr>gv_stats := x\<rparr>) = gov_inv P Q g"
  "gov_inv P Q (g\<lparr>gv_resource_generations := r\<rparr>) = gov_inv P Q g"
  "gov_inv P Q (g\<lparr>gv_store := st\<rparr>) = gov_inv P Q g"
  "gov_inv P Q (g\<lparr>gv_env_pos := k\<rparr>) = gov_inv P Q g"
  by (simp_all add: gov_inv_def context_ok_def buffers_ok_def)

lemma inv_parts:
  assumes "gov_inv P Q g"
  shows "events_ok (gv_open_events g)" "streams_ok P (gv_streams g)" "policies_ok Q (gv_policies g)"
    "distinct (map fst (gv_interventions g))" "context_ok g" "buffers_ok g"
  using assms by (simp_all add: gov_inv_def interventions_ok_def)

lemma process_opened_inv: "gov_inv P Q g \<Longrightarrow> gov_inv P Q (process_opened e now g)"
  by (simp add: process_opened_def Let_def kept inv_events inv_parts events_ok_assign)

lemma process_closed_inv: "gov_inv P Q g \<Longrightarrow> gov_inv P Q (process_closed b e now g)"
  by (simp add: process_closed_def Let_def case_prod_beta kept refresh_inv inv_events inv_parts events_ok_erase)

lemma process_decision_inv: "gov_inv P Q g \<Longrightarrow> gov_inv P Q (process_decision d dec now g)"
proof -
  assume g: "gov_inv P Q g"
  define g1 where "g1 = (count_stat gs_decisions_update (count_stat gs_evaluations_update g))
    \<lparr>gv_decision_seq := gv_decision_seq g + 1\<rparr>"
  have g1: "gov_inv P Q g1" using g by (simp add: g1_def kept)
  have upd: "ev_id e = i \<Longrightarrow> gov_inv P Q (g1\<lparr>gv_open_events := assign i e (gv_open_events g1)\<rparr>)" for e i
    using g1 by (simp add: inv_events inv_parts events_ok_assign)
  show ?thesis unfolding process_decision_def Let_def count.keeps g1_def [symmetric]
    by (auto intro!: maybe_request_inv process_closed_inv process_opened_inv upd g1)
qed

text \<open>The streams and the configuration survive a decision.\<close>

lemma refresh_fields:
  assumes "distinct (map fst (gv_interventions g))"
  shows "same_authority g (snd (refresh_authority now only g))"
  by (rule refresh_authority_spec(1) [OF assms])

lemma request_kinds_fields:
  "gv_streams (request_kinds dec now ip ks s t g) = gv_streams g \<and>
   gv_config (request_kinds dec now ip ks s t g) = gv_config g \<and>
   gv_policies (request_kinds dec now ip ks s t g) = gv_policies g \<and>
   gv_open_events (request_kinds dec now ip ks s t g) = gv_open_events g"
proof (induction ks arbitrary: s t g)
  case (Cons kl rest)
  obtain kind limit where kl: "kl = (kind, limit)" by (cases kl)
  show ?case
    by (cases rule: request_cases [of dec now ip kind limit rest s t g])
      (simp_all add: kl Cons.IH del: request_kinds.simps)
qed simp

lemma maybe_request_fields [simp]:
  "gv_streams (maybe_request_interventions dec now g) = gv_streams g"
  "gv_config (maybe_request_interventions dec now g) = gv_config g"
  "gv_policies (maybe_request_interventions dec now g) = gv_policies g"
  "gv_open_events (maybe_request_interventions dec now g) = gv_open_events g"
  by (simp_all add: maybe_request_interventions_def request_kinds_fields Let_def)

lemma process_fields:
  assumes "distinct (map fst (gv_interventions g))"
  shows "gv_streams (process_opened e now g) = gv_streams g"
    "gv_streams (process_closed b e now g) = gv_streams g"
    "distinct (map fst (gv_interventions (process_opened e now g)))"
  using assms refresh_fields [of "g\<lparr>gv_open_events := erase (ev_id e) (gv_open_events g)\<rparr>" now "ev_id e"]
  by (simp_all add: process_opened_def process_closed_def case_prod_beta Let_def same_authority_def)

lemma process_decision_streams:
  assumes "distinct (map fst (gv_interventions g))"
  shows "gv_streams (process_decision d dec now g) = gv_streams g"
  using assms by (simp add: process_decision_def process_fields Let_def)

lemma process_in_stream:
  assumes "gov_inv P Q g" "entry_ok P (k, entry)" "k \<in> fst ` set (gv_streams g)"
  shows "gov_inv P Q (process_decision d dec now (g\<lparr>gv_streams := insert_stream k entry (gv_streams g)\<rparr>))"
    "fst ` set (gv_streams (process_decision d dec now (g\<lparr>gv_streams := insert_stream k entry (gv_streams g)\<rparr>))) =
     fst ` set (gv_streams g)"
proof -
  define h where "h = g\<lparr>gv_streams := insert_stream k entry (gv_streams g)\<rparr>"
  have "streams_ok P (insert_stream k entry (gv_streams g))"
    using assms by (intro streams_ok_insert) (simp_all add: gov_inv_def)
  then have h: "gov_inv P Q h" unfolding h_def by (rule inv_streams [OF assms(1)])
  then show "gov_inv P Q (process_decision d dec now h)" by (rule process_decision_inv)
  have "gv_streams (process_decision d dec now h) = insert_stream k entry (gv_streams g)"
    using process_decision_streams [of h] inv_parts(4) [OF h] by (simp add: h_def)
  then show "fst ` set (gv_streams (process_decision d dec now h)) = fst ` set (gv_streams g)"
    using assms(3) by (auto simp: keys_insert_stream)
qed

lemma count_accept_inv: "gov_inv P Q g \<Longrightarrow> gov_inv P Q (count_accept a g)"
  by (cases a) (simp_all add: count_accept_def kept)

lemma count_accept_streams [simp]: "gv_streams (count_accept a g) = gv_streams g"
  by (cases a) (simp_all add: count_accept_def)

lemma validate_sample_key: "is_ok (validate_sample s) \<Longrightarrow> stream_key_valid (sm_stream s)"
  by (auto simp: validate_sample_def split: if_splits)

context detector_contract
begin

lemma found:
  assumes "gov_inv P Q g" "stream_key_valid k" "find_or_create k g = Some (entry, g')"
  shows "gov_inv P Q g' \<and> entry_ok P (k, entry) \<and> k \<in> fst ` set (gv_streams g')"
proof (cases "map_of (gv_streams g) k")
  case None
  define h where "h = g\<lparr>gv_streams := insert_stream k entry (gv_streams g)\<rparr>"
  from None assms(3) have e: "entry = entry_new k (resolve (gv_policies g) (sk_resource k)) (ps_generation (gv_policies g))"
      and g': "g' = h\<lparr>gv_stats := (gv_stats h)\<lparr>gs_streams := of_nat (length (gv_streams h))\<rparr>\<rparr>"
      and c: "length (gv_streams g) < kMaxStreams"
    by (auto simp: find_or_create_def h_def Let_def split: if_splits)
  have "Q (resolve (gv_policies g) (sk_resource k))"
    using assms(1) by (simp add: policies_ok_resolve inv_parts)
  then have k: "entry_ok P (k, entry)"
    using assms(2) by (simp add: e entry_ok_def entry_new_def created)
  then have "streams_ok P (insert_stream k entry (gv_streams g))"
    using assms(1) c by (intro streams_ok_insert) (simp_all add: gov_inv_def)
  then show ?thesis using k assms(1) by (simp add: g' h_def inv_streams keys_insert_stream)
next
  case (Some e)
  then have "entry = e" "g' = g" using assms(3) by (simp_all add: find_or_create_def)
  moreover have m: "(k, e) \<in> set (gv_streams g)" using Some by (rule map_of_SomeD)
  moreover have "entry_ok P (k, e)" by (rule streams_ok_entry [OF inv_parts(2) [OF assms(1)] m])
  ultimately show ?thesis using assms(1) by (auto intro: rev_image_eqI)
qed

lemma ingest_inv: "gov_inv P Q g \<Longrightarrow> gov_inv P Q (snd (governor_ingest s g))"
proof -
  assume g: "gov_inv P Q g"
  consider (bad) "\<not> is_ok (validate_sample s)"
    | (full) "is_ok (validate_sample s)" "find_or_create (sm_stream s) g = None"
    | (known) entry h where "is_ok (validate_sample s)" "find_or_create (sm_stream s) g = Some (entry, h)"
    by (cases "find_or_create (sm_stream s) g") auto
  then show ?thesis
  proof cases
    case known
    define k where "k = sm_stream s"
    note f = found [OF g validate_sample_key [OF known(1)] known(2)]
    define h1 where "h1 = (if id_valid (sm_resource_generation s)
       then h\<lparr>gv_resource_generations :=
          (gv_resource_generations h)(sk_resource (sm_stream s) \<mapsto> sm_resource_generation s)\<rparr> else h)"
    obtain res d where rd: "detector_ingest s (se_detector entry) = (res, d)"
      by (cases "detector_ingest s (se_detector entry)")
    define entry1 where "entry1 = entry\<lparr>se_detector := d\<rparr>"
    define h2 where "h2 = h1\<lparr>gv_streams := insert_stream k entry1 (gv_streams h1)\<rparr>"
    have d: "d = snd (detector_ingest s (se_detector entry))" by (simp add: rd)
    have h1: "gov_inv P Q h1" "gv_streams h1 = gv_streams h" using f by (simp_all add: h1_def)
    have e1: "entry_ok P (k, entry1)"
      using f by (auto simp: entry_ok_def entry1_def k_def d ingested)
    then have h2: "gov_inv P Q h2" "k \<in> fst ` set (gv_streams h2)"
      using h1 f unfolding h2_def
      by (auto intro!: inv_streams streams_ok_insert simp: inv_parts k_def keys_insert_stream)
    show ?thesis
    proof (cases res)
      case (Inl st)
      then show ?thesis using h2(1) known rd
        by (simp add: governor_ingest_def Let_def h1_def entry1_def h2_def k_def kept)
    next
      case (Inr dec)
      define h3 where "h3 = count_accept (dt_last_accept d) h2"
      have h3: "gov_inv P Q h3" "k \<in> fst ` set (gv_streams h3)"
        using h2 by (simp_all add: h3_def count_accept_inv)
      have "gov_inv P Q (snd (ingest_decision k entry1 dec h3))"
        using process_in_stream(1) [OF h3(1) _ h3(2)] h3(1) e1
        by (simp add: ingest_decision_def entry_ok_def Let_def)
      then show ?thesis using Inr known rd
        by (simp add: governor_ingest_def Let_def case_prod_beta h1_def [symmetric] entry1_def [symmetric]
          k_def [symmetric] h2_def [symmetric] h3_def [symmetric] refresh_inv)
    qed
  qed (use g in \<open>simp_all add: governor_ingest_def kept\<close>)
qed

lemma advance_streams_inv:
  assumes "gov_inv P Q g" "list_all (entry_ok P) entries" "fst ` set entries \<subseteq> fst ` set (gv_streams g)"
  shows "gov_inv P Q (snd (snd (advance_streams now entries n m g)))"
  using assms
proof (induction now entries n m g rule: advance_streams.induct)
  case (2 now k entry rest n m g)
  obtain dec d where dd: "detector_advance now (se_detector entry) = (dec, d)"
    by (cases "detector_advance now (se_detector entry)")
  then have d: "d = snd (detector_advance now (se_detector entry))" by simp
  have e: "entry_ok P (k, entry\<lparr>se_detector := d\<rparr>)"
      "entry_ok P (k, entry\<lparr>se_detector := d, se_has_processed := True, se_last_processed := t\<rparr>)" for t
    using "2.prems"(2) by (auto simp: entry_ok_def d advanced)
  have k: "k \<in> fst ` set (gv_streams g)" using "2.prems"(3) by simp
  have keys: "fst ` set (insert_stream k x (gv_streams g)) = fst ` set (gv_streams g)" for x
    using k by (auto simp: keys_insert_stream)
  have idle: "gov_inv P Q (g\<lparr>gv_streams := insert_stream k (entry\<lparr>se_detector := d\<rparr>) (gv_streams g)\<rparr>)"
    using "2.prems"(1) e k by (intro inv_streams streams_ok_insert) (simp_all add: inv_parts)
  note busy = process_in_stream [OF "2.prems"(1) e(2) k]
  consider (skip) "dt_has_evaluated (se_detector entry) \<and> \<not> tick_after (dt_last_evaluated (se_detector entry)) now"
    | (due) "\<not> (dt_has_evaluated (se_detector entry) \<and> \<not> tick_after (dt_last_evaluated (se_detector entry)) now)"
        "entry_due (entry\<lparr>se_detector := d\<rparr>) dec"
    | (idle) "\<not> (dt_has_evaluated (se_detector entry) \<and> \<not> tick_after (dt_last_evaluated (se_detector entry)) now)"
        "\<not> entry_due (entry\<lparr>se_detector := d\<rparr>) dec" by blast
  then show ?case
  proof cases
    case skip
    then show ?thesis using 2 by simp
  next
    case due
    then show ?thesis using "2.IH"(2) [OF due(1) dd [symmetric] refl refl due(2) refl refl] busy "2.prems" dd due
      by (simp add: Let_def if_not_P [OF due(1)] del: de_Morgan_conj)
  next
    case idle
    then show ?thesis using "2.IH"(3) [OF idle(1) dd [symmetric] refl refl idle(2)] \<open>gov_inv P Q (g\<lparr>gv_streams := insert_stream k (entry\<lparr>se_detector := d\<rparr>) (gv_streams g)\<rparr>)\<close>
        "2.prems" dd idle by (simp add: Let_def keys if_not_P [OF idle(1)] del: de_Morgan_conj)
  qed
qed simp

lemma advance_inv: "gov_inv P Q g \<Longrightarrow> gov_inv P Q (snd (governor_advance now g))"
proof -
  assume g: "gov_inv P Q g"
  then have "gov_inv P Q (snd (snd (advance_streams now (gv_streams g) 0 0 g)))"
    by (intro advance_streams_inv) (simp_all add: gov_inv_def streams_ok_def)
  then show ?thesis by (simp add: governor_advance_def case_prod_beta Let_def refresh_inv)
qed

lemma rearm_stream_inv:
  assumes "gov_inv P Q g" "entry_ok P (k, entry)" "k \<in> fst ` set (gv_streams g)"
  shows "gov_inv P Q (rearm_stream k entry g)"
    "fst ` set (gv_streams (rearm_stream k entry g)) = fst ` set (gv_streams g)"
proof -
  obtain fenced d where fd: "rearm (resolve (gv_policies g) (sk_resource (dt_key (se_detector entry))))
      (ps_generation (gv_policies g)) (gv_last_tick g) (se_detector entry) = (fenced, d)"
    by (metis surj_pair)
  then have d: "d = snd (rearm (resolve (gv_policies g) (sk_resource (dt_key (se_detector entry))))
      (ps_generation (gv_policies g)) (gv_last_tick g) (se_detector entry))" by simp
  define h where "h = g\<lparr>gv_streams := insert_stream k (entry\<lparr>se_detector := d\<rparr>) (gv_streams g)\<rparr>"
  have "entry_ok P (k, entry\<lparr>se_detector := d\<rparr>)"
    using assms(2) policies_ok_resolve [OF inv_parts(3) [OF assms(1)]]
    by (auto simp: entry_ok_def d rearmed)
  then have h: "gov_inv P Q h" unfolding h_def
    using assms by (intro inv_streams streams_ok_insert) (simp_all add: inv_parts)
  have eq: "rearm_stream k entry g =
     (if fenced = None then h
      else
        let e = stamp_context (gv_context h) (dt_episode d);
            h = h\<lparr>gv_open_events := erase (ev_id e) (gv_open_events h)\<rparr>;
            e = e\<lparr>ev_lifecycle := ElFenced\<rparr>;
            h = count_stat gs_episodes_fenced_update (record_event e h)
        in push_emission ((emission_of EkEpisodeFenced (gv_last_tick h))\<lparr>em_event := e\<rparr>) h)"
    by (simp add: rearm_stream_def Let_def fd h_def)
  have "gov_inv P Q (h\<lparr>gv_open_events := erase i (gv_open_events h)\<rparr>)" for i
    using h by (simp add: inv_events inv_parts events_ok_erase)
  then show "gov_inv P Q (rearm_stream k entry g)" using h by (simp add: eq Let_def kept)
  show "fst ` set (gv_streams (rearm_stream k entry g)) = fst ` set (gv_streams g)"
    using assms(3) by (auto simp: eq Let_def h_def keys_insert_stream)
qed

lemma rearm_streams_inv:
  "gov_inv P Q g \<Longrightarrow> list_all (entry_ok P) entries \<Longrightarrow> fst ` set entries \<subseteq> fst ` set (gv_streams g) \<Longrightarrow>
   gov_inv P Q (rearm_streams entries g)"
  unfolding rearm_streams_def
proof (induction entries arbitrary: g)
  case (Cons e entries)
  obtain k entry where e: "e = (k, entry)" by (cases e)
  with Cons.prems have "entry_ok P (k, entry)" "k \<in> fst ` set (gv_streams g)" by simp_all
  from rearm_stream_inv [OF Cons.prems(1) this] Cons show ?case by (simp add: e)
qed simp

text \<open>A change of the policy set that re-derives the context.\<close>

lemma installed:
  "gov_inv P Q g \<Longrightarrow> policies_ok Q ps \<Longrightarrow> gov_inv P Q (set_context_policy (g\<lparr>gv_policies := ps\<rparr>))"
  by (simp add: gov_inv_def set_context_policy_def context_ok_def buffers_ok_def)

lemma rearm_all_inv:
  "gov_inv P Q g \<Longrightarrow> gov_inv P Q (rearm_streams (filter f (gv_streams g)) g)"
  by (intro rearm_streams_inv) (auto simp: gov_inv_def streams_ok_def list_all_iff)

lemma installed_rearmed:
  assumes "gov_inv P Q g" "Q p" "set_fallback p (gv_policies g) = (st, ps)" "is_ok st"
  shows "gov_inv P Q (rearm_streams (gv_streams g)
    (count_stat gs_policy_changes_update (set_context_policy (g\<lparr>gv_policies := ps\<rparr>))))"
proof -
  note ok = set_fallback_ok [OF assms(3,4)]
  have "policies_ok Q ps"
    using inv_parts(3) [OF assms(1)] assms(2) set_fallback_inv [OF _ assms(3,4)] by (simp add: policies_ok_def ok(3))
  then have "gov_inv P Q (count_stat gs_policy_changes_update (set_context_policy (g\<lparr>gv_policies := ps\<rparr>)))"
    using assms(1) by (simp add: kept installed)
  from rearm_all_inv [OF this, of "\<lambda>x. True"] show ?thesis by (simp add: set_context_policy_def)
qed

lemma install_policy_inv: "gov_inv P Q g \<Longrightarrow> Q p \<Longrightarrow> gov_inv P Q (snd (install_policy p g))"
proof -
  assume g: "gov_inv P Q g" and p: "Q p"
  obtain st ps where sf: "set_fallback p (gv_policies g) = (st, ps)" by (cases "set_fallback p (gv_policies g)")
  show ?thesis
  proof (cases "is_ok st")
    case True
    from installed_rearmed [OF g p sf True] show ?thesis using True sf
      by (simp add: install_policy_def case_prod_beta Let_def kept refresh_inv set_context_policy_def)
  next
    case False
    then have "ps = gv_policies g" using sf set_fallback_failed by blast
    then show ?thesis using False sf g by (simp add: install_policy_def)
  qed
qed

lemma set_override_policies:
  assumes "policies_ok Q s" "Q p" "set_override r p s = (st, s')" "is_ok st"
  shows "policies_ok Q s'"
proof (cases "ps_index s r")
  case None
  then show ?thesis using assms set_override_ok(4) [OF assms(3,4) None] set_override_inv [OF _ assms(3,4)]
    by (simp add: policies_ok_def)
next
  case (Some i)
  then show ?thesis using assms set_override_ok(5) [OF assms(3,4) Some] set_override_inv [OF _ assms(3,4)]
    by (auto simp: policies_ok_def list_all_iff dest!: set_update_subset_insert [THEN subsetD])
qed

lemma set_resource_policy_inv:
  "gov_inv P Q g \<Longrightarrow> Q p \<Longrightarrow> gov_inv P Q (snd (set_resource_policy r p g))"
proof -
  assume g: "gov_inv P Q g" and p: "Q p"
  obtain st ps where so: "set_override r p (gv_policies g) = (st, ps)" by (cases "set_override r p (gv_policies g)")
  show ?thesis
  proof (cases "is_ok st")
    case True
    have "policies_ok Q ps" by (rule set_override_policies [OF inv_parts(3) [OF g] p so True])
    then have "gov_inv P Q (count_stat gs_policy_changes_update (set_context_policy (g\<lparr>gv_policies := ps\<rparr>)))"
      using g by (simp add: kept installed)
    from rearm_all_inv [OF this] show ?thesis using True so
      by (simp add: set_resource_policy_def case_prod_beta Let_def refresh_inv)
  next
    case False
    then have "ps = gv_policies g" using so set_override_failed by blast
    then show ?thesis using False so g by (simp add: set_resource_policy_def)
  qed
qed

lemma remove_resource_policy_inv:
  "gov_inv P Q g \<Longrightarrow> gov_inv P Q (snd (remove_resource_policy r g))"
proof -
  assume g: "gov_inv P Q g"
  obtain st ps where ro: "remove_override r (gv_policies g) = (st, ps)" by (cases "remove_override r (gv_policies g)")
  show ?thesis
  proof (cases "is_ok st")
    case True
    obtain i where "ps = recompute_digest ((gv_policies g)\<lparr>ps_generation := ps_generation (gv_policies g) + 1,
       ps_overrides := erase_at i (ps_overrides (gv_policies g)),
       ps_index := (\<lambda>r. position r (erase_at i (ps_overrides (gv_policies g))))\<rparr>)"
      using remove_override_ok [OF ro True] by metis
    then have "policies_ok Q ps"
      using inv_parts(3) [OF g] remove_override_inv [OF _ ro True] erase_at_subset [of i "ps_overrides (gv_policies g)"]
      by (auto simp: policies_ok_def list_all_iff)
    then have "gov_inv P Q (count_stat gs_policy_changes_update (set_context_policy (g\<lparr>gv_policies := ps\<rparr>)))"
      using g by (simp add: kept installed)
    then show ?thesis using True ro by (simp add: remove_resource_policy_def case_prod_beta Let_def refresh_inv)
  next
    case False
    then have "ps = gv_policies g" using ro remove_override_failed by blast
    then show ?thesis using False ro g by (simp add: remove_resource_policy_def)
  qed
qed

end

text \<open>The operations that do not reach the detectors.\<close>

lemma inv_context:
  "gov_inv P Q g \<Longrightarrow>
   gov_inv P Q (g\<lparr>gv_context := (gv_context g)\<lparr>ax_epoch := e, ax_incarnation := i, ax_boot := b\<rparr>\<rparr>)"
  by (simp add: gov_inv_def context_ok_def buffers_ok_def)

lemma bind_authority_inv: "gov_inv P Q g \<Longrightarrow> gov_inv P Q (snd (bind_authority e i b g))"
  by (simp add: bind_authority_def case_prod_beta Let_def kept refresh_inv inv_context)

lemma set_resource_generation_inv: "gov_inv P Q g \<Longrightarrow> gov_inv P Q (snd (set_resource_generation r n g))"
  by (simp add: set_resource_generation_def refresh_inv)

lemma set_interventions_enabled_inv: "gov_inv P Q g \<Longrightarrow> gov_inv P Q (set_interventions_enabled b g)"
proof -
  assume g: "gov_inv P Q g"
  define h where "h = g\<lparr>gv_config := (gv_config g)\<lparr>gc_enable_interventions := b\<rparr>\<rparr>"
  obtain n k where k: "revoke_all_live AvInterventionsDisabled (gv_last_tick h) h = (n, k)"
    by (metis surj_pair)
  note spec = revoke_all_spec [OF k]
  have "gov_inv P Q k"
    using spec g by (auto simp: gov_inv_def h_def same_authority_def context_ok_def interventions_ok_def buffers_ok_def)
  moreover have "gov_inv P Q h" if "b \<or> \<not> gc_enable_interventions (gv_config g)"
    using g that by (auto simp: gov_inv_def h_def context_ok_def buffers_ok_def)
  ultimately show ?thesis by (simp add: set_interventions_enabled_def Let_def h_def [symmetric] k)
qed

lemma drain_emissions_inv: "gov_inv P Q g \<Longrightarrow> gov_inv P Q (snd (drain_emissions g))"
  by (simp add: drain_emissions_def gov_inv_def context_ok_def buffers_ok_def)

lemma bind_store_inv: "gov_inv P Q g \<Longrightarrow> gov_inv P Q (snd (bind_store s g))"
  by (simp add: bind_store_def Let_def split: option.split)

lemma compact_inv: "gov_inv P Q g \<Longrightarrow> gov_inv P Q (snd (compact g))"
  by (rule compacted.keeps_inv)

lemma governor_new_inv:
  assumes "Q make_default_policy" "Q (gc_policy cfg)"
  shows "gov_inv P Q (governor_new cfg env)"
proof -
  have init: "policies_ok Q policy_set_init"
    using assms(1) ps_inv_init by (simp add: policies_ok_def policy_set_init_def)
  obtain st ps where sf: "set_fallback (gc_policy cfg) policy_set_init = (st, ps)"
    by (cases "set_fallback (gc_policy cfg) policy_set_init")
  have "policies_ok Q ps"
  proof (cases "is_ok st")
    case True
    then show ?thesis
      using init assms(2) set_fallback_inv [OF _ sf] set_fallback_ok(3) [OF sf] by (simp add: policies_ok_def)
  next
    case False
    then show ?thesis using init sf set_fallback_failed by blast
  qed
  then show ?thesis
    by (simp add: governor_new_def sf Let_def gov_inv_def set_context_policy_def context_ok_def buffers_ok_def
        kMaxEventHistory_def streams_ok_def interventions_ok_def events_ok_def)
qed

section \<open>Recovery\<close>

lemma restore_intent_inv: "gov_inv P Q (snd s) \<Longrightarrow> gov_inv P Q (snd (restore_intent i s))"
  by (cases s) (auto simp: restore_intent_def gov_inv_def context_ok_def buffers_ok_def Let_def)

lemma restore_closed_inv: "gov_inv P Q (snd s) \<Longrightarrow> gov_inv P Q (snd (restore_closed e s))"
  by (cases s) (simp add: restore_closed_def kept)

lemma restore_open_inv: "gov_inv P Q (snd s) \<Longrightarrow> gov_inv P Q (snd (restore_open e s))"
  by (cases s) (simp add: restore_open_def kept)

lemma restore_folds_inv:
  assumes "gov_inv P Q (snd s)"
  shows "gov_inv P Q (snd (fold restore_closed es s))" "gov_inv P Q (snd (fold restore_open es s))"
    "gov_inv P Q (snd (fold restore_intent is s))"
proof -
  show "gov_inv P Q (snd (fold restore_closed es s))"
    using assms by (induction es arbitrary: s) (simp_all add: restore_closed_inv)
  show "gov_inv P Q (snd (fold restore_open es s))"
    using assms by (induction es arbitrary: s) (simp_all add: restore_open_inv)
  show "gov_inv P Q (snd (fold restore_intent is s))"
    using assms by (induction "is" arbitrary: s) (simp_all add: restore_intent_inv)
qed

lemma restore_counters_inv: "gov_inv P Q g \<Longrightarrow> gov_inv P Q (restore_counters c g)"
  by (simp add: restore_counters_def Let_def)

lemma restore_policies_inv:
  assumes "gov_inv P Q g" "\<And>p. Q p"
  shows "gov_inv P Q (snd (restore_policies acc r g))"
proof -
  have "policies_ok Q ps" if "policy_set_restore f os n = Inr ps" for f os n ps
    using policy_set_restore_ok(1) [OF that] assms(2) by (simp add: policies_ok_def list_all_iff)
  then show ?thesis using assms(1)
    by (auto simp: restore_policies_def gov_inv_def set_context_policy_def context_ok_def buffers_ok_def
        split: option.split sum.split)
qed

lemma restore_state_inv:
  assumes "gov_inv P Q g" "\<And>p. Q p"
  shows "gov_inv P Q (snd (restore_state acc r g))"
proof -
  define s1 where "s1 = restore_policies acc r g"
  define s2 where "s2 = fold restore_closed (ra_closed_events acc) s1"
  define s3 where "s3 = fold restore_open (map snd (ra_open_events acc)) s2"
  define s4 where "s4 = fold restore_intent (ra_interventions acc) s3"
  have "gov_inv P Q (snd s1)" unfolding s1_def by (rule restore_policies_inv [OF assms])
  then have "gov_inv P Q (snd s2)" unfolding s2_def
    by (rule restore_folds_inv)
  then have "gov_inv P Q (snd s3)" unfolding s3_def
    by (rule restore_folds_inv)
  then have "gov_inv P Q (snd s4)" unfolding s4_def
    by (rule restore_folds_inv)
  then show ?thesis
    by (simp add: restore_state_def Let_def case_prod_beta s1_def s2_def s3_def s4_def restore_counters_inv)
qed

lemma restore_announce_inv: "gov_inv P Q g \<Longrightarrow> gov_inv P Q (restore_announce g)"
  by (simp add: restore_announce_def Let_def kept)

text \<open>A restore either leaves the governor but for its store, or rebuilds from an accumulator.\<close>

lemma restore_cases:
  obtains (unbound) "snd (restore g) = g"
  | (failed) s where "snd (restore g) = g\<lparr>gv_store := Some s, gv_env_pos := gv_env_pos g + 1\<rparr>"
  | (rebuilt) s acc r where "snd (restore g) =
      restore_announce (snd (restore_state acc r (g\<lparr>gv_store := Some s, gv_env_pos := gv_env_pos g + 1\<rparr>)))"
proof (cases "gv_store g")
  case None
  then show ?thesis using unbound by (simp add: restore_def)
next
  case (Some s)
  obtain res s' recs where r: "store_replay (env_now g) collect_record s [] = (res, s', recs)"
    by (metis prod_cases3)
  show ?thesis
  proof (cases res)
    case (Inl st)
    then show ?thesis using failed [of s'] by (simp add: restore_def Some r Let_def)
  next
    case (Inr rp)
    then show ?thesis by (cases rp; intro rebuilt) (simp add: restore_def Some r Let_def case_prod_beta)
  qed
qed

lemma restore_inv:
  assumes "gov_inv P Q g" "\<And>p. Q p"
  shows "gov_inv P Q (snd (restore g))"
  by (cases rule: restore_cases [of g]) (simp_all add: assms restore_announce_inv restore_state_inv)

section \<open>Reachable governors\<close>

datatype gov_op =
    GoIngest sample | GoAdvance tick | GoInstallPolicy policy | GoSetResourcePolicy u64 policy
  | GoRemoveResourcePolicy u64 | GoBindAuthority u32 u64 u64 | GoSetResourceGeneration u64 u32
  | GoSetInterventionsEnabled bool | GoDrainEmissions | GoBindStore "store option" | GoCheckpoint

text \<open>The public operations; \<open>checkpoint\<close> is \<open>compact\<close> under the lock.\<close>

fun gov_step :: "gov_op \<Rightarrow> governor \<Rightarrow> governor" where
  "gov_step (GoIngest s) g = snd (governor_ingest s g)"
| "gov_step (GoAdvance t) g = snd (governor_advance t g)"
| "gov_step (GoInstallPolicy p) g = snd (install_policy p g)"
| "gov_step (GoSetResourcePolicy r p) g = snd (set_resource_policy r p g)"
| "gov_step (GoRemoveResourcePolicy r) g = snd (remove_resource_policy r g)"
| "gov_step (GoBindAuthority e i b) g = snd (bind_authority e i b g)"
| "gov_step (GoSetResourceGeneration r n) g = snd (set_resource_generation r n g)"
| "gov_step (GoSetInterventionsEnabled b) g = set_interventions_enabled b g"
| "gov_step GoDrainEmissions g = snd (drain_emissions g)"
| "gov_step (GoBindStore s) g = snd (bind_store s g)"
| "gov_step GoCheckpoint g = snd (compact g)"

fun op_policy :: "(policy \<Rightarrow> bool) \<Rightarrow> gov_op \<Rightarrow> bool" where
  "op_policy Q (GoInstallPolicy p) = Q p"
| "op_policy Q (GoSetResourcePolicy r p) = Q p"
| "op_policy Q _ = True"

text \<open>
  Every governor an owner can bring about: created, driven by any operations, and restored at any
  time from whatever its store holds. The environment, the answers of the operating system, is any.
\<close>

inductive gov_reachable :: "governor \<Rightarrow> bool" where
  created: "gov_reachable (governor_new cfg env)"
| stepped: "gov_reachable g \<Longrightarrow> gov_reachable (gov_step op g)"
| restored: "gov_reachable g \<Longrightarrow> gov_reachable (snd (restore g))"

context detector_contract
begin

lemma step_inv: "gov_inv P Q g \<Longrightarrow> op_policy Q op \<Longrightarrow> gov_inv P Q (gov_step op g)"
  by (cases op) (simp_all add: ingest_inv advance_inv install_policy_inv set_resource_policy_inv
      remove_resource_policy_inv bind_authority_inv set_resource_generation_inv
      set_interventions_enabled_inv drain_emissions_inv bind_store_inv compact_inv)

lemma run_inv:
  "gov_inv P Q g \<Longrightarrow> list_all (op_policy Q) ops \<Longrightarrow> gov_inv P Q (fold gov_step ops g)"
  by (induction ops arbitrary: g) (simp_all add: step_inv)

end

text \<open>The contract that asks nothing, and the full invariant of the detector.\<close>

interpretation structural: detector_contract "\<lambda>d. True" "\<lambda>p. True"
  by unfold_locales simp_all

interpretation sound_detectors: detector_contract det_core policy_in_force
  by unfold_locales (simp_all add: core_new core_ingest core_advance core_rearm)

lemma op_policy_True [simp]: "op_policy (\<lambda>p. True) op"
  by (cases op) simp_all

lemma gov_reachable_inv: "gov_reachable g \<Longrightarrow> gov_inv (\<lambda>d. True) (\<lambda>p. True) g"
  by (induction rule: gov_reachable.induct) (simp_all add: governor_new_inv structural.step_inv restore_inv)

end
