(* ===== verification/Governor_Safety.thy ===== *)
theory Governor_Safety
  imports Governor_Invariant
begin

text \<open>
  What the governor promises about interventions: after each operation that changes authority only
  justified intents are left, requests stay within the limits of the policy, a closed episode keeps
  no intent, and recovery brings nothing back to life.
\<close>

section \<open>Sweeps\<close>

text \<open>Every intent is live and the authority in force justifies it at this tick.\<close>

definition swept :: "tick \<Rightarrow> governor \<Rightarrow> bool" where
  "swept now g \<longleftrightarrow>
     list_all (\<lambda>(i, x). intent_live x \<and> intent_verdict now g x = AvValid) (gv_interventions g)"

lemma not_valid_invalid [simp]: "\<not> id_valid id_invalid"
  by (simp add: id_valid_def)

lemma sweep: "distinct (map fst (gv_interventions g)) \<Longrightarrow> swept now (snd (refresh_authority now id_invalid g))"
proof -
  assume d: "distinct (map fst (gv_interventions g))"
  note spec = refresh_authority_spec [OF d, of now id_invalid]
  show ?thesis unfolding swept_def spec(3)
    by (auto simp: list_all_iff survives_def same_authority_verdict [OF spec(1)])
qed

context housekeeping
begin

lemma keeps_swept [simp]: "swept now (op g) = swept now g"
  by (simp add: swept_def)

end

lemma swept_last_tick [simp]: "swept now (g\<lparr>gv_last_tick := t\<rparr>) = swept now g"
  by (simp add: swept_def intent_verdict_def observed_generation_def)

lemma reachable_distinct: "gov_reachable g \<Longrightarrow> distinct (map fst (gv_interventions g))"
  using inv_parts(4) [OF gov_reachable_inv] .

lemma swept_valid:
  assumes "swept now g" "(i, x) \<in> set (gv_interventions g)"
  shows "intent_live x" "is_open (ii_event x) g"
    "evaluate_authority (ii_authority x) (gv_context g) (observed_generation g (sk_resource (ii_stream x))) now = AvValid"
  using assms by (auto simp: swept_def list_all_iff intent_verdict_def is_open_def Let_def split: if_splits)

lemma advance_swept:
  assumes "gov_reachable g"
  shows "swept now (snd (governor_advance now g))"
proof -
  have "gov_inv (\<lambda>d. True) (\<lambda>p. True) (snd (snd (advance_streams now (gv_streams g) 0 0 g)))"
    using gov_reachable_inv [OF assms]
    by (intro structural.advance_streams_inv) (simp_all add: gov_inv_def streams_ok_def)
  then show ?thesis
    by (simp add: governor_advance_def case_prod_beta Let_def sweep inv_parts)
qed

lemma bind_authority_swept:
  assumes "gov_reachable g" "bind_authority e i b g = (st, g')" "is_ok st"
  shows "swept (gv_last_tick g) g' \<and> ax_epoch (gv_context g') = e \<and> ax_boot (gv_context g') = b \<and>
    ax_incarnation (gv_context g') = i"
proof -
  define h where "h = count_stat gs_authority_changes_update
    (g\<lparr>gv_context := (gv_context g)\<lparr>ax_epoch := e, ax_incarnation := i, ax_boot := b\<rparr>\<rparr>)"
  have d: "distinct (map fst (gv_interventions h))" using reachable_distinct [OF assms(1)] by (simp add: h_def)
  have s: "same_authority h (snd (refresh_authority (gv_last_tick g) id_invalid h))" by (rule refresh_fields [OF d])
  show ?thesis using assms(2,3) sweep [OF d, of "gv_last_tick g"] s
    by (auto simp: bind_authority_def case_prod_beta Let_def h_def [symmetric] failure_def is_ok_def
        same_authority_def split: if_splits) (simp_all add: h_def)
qed

lemma set_context_policy_streams [simp]:
  "gv_streams (set_context_policy (g\<lparr>gv_policies := ps\<rparr>)) = gv_streams g"
  by (simp add: set_context_policy_def)

lemma install_policy_swept:
  assumes "gov_reachable g" "install_policy p g = (st, g')" "is_ok st"
  shows "swept (gv_last_tick g') g' \<and> context_ok g'"
proof -
  obtain st' ps where sf: "set_fallback p (gv_policies g) = (st', ps)" by (cases "set_fallback p (gv_policies g)")
  then have ok: "is_ok st'" using assms(2,3) by (auto simp: install_policy_def Let_def split: if_splits)
  define h where "h = rearm_streams (gv_streams g)
    (count_stat gs_policy_changes_update (set_context_policy (g\<lparr>gv_policies := ps\<rparr>)))"
  note inv = gov_reachable_inv [OF assms(1)]
  have h: "distinct (map fst (gv_interventions h))"
    using structural.installed_rearmed [OF inv _ sf ok] by (simp add: h_def inv_parts)
  define k where "k = snd (refresh_authority (gv_last_tick h) id_invalid h)"
  have k: "swept (gv_last_tick h) k" "gv_last_tick k = gv_last_tick h"
    using sweep [OF h] refresh_fields [OF h] by (simp_all add: k_def same_authority_def)
  have "gov_inv (\<lambda>d. True) (\<lambda>p. True) g'"
    using structural.install_policy_inv [OF inv, of p] assms(2) by simp
  moreover have "gv_last_tick g' = gv_last_tick k \<and> swept t g' = swept t k" for t
    using assms(2) ok sf
    by (auto simp: install_policy_def case_prod_beta Let_def h_def [symmetric] k_def [symmetric])
  ultimately show ?thesis using k inv_parts(5) by simp
qed

section \<open>Requests\<close>

text \<open>The live intents, of one stream or of all.\<close>

definition live_count :: "(intervention_intent \<Rightarrow> bool) \<Rightarrow> governor \<Rightarrow> nat" where
  "live_count f g = length (filter (\<lambda>(i, x). intent_live x \<and> f x) (gv_interventions g))"

lemma live_count_cong [simp]: "live_count f (count_stat s g) = live_count f g"
  by (simp add: live_count_def)

lemma filter_assign:
  assumes "map_of m i = Some x" "f (i, y) = f (i, x)"
  shows "length (filter f (assign i y m)) = length (filter f m)"
  using assms by (induction i y m rule: assign.induct) (auto split: if_splits)

lemma filter_emplace: "length (filter f (emplace_new i y m)) \<le> length (filter f m) + (if f (i, y) then 1 else 0)"
  by (simp add: emplace_new_def)

lemma refresh_intent_same [simp]:
  "intent_live (refresh_intent dec limit now n x)" "ii_stream (refresh_intent dec limit now n x) = ii_stream x"
  "ii_event (refresh_intent dec limit now n x) = ii_event x" "ii_kind (refresh_intent dec limit now n x) = ii_kind x"
  by (simp_all add: refresh_intent_def intent_live_def Let_def)

lemma live_refreshed:
  assumes "distinct (map fst (gv_interventions g))" "find_live e k (gv_interventions g) = Some (i, x)"
    "\<And>y. ii_stream y = ii_stream x \<Longrightarrow> f y = f x"
  shows "live_count f (refreshed dec limit now i x g) = live_count f g"
proof -
  note l = find_live_some [OF assms(2)]
  then have "map_of (gv_interventions g) i = Some x" using assms(1) by simp
  moreover have "f (refresh_intent dec limit now n x) = f x" for n by (rule assms(3)) simp
  ultimately show ?thesis using l by (simp add: live_count_def filter_assign)
qed

lemma live_requested:
  "live_count f (requested dec kind limit now g) \<le> live_count f g + (if f (new_intent dec kind limit now g) then 1 else 0)"
  using filter_emplace [of "\<lambda>(i, x). intent_live x \<and> f x" "ii_id (new_intent dec kind limit now g)"
    "new_intent dec kind limit now g" "gv_interventions g"]
  by (simp add: live_count_def split: if_splits)

text \<open>
  The loop keeps both counts at most the counters it carries, and raises a counter only below its
  limit.
\<close>

lemma request_kinds_caps:
  assumes "gov_inv P Q g" "gc_enable_interventions (gv_config g)"
    "list_all (\<lambda>(kind, limit). is_ok (validate_kind limit)) ks"
    "live_count (\<lambda>x. ii_stream x = dd_stream dec) g \<le> s" "live_count (\<lambda>x. True) g \<le> t"
  shows "live_count (\<lambda>x. ii_stream x = dd_stream dec) (request_kinds dec now ip ks s t g)
      \<le> max s (unat (ip_max_concurrent_per_stream ip)) \<and>
    live_count (\<lambda>x. True) (request_kinds dec now ip ks s t g) \<le> max t (unat (ip_max_concurrent_total ip))"
  using assms
proof (induction ks arbitrary: s t g)
  case (Cons kl rest)
  obtain kind limit where kl: "kl = (kind, limit)" by (cases kl)
  have d: "distinct (map fst (gv_interventions g))" by (rule inv_parts(4) [OF Cons.prems(1)])
  show ?case
  proof (cases rule: request_cases [of dec now ip kind limit rest s t g])
    case suppressed
    then show ?thesis using Cons by (simp add: kl kept del: request_kinds.simps)
  next
    case (refreshed i x)
    have "live_count f (refreshed dec limit now i x g) = live_count f g"
      if "\<And>y. ii_stream y = ii_stream x \<Longrightarrow> f y = f x" for f
      by (rule live_refreshed [OF d refreshed(1)]) (rule that)
    moreover have "gov_inv P Q (refreshed dec limit now i x g)"
      using Cons.prems refreshed by (intro refreshed_inv) (simp_all add: kl)
    ultimately show ?thesis
      using Cons refreshed by (simp add: kl del: request_kinds.simps)
  next
    case requested
    have "gov_inv P Q (requested dec kind limit now g)"
      using Cons.prems requested by (intro requested_inv) simp_all
    moreover have "live_count f (requested dec kind limit now g) \<le> n + 1" if "live_count f g \<le> n" for f n
      using live_requested [of f dec kind limit now g] that by (simp split: if_splits)
    note this [OF Cons.prems(4)] this [OF Cons.prems(5)]
    moreover have "list_all (\<lambda>(kind, limit). is_ok (validate_kind limit)) rest" using Cons.prems(3) by simp
    moreover have "gc_enable_interventions (gv_config (requested dec kind limit now g))" using Cons.prems(2) by simp
    ultimately have "live_count (\<lambda>x. ii_stream x = dd_stream dec)
          (request_kinds dec now ip rest (s + 1) (t + 1) (requested dec kind limit now g))
        \<le> max (s + 1) (unat (ip_max_concurrent_per_stream ip)) \<and>
      live_count (\<lambda>x. True) (request_kinds dec now ip rest (s + 1) (t + 1) (requested dec kind limit now g))
        \<le> max (t + 1) (unat (ip_max_concurrent_total ip))"
      by (intro Cons.IH)
    then show ?thesis using requested(5,6,8) by (simp add: kl del: request_kinds.simps)
  qed
qed (simp add: le_max_iff_disj)

text \<open>What a decision may request, read off the policy of its resource.\<close>

definition licensed :: "decision \<Rightarrow> intervention_policy \<Rightarrow> (intervention_kind \<times> kind_limit) list \<Rightarrow> governor \<Rightarrow>
    intervention_intent \<Rightarrow> bool" where
  "licensed dec ip ks g x \<longleftrightarrow> ii_event x = dd_event dec \<and> ii_stream x = dd_stream dec \<and>
     au_policy_generation (ii_authority x) = ax_policy_generation (gv_context g) \<and>
     au_policy_digest (ii_authority x) = ax_policy_digest (gv_context g) \<and>
     au_epoch (ii_authority x) = ax_epoch (gv_context g) \<and>
     au_incarnation (ii_authority x) = ax_incarnation (gv_context g) \<and>
     au_boot (ii_authority x) = ax_boot (gv_context g) \<and>
     au_resource_generation (ii_authority x) = observed_generation g (sk_resource (dd_stream dec)) \<and>
     (ip_require_authoritative_evidence ip \<longrightarrow> dd_authority dec = EvAuthoritative) \<and>
     list_ex (\<lambda>(kind, limit). kind = ii_kind x \<and> kl_enabled limit \<and>
       severity_at_least (dd_severity dec) (kl_min_severity limit)) ks"

lemma refresh_authority_of [simp]:
  "au_policy_generation (ii_authority (refresh_intent dec limit now n x)) = au_policy_generation (ii_authority x)"
  "au_policy_digest (ii_authority (refresh_intent dec limit now n x)) = au_policy_digest (ii_authority x)"
  "au_epoch (ii_authority (refresh_intent dec limit now n x)) = au_epoch (ii_authority x)"
  "au_incarnation (ii_authority (refresh_intent dec limit now n x)) = au_incarnation (ii_authority x)"
  "au_boot (ii_authority (refresh_intent dec limit now n x)) = au_boot (ii_authority x)"
  "au_resource_generation (ii_authority (refresh_intent dec limit now n x)) = au_resource_generation (ii_authority x)"
  by (simp_all add: refresh_intent_def Let_def)

lemma licensed_cong [simp]:
  "licensed dec ip ks (refreshed dec' limit now i y g) x = licensed dec ip ks g x"
  "licensed dec ip ks (requested dec' kind limit now g) x = licensed dec ip ks g x"
  "licensed dec ip ks (count_stat f g) x = licensed dec ip ks g x"
  by (simp_all add: licensed_def observed_generation_def)

lemma licensed_refresh [simp]:
  "licensed dec ip ks g (refresh_intent dec' limit now n x) = licensed dec ip ks g x"
  by (simp add: licensed_def)

lemma request_kinds_licensed:
  assumes "\<And>i x. (i, x) \<in> set (gv_interventions g) \<Longrightarrow> i \<in> old \<or> licensed dec ip all g x" "set ks \<subseteq> set all"
  shows "(i, x) \<in> set (gv_interventions (request_kinds dec now ip ks s t g)) \<Longrightarrow> i \<in> old \<or> licensed dec ip all g x"
  using assms
proof (induction ks arbitrary: s t g)
  case (Cons kl rest)
  obtain kind limit where kl: "kl = (kind, limit)" by (cases kl)
  show ?case
  proof (cases rule: request_cases [of dec now ip kind limit rest s t g])
    case suppressed
    then show ?thesis using Cons.IH [of s t "count_stat gs_interventions_suppressed_update g"] Cons.prems
      by (simp add: kl del: request_kinds.simps)
  next
    case (refreshed j y)
    have "(j, y) \<in> set (gv_interventions g)" using find_live_some [OF refreshed(1)] by blast
    then have "j \<in> old \<or> licensed dec ip all g y" by (rule Cons.prems(2))
    then have "a \<in> old \<or> licensed dec ip all g z"
      if "(a, z) \<in> set (gv_interventions (refreshed dec limit now j y g))" for a z
      using that Cons.prems(2) [of a z] set_assign [of j "refresh_intent dec limit now (gv_decision_seq g) y" "gv_interventions g"]
      by auto
    then show ?thesis using Cons.IH [of s t "refreshed dec limit now j y g"] Cons.prems refreshed
      by (simp add: kl del: request_kinds.simps)
  next
    case requested
    have "licensed dec ip all g (new_intent dec kind limit now g)"
      using requested Cons.prems(3) by (auto simp: licensed_def new_intent_def Let_def kl list_ex_iff)
    then have "a \<in> old \<or> licensed dec ip all g z"
      if "(a, z) \<in> set (gv_interventions (requested dec kind limit now g))" for a z
      using that Cons.prems(2) [of a z] by (auto simp: emplace_new_def split: if_splits)
    then show ?thesis using Cons.IH [of "s + 1" "t + 1" "requested dec kind limit now g"] Cons.prems requested
      by (simp add: kl del: request_kinds.simps)
  qed
qed simp

lemma kinds_valid:
  assumes "gov_inv P Q g"
  shows "list_all (\<lambda>(kind, limit). is_ok (validate_kind limit))
    (zip all_kinds (ip_kinds (po_intervention (resolve (gv_policies g) r))))"
proof -
  have "is_ok (validate_policy (resolve (gv_policies g) r))"
    using assms by (simp add: resolve_valid gov_inv_def policies_ok_def)
  then show ?thesis
    by (auto simp: validate_policy_ok_iff validate_kinds_ok_iff list_all_iff dest: set_zip_rightD)
qed

lemma count_live_filter:
  "length (filter (\<lambda>(i, x). f x) (filter (\<lambda>(i, x). intent_live x) (gv_interventions g))) = live_count f g"
  by (simp add: live_count_def conj_commute case_prod_beta')

lemma maybe_request_caps:
  fixes dec :: decision and now :: tick
  assumes "gov_reachable g"
  defines "ip \<equiv> po_intervention (resolve (gv_policies g) (sk_resource (dd_stream dec)))"
  defines "g' \<equiv> maybe_request_interventions dec now g"
  shows "live_count (\<lambda>x. ii_stream x = dd_stream dec) g'
      \<le> max (live_count (\<lambda>x. ii_stream x = dd_stream dec) g) (unat (ip_max_concurrent_per_stream ip)) \<and>
    live_count (\<lambda>x. True) g' \<le> max (live_count (\<lambda>x. True) g) (unat (ip_max_concurrent_total ip))"
proof (cases "gc_enable_interventions (gv_config g)")
  case True
  note inv = gov_reachable_inv [OF assms(1)]
  show ?thesis
    using request_kinds_caps [OF inv True kinds_valid [OF inv] order_refl order_refl] True
      count_live_filter [of "\<lambda>x. ii_stream x = dd_stream dec" g] count_live_filter [of "\<lambda>x. True" g]
    by (simp add: g'_def ip_def maybe_request_interventions_def Let_def case_prod_beta')
qed (simp add: g'_def maybe_request_interventions_def)

lemma maybe_request_licensed:
  assumes "(i, x) \<in> set (gv_interventions (maybe_request_interventions dec now g))" "i \<notin> fst ` set (gv_interventions g)"
  defines "ip \<equiv> po_intervention (resolve (gv_policies g) (sk_resource (dd_stream dec)))"
  shows "gc_enable_interventions (gv_config g) \<and> licensed dec ip (zip all_kinds (ip_kinds ip)) g x"
proof -
  have e: "gc_enable_interventions (gv_config g)"
    using assms(1,2) by (force simp: maybe_request_interventions_def split: if_splits)
  obtain s t where "(i, x) \<in> set (gv_interventions (request_kinds dec now ip (zip all_kinds (ip_kinds ip)) s t g))"
    using assms(1) e by (auto simp: maybe_request_interventions_def ip_def Let_def)
  from request_kinds_licensed [OF _ _ this, of "fst ` set (gv_interventions g)" "zip all_kinds (ip_kinds ip)"]
  show ?thesis using assms(2) e by (metis fst_conv image_eqI order_refl)
qed

section \<open>Closed episodes\<close>

text \<open>Closing an episode leaves no intent of it.\<close>

lemma process_closed_retires:
  assumes "distinct (map fst (gv_interventions g))" "id_valid (ev_id e)"
    "(i, x) \<in> set (gv_interventions (process_closed b e now g))"
  shows "ii_event x \<noteq> ev_id e"
proof
  assume eq: "ii_event x = ev_id e"
  define h where "h = g\<lparr>gv_open_events := erase (ev_id e) (gv_open_events g)\<rparr>"
  define k where "k = snd (refresh_authority now (ev_id e) h)"
  have d: "distinct (map fst (gv_interventions h))" using assms(1) by (simp add: h_def)
  note spec = refresh_authority_spec [OF d, of now "ev_id e", folded k_def]
  have "(i, x) \<in> set (gv_interventions k)"
    using assms(3) by (simp add: process_closed_def Let_def case_prod_beta h_def [symmetric] k_def [symmetric] split: if_splits)
  then have v: "intent_verdict now k x = AvValid"
    using eq assms(2) same_authority_verdict [OF spec(1)] unfolding spec(3) by (simp add: survives_def)
  have "gv_open_events k = erase (ev_id e) (gv_open_events g)"
    using spec(1) by (simp add: same_authority_def h_def)
  then have "map_of (gv_open_events k) (ev_id e) = None"
    by (auto simp: map_of_eq_None_iff set_erase)
  then show False using v eq by (simp add: intent_verdict_def Let_def split: if_splits)
qed

section \<open>Recovery\<close>

lemma same_live_housekeeping [simp]:
  "same_live g (append_record t p now h) \<longleftrightarrow> same_live g h"
  by (simp add: same_live_def)

lemma restore_closed_live: "same_live g (snd s) \<Longrightarrow> same_live g (snd (restore_closed e s))"
  by (cases s) (simp add: restore_closed_def)

lemma restore_open_live: "same_live g (snd s) \<Longrightarrow> same_live g (snd (restore_open e s))"
  by (cases s) (simp add: restore_open_def)

lemma restore_intent_live: "same_live g (snd s) \<Longrightarrow> same_live g (snd (restore_intent i s))"
  by (cases s) (simp add: restore_intent_def same_live_def Let_def)

lemma restore_folds_live:
  assumes "same_live g (snd s)"
  shows "same_live g (snd (fold restore_closed es s))" "same_live g (snd (fold restore_open es s))"
    "same_live g (snd (fold restore_intent is s))"
proof -
  show "same_live g (snd (fold restore_closed es s))"
    using assms by (induction es arbitrary: s) (simp_all add: restore_closed_live)
  show "same_live g (snd (fold restore_open es s))"
    using assms by (induction es arbitrary: s) (simp_all add: restore_open_live)
  show "same_live g (snd (fold restore_intent is s))"
    using assms by (induction "is" arbitrary: s) (simp_all add: restore_intent_live)
qed

lemma restore_state_live: "same_live g h \<Longrightarrow> same_live g (snd (restore_state acc r h))"
proof -
  assume h: "same_live g h"
  have p: "same_live g (snd (restore_policies acc r h))"
    using h by (auto simp: restore_policies_def same_live_def set_context_policy_def split: option.split sum.split)
  have c: "same_live g (restore_counters c k) = same_live g k" for c k
    by (simp add: restore_counters_def same_live_def Let_def)
  show ?thesis
    by (simp add: restore_state_def Let_def case_prod_beta c restore_folds_live p del: fold_map)
qed

lemma restore_live: "same_live g (snd (restore g))"
proof (cases rule: restore_cases [of g])
  case (rebuilt s acc r)
  have a: "same_live g (restore_announce k) = same_live g k" for k
    by (simp add: restore_announce_def Let_def)
  show ?thesis unfolding rebuilt a by (rule restore_state_live) (simp add: same_live_def)
qed (simp_all add: same_live_def)

end
