(* ===== verification/Session.thy ===== *)
theory Session
  imports Channel Fence Governor_Safety
begin

text \<open>
  The coordinator and its sessions (\<open>coordinator/coordinator.hpp\<close>, \<open>coordinator/coordinator.cpp\<close>):
  start-up with the recovered authority, the accept loop, and one session per connection as a state
  machine that handles one frame per step. The governor is the one of the configuration; the durable
  store of the coordinator is the store bound to that governor, as in the program's own use of it.
  What the threads share is the record \<open>coordinator\<close>; a step handles one frame, so an interleaving
  of the sessions is a sequence of steps.
\<close>

section \<open>Data\<close>

primrec classification_raw :: "classification \<Rightarrow> u8" where
  "classification_raw ClUnknown = 0"
| "classification_raw ClQuiescent = 1"
| "classification_raw ClCandidate = 2"
| "classification_raw ClMicroburst = 3"
| "classification_raw ClDegradedMicroburst = 4"
| "classification_raw ClRecovering = 5"
| "classification_raw ClFenced = 6"

record worker_record =
  wr_id :: u64
  wr_incarnation :: u64
  wr_boot :: u64
  wr_epoch :: u32
  wr_first_tick :: tick
  wr_last_tick :: tick
  wr_frames :: u64
  wr_samples :: u64
  wr_connected :: bool
  wr_fenced :: bool
  wr_handshake :: handshake_status
  wr_fence_attempt :: u64

record coordinator_stats =
  cs_connections_accepted :: u64
  cs_handshakes_accepted :: u64
  cs_handshakes_rejected :: u64
  cs_stale_epoch_rejections :: u64
  cs_stale_boot_rejections :: u64
  cs_version_rejections :: u64
  cs_capacity_rejections :: u64
  cs_protocol_errors :: u64
  cs_frames_received :: u64
  cs_frames_rejected :: u64
  cs_samples_ingested :: u64
  cs_samples_rejected :: u64
  cs_workers_fenced :: u64
  cs_worker_disconnects :: u64

definition coordinator_stats_zero :: coordinator_stats where
  "coordinator_stats_zero = \<lparr>cs_connections_accepted = 0, cs_handshakes_accepted = 0,
     cs_handshakes_rejected = 0, cs_stale_epoch_rejections = 0, cs_stale_boot_rejections = 0,
     cs_version_rejections = 0, cs_capacity_rejections = 0, cs_protocol_errors = 0,
     cs_frames_received = 0, cs_frames_rejected = 0, cs_samples_ingested = 0, cs_samples_rejected = 0,
     cs_workers_fenced = 0, cs_worker_disconnects = 0\<rparr>"

text \<open>The two pointers of the configuration are whether they are set.\<close>

record coordinator_config =
  cc_port :: u16
  cc_seed_epoch :: u32
  cc_seed_boot :: u64
  cc_incarnation :: u64
  cc_governor :: bool
  cc_store :: bool
  cc_recover_authority :: bool
  cc_max_workers :: nat

record coordinator =
  co_config :: coordinator_config
  co_running :: bool
  co_started :: bool
  co_port :: u16
  co_epoch :: u32
  co_boot :: u64
  co_incarnation :: u64
  co_authority_recovered :: bool
  co_previous_epoch :: u32
  co_active_sessions :: nat
  co_session_channels :: "nat list"
  co_workers :: "(u64 \<times> worker_record) list"
  co_counters :: coordinator_stats
  co_governor :: governor

section \<open>Start\<close>

definition observe_authority ::
  "journaled_record \<Rightarrow> (u32 \<times> u64) list \<Rightarrow> status \<times> (u32 \<times> u64) list" where
  "observe_authority rec observed =
     (if jr_type rec \<noteq> RtAuthorityBound then (status_ok, observed)
      else let (epoch, r) = get_u32 (reader_of (jr_payload rec)); (_, r) = get_u64 r; (boot, r) = get_u64 r
      in if \<not> rd_ok r \<or> \<not> rd_at_end r then
           (failure StCorrupt ''authority record payload is malformed'', observed)
         else (status_ok, observed @ [(epoch, boot)]))"

fun newest_authority :: "(u32 \<times> u64) list \<Rightarrow> u32 \<Rightarrow> u64 \<Rightarrow> u32 \<times> u64" where
  "newest_authority [] epoch boot = (epoch, boot)"
| "newest_authority ((e, b) # observed) epoch boot =
     newest_authority observed (if e \<ge> epoch then e else epoch) (if b \<ge> boot then b else boot)"

text \<open>The status, the recovered epoch and boot, whether any was present, and the store after it.\<close>

definition recover_durable_authority :: "io \<Rightarrow> store \<Rightarrow> (u32 \<times> u64 \<times> bool) result \<times> store" where
  "recover_durable_authority i s =
     (let (replayed, s, observed) = store_replay i observe_authority s []
      in case replayed of
           Inl st \<Rightarrow> (Inl st, s)
         | Inr (report, payload) \<Rightarrow>
             let observed = (if rp_snapshot_present report \<and> payload \<noteq> [] then
                     case decode_state payload of
                       Inl _ \<Rightarrow> observed
                     | Inr state \<Rightarrow> observed @ [(pd_epoch state, pd_boot state)]
                   else observed);
                 (epoch, boot) = newest_authority observed 0 0
             in (Inr (epoch, boot, observed \<noteq> []), s))"

text \<open>The recovery block of \<open>start\<close>.\<close>

definition adopt_authority :: "coordinator \<Rightarrow> status \<times> coordinator" where
  "adopt_authority c =
     (case (if cc_store (co_config c) \<and> cc_recover_authority (co_config c) then gv_store (co_governor c) else None) of
        None \<Rightarrow> (status_ok, c)
      | Some s \<Rightarrow>
          let g = co_governor c;
              (recovered, s) = recover_durable_authority (env_now g) s;
              c = c\<lparr>co_governor := g\<lparr>gv_store := Some s, gv_env_pos := gv_env_pos g + 1\<rparr>\<rparr>
          in case recovered of
               Inl st \<Rightarrow> (st, c)
             | Inr (epoch, boot, present) \<Rightarrow>
                 if \<not> present then (status_ok, c)
                 else let c = c\<lparr>co_previous_epoch := epoch\<rparr>
                 in case advance_authority \<lparr>as_epoch = epoch, as_incarnation = co_incarnation c, as_boot = boot\<rparr> of
                      Inl st \<Rightarrow> (st, c)
                    | Inr advanced \<Rightarrow>
                        (status_ok, c\<lparr>co_epoch := as_epoch advanced, co_boot := as_boot advanced,
                           co_authority_recovered := True\<rparr>))"

definition start_fields :: "u64 \<Rightarrow> coordinator_config \<Rightarrow> coordinator \<Rightarrow> coordinator" where
  "start_fields minted cfg c = c\<lparr>co_config := cfg,
     co_incarnation := (if id_valid (cc_incarnation cfg) then cc_incarnation cfg else minted),
     co_epoch := cc_seed_epoch cfg, co_boot := cc_seed_boot cfg,
     co_authority_recovered := False, co_previous_epoch := 0\<rparr>"

text \<open>
  \<open>net\<close> is the outcome of the network start-up, \<open>minted\<close> the incarnation the platform mints and
  \<open>listening\<close> the outcome of binding the port, with the port that was bound.
\<close>

definition coordinator_start ::
  "status \<Rightarrow> u64 \<Rightarrow> (coordinator_config \<Rightarrow> status \<times> u16) \<Rightarrow> coordinator_config \<Rightarrow> coordinator \<Rightarrow> status \<times> coordinator" where
  "coordinator_start net minted listening cfg c =
     (if \<not> cc_governor cfg then (failure StInvalidArgument ''coordinator requires a governor'', c)
      else if cc_max_workers cfg = 0 \<or> cc_max_workers cfg > kMaxConnections then
        (failure StOutOfRange ''worker bound outside supported range'', c)
      else if \<not> is_ok net then (net, c)
      else
        let (st, c) = adopt_authority (start_fields minted cfg c)
        in if \<not> is_ok st then (st, c)
           else
             let c = (if co_epoch c = 0 then c\<lparr>co_epoch := 1\<rparr> else c);
                 (bound, g) = bind_authority (co_epoch c) (co_incarnation c) (co_boot c) (co_governor c);
                 c = c\<lparr>co_governor := g\<rparr>
             in if \<not> is_ok bound then (bound, c)
                else let (st, p) = listening cfg
                in if \<not> is_ok st then (st, c)
                   else (status_ok, c\<lparr>co_port := p, co_running := True, co_started := True\<rparr>))"

section \<open>Sessions\<close>

datatype session_phase = SpHello | SpFrames | SpDone

record session =
  ss_number :: nat
  ss_channel :: channel
  ss_worker :: u64
  ss_registered :: bool
  ss_sequence :: u64
  ss_phase :: session_phase

definition kFrameSeqStart :: u64 where "kFrameSeqStart = 1"

definition session_new :: "nat \<Rightarrow> channel \<Rightarrow> session" where
  "session_new n ch = \<lparr>ss_number = n, ss_channel = ch, ss_worker = id_invalid, ss_registered = False,
     ss_sequence = kFrameSeqStart, ss_phase = SpHello\<rparr>"

definition tally :: "((u64 \<Rightarrow> u64) \<Rightarrow> coordinator_stats \<Rightarrow> coordinator_stats) \<Rightarrow> coordinator \<Rightarrow> coordinator" where
  "tally field c = c\<lparr>co_counters := field (\<lambda>n. n + 1) (co_counters c)\<rparr>"

text \<open>The record of a worker, if it is registered, changed under the registry lock.\<close>

definition update_worker :: "u64 \<Rightarrow> (worker_record \<Rightarrow> worker_record) \<Rightarrow> coordinator \<Rightarrow> coordinator" where
  "update_worker w f c =
     (case map_of (co_workers c) w of
        None \<Rightarrow> c
      | Some rec \<Rightarrow> c\<lparr>co_workers := assign w (f rec) (co_workers c)\<rparr>)"

definition register_session :: "nat \<Rightarrow> coordinator \<Rightarrow> coordinator" where
  "register_session n c = c\<lparr>co_active_sessions := co_active_sessions c + 1,
     co_session_channels := co_session_channels c @ [n]\<rparr>"

definition retire_session :: "nat \<Rightarrow> coordinator \<Rightarrow> coordinator" where
  "retire_session n c = c\<lparr>co_active_sessions := co_active_sessions c - 1,
     co_session_channels := remove1 n (co_session_channels c)\<rparr>"

definition mark_ended :: "bool \<Rightarrow> u64 \<Rightarrow> coordinator \<Rightarrow> coordinator" where
  "mark_ended graceful w c =
     (case map_of (co_workers c) w of
        None \<Rightarrow> c
      | Some rec \<Rightarrow>
          let rec = rec\<lparr>wr_connected := False, wr_fenced := \<not> graceful\<rparr>;
              rec = (if graceful then rec else rec\<lparr>wr_fence_attempt := hash_combine w (wr_frames rec + 1)\<rparr>);
              c = c\<lparr>co_workers := assign w rec (co_workers c)\<rparr>
          in if graceful then c else tally cs_workers_fenced_update c)"

definition finish :: "bool \<Rightarrow> session \<Rightarrow> coordinator \<Rightarrow> session \<times> coordinator" where
  "finish graceful s c =
     (let c = (if ss_registered s then tally cs_worker_disconnects_update (mark_ended graceful (ss_worker s) c) else c)
      in (s\<lparr>ss_channel := channel_close (ss_channel s), ss_phase := SpDone\<rparr>, retire_session (ss_number s) c))"

definition frame_of :: "message_type \<Rightarrow> u64 \<Rightarrow> byte list \<Rightarrow> frame" where
  "frame_of t seq payload = \<lparr>fr_header = \<lparr>fh_version = kWireProtocolVersion, fh_type = t, fh_flags = 0,
     fh_seq = seq, fh_payload_length = 0\<rparr>, fr_payload = payload\<rparr>"

definition session_send :: "frame \<Rightarrow> session \<Rightarrow> status \<times> session" where
  "session_send f s = (let (st, ch) = channel_send f (ss_channel s) in (st, s\<lparr>ss_channel := ch\<rparr>))"

definition encode_error :: "status_code \<Rightarrow> string \<Rightarrow> byte list" where
  "encode_error code detail = put_u16 (status_code_raw code) @ put_text (string_bytes detail)"

definition send_error :: "status_code \<Rightarrow> string \<Rightarrow> session \<Rightarrow> coordinator \<Rightarrow> session \<times> coordinator" where
  "send_error code detail s c =
     (snd (session_send (frame_of MtError kFrameSeqStart (encode_error code detail)) s),
      tally cs_protocol_errors_update c)"

definition send_fence :: "session \<Rightarrow> coordinator \<Rightarrow> session" where
  "send_fence s c =
     snd (session_send (frame_of MtFence (ss_sequence s) (encode_fence_notice
       \<lparr>fn_epoch = co_epoch c, fn_coordinator = co_incarnation c,
        fn_attempt = hash_combine (ss_worker s) (ss_sequence s)\<rparr>)) s)"

text \<open>The record of an admitted worker.\<close>

definition admitted_record :: "hello_request \<Rightarrow> worker_record" where
  "admitted_record h = \<lparr>wr_id = hq_worker h, wr_incarnation = hq_incarnation h, wr_boot = hq_boot h,
     wr_epoch = hq_epoch h, wr_first_tick = hq_first_tick h, wr_last_tick = hq_first_tick h,
     wr_frames = 0, wr_samples = 0, wr_connected = True, wr_fenced = False, wr_handshake = HsAccepted,
     wr_fence_attempt = id_invalid\<rparr>"

text \<open>The answer to a hello, with the counters and, on admission, the registry it leaves.\<close>

definition answer_hello :: "hello_request \<Rightarrow> coordinator \<Rightarrow> handshake_status \<times> coordinator" where
  "answer_hello h c =
     (let verdict = validate_claim
            \<lparr>as_epoch = co_epoch c, as_incarnation = co_incarnation c, as_boot = co_boot c\<rparr>
            \<lparr>as_epoch = hq_epoch h, as_incarnation = hq_incarnation h, as_boot = hq_boot h\<rparr>
            (hq_protocol h) kWireProtocolVersion;
          rejected = tally cs_handshakes_rejected_update
      in if verdict = CvVersionMismatch then
           (HsVersionMismatch, rejected (tally cs_version_rejections_update c))
         else if verdict = CvEpochMismatch then
           (HsStaleEpoch, rejected (tally cs_stale_epoch_rejections_update c))
         else if verdict = CvBootMismatch then
           (HsStaleBoot, rejected (tally cs_stale_boot_rejections_update c))
         else if verdict \<noteq> CvAccepted then (HsMalformed, rejected c)
         else if length (co_workers c) \<ge> cc_max_workers (co_config c) \<and>
                 map_of (co_workers c) (hq_worker h) = None then
           (HsCapacityExceeded, rejected (tally cs_capacity_rejections_update c))
         else (HsAccepted, tally cs_handshakes_accepted_update
                 (c\<lparr>co_workers := assign (hq_worker h) (admitted_record h) (co_workers c)\<rparr>)))"

definition hello_ack :: "handshake_status \<Rightarrow> coordinator \<Rightarrow> frame" where
  "hello_ack status c = frame_of MtHelloAck kFrameSeqStart (encode_hello_response
     \<lparr>hr_status = status, hr_epoch = co_epoch c, hr_coordinator = co_incarnation c, hr_boot = co_boot c,
      hr_max_payload_bytes = of_nat kMaxFramePayloadBytes\<rparr>)"

text \<open>The first frame of a session, up to the entry of the frame loop.\<close>

definition session_hello :: "session \<Rightarrow> coordinator \<Rightarrow> session \<times> coordinator" where
  "session_hello s c =
     (let (received, ch) = channel_receive (ss_channel s); s = s\<lparr>ss_channel := ch\<rparr>;
          hello = (case received of
            Inl st \<Rightarrow> Inl st
          | Inr f \<Rightarrow> if fh_type (fr_header f) \<noteq> MtHello then Inl status_ok
                      else decode_hello (reader_of (fr_payload f)))
      in case hello of
           Inl _ \<Rightarrow> finish False s (tally cs_handshakes_rejected_update c)
         | Inr h \<Rightarrow>
             let (status, c) = answer_hello h c;
                 s = (if status = HsAccepted then s\<lparr>ss_registered := True, ss_worker := hq_worker h\<rparr> else s);
                 (sent, s) = session_send (hello_ack status c) s
             in if \<not> is_ok sent then finish False s c
                else if status \<noteq> HsAccepted then finish False s c
                else (s\<lparr>ss_sequence := kFrameSeqStart, ss_phase := SpFrames\<rparr>, c))"

definition handle_heartbeat :: "frame \<Rightarrow> session \<Rightarrow> coordinator \<Rightarrow> session \<times> coordinator" where
  "handle_heartbeat f s c =
     (case decode_heartbeat (reader_of (fr_payload f)) of
        Inl _ \<Rightarrow>
          let (s, c) = send_error StCorrupt ''heartbeat payload invalid'' s (tally cs_frames_rejected_update c)
          in finish False s c
      | Inr hb \<Rightarrow>
          if hb_epoch hb \<noteq> co_epoch c then
            let c = tally cs_stale_epoch_rejections_update c
            in finish False (send_fence s c) c
          else (s, update_worker (ss_worker s) (wr_last_tick_update (\<lambda>_. hb_tick hb)) c))"

text \<open>The samples of a batch go to the governor one by one, in order.\<close>

fun ingest_samples :: "sample list \<Rightarrow> u64 \<Rightarrow> evidence_ack \<Rightarrow> coordinator \<Rightarrow> evidence_ack \<times> coordinator" where
  "ingest_samples [] w ack c = (ack, c)"
| "ingest_samples (x # xs) w ack c =
     (let (outcome, g) = governor_ingest x (co_governor c); c = c\<lparr>co_governor := g\<rparr>
      in if is_ok (io_status outcome) then
           let c = tally cs_samples_ingested_update c;
               c = (if sm_tick x > 0
                    then update_worker w (\<lambda>rec. rec\<lparr>wr_last_tick := sm_tick x, wr_samples := wr_samples rec + 1\<rparr>) c
                    else c)
           in ingest_samples xs w (ack\<lparr>ea_accepted := ea_accepted ack + 1,
                ea_classification := classification_raw (io_classification outcome)\<rparr>) c
         else ingest_samples xs w (ack\<lparr>ea_rejected := ea_rejected ack + 1\<rparr>) (tally cs_samples_rejected_update c))"

definition ack_default :: evidence_ack where
  "ack_default = \<lparr>ea_seq = id_invalid, ea_accepted = 0, ea_rejected = 0, ea_classification = 0, ea_epoch = id_invalid\<rparr>"

definition handle_evidence :: "frame \<Rightarrow> session \<Rightarrow> coordinator \<Rightarrow> session \<times> coordinator" where
  "handle_evidence f s c =
     (case decode_batch (reader_of (fr_payload f)) of
        Inl st \<Rightarrow>
          let (s, c) = send_error (st_code st) (st_detail st) s (tally cs_frames_rejected_update c)
          in finish False s c
      | Inr batch \<Rightarrow>
          if eb_epoch batch \<noteq> co_epoch c then
            let c = tally cs_stale_epoch_rejections_update c
            in finish False (send_fence s c) c
          else
            let (ack, c) = ingest_samples (eb_samples batch) (ss_worker s)
                  (ack_default\<lparr>ea_seq := fh_seq (fr_header f), ea_epoch := co_epoch c\<rparr>) c;
                (sent, s) = session_send (frame_of MtEvidenceAck (ss_sequence s) (encode_evidence_ack ack)) s
            in if \<not> is_ok sent then finish False s c else (s, c))"

definition handle_frame :: "frame \<Rightarrow> session \<Rightarrow> coordinator \<Rightarrow> session \<times> coordinator" where
  "handle_frame f s c =
     (case fh_type (fr_header f) of
        MtHeartbeat \<Rightarrow> handle_heartbeat f s c
      | MtEvidence \<Rightarrow> handle_evidence f s c
      | MtGoodbye \<Rightarrow> finish True s c
      | _ \<Rightarrow>
          let (s, c) = send_error StProtocol ''unexpected message type'' s (tally cs_frames_rejected_update c)
          in finish False s c)"

text \<open>One turn of the frame loop.\<close>

definition session_frame :: "session \<Rightarrow> coordinator \<Rightarrow> session \<times> coordinator" where
  "session_frame s c =
     (if \<not> co_running c then finish False s c
      else let (received, ch) = channel_receive (ss_channel s); s = s\<lparr>ss_channel := ch\<rparr>
      in case received of
           Inl _ \<Rightarrow> finish False s c
         | Inr f \<Rightarrow>
             let c = tally cs_frames_received_update c;
                 s = s\<lparr>ss_sequence := ss_sequence s + 1\<rparr>;
                 c = update_worker (ss_worker s) (\<lambda>rec. rec\<lparr>wr_frames := wr_frames rec + 1\<rparr>) c
             in handle_frame f s c)"

definition session_step :: "session \<Rightarrow> coordinator \<Rightarrow> session \<times> coordinator" where
  "session_step s c = (case ss_phase s of
       SpHello \<Rightarrow> session_hello s c
     | SpFrames \<Rightarrow> session_frame s c
     | SpDone \<Rightarrow> (s, c))"

text \<open>
  One turn of the accept loop, for the socket the listener returned, if it returned one; the result
  says whether the loop goes on, and with which new session.
\<close>

definition accept_step :: "socket option \<Rightarrow> nat \<Rightarrow> coordinator \<Rightarrow> bool \<times> session option \<times> coordinator" where
  "accept_step accepted n c =
     (case accepted of
        None \<Rightarrow> (False, None, c)
      | Some sock \<Rightarrow>
          if \<not> co_running c then (False, None, c)
          else let c = tally cs_connections_accepted_update c
          in if co_active_sessions c \<ge> cc_max_workers (co_config c) then
               (True, None, tally cs_capacity_rejections_update c)
             else (True, Some (session_new n (channel_new sock)), register_session n c))"

text \<open>
  \<open>stop\<close> up to its wait: the loop is told to end, and the channels of the sessions still registered
  are interrupted. The wait ends when no session is active, and then the last part runs.
\<close>

definition stop_begin :: "coordinator \<Rightarrow> coordinator" where
  "stop_begin c = (if \<not> co_started c then c else c\<lparr>co_running := False\<rparr>)"

definition interrupt_session :: "session \<Rightarrow> session" where
  "interrupt_session s = s\<lparr>ss_channel := channel_interrupt (ss_channel s)\<rparr>"

definition stop_end :: "coordinator \<Rightarrow> coordinator" where
  "stop_end c = (if \<not> co_started c then c else c\<lparr>co_session_channels := [], co_started := False\<rparr>)"

definition workers :: "coordinator \<Rightarrow> worker_record list" where
  "workers c = sort_key wr_id (map snd (co_workers c))"

definition fenced_workers :: "coordinator \<Rightarrow> worker_record list" where
  "fenced_workers c = filter wr_fenced (workers c)"

end
