(* ===== verification/Worker.thy ===== *)
theory Worker
  imports Session
begin

text \<open>
  The worker side of the transport (\<open>coordinator/worker.hpp\<close>, \<open>coordinator/worker.cpp\<close>): connecting,
  the handshake, heartbeats, evidence and leaving. An operation that waits for an answer reads it
  from the stream of its socket, which holds what the coordinator sends.
\<close>

record worker_config =
  wc_port :: u16
  wc_id :: u64
  wc_incarnation :: u64
  wc_boot :: u64
  wc_epoch :: u32
  wc_first_tick :: tick

definition worker_config_default :: worker_config where
  "worker_config_default = \<lparr>wc_port = 0, wc_id = id_invalid, wc_incarnation = id_invalid,
     wc_boot = id_invalid, wc_epoch = id_invalid, wc_first_tick = 0\<rparr>"

record worker =
  wk_config :: worker_config
  wk_channel :: "channel option"
  wk_sequence :: u64
  wk_granted :: u32
  wk_handshake :: handshake_status
  wk_fenced :: bool

definition worker_new :: worker where
  "worker_new = \<lparr>wk_config = worker_config_default, wk_channel = None, wk_sequence = 1,
     wk_granted = id_invalid, wk_handshake = HsMalformed, wk_fenced = False\<rparr>"

definition worker_connected :: "worker \<Rightarrow> bool" where
  "worker_connected w \<longleftrightarrow> (case wk_channel w of None \<Rightarrow> False | Some ch \<Rightarrow> channel_valid ch)"

text \<open>\<open>net\<close> is the outcome of the network start-up and \<open>dial\<close> of \<open>connect_loopback\<close>.\<close>

definition worker_connect :: "status \<Rightarrow> (worker_config \<Rightarrow> socket result) \<Rightarrow> worker_config \<Rightarrow> worker \<Rightarrow> status \<times> worker" where
  "worker_connect net dial cfg w =
     (if \<not> is_ok net then (net, w)
      else if \<not> id_valid (wc_id cfg) then (failure StInvalidArgument ''worker identity is required'', w)
      else let w = w\<lparr>wk_config := cfg\<rparr>
      in case dial cfg of
           Inl st \<Rightarrow> (st, w)
         | Inr sock \<Rightarrow> (status_ok, w\<lparr>wk_channel := Some (channel_new sock), wk_sequence := 1\<rparr>))"

definition worker_hello :: "worker \<Rightarrow> hello_request" where
  "worker_hello w = \<lparr>hq_protocol = kWireProtocolVersion, hq_worker = wc_id (wk_config w),
     hq_incarnation = wc_incarnation (wk_config w), hq_boot = wc_boot (wk_config w),
     hq_epoch = wc_epoch (wk_config w), hq_first_tick = wc_first_tick (wk_config w)\<rparr>"

text \<open>What the handshake does with the answer of the coordinator.\<close>

definition take_hello_ack :: "frame \<Rightarrow> worker \<Rightarrow> hello_response result \<times> worker" where
  "take_hello_ack reply w =
     (if fh_type (fr_header reply) = MtFence then
        (Inl (failure StStale ''coordinator fenced this worker''), w\<lparr>wk_fenced := True, wk_handshake := HsFenced\<rparr>)
      else if fh_type (fr_header reply) \<noteq> MtHelloAck then
        (Inl (failure StProtocol ''coordinator did not answer the handshake''), w)
      else case decode_hello_response (reader_of (fr_payload reply)) of
             Inl st \<Rightarrow> (Inl st, w)
           | Inr response \<Rightarrow>
               let w = w\<lparr>wk_handshake := hr_status response, wk_granted := hr_epoch response\<rparr>
               in if hr_status response \<noteq> HsAccepted then
                    (Inl (failure StStale ''coordinator refused the handshake''),
                     w\<lparr>wk_fenced := hr_status response = HsStaleEpoch \<or> hr_status response = HsFenced\<rparr>)
                  else (Inr response, w))"

definition worker_handshake :: "worker \<Rightarrow> hello_response result \<times> worker" where
  "worker_handshake w =
     (case wk_channel w of
        None \<Rightarrow> (Inl (failure StIo ''worker is not connected''), w)
      | Some ch \<Rightarrow>
          let (sent, ch) = channel_send (frame_of MtHello (wk_sequence w) (encode_hello (worker_hello w))) ch
          in if \<not> is_ok sent then (Inl sent, w\<lparr>wk_channel := Some ch\<rparr>)
             else let (received, ch) = channel_receive ch; w = w\<lparr>wk_channel := Some ch\<rparr>
             in case received of
                  Inl st \<Rightarrow> (Inl st, w)
                | Inr reply \<Rightarrow> take_hello_ack reply w)"

definition worker_heartbeat :: "tick \<Rightarrow> worker \<Rightarrow> status \<times> worker" where
  "worker_heartbeat t w =
     (case wk_channel w of
        None \<Rightarrow> (failure StIo ''worker is not connected'', w)
      | Some ch \<Rightarrow>
          if \<not> channel_valid ch then (failure StIo ''worker is not connected'', w)
          else
            let hb = \<lparr>hb_worker = wc_id (wk_config w), hb_tick = t,
                  hb_epoch = (if id_valid (wk_granted w) then wk_granted w else wc_epoch (wk_config w)),
                  hb_frames_sent = ch_frames_sent ch\<rparr>;
                w = w\<lparr>wk_sequence := wk_sequence w + 1\<rparr>;
                (sent, ch) = channel_send (frame_of MtHeartbeat (wk_sequence w) (encode_heartbeat hb)) ch
            in (sent, w\<lparr>wk_channel := Some ch\<rparr>))"

text \<open>The answer to evidence; \<open>wanted\<close> says that the caller asked for the acknowledgement.\<close>

definition take_evidence_ack :: "bool \<Rightarrow> frame \<Rightarrow> worker \<Rightarrow> evidence_ack option result \<times> worker" where
  "take_evidence_ack wanted reply w =
     (if fh_type (fr_header reply) = MtFence then
        (Inl (failure StStale ''coordinator fenced this worker mid stream''), w\<lparr>wk_fenced := True\<rparr>)
      else if fh_type (fr_header reply) \<noteq> MtEvidenceAck then
        (Inl (failure StProtocol ''coordinator did not acknowledge evidence''), w)
      else if wanted then
        (case decode_evidence_ack (reader_of (fr_payload reply)) of
           Inl st \<Rightarrow> (Inl st, w)
         | Inr ack \<Rightarrow> (Inr (Some ack), w))
      else (Inr None, w))"

definition worker_evidence ::
  "evidence_batch \<Rightarrow> bool \<Rightarrow> worker \<Rightarrow> evidence_ack option result \<times> worker" where
  "worker_evidence batch wanted w =
     (case wk_channel w of
        None \<Rightarrow> (Inl (failure StIo ''worker is not connected''), w)
      | Some ch \<Rightarrow>
          if \<not> channel_valid ch then (Inl (failure StIo ''worker is not connected''), w)
          else
            let w = w\<lparr>wk_sequence := wk_sequence w + 1\<rparr>;
                (sent, ch) = channel_send (frame_of MtEvidence (wk_sequence w) (encode_batch batch)) ch
            in if \<not> is_ok sent then (Inl sent, w\<lparr>wk_channel := Some ch\<rparr>)
               else let (received, ch) = channel_receive ch; w = w\<lparr>wk_channel := Some ch\<rparr>
               in case received of
                    Inl st \<Rightarrow> (Inl st, w)
                  | Inr reply \<Rightarrow> take_evidence_ack wanted reply w)"

definition worker_goodbye :: "worker \<Rightarrow> status \<times> worker" where
  "worker_goodbye w =
     (case wk_channel w of
        None \<Rightarrow> (status_ok, w)
      | Some ch \<Rightarrow>
          if \<not> channel_valid ch then (status_ok, w)
          else
            let w = w\<lparr>wk_sequence := wk_sequence w + 1\<rparr>;
                (sent, ch) = channel_send (frame_of MtGoodbye (wk_sequence w) (put_u64 (wc_id (wk_config w)))) ch
            in (sent, w\<lparr>wk_channel := Some (channel_close ch)\<rparr>))"

definition worker_close :: "worker \<Rightarrow> worker" where
  "worker_close w = w\<lparr>wk_channel := None\<rparr>"

section \<open>Laws\<close>

text \<open>A worker that was refused for its epoch, or fenced, says so to its caller and remembers it.\<close>

lemma take_hello_ack_accepts:
  "(\<exists>response. fst (take_hello_ack reply w) = Inr response) \<longleftrightarrow>
     fh_type (fr_header reply) = MtHelloAck \<and>
     (\<exists>response. decode_hello_response (reader_of (fr_payload reply)) = Inr response \<and> hr_status response = HsAccepted)"
  by (auto simp: take_hello_ack_def Let_def split: sum.splits)

lemma fenced_evidence:
  "fh_type (fr_header reply) = MtFence \<Longrightarrow>
     wk_fenced (snd (take_evidence_ack wanted reply w)) \<and> (\<exists>st. fst (take_evidence_ack wanted reply w) = Inl st)"
  by (simp add: take_evidence_ack_def)

end
