(* ===== verification/Session_Laws.thy ===== *)
theory Session_Laws
  imports Worker
begin

text \<open>
  What the sessions promise: a worker is admitted only under the authority in force, only evidence of
  the current epoch reaches the governor, the registry stays within its bound, and a restarted
  coordinator is ahead of every authority its journal holds.
\<close>

section \<open>Admission and evidence\<close>

lemma answer_hello_accepted:
  assumes "answer_hello h c = (HsAccepted, c')"
  shows "hq_epoch h = co_epoch c" "hq_boot h = co_boot c" "hq_protocol h = kWireProtocolVersion"
    "id_valid (co_epoch c) \<and> co_epoch c \<noteq> 0"
  using assms validate_claim_accepted_iff
    [of "\<lparr>as_epoch = co_epoch c, as_incarnation = co_incarnation c, as_boot = co_boot c\<rparr>"
      "\<lparr>as_epoch = hq_epoch h, as_incarnation = hq_incarnation h, as_boot = hq_boot h\<rparr>"
      "hq_protocol h" kWireProtocolVersion]
  by (auto simp: answer_hello_def authority_valid_def Let_def split: if_splits)

lemma session_send_keeps [simp]:
  "ss_registered (snd (session_send f s)) = ss_registered s" "ss_worker (snd (session_send f s)) = ss_worker s"
  "ss_number (snd (session_send f s)) = ss_number s" "ss_phase (snd (session_send f s)) = ss_phase s"
  "ss_sequence (snd (session_send f s)) = ss_sequence s"
  by (simp_all add: session_send_def case_prod_beta)

lemma finish_keeps [simp]:
  "ss_registered (fst (finish b s c)) = ss_registered s" "ss_phase (fst (finish b s c)) = SpDone"
  by (simp_all add: finish_def Let_def)

lemma session_hello_admits:
  assumes "\<not> ss_registered s" "ss_registered (fst (session_hello s c))"
  shows "\<exists>f h. fst (channel_receive (ss_channel s)) = Inr f \<and> fh_type (fr_header f) = MtHello \<and>
    decode_hello (reader_of (fr_payload f)) = Inr h \<and> hq_epoch h = co_epoch c \<and> hq_boot h = co_boot c \<and>
    hq_protocol h = kWireProtocolVersion"
proof -
  obtain received ch where r: "channel_receive (ss_channel s) = (received, ch)" by fastforce
  define hello where "hello = (case received of
      Inl st \<Rightarrow> Inl st
    | Inr f \<Rightarrow> if fh_type (fr_header f) \<noteq> MtHello then Inl status_ok else decode_hello (reader_of (fr_payload f)))"
  show ?thesis
  proof (cases hello)
    case (Inl st)
    then show ?thesis using assms by (simp add: session_hello_def r hello_def [symmetric] Let_def)
  next
    case (Inr h)
    then obtain f where f: "received = Inr f" "fh_type (fr_header f) = MtHello"
        "decode_hello (reader_of (fr_payload f)) = Inr h"
      by (auto simp: hello_def split: sum.splits if_splits)
    obtain status c1 where a: "answer_hello h c = (status, c1)" by fastforce
    have "status = HsAccepted"
      using assms Inr by (auto simp: session_hello_def r hello_def [symmetric] a Let_def case_prod_beta split: if_splits)
    then show ?thesis using answer_hello_accepted [of h c c1] a f r by auto
  qed
qed

text \<open>Steps of the bookkeeping do not touch the governor, the authority or the configuration.\<close>

definition same_service :: "coordinator \<Rightarrow> coordinator \<Rightarrow> bool" where
  "same_service c d \<longleftrightarrow> co_governor d = co_governor c \<and> co_epoch d = co_epoch c \<and> co_boot d = co_boot c \<and>
     co_incarnation d = co_incarnation c \<and> co_config d = co_config c \<and> co_running d = co_running c"

lemma same_service_refl [simp]: "same_service c c"
  by (simp add: same_service_def)

lemma same_service_tally [simp]: "same_service c (tally f d) = same_service c d"
  by (simp add: same_service_def tally_def)

lemma same_service_update [simp]: "same_service c (update_worker w f d) = same_service c d"
  by (simp add: same_service_def update_worker_def split: option.split)

lemma same_service_ended [simp]: "same_service c (mark_ended b w d) = same_service c d"
  by (auto simp: same_service_def mark_ended_def tally_def Let_def split: option.split)

lemma same_service_finish [simp]: "same_service c (snd (finish b s d)) = same_service c d"
proof -
  have "same_service c (retire_session n d) = same_service c d" for n d
    by (simp add: same_service_def retire_session_def)
  then show ?thesis by (simp add: finish_def Let_def)
qed

lemma same_service_error [simp]: "same_service c (snd (send_error code detail s d)) = same_service c d"
  by (simp add: send_error_def)

lemma same_service_answer [simp]: "same_service c (snd (answer_hello h d)) = same_service c d"
proof -
  have "same_service c (d\<lparr>co_workers := m\<rparr>) = same_service c d" for m by (simp add: same_service_def)
  then show ?thesis by (simp add: answer_hello_def Let_def)
qed

lemma same_service_hello: "same_service c (snd (session_hello s c))"
  by (simp add: session_hello_def Let_def case_prod_beta split: sum.split)

text \<open>The governor after a batch is the governor after its samples, in order.\<close>

lemma ingest_samples_governor:
  "co_governor (snd (ingest_samples xs w ack c)) = fold (\<lambda>x g. snd (governor_ingest x g)) xs (co_governor c)"
proof (induction xs arbitrary: ack c)
  case (Cons x xs)
  have [simp]: "co_governor (tally f d) = co_governor d" for f d by (simp add: tally_def)
  have [simp]: "co_governor (update_worker v f d) = co_governor d" for v f d
    by (simp add: update_worker_def split: option.split)
  show ?case by (simp add: Cons.IH case_prod_beta Let_def)
qed simp

lemma ingest_samples_counts:
  "ea_accepted (fst (ingest_samples xs w ack c)) + ea_rejected (fst (ingest_samples xs w ack c)) =
   ea_accepted ack + ea_rejected ack + of_nat (length xs)"
  by (induction xs arbitrary: ack c) (simp_all add: case_prod_beta Let_def)

lemma same_service_governor: "same_service c d \<Longrightarrow> co_governor d = co_governor c"
  by (simp add: same_service_def)

lemma session_step_governor:
  assumes "co_governor (snd (session_step s c)) \<noteq> co_governor c"
  shows "\<exists>f b. ss_phase s = SpFrames \<and> co_running c \<and> fst (channel_receive (ss_channel s)) = Inr f \<and>
    fh_type (fr_header f) = MtEvidence \<and> decode_batch (reader_of (fr_payload f)) = Inr b \<and>
    eb_epoch b = co_epoch c \<and>
    co_governor (snd (session_step s c)) = fold (\<lambda>x g. snd (governor_ingest x g)) (eb_samples b) (co_governor c)"
proof -
  have p: "ss_phase s = SpFrames"
    using assms same_service_governor [OF same_service_hello, of s c]
    by (cases "ss_phase s") (simp_all add: session_step_def)
  have r: "co_running c"
    using assms p same_service_governor [of c "snd (finish False s c)"] by (cases "co_running c") (simp_all add: session_step_def session_frame_def)
  obtain f ch where f: "channel_receive (ss_channel s) = (Inr f, ch)"
  proof (cases "channel_receive (ss_channel s)")
    case (Pair a b)
    then show ?thesis
      using assms p r that same_service_governor [of c "snd (finish False (s\<lparr>ss_channel := b\<rparr>) c)"]
      by (cases a) (simp_all add: session_step_def session_frame_def)
  qed
  define s1 where "s1 = s\<lparr>ss_channel := ch, ss_sequence := ss_sequence s + 1\<rparr>"
  define c1 where "c1 = update_worker (ss_worker s1) (\<lambda>rec. rec\<lparr>wr_frames := wr_frames rec + 1\<rparr>)
    (tally cs_frames_received_update c)"
  have step: "session_step s c = handle_frame f s1 c1"
    using p r f by (simp add: session_step_def session_frame_def Let_def s1_def c1_def)
  have c1: "same_service c c1" by (simp add: c1_def)
  have "\<not> same_service c (snd (handle_frame f s1 c1))"
    using assms same_service_governor by (auto simp: step)
  then have e: "fh_type (fr_header f) = MtEvidence" "\<not> same_service c (snd (handle_evidence f s1 c1))"
    using c1 by (cases "fh_type (fr_header f)";
      simp add: handle_frame_def handle_heartbeat_def Let_def case_prod_beta split: sum.splits if_splits)+
  then obtain b where b: "decode_batch (reader_of (fr_payload f)) = Inr b" "eb_epoch b = co_epoch c1"
    using c1 by (auto simp: handle_evidence_def Let_def case_prod_beta split: sum.splits if_splits)
  have g: "co_governor (snd (finish q z d)) = co_governor d" for q z d
    using same_service_governor [of d "snd (finish q z d)"] by simp
  have "co_governor (snd (handle_evidence f s1 c1)) =
      fold (\<lambda>x g. snd (governor_ingest x g)) (eb_samples b) (co_governor c1)"
    using b by (simp add: handle_evidence_def Let_def case_prod_beta g ingest_samples_governor)
  then show ?thesis using p r f e b c1 by (simp add: step handle_frame_def same_service_def)
qed

section \<open>Delivery\<close>

text \<open>A network without faults: both ends are open and no call of the operating system fails.\<close>

definition online :: "channel \<Rightarrow> bool" where
  "online ch \<longleftrightarrow> sk_open (ch_socket ch) \<and> (\<forall>k. sk_os (ch_socket ch) k \<noteq> None)"

text \<open>What a channel has handed to its peer between two states.\<close>

definition sent_between :: "channel \<Rightarrow> channel \<Rightarrow> byte list" where
  "sent_between a b = drop (length (sk_wire (ch_socket a))) (sk_wire (ch_socket b))"

lemma send_loop_online: "(\<And>k. sk_os s k \<noteq> None) \<Longrightarrow> is_ok (fst (send_loop bs s))"
proof (induction bs s rule: send_loop.induct)
  case (1 bs s)
  obtain m where "sk_os s (sk_call s) = Some m" using "1.prems" [of "sk_call s"] by auto
  then show ?case using "1.IH" "1.prems" by (simp add: send_loop.simps [of bs] Let_def)
qed

definition delivered :: "message_type \<Rightarrow> u64 \<Rightarrow> byte list \<Rightarrow> frame" where
  "delivered t seq payload = \<lparr>fr_header = (fr_header (frame_of t seq payload))
     \<lparr>fh_payload_length := of_nat (length payload)\<rparr>, fr_payload = payload\<rparr>"

lemma encode_frame_of:
  assumes "length payload \<le> kMaxFramePayloadBytes"
  shows "encode_frame (frame_of t seq payload) = Inr (frame_bytes (delivered t seq payload))"
    "frame_wf (delivered t seq payload)"
proof -
  obtain bs where bs: "encode_frame (frame_of t seq payload) = Inr bs"
    using assms by (simp add: encode_frame_def frame_of_def Let_def)
  from encode_frame_bytes [OF bs] bs
  show "encode_frame (frame_of t seq payload) = Inr (frame_bytes (delivered t seq payload))"
    "frame_wf (delivered t seq payload)"
    by (simp_all add: delivered_def frame_of_def)
qed

lemma channel_send_online:
  assumes "online ch" "length payload \<le> kMaxFramePayloadBytes"
  obtains ch' where "channel_send (frame_of t seq payload) ch = (status_ok, ch')" "online ch'"
    "sk_stream (ch_socket ch') = sk_stream (ch_socket ch)"
    "sent_between ch ch' = frame_bytes (delivered t seq payload)"
proof -
  define bs where "bs = frame_bytes (delivered t seq payload)"
  obtain st s where l: "send_loop bs (ch_socket ch) = (st, s)" by fastforce
  have ok: "is_ok st" using send_loop_online [of "ch_socket ch" bs] assms(1) l by (simp add: online_def)
  from send_loop_spec [OF l] ok
  have s: "sk_wire s = sk_wire (ch_socket ch) @ bs" "sk_stream s = sk_stream (ch_socket ch)"
    "sk_open s = sk_open (ch_socket ch)" "sk_os s = sk_os (ch_socket ch)" by auto
  have "channel_send (frame_of t seq payload) ch =
      (status_ok, ch\<lparr>ch_socket := s, ch_frames_sent := ch_frames_sent ch + 1\<rparr>)"
    using assms(1) l ok by (simp add: channel_send_def encode_frame_of(1) [OF assms(2)] bs_def [symmetric]
        send_all_def online_def)
  then show ?thesis by (rule that) (use assms(1) s in \<open>simp_all add: online_def sent_between_def bs_def\<close>)
qed

lemma recv_all_keeps: "recv_all n s = (r, s') \<Longrightarrow> sk_wire s' = sk_wire s \<and> sk_open s' = sk_open s \<and> sk_os s' = sk_os s"
  using recv_all_spec(1-3) by blast

lemma channel_receive_keeps:
  assumes "channel_receive ch = (r, ch')"
  shows "online ch' = online ch" "sk_wire (ch_socket ch') = sk_wire (ch_socket ch)"
proof -
  obtain r1 s1 where r1: "recv_all kFrameHeaderBytes (ch_socket ch) = (r1, s1)" by fastforce
  have "sk_wire (ch_socket ch') = sk_wire (ch_socket ch) \<and> sk_open (ch_socket ch') = sk_open (ch_socket ch) \<and>
      sk_os (ch_socket ch') = sk_os (ch_socket ch)"
  proof (cases r1)
    case (Inl st)
    then show ?thesis using assms recv_all_keeps [OF r1] by (auto simp: channel_receive_def r1)
  next
    case (Inr hb)
    show ?thesis
    proof (cases "decode_header hb")
      case (Inl st)
      then show ?thesis using assms recv_all_keeps [OF r1] Inr by (auto simp: channel_receive_def r1)
    next
      case h: (Inr h)
      obtain r2 s2 where r2: "(if fh_payload_length h \<noteq> 0 then recv_all (unat (fh_payload_length h)) s1
          else (Inr [], s1)) = (r2, s2)" by fastforce
      then have r2': "(if fh_payload_length h \<noteq> 0 then recv_all (unat (fh_payload_length h))
          (ch_socket (ch\<lparr>ch_socket := s1\<rparr>)) else (Inr [], ch_socket (ch\<lparr>ch_socket := s1\<rparr>))) = (r2, s2)" by (simp split: if_splits)
      from r2 have "sk_wire s2 = sk_wire s1 \<and> sk_open s2 = sk_open s1 \<and> sk_os s2 = sk_os s1"
        using recv_all_keeps [of "unat (fh_payload_length h)" s1 r2 s2] by (auto split: if_splits)
      moreover have "ch_socket ch' = s2"
        using assms Inr h r2 by (simp add: channel_receive_def r1 r2' Let_def split: sum.splits) (auto split: sum.splits)
      ultimately show ?thesis using recv_all_keeps [OF r1] by simp
    qed
  qed
  then show "online ch' = online ch" "sk_wire (ch_socket ch') = sk_wire (ch_socket ch)"
    by (simp_all add: online_def)
qed

lemma channel_receive_online:
  assumes "online ch" "sk_stream (ch_socket ch) = frame_bytes f @ rest" "frame_wf f"
  obtains ch' where "channel_receive ch = (Inr f, ch')" "online ch'" "sk_stream (ch_socket ch') = rest"
    "sk_wire (ch_socket ch') = sk_wire (ch_socket ch)"
proof -
  from receive_frame_bytes [OF assms(3,2)] assms(1) obtain ch' where
    r: "channel_receive ch = (Inr f, ch')" "sk_stream (ch_socket ch') = rest"
    by (auto simp: online_def)
  show ?thesis using that r channel_receive_keeps [OF r(1)] assms(1) by simp
qed

section \<open>The handshake\<close>

lemma kFrame_large: "64 \<le> kMaxFramePayloadBytes"
  by (simp add: kMaxFramePayloadBytes_def)

lemma hello_lengths [simp]: "length (encode_hello h) = 38" "length (encode_hello_response m) = 25"
  by (simp_all add: encode_hello_def encode_hello_response_def wire_length)

lemma session_hello_online:
  assumes "online (ss_channel s)" "sk_stream (ch_socket (ss_channel s)) = frame_bytes (delivered MtHello q (encode_hello h)) @ later"
    "id_valid (hq_worker h)" "\<not> ss_registered s"
  shows "ss_registered (fst (session_hello s c)) \<longleftrightarrow> fst (answer_hello h c) = HsAccepted"
    "sent_between (ss_channel s) (ss_channel (fst (session_hello s c))) =
       frame_bytes (delivered MtHelloAck kFrameSeqStart (encode_hello_response
         \<lparr>hr_status = fst (answer_hello h c), hr_epoch = co_epoch c, hr_coordinator = co_incarnation c,
          hr_boot = co_boot c, hr_max_payload_bytes = of_nat kMaxFramePayloadBytes\<rparr>))"
proof -
  obtain status c1 where a: "answer_hello h c = (status, c1)" by fastforce
  have c1: "co_epoch c1 = co_epoch c" "co_incarnation c1 = co_incarnation c" "co_boot c1 = co_boot c"
    using same_service_answer [of c h c] by (simp_all add: a same_service_def)
  define m where "m = \<lparr>hr_status = status, hr_epoch = co_epoch c, hr_coordinator = co_incarnation c,
      hr_boot = co_boot c, hr_max_payload_bytes = of_nat kMaxFramePayloadBytes\<rparr>"
  have wf: "frame_wf (delivered MtHello q (encode_hello h))"
    using kFrame_large by (intro encode_frame_of(2)) simp
  obtain ch1 where r: "channel_receive (ss_channel s) = (Inr (delivered MtHello q (encode_hello h)), ch1)"
      "online ch1" "sk_wire (ch_socket ch1) = sk_wire (ch_socket (ss_channel s))"
    using channel_receive_online [OF assms(1,2) wf] by metis
  have d: "decode_hello (reader_of (encode_hello h)) = Inr h"
    using hello_msg.roundtrip assms(3) by blast
  obtain ch2 where send: "channel_send (frame_of MtHelloAck kFrameSeqStart (encode_hello_response m)) ch1 = (status_ok, ch2)"
      "sent_between ch1 ch2 = frame_bytes (delivered MtHelloAck kFrameSeqStart (encode_hello_response m))"
    using channel_send_online [OF r(2), of "encode_hello_response m" MtHelloAck kFrameSeqStart] kFrame_large by auto
  have ack: "hello_ack status c1 = frame_of MtHelloAck kFrameSeqStart (encode_hello_response m)"
    by (simp add: hello_ack_def m_def c1)
  have t: "fh_type (fr_header (delivered MtHello q (encode_hello h))) = MtHello"
    "fr_payload (delivered MtHello q (encode_hello h)) = encode_hello h"
    by (simp_all add: delivered_def frame_of_def)
  show "ss_registered (fst (session_hello s c)) \<longleftrightarrow> fst (answer_hello h c) = HsAccepted"
    using assms(4) by (simp add: session_hello_def r t d a ack session_send_def send Let_def)
  have wire: "sk_wire (ch_socket (ss_channel (fst (session_hello s c)))) = sk_wire (ch_socket ch2)"
    by (simp add: session_hello_def r t d a ack session_send_def send finish_def Let_def channel_close_def socket_close_def)
  show "sent_between (ss_channel s) (ss_channel (fst (session_hello s c))) =
       frame_bytes (delivered MtHelloAck kFrameSeqStart (encode_hello_response
         \<lparr>hr_status = fst (answer_hello h c), hr_epoch = co_epoch c, hr_coordinator = co_incarnation c,
          hr_boot = co_boot c, hr_max_payload_bytes = of_nat kMaxFramePayloadBytes\<rparr>))"
    using send(2) r(3) by (simp add: sent_between_def wire m_def a)
qed

text \<open>
  Both ends agree: over a network without faults the worker is told it is admitted exactly when the
  session has registered it, and then it holds the epoch in force.
\<close>

lemma handshake_agreement:
  assumes "wk_channel w = Some a" "online a" "id_valid (wc_id (wk_config w))"
    and "online (ss_channel s)" "\<not> ss_registered s"
    and "sk_stream (ch_socket (ss_channel s)) =
      frame_bytes (delivered MtHello (wk_sequence w) (encode_hello (worker_hello w))) @ later"
    and "session_hello s c = (s', c')"
    and "sk_stream (ch_socket a) = sent_between (ss_channel s) (ss_channel s') @ rest"
    and "worker_handshake w = (r, w')"
  shows "(\<exists>response. r = Inr response) \<longleftrightarrow> ss_registered s'" "wk_granted w' = co_epoch c"
    "ss_registered s' \<Longrightarrow> wc_epoch (wk_config w) = co_epoch c"
proof -
  define h where "h = worker_hello w"
  define m where "m = \<lparr>hr_status = fst (answer_hello h c), hr_epoch = co_epoch c, hr_coordinator = co_incarnation c,
      hr_boot = co_boot c, hr_max_payload_bytes = of_nat kMaxFramePayloadBytes\<rparr>"
  define f where "f = delivered MtHelloAck kFrameSeqStart (encode_hello_response m)"
  have v: "id_valid (hq_worker h)" using assms(3) by (simp add: h_def worker_hello_def)
  note hello = session_hello_online [OF assms(4) assms(6) [folded h_def] v assms(5), of c, unfolded assms(7) fst_conv]
  have wf: "frame_wf f" unfolding f_def using kFrame_large by (intro encode_frame_of(2)) simp
  obtain a1 where a1: "channel_send (frame_of MtHello (wk_sequence w) (encode_hello h)) a = (status_ok, a1)"
      "online a1" "sk_stream (ch_socket a1) = sk_stream (ch_socket a)"
    using channel_send_online [OF assms(2), of "encode_hello h" MtHello "wk_sequence w"] kFrame_large by auto
  have "sk_stream (ch_socket a1) = frame_bytes f @ rest"
    using hello(2) assms(8) a1(3) by (simp add: f_def m_def)
  from channel_receive_online [OF a1(2) this wf] obtain a2 where a2: "channel_receive a1 = (Inr f, a2)" by metis
  have t: "fh_type (fr_header f) = MtHelloAck" "fr_payload f = encode_hello_response m"
    by (simp_all add: f_def delivered_def frame_of_def)
  have d: "decode_hello_response (reader_of (encode_hello_response m)) = Inr m"
    "hr_status m = fst (answer_hello h c)" "hr_epoch m = co_epoch c"
    using hello_ack_msg.roundtrip by (blast, simp_all add: m_def)
  have out: "(r, w') = take_hello_ack f (w\<lparr>wk_channel := Some a2\<rparr>)"
    using assms(9) a1(1) a2 by (simp add: worker_handshake_def assms(1) h_def [symmetric])
  show "(\<exists>response. r = Inr response) \<longleftrightarrow> ss_registered s'"
    using out hello(1) by (simp add: take_hello_ack_def t d Let_def split: if_splits)
  show "wk_granted w' = co_epoch c"
    using out by (simp add: take_hello_ack_def t d Let_def split: if_splits)
  show "ss_registered s' \<Longrightarrow> wc_epoch (wk_config w) = co_epoch c"
    using hello(1) answer_hello_accepted(1) [of h c "snd (answer_hello h c)"]
    by (metis h_def prod.collapse select_convs(5) worker_hello_def hello_request.select_convs(5))
qed

section \<open>Evidence\<close>

lemma evidence_is_ingested:
  assumes "ss_phase s = SpFrames" "co_running c" "online (ss_channel s)"
    and "sk_stream (ch_socket (ss_channel s)) = frame_bytes (delivered MtEvidence q (encode_batch b)) @ later"
    and "batch_wf b" "length (encode_batch b) \<le> kMaxFramePayloadBytes" "eb_epoch b = co_epoch c"
  shows "co_governor (snd (session_step s c)) = fold (\<lambda>x g. snd (governor_ingest x g)) (eb_samples b) (co_governor c)"
proof -
  define f where "f = delivered MtEvidence q (encode_batch b)"
  have wf: "frame_wf f" unfolding f_def by (rule encode_frame_of(2) [OF assms(6)])
  obtain ch where r: "channel_receive (ss_channel s) = (Inr f, ch)"
    using channel_receive_online [OF assms(3) assms(4) [folded f_def] wf] by metis
  have t: "fh_type (fr_header f) = MtEvidence" "fr_payload f = encode_batch b"
    by (simp_all add: f_def delivered_def frame_of_def)
  have d: "decode_batch (reader_of (encode_batch b)) = Inr b" using batch_msg.roundtrip assms(5) by blast
  define s1 where "s1 = s\<lparr>ss_channel := ch, ss_sequence := ss_sequence s + 1\<rparr>"
  define c1 where "c1 = update_worker (ss_worker s1) (\<lambda>rec. rec\<lparr>wr_frames := wr_frames rec + 1\<rparr>)
    (tally cs_frames_received_update c)"
  have step: "session_step s c = handle_evidence f s1 c1"
    using assms(1,2) r t by (simp add: session_step_def session_frame_def handle_frame_def Let_def s1_def c1_def)
  have c1: "same_service c c1" by (simp add: c1_def)
  have g: "co_governor (snd (finish q z d)) = co_governor d" for q z d
    using same_service_governor [of d "snd (finish q z d)"] by simp
  show ?thesis using t d assms(7) c1
    by (simp add: step handle_evidence_def Let_def case_prod_beta g ingest_samples_governor same_service_def)
qed

end
