(* ===== verification/Durability.thy ===== *)
theory Durability
  imports Governor_Safety
begin

text \<open>
  Durability across the components: a run of appends that a crash or a loss of power cuts short is
  replayed up to the last acknowledged record, and a checkpoint brings the configuration back into a new governor.
\<close>

section \<open>Runs of appends\<close>

text \<open>Appends until the first refusal; the count of acknowledged records and the store left behind.\<close>

fun append_run :: "(io \<times> journaled_record) list \<Rightarrow> store \<Rightarrow> nat \<times> store" where
  "append_run [] s = (0, s)"
| "append_run ((i, r) # xs) s =
     (let (st, s') = store_append i (jr_type r) (jr_seq r) (jr_tick r) (jr_payload r) s
      in if is_ok st then let (n, s'') = append_run xs s' in (Suc n, s'') else (0, s'))"

text \<open>What a replay under a cooperative operating system sees.\<close>

definition replays_as :: "store \<Rightarrow> journaled_record list \<Rightarrow> bool" where
  "replays_as s rs \<longleftrightarrow> (\<exists>rep p s'. store_replay io_fine (\<lambda>r acc. (status_ok, acc @ [r])) s [] =
     (Inr (rep, p), s', rs) \<and> ds_journal s' = Some (log_bytes rs))"

lemma fold_snoc: "fold (\<lambda>r acc. snd (status_ok, acc @ [r])) rs acc = acc @ rs"
  by (induction rs arbitrary: acc) simp_all

lemma replay_cut:
  assumes wf: "list_all record_wf rs" "record_wf r" and u: "ds_open u"
    "ds_journal u = Some (log_bytes rs @ take k (record_bytes r))"
    and snap: "case ds_snapshot u of None \<Rightarrow> True | Some b \<Rightarrow> length b \<le> kMaxSnapshotBytes"
    and size: "length (log_bytes rs @ take k (record_bytes r)) \<le> kMaxJournalBytes"
  shows "if k < length (record_bytes r) then replays_as u rs else replays_as u (rs @ [r])"
proof -
  have ok: "is_ok (fst (status_ok, acc @ [r]))" for acc and r :: journaled_record by (simp add: is_ok_def status_ok_def)
  show ?thesis
  proof (cases "k < length (record_bytes r)")
    case True
    obtain e where "scan_journal (log_bytes rs @ take k (record_bytes r)) 0 = (length (log_bytes rs), e)"
      using scan_log_torn [OF wf True] by blast
    note x = replay_prefix [where acc = "[]" and v = "\<lambda>r acc. (status_ok, acc @ [r])", OF wf(1) u(2,1) snap size this ok, unfolded fold_snoc append_Nil]
    then have "replays_as u rs" unfolding replays_as_def by blast
    then show ?thesis using True by simp
  next
    case False
    have j: "ds_journal u = Some (log_bytes (rs @ [r]) @ [])" using u(2) False by (simp add: log_bytes_def)
    have w: "list_all record_wf (rs @ [r])" using wf by simp
    obtain e where e: "scan_journal (log_bytes (rs @ [r]) @ take 0 (record_bytes r)) 0 = (length (log_bytes (rs @ [r])), e)"
      using scan_log_torn [OF w wf(2), of 0] by fastforce
    have l: "length (log_bytes (rs @ [r]) @ []) \<le> kMaxJournalBytes" using size False by (simp add: log_bytes_def)
    have "scan_journal (log_bytes (rs @ [r]) @ []) 0 = (length (log_bytes (rs @ [r])), e)" using e by simp
    note x = replay_prefix [where acc = "[]" and v = "\<lambda>r acc. (status_ok, acc @ [r])", OF w j u(1) snap l this ok, unfolded fold_snoc append_Nil]
    then have "replays_as u (rs @ [r])" unfolding replays_as_def by blast
    then show ?thesis using False by simp
  qed
qed

text \<open>Everything in the journal is on the disk, and appends are to keep it so.\<close>

definition store_synced :: "store \<Rightarrow> bool" where
  "store_synced s \<longleftrightarrow> sc_fsync_on_append (ds_config s) \<and> ds_journal_synced s = file_length (ds_journal s)"

lemma store_append_synced:
  assumes "store_append i t seq now p s = (st, s')" "is_ok st" "store_synced s"
  shows "store_synced s'"
  using assms by (auto simp: store_append_def store_synced_def flush_handle_def failure_def is_ok_def Let_def
      split: if_splits)

text \<open>What a run leaves: the acknowledged records, and behind them a part of the refused one or nothing.\<close>

definition empty_record :: journaled_record where
  "empty_record = \<lparr>jr_type = RtCheckpoint, jr_seq = 0, jr_tick = 0, jr_payload = []\<rparr>"

lemma empty_record_wf [simp]: "record_wf empty_record"
  by (simp add: empty_record_def record_wf_def)

lemma append_run_leaves:
  assumes "store_holds s rs" "append_run xs s = (n, s')"
  obtains r k where "k = 0 \<or> n < length xs \<and> r = snd (xs ! n)" "record_wf r" "n \<le> length xs" "ds_open s'"
    "list_all record_wf (rs @ take n (map snd xs))" "ds_snapshot s' = ds_snapshot s"
    "ds_journal s' = Some (log_bytes (rs @ take n (map snd xs)) @ take k (record_bytes r))"
    "length (log_bytes (rs @ take n (map snd xs)) @ take k (record_bytes r)) \<le> kMaxJournalBytes"
    "store_synced s \<Longrightarrow> length (log_bytes (rs @ take n (map snd xs))) \<le> ds_journal_synced s'"
  using assms
proof (induction xs arbitrary: s rs n thesis)
  case Nil
  have h: "ds_open s" "ds_journal s = Some (log_bytes rs)" "list_all record_wf rs" "length (log_bytes rs) \<le> kMaxJournalBytes"
    using Nil.prems(2) by (simp_all add: store_holds_def)
  show ?case
    by (rule Nil.prems(1) [of 0 empty_record])
      (use Nil.prems(3) h in \<open>simp_all add: store_synced_def\<close>)
next
  case (Cons x xs)
  obtain i r where x: "x = (i, r)" by (cases x)
  obtain st s1 where a: "store_append i (jr_type r) (jr_seq r) (jr_tick r) (jr_payload r) s = (st, s1)" by fastforce
  have r: "r = \<lparr>jr_type = jr_type r, jr_seq = jr_seq r, jr_tick = jr_tick r, jr_payload = jr_payload r\<rparr>" by simp
  have h: "ds_open s" "ds_journal s = Some (log_bytes rs)" "list_all record_wf rs" "length (log_bytes rs) \<le> kMaxJournalBytes"
    using Cons.prems(2) by (simp_all add: store_holds_def)
  show ?case
  proof (cases "is_ok st")
    case True
    have h1: "store_holds s1 (rs @ [r])" using store_append_cases(1) [OF Cons.prems(2) a True, folded r] .
    have snap: "ds_snapshot s1 = ds_snapshot s" using append_extends [OF h(1,2) a] by blast
    obtain m where m: "append_run xs s1 = (m, s')" "n = Suc m"
      using Cons.prems(3) True by (auto simp: x a split: prod.splits)
    show ?thesis
      by (rule Cons.IH [OF _ h1 m(1)], rule Cons.prems(1))
        (use m(2) snap store_append_synced [OF a True] in \<open>simp_all add: x\<close>)
  next
    case False
    then have n: "n = 0" "s' = s1" using Cons.prems(3) by (simp_all add: x a)
    note c = store_append_cases(2) [OF Cons.prems(2) a False, folded r]
    show ?thesis
    proof (cases "s1 = s \<or> s1 = s\<lparr>ds_compaction_required := True\<rparr>")
      case True
      show ?thesis
        by (rule Cons.prems(1) [of 0 empty_record])
          (use True n h in \<open>auto simp: store_synced_def\<close>)
    next
      case False
      then have w: "record_wf r" "s1 = s\<lparr>ds_journal := Some (log_bytes rs @ written i (record_bytes r))\<rparr>"
        "length (log_bytes rs @ record_bytes r) \<le> kMaxJournalBytes" using c by blast+
      obtain k where k: "written i (record_bytes r) = take k (record_bytes r)"
        by (metis written_def take_all order_refl)
      show ?thesis
        by (rule Cons.prems(1) [of k r]) (use w k n h in \<open>auto simp: x store_synced_def\<close>)
    qed
  qed
qed

lemma append_run_replays:
  assumes "store_holds s rs" "append_run xs s = (n, s')"
    and u: "u = s' \<or> store_synced s \<and> store_open io_fine cfg (power_loss a b s') = (status_ok, u)"
  shows "\<exists>m\<in>{n, Suc n}. replays_as u (rs @ take m (map snd xs))"
proof -
  define qs where "qs = rs @ take n (map snd xs)"
  obtain r k where r: "k = 0 \<or> n < length xs \<and> r = snd (xs ! n)" "record_wf r" "n \<le> length xs" "ds_open s'"
    "list_all record_wf qs" "ds_snapshot s' = ds_snapshot s" "ds_journal s' = Some (log_bytes qs @ take k (record_bytes r))"
    "length (log_bytes qs @ take k (record_bytes r)) \<le> kMaxJournalBytes"
    and synced: "store_synced s \<Longrightarrow> length (log_bytes qs) \<le> ds_journal_synced s'"
    using append_run_leaves [OF assms(1,2)] unfolding qs_def by metis
  have snap: "case ds_snapshot s' of None \<Rightarrow> True | Some b \<Rightarrow> length b \<le> kMaxSnapshotBytes"
    using assms(1) r(6) by (simp add: store_holds_def)
  have "\<exists>l. (l = 0 \<or> n < length xs \<and> r = snd (xs ! n)) \<and> ds_open u \<and>
      ds_journal u = Some (log_bytes qs @ take l (record_bytes r)) \<and>
      length (log_bytes qs @ take l (record_bytes r)) \<le> kMaxJournalBytes \<and>
      (case ds_snapshot u of None \<Rightarrow> True | Some b \<Rightarrow> length b \<le> kMaxSnapshotBytes)"
  proof (cases "u = s'")
    case True
    then show ?thesis using r snap by blast
  next
    case False
    then have l: "store_synced s" "store_open io_fine cfg (power_loss a b s') = (status_ok, u)" using u by simp_all
    define c where "c = max a (ds_journal_synced s') - length (log_bytes qs)"
    have j: "take (max a (ds_journal_synced s')) (log_bytes qs @ take k (record_bytes r)) =
        log_bytes qs @ take (min c k) (record_bytes r)"
      using synced [OF l(1)] by (simp add: c_def min.commute)
    have "ds_journal u = ds_journal (power_loss a b s') \<and> ds_snapshot u = ds_snapshot (power_loss a b s') \<and> ds_open u"
      using l(2) r(7) by (auto simp: store_open_def power_loss_def failure_def status_ok_def Let_def split: if_splits)
    moreover have "ds_journal (power_loss a b s') = Some (log_bytes qs @ take (min c k) (record_bytes r))"
      using r(7) j by (simp add: power_loss_def Let_def)
    moreover have "case ds_snapshot (power_loss a b s') of None \<Rightarrow> True | Some b \<Rightarrow> length b \<le> kMaxSnapshotBytes"
      using snap by (cases "ds_snapshot s'") (simp_all add: power_loss_def Let_def)
    ultimately show ?thesis using r(1,8) by (intro exI [of _ "min c k"]) auto
  qed
  then obtain l where l: "l = 0 \<or> n < length xs \<and> r = snd (xs ! n)" "ds_open u"
    "ds_journal u = Some (log_bytes qs @ take l (record_bytes r))"
    "length (log_bytes qs @ take l (record_bytes r)) \<le> kMaxJournalBytes"
    "case ds_snapshot u of None \<Rightarrow> True | Some b \<Rightarrow> length b \<le> kMaxSnapshotBytes" by blast
  note cut = replay_cut [OF r(5,2) l(2,3,5,4)]
  show ?thesis
  proof (cases "l < length (record_bytes r)")
    case True
    then show ?thesis using cut by (auto simp: qs_def)
  next
    case False
    then have "l \<noteq> 0" by auto
    then have "take (Suc n) (map snd xs) = take n (map snd xs) @ [r]" using l(1) by (auto simp: take_Suc_conv_app_nth)
    then show ?thesis using cut False by (auto simp: qs_def)
  qed
qed

section \<open>Checkpoint and restore\<close>

lemma compact_ok:
  assumes "compact g = (st, g')" "is_ok st"
  obtains s s' where "gv_store g = Some s" "gv_store g' = Some s'" "ds_open s'" "ds_journal s' = Some []"
    "ds_snapshot s' = Some (build_snapshot (encode_state (export_state g)) (gv_record_seq g) (gv_last_tick g))"
    "length (encode_state (export_state g)) \<le> kMaxSnapshotBytes"
proof -
  obtain s where s: "gv_store g = Some s" using assms by (cases "gv_store g") (auto simp: compact_def failure_def is_ok_def)
  have l: "length (encode_state (export_state g)) \<le> kMaxSnapshotBytes"
    using assms s by (auto simp: compact_def failure_def is_ok_def Let_def split: if_splits)
  obtain st' s' where w: "write_snapshot (env_now g) (gv_env g (gv_env_pos g + 1)) (encode_state (export_state g))
      (gv_record_seq g) (gv_last_tick g) s = (st', s')" by fastforce
  have "st' = st" "gv_store g' = Some s'" using assms s l w by (auto simp: compact_def Let_def)
  with w assms(2) have "ds_open s'" "ds_journal s' = Some []"
    "ds_snapshot s' = Some (build_snapshot (encode_state (export_state g)) (gv_record_seq g) (gv_last_tick g))"
    using write_snapshot_ok [of _ _ _ _ _ s st' s'] by blast+
  then show ?thesis using that s l \<open>gv_store g' = Some s'\<close> by blast
qed

lemma replay_checkpoint:
  assumes "ds_snapshot s = Some (build_snapshot p c now)" "ds_journal s = Some []" "length p + 44 \<le> kMaxSnapshotBytes"
  obtains rep where "store_replay io_fine v s acc = (Inr (rep, p), s, acc)" "rp_snapshot_present rep"
    "rp_outcome rep = RoClean"
  using load_built_snapshot [OF assms(1,3), of io_fine "recovery_report_default\<lparr>rp_format_version := kStateFormatVersion\<rparr>"]
    assms(2) that by (simp add: store_replay_def read_file_def)

lemma restore_announce_policies [simp]: "gv_policies (restore_announce g) = gv_policies g"
  by (simp add: restore_announce_def Let_def)

lemma restore_folds_policies:
  "gv_policies (snd (fold restore_closed es s)) = gv_policies (snd s)"
  "gv_policies (snd (fold restore_open es s)) = gv_policies (snd s)"
  "gv_policies (snd (fold restore_intent is s)) = gv_policies (snd s)"
proof -
  show "gv_policies (snd (fold restore_closed es s)) = gv_policies (snd s)"
    by (induction es arbitrary: s) (simp_all add: restore_closed_def case_prod_beta)
  show "gv_policies (snd (fold restore_open es s)) = gv_policies (snd s)"
    by (induction es arbitrary: s) (simp_all add: restore_open_def case_prod_beta)
  show "gv_policies (snd (fold restore_intent is s)) = gv_policies (snd s)"
    by (induction "is" arbitrary: s) (simp_all add: restore_intent_def case_prod_beta Let_def)
qed

lemma restore_state_policies:
  assumes "ra_fallback acc = Some f" "policy_set_restore f (ra_overrides acc) (ra_generation acc) = Inr ps"
  shows "gv_policies (snd (restore_state acc r g)) = ps"
proof -
  have "gv_policies (restore_counters c h) = gv_policies h" for c h
    by (simp add: restore_counters_def Let_def)
  moreover have "gv_policies (snd (restore_policies acc r g)) = ps"
    using assms by (simp add: restore_policies_def set_context_policy_def)
  ultimately show ?thesis
    by (simp add: restore_state_def Let_def case_prod_beta restore_folds_policies)
qed

lemma accumulate_folds:
  "ra_fallback (fold accumulate_event es acc) = ra_fallback acc"
  "ra_overrides (fold accumulate_event es acc) = ra_overrides acc"
  "ra_generation (fold accumulate_event es acc) = ra_generation acc"
  "ra_fallback (fold accumulate_intent is acc) = ra_fallback acc"
  "ra_overrides (fold accumulate_intent is acc) = ra_overrides acc"
  "ra_generation (fold accumulate_intent is acc) = ra_generation acc"
proof -
  have e: "ra_fallback (accumulate_event e a) = ra_fallback a \<and> ra_overrides (accumulate_event e a) = ra_overrides a \<and>
      ra_generation (accumulate_event e a) = ra_generation a" for e a
    by (simp add: accumulate_event_def)
  have i: "ra_fallback (accumulate_intent e a) = ra_fallback a \<and> ra_overrides (accumulate_intent e a) = ra_overrides a \<and>
      ra_generation (accumulate_intent e a) = ra_generation a" for e a
    by (simp add: accumulate_intent_def split: option.split)
  show "ra_fallback (fold accumulate_event es acc) = ra_fallback acc"
    "ra_overrides (fold accumulate_event es acc) = ra_overrides acc"
    "ra_generation (fold accumulate_event es acc) = ra_generation acc"
    by (induction es arbitrary: acc) (simp_all add: e)
  show "ra_fallback (fold accumulate_intent is acc) = ra_fallback acc"
    "ra_overrides (fold accumulate_intent is acc) = ra_overrides acc"
    "ra_generation (fold accumulate_intent is acc) = ra_generation acc"
    by (induction "is" arbitrary: acc) (simp_all add: i)
qed

lemma checkpoint_restores_policies:
  assumes "compact g = (st, g')" "is_ok st" "state_wf (export_state g)"
    "length (encode_state (export_state g)) + 44 \<le> kMaxSnapshotBytes"
    "gv_store h = gv_store g'" "env_now h = io_fine"
  shows "fst (fst (restore h)) = status_ok \<and> gv_policies (snd (restore h)) = gv_policies g"
proof -
  obtain s' where s': "gv_store g' = Some s'" "ds_journal s' = Some []"
    "ds_snapshot s' = Some (build_snapshot (encode_state (export_state g)) (gv_record_seq g) (gv_last_tick g))"
    using compact_ok [OF assms(1,2)] by metis
  obtain rep where r: "store_replay io_fine collect_record s' [] = (Inr (rep, encode_state (export_state g)), s', [])"
      "rp_snapshot_present rep" "rp_outcome rep = RoClean"
    using replay_checkpoint [OF s'(3,2) assms(4), of collect_record "[]"] by blast
  have d: "decode_state (encode_state (export_state g)) = Inr (export_state g)"
    using assms(3,4) by (intro decode_encode_state) simp_all
  have "2 \<le> length (encode_state (export_state g))" by (simp add: encode_state_def wire_length)
  then have ne: "encode_state (export_state g) \<noteq> []" by auto
  have ps: "policy_set_restore (ps_fallback (gv_policies g)) (ps_overrides (gv_policies g))
      (ps_generation (gv_policies g)) = Inr (gv_policies g)"
    using assms(3) by (intro policy_set_restore_inv) (simp add: state_wf_def policy_set_wf_def export_state_def)
  show ?thesis
    using s'(1) r ne d ps assms(5,6)
    by (simp add: restore_def Let_def case_prod_beta restore_snapshot_def accumulate_state_def
        restore_state_policies accumulate_folds export_state_def [of g])
qed

end
