(* ===== verification/Restart.thy ===== *)
theory Restart
  imports Session_Laws Durability
begin

text \<open>
  Restart of the authority: what the start of a coordinator reads back from the journal is at least
  every authority recorded there, so that the authority it binds is ahead of all of them.
\<close>

lemma replay_log:
  assumes "store_holds s rs" "store_replay i v s acc = (Inr (rep, p), s', acc')"
  shows "\<exists>n. visit_all v rs 0 acc = (Inr n, acc')"
proof -
  have j: "ds_journal s = Some (log_bytes rs)" and wf: "list_all record_wf rs"
    using assms(1) by (simp_all add: store_holds_def)
  obtain r0 where ls: "load_snapshot i s (recovery_report_default\<lparr>rp_format_version := kStateFormatVersion\<rparr>) = Inr r0"
    using assms(2) by (auto simp: store_replay_def split: sum.splits)
  have rf: "read_file i kMaxJournalBytes (ds_journal s) = Inr (Some (log_bytes rs))"
    using assms(2) ls j by (auto simp: store_replay_def read_file_def split: sum.splits prod.splits if_splits)
  have wf': "\<And>r. r \<in> set rs \<Longrightarrow> record_wf r" using wf by (simp add: list_all_iff)
  obtain e where sc: "scan_journal (log_bytes rs) 0 = (length (log_bytes rs), e)"
    using journal.scan_log [OF wf', of rs] by (auto simp: log_bytes_def)
  have rr: "replay_records v (log_bytes rs) (length (log_bytes rs)) 0 0 acc = visit_all v rs 0 acc"
    using replay_records_log [OF wf, of v "[]" "[]" 0 acc] by simp
  show ?thesis
  proof (cases "log_bytes rs = []")
    case True
    then show ?thesis using assms(2) ls rf by (auto simp: store_replay_def Let_def split: prod.splits)
  next
    case False
    then show ?thesis using assms(2) ls rf sc rr
      by (cases r0; cases e; cases "visit_all v rs 0 acc") (auto simp: store_replay_def Let_def split: sum.splits)
  qed
qed

text \<open>A refusal is a failure, whichever step refuses.\<close>

lemma replay_records_fails: "fst (replay_records v img valid_end off n acc) = Inl st \<Longrightarrow> \<not> is_ok st"
proof (induction v img valid_end off n acc rule: replay_records.induct)
  case (1 v img valid_end off n acc)
  obtain r len where p: "parse_record (drop off img) = (r, len)" by fastforce
  obtain s a where v: "v r acc = (s, a)" by fastforce
  show ?case
    using "1.prems" "1.IH" [OF _ p [symmetric] refl v [symmetric] refl]
    by (subst (asm) replay_records.simps) (auto simp: p v split: if_splits)
qed

lemma read_file_fails: "read_file i n x = Inl st \<Longrightarrow> \<not> is_ok st"
  by (auto simp: read_file_def failure_def is_ok_def split: option.splits if_splits)

lemma load_snapshot_fails: "load_snapshot i s report = Inl st \<Longrightarrow> \<not> is_ok st"
proof (cases "read_file i kMaxSnapshotBytes (ds_snapshot s)")
  case (Inl e)
  then show "load_snapshot i s report = Inl st \<Longrightarrow> \<not> is_ok st" using read_file_fails [of i] by (simp add: load_snapshot_def)
next
  case (Inr x)
  have "\<exists>a b. load_snapshot i s report = Inr (a, b)"
  proof (cases x)
    case None
    then show ?thesis using Inr by (simp add: load_snapshot_def)
  next
    case (Some bs)
    show ?thesis
      unfolding load_snapshot_def Inr Some sum.case option.case Let_def case_prod_beta snapshot_failed_def
      by (intro if_returns; blast)
  qed
  then show "load_snapshot i s report = Inl st \<Longrightarrow> \<not> is_ok st" by auto
qed

lemma store_replay_fails: "fst (store_replay i v s acc) = Inl st \<Longrightarrow> \<not> is_ok st"
  using load_snapshot_fails [of i s] read_file_fails [of i kMaxJournalBytes "ds_journal s"] replay_records_fails [of v]
  by (auto simp: store_replay_def Let_def case_prod_beta split: sum.splits if_splits)

lemma recover_durable_authority_fails: "fst (recover_durable_authority i s) = Inl st \<Longrightarrow> \<not> is_ok st"
  using store_replay_fails [of i observe_authority s "[]"]
  by (auto simp: recover_durable_authority_def Let_def case_prod_beta split: sum.splits)

text \<open>The visitor of the recovery collects every authority of the journal.\<close>

lemma observe_authority_payload:
  assumes "jr_type r = RtAuthorityBound" "jr_payload r = authority_payload e i b"
  shows "observe_authority r acc = (status_ok, acc @ [(e, b)])"
  by (simp add: observe_authority_def assms authority_payload_def reader_of_rd_at codec)

lemma observe_authority_grows: "set acc \<subseteq> set (snd (observe_authority r acc))"
  by (auto simp: observe_authority_def Let_def case_prod_beta)

lemma observe_all:
  assumes "visit_all observe_authority rs n acc = (Inr m, acc')"
  shows "set acc \<subseteq> set acc' \<and> (\<forall>r\<in>set rs. \<forall>e i b. jr_type r = RtAuthorityBound \<longrightarrow>
    jr_payload r = authority_payload e i b \<longrightarrow> (e, b) \<in> set acc')"
  using assms
proof (induction rs arbitrary: n acc)
  case (Cons x xs)
  obtain st a where o: "observe_authority x acc = (st, a)" by fastforce
  have g: "set acc \<subseteq> set a" using observe_authority_grows [of acc x] by (simp add: o)
  have "visit_all observe_authority xs (n + 1) a = (Inr m, acc')" using Cons.prems by (simp add: o split: if_splits)
  note ih = Cons.IH [OF this]
  show ?case
  proof (intro conjI ballI allI impI)
    show "set acc \<subseteq> set acc'" using g ih by blast
    fix r e i b
    assume r: "r \<in> set (x # xs)" "jr_type r = RtAuthorityBound" "jr_payload r = authority_payload e i b"
    show "(e, b) \<in> set acc'"
    proof (cases "r = x")
      case True
      then have "a = acc @ [(e, b)]" using observe_authority_payload [OF r(2,3), of acc] o by simp
      then show ?thesis using ih by auto
    next
      case False
      then show ?thesis using r ih by auto
    qed
  qed
qed simp

lemma newest_authority_bounds:
  assumes "newest_authority obs e0 b0 = (e, b)"
  shows "e0 \<le> e" "b0 \<le> b" "(x, y) \<in> set obs \<Longrightarrow> x \<le> e" "(x, y) \<in> set obs \<Longrightarrow> y \<le> b"
  using assms
proof (induction obs e0 b0 rule: newest_authority.induct)
  case (2 e1 b1 obs e0 b0)
  define e2 where "e2 = (if e1 \<ge> e0 then e1 else e0)"
  define b2 where "b2 = (if b1 \<ge> b0 then b1 else b0)"
  have le: "e0 \<le> e2" "e1 \<le> e2" "b0 \<le> b2" "b1 \<le> b2" by (auto simp: e2_def b2_def)
  note ih = "2.IH" [folded e2_def b2_def]
  { case 1 then show ?case using ih(1) le by (simp add: e2_def [symmetric] b2_def [symmetric]) }
  { case 2 then show ?case using ih(2) le by (simp add: e2_def [symmetric] b2_def [symmetric]) }
  { case 3 then show ?case using ih(1,3) le by (auto simp: e2_def [symmetric] b2_def [symmetric]) }
  { case 4 then show ?case using ih(2,4) le by (auto simp: e2_def [symmetric] b2_def [symmetric]) }
qed simp_all

lemma recovered_authority_bounds:
  assumes "store_holds s rs" "recover_durable_authority i s = (Inr (e, b, present), s')"
    and "r \<in> set rs" "jr_type r = RtAuthorityBound" "jr_payload r = authority_payload x k y"
  shows "present \<and> x \<le> e \<and> y \<le> b"
proof -
  obtain rep p s1 obs where r: "store_replay i observe_authority s [] = (Inr (rep, p), s1, obs)"
    using assms(2) by (auto simp: recover_durable_authority_def Let_def split: prod.splits sum.splits)
  from replay_log [OF assms(1) r] obtain n where v: "visit_all observe_authority rs 0 [] = (Inr n, obs)" by blast
  have seen: "(x, y) \<in> set obs" using observe_all [OF v] assms(3-5) by blast
  define obs' where "obs' = (if rp_snapshot_present rep \<and> p \<noteq> [] then
      case decode_state p of Inl _ \<Rightarrow> obs | Inr state \<Rightarrow> obs @ [(pd_epoch state, pd_boot state)] else obs)"
  have sub: "set obs \<subseteq> set obs'" by (auto simp: obs'_def split: sum.split)
  have "newest_authority obs' 0 0 = (e, b)" "present = (obs' \<noteq> [])"
    using assms(2) r by (simp_all add: recover_durable_authority_def obs'_def [symmetric] Let_def split: prod.splits)
  with newest_authority_bounds(3,4) [of obs' 0 0 e b x y] seen sub show ?thesis by auto
qed

lemma advance_authority_fails: "advance_authority a = Inl st \<Longrightarrow> \<not> is_ok st"
  by (auto simp: advance_authority_def failure_def is_ok_def split: option.splits)

text \<open>The coordinator after its recovery block.\<close>

lemma adopted_authority:
  assumes "adopt_authority c = (st, c')" "is_ok st"
    and "cc_store (co_config c)" "cc_recover_authority (co_config c)" "gv_store (co_governor c) = Some s"
    and "store_holds s rs" "r \<in> set rs" "jr_type r = RtAuthorityBound" "jr_payload r = authority_payload x k y"
  shows "x < co_epoch c'" "y < co_boot c'"
proof -
  obtain rec s' where r: "recover_durable_authority (env_now (co_governor c)) s = (rec, s')" by fastforce
  obtain e b present where rec: "rec = Inr (e, b, present)"
    using assms(1-5) r recover_durable_authority_fails [of "env_now (co_governor c)" s]
    by (cases rec) (auto simp: adopt_authority_def Let_def)
  have p: "present \<and> x \<le> e \<and> y \<le> b"
    using recovered_authority_bounds [OF assms(6) r [unfolded rec] assms(7-9)] .
  define prev where "prev = \<lparr>as_epoch = e, as_incarnation = co_incarnation c, as_boot = b\<rparr>"
  obtain adv where adv: "advance_authority prev = Inr adv" "co_epoch c' = as_epoch adv" "co_boot c' = as_boot adv"
    using assms(1-5) r rec p advance_authority_fails [of prev]
    by (cases "advance_authority prev") (auto simp: adopt_authority_def prev_def Let_def)
  show "x < co_epoch c'" "y < co_boot c'"
    using advance_authority_Inr(1,2) [OF adv(1)] adv(2,3) p by (simp_all add: prev_def word_less_nat_alt word_le_nat_alt)
qed

lemma start_authority:
  assumes "coordinator_start net minted listening cfg c = (st, c')" "is_ok st"
  obtains c1 st1 st2 g where "adopt_authority (start_fields minted cfg c) = (st1, c1)" "is_ok st1"
    "co_epoch c' = (if co_epoch c1 = 0 then 1 else co_epoch c1)" "co_boot c' = co_boot c1"
    "co_incarnation c' = co_incarnation c1" "co_config c' = co_config c1" "co_workers c' = co_workers c1"
    "co_active_sessions c' = co_active_sessions c1" "co_session_channels c' = co_session_channels c1"
    "co_running c'" "co_governor c' = g"
    "bind_authority (co_epoch c') (co_incarnation c') (co_boot c') (co_governor c1) = (st2, g)" "is_ok st2"
    "cc_governor cfg" "0 < cc_max_workers cfg"
proof -
  obtain st1 c1 where a: "adopt_authority (start_fields minted cfg c) = (st1, c1)" by fastforce
  define c2 where "c2 = (if co_epoch c1 = 0 then c1\<lparr>co_epoch := 1\<rparr> else c1)"
  obtain st2 g where b: "bind_authority (co_epoch c2) (co_incarnation c2) (co_boot c2) (co_governor c2) = (st2, g)"
    by fastforce
  have run: "coordinator_start net minted listening cfg c =
    (if \<not> cc_governor cfg then (failure StInvalidArgument ''coordinator requires a governor'', c)
      else if cc_max_workers cfg = 0 \<or> cc_max_workers cfg > kMaxConnections then
        (failure StOutOfRange ''worker bound outside supported range'', c)
      else if \<not> is_ok net then (net, c)
      else if \<not> is_ok st1 then (st1, c1)
      else if \<not> is_ok st2 then (st2, c2\<lparr>co_governor := g\<rparr>)
      else if \<not> is_ok (fst (listening cfg)) then (fst (listening cfg), c2\<lparr>co_governor := g\<rparr>)
      else (status_ok, c2\<lparr>co_governor := g, co_port := snd (listening cfg), co_running := True, co_started := True\<rparr>))"
    using a b by (cases "co_epoch c1 = 0")
      (simp_all add: coordinator_start_def c2_def case_prod_beta Let_def)
  have ok: "cc_governor cfg" "0 < cc_max_workers cfg" "is_ok st1" "is_ok st2"
    using assms(1,2) unfolding run by (auto simp: failure_def is_ok_def split: if_splits)
  then have c': "c' = c2\<lparr>co_governor := g, co_port := snd (listening cfg), co_running := True, co_started := True\<rparr>"
    using assms(1,2) unfolding run by (auto simp: failure_def is_ok_def split: if_splits sum.splits)
  show ?thesis
    by (rule that [of st1 c1 g st2]) (use a b ok c' in \<open>auto simp: c2_def\<close>)
qed

lemma restart_is_ahead:
  assumes "coordinator_start net minted listening cfg c = (st, c')" "is_ok st"
    and "cc_store cfg" "cc_recover_authority cfg" "gv_store (co_governor c) = Some s"
    and "store_holds s rs" "r \<in> set rs" "jr_type r = RtAuthorityBound" "jr_payload r = authority_payload x k y"
  shows "x < co_epoch c' \<and> y < co_boot c'"
proof -
  from start_authority [OF assms(1,2)] obtain c1 st1 where c1:
    "adopt_authority (start_fields minted cfg c) = (st1, c1)" "is_ok st1" "co_epoch c' = (if co_epoch c1 = 0 then 1 else co_epoch c1)" "co_boot c' = co_boot c1" by metis
  have "x < co_epoch c1 \<and> y < co_boot c1"
    using adopted_authority [OF c1(1,2) _ _ _ assms(6-9)] assms(3-5) by (simp add: start_fields_def)
  then show ?thesis using c1(3,4) by auto
qed

text \<open>Without a snapshot and with a cooperative operating system the recovery is the visit of the journal.\<close>

lemma recovery_of_log:
  assumes "store_holds s rs" "ds_snapshot s = None" "visit_all observe_authority rs 0 [] = (Inr n, obs)"
  shows "\<exists>e b. recover_durable_authority io_fine s = (Inr (e, b, obs \<noteq> []), s) \<and> newest_authority obs 0 0 = (e, b)"
proof -
  have j: "ds_journal s = Some (log_bytes rs)" "length (log_bytes rs) \<le> kMaxJournalBytes" and wf: "list_all record_wf rs"
    using assms(1) by (auto simp: store_holds_def)
  have wf': "\<And>r. r \<in> set rs \<Longrightarrow> record_wf r" using wf by (simp add: list_all_iff)
  obtain e where sc: "scan_journal (log_bytes rs) 0 = (length (log_bytes rs), e)"
    using journal.scan_log [OF wf', of rs] by (auto simp: log_bytes_def)
  have rr: "replay_records observe_authority (log_bytes rs) (length (log_bytes rs)) 0 0 [] = (Inr n, obs)"
    using replay_records_log [OF wf, of observe_authority "[]" "[]" 0 "[]"] assms(3) by simp
  have "obs = []" if "rs = []" using assms(3) that by simp
  then have "\<exists>rep. store_replay io_fine observe_authority s [] = (Inr (rep, []), s, obs) \<and> \<not> rp_snapshot_present rep"
    using assms(2) j sc rr
    by (cases e; cases "rs = []") (auto simp: store_replay_def load_snapshot_def read_file_def Let_def
        recovery_report_default_def)
  then show ?thesis
    by (cases "newest_authority obs 0 0") (auto simp: recover_durable_authority_def Let_def)
qed

lemma start_succeeds:
  assumes "cc_governor cfg" "0 < cc_max_workers cfg" "cc_max_workers cfg \<le> kMaxConnections" "is_ok net"
    "is_ok (fst (listening cfg))"
    and "adopt_authority (start_fields minted cfg c) = (st, c1)" "is_ok st" "id_valid (co_epoch c1)"
  shows "is_ok (fst (coordinator_start net minted listening cfg c))"
proof -
  have "is_ok (fst (bind_authority e i b g))" if "e \<noteq> 0" "id_valid e" for e i b g
    using that by (simp add: bind_authority_def case_prod_beta Let_def)
  then show ?thesis using assms
    by (cases "co_epoch c1 = 0") (simp_all add: coordinator_start_def case_prod_beta Let_def id_valid_def id_invalid_def)
qed

section \<open>The recovery bound\<close>

text \<open>The visitor of \<open>restore\<close> refuses the record after the bound, and with it the whole replay.\<close>

lemma visit_collect_bound:
  "length acc \<le> kMaxRecoveredRecords \<Longrightarrow> visit_all collect_record rs n acc = (Inr m, acc') \<Longrightarrow>
   length acc' = length acc + length rs \<and> length acc' \<le> kMaxRecoveredRecords"
proof (induction rs arbitrary: n acc)
  case (Cons r rs)
  have room: "length acc < kMaxRecoveredRecords" using Cons.prems by (auto simp: collect_record_def split: if_splits)
  then have "collect_record r acc = (status_ok, acc @ [r])" by (simp add: collect_record_def)
  then have "visit_all collect_record rs (n + 1) (acc @ [r]) = (Inr m, acc')" using Cons.prems(2) by simp
  then show ?case using Cons.IH [of "acc @ [r]" "n + 1"] room by simp
qed simp

lemma long_journal_stops_restore:
  assumes "gv_store g = Some s" "store_holds s rs" "kMaxRecoveredRecords < length rs"
  shows "\<exists>st s'. restore g = ((st, restore_report_default), g\<lparr>gv_store := Some s', gv_env_pos := gv_env_pos g + 1\<rparr>) \<and>
    \<not> is_ok st"
proof -
  obtain res s' acc where r: "store_replay (env_now g) collect_record s [] = (res, s', acc)"
    by (cases "store_replay (env_now g) collect_record s []") auto
  show ?thesis
  proof (cases res)
    case (Inl st)
    then have "\<not> is_ok st" using store_replay_fails [of "env_now g" collect_record s "[]" st] r by simp
    then show ?thesis using assms(1) r Inl by (intro exI [of _ st] exI [of _ s']) (simp add: restore_def)
  next
    case (Inr p)
    obtain rep q where "p = (rep, q)" by (cases p)
    then have "\<exists>n. visit_all collect_record rs 0 [] = (Inr n, acc)" using replay_log [OF assms(2)] r Inr by simp
    then show ?thesis using visit_collect_bound [of "[]" rs 0] assms(3) by auto
  qed
qed

end
