(* ===== verification/Governor_Authority.thy ===== *)
theory Governor_Authority
  imports Governor_Safety
begin

text \<open>
  The authority a governor is bound to is changed by binding another and by nothing else. The
  policies change the policy part of the context only.
\<close>

definition authority_of :: "governor \<Rightarrow> u32 \<times> u64 \<times> u64" where
  "authority_of g = (ax_epoch (gv_context g), ax_incarnation (gv_context g), ax_boot (gv_context g))"

named_theorems bound

context housekeeping
begin

lemma keeps_authority: "authority_of (op g) = authority_of g"
  by (simp add: authority_of_def)

end

lemmas [bound] = count.keeps_authority emit.keeps_authority history.keeps_authority appended.keeps_authority
  compacted.keeps_authority finished.keeps_authority recorded.keeps_authority logged.keeps_authority

lemma authority_of_fields [bound]:
  "authority_of (g\<lparr>gv_config := a1\<rparr>) = authority_of g" "authority_of (g\<lparr>gv_policies := a2\<rparr>) = authority_of g"
  "authority_of (g\<lparr>gv_streams := a3\<rparr>) = authority_of g" "authority_of (g\<lparr>gv_resource_generations := a4\<rparr>) = authority_of g"
  "authority_of (g\<lparr>gv_open_events := a5\<rparr>) = authority_of g" "authority_of (g\<lparr>gv_interventions := a6\<rparr>) = authority_of g"
  "authority_of (g\<lparr>gv_emissions := a7\<rparr>) = authority_of g" "authority_of (g\<lparr>gv_stats := a8\<rparr>) = authority_of g"
  "authority_of (g\<lparr>gv_decision_seq := a9\<rparr>) = authority_of g" "authority_of (g\<lparr>gv_record_seq := b1\<rparr>) = authority_of g"
  "authority_of (g\<lparr>gv_store := b2\<rparr>) = authority_of g" "authority_of (g\<lparr>gv_last_tick := b3\<rparr>) = authority_of g"
  "authority_of (g\<lparr>gv_env_pos := b4\<rparr>) = authority_of g" "authority_of (g\<lparr>gv_history := b5\<rparr>) = authority_of g"
  "authority_of (g\<lparr>gv_history_head := b6\<rparr>) = authority_of g"
  "authority_of (g\<lparr>gv_intervention_history := b7\<rparr>) = authority_of g"
  by (simp_all add: authority_of_def)

lemma retire_bound [bound]: "authority_of (retire_intervention i x v now g) = authority_of g"
  by (simp add: authority_of_def)

lemma refresh_loop_bound: "authority_of (snd (snd (refresh_loop now only ids retire n g))) = authority_of g"
  by (induction now only ids retire n g rule: refresh_loop.induct) (auto simp: bound Let_def split: option.split)

lemma refresh_bound [bound]: "authority_of (snd (refresh_authority now only g)) = authority_of g"
  by (simp add: refresh_authority_def case_prod_beta bound refresh_loop_bound)

lemma revoke_loop_bound: "authority_of (snd (snd (revoke_loop v now ids retire n g))) = authority_of g"
  by (induction v now ids retire n g rule: revoke_loop.induct) (auto simp: bound split: option.split)

lemma revoke_all_bound [bound]: "authority_of (snd (revoke_all_live v now g)) = authority_of g"
  by (simp add: revoke_all_live_def case_prod_beta bound revoke_loop_bound)

lemma request_kinds_bound [bound]: "authority_of (request_kinds dec now ip ks s t g) = authority_of g"
proof (induction ks arbitrary: s t g)
  case (Cons kl rest)
  obtain kind limit where kl: "kl = (kind, limit)" by (cases kl)
  have a: "authority_of (refreshed dec limit now i x g) = authority_of g"
    "authority_of (requested dec kind limit now g) = authority_of g" for i x
    by (simp_all add: authority_of_def)
  show ?case
    by (cases rule: request_cases [of dec now ip kind limit rest s t g])
      (simp_all add: kl Cons.IH bound a del: request_kinds.simps)
qed simp

lemma maybe_request_bound [bound]: "authority_of (maybe_request_interventions dec now g) = authority_of g"
  by (simp add: maybe_request_interventions_def bound Let_def)

lemma process_bound [bound]:
  "authority_of (process_opened e now g) = authority_of g"
  "authority_of (process_closed b e now g) = authority_of g"
  "authority_of (process_decision d dec now g) = authority_of g"
proof -
  show o: "authority_of (process_opened e now g) = authority_of g" for e now g
    by (simp add: process_opened_def bound Let_def)
  show c: "authority_of (process_closed b e now g) = authority_of g" for b e now g
    by (simp add: process_closed_def case_prod_beta bound Let_def)
  show "authority_of (process_decision d dec now g) = authority_of g"
    by (simp add: process_decision_def bound o c Let_def)
qed

lemma ingest_decision_bound [bound]: "authority_of (snd (ingest_decision k entry dec g)) = authority_of g"
  by (simp add: ingest_decision_def bound Let_def)

lemma find_or_create_bound: "find_or_create k g = Some (entry, h) \<Longrightarrow> authority_of h = authority_of g"
  by (auto simp: find_or_create_def bound Let_def split: option.splits if_splits)

lemma count_accept_bound [bound]: "authority_of (count_accept a g) = authority_of g"
  by (cases a) (simp_all add: count_accept_def bound)

lemma ingest_bound [bound]: "authority_of (snd (governor_ingest s g)) = authority_of g"
proof (cases "find_or_create (sm_stream s) g")
  case (Some p)
  then obtain entry h where "find_or_create (sm_stream s) g = Some (entry, h)" by (cases p) simp
  with find_or_create_bound [OF this] show ?thesis
    by (simp add: governor_ingest_def bound Let_def case_prod_beta split: sum.split)
qed (simp add: governor_ingest_def bound Let_def)

lemma advance_streams_bound: "authority_of (snd (snd (advance_streams now entries n m g))) = authority_of g"
  by (induction entries arbitrary: n m g) (auto simp: bound Let_def case_prod_beta)

lemma advance_bound [bound]: "authority_of (snd (governor_advance now g)) = authority_of g"
  by (simp add: governor_advance_def bound advance_streams_bound Let_def case_prod_beta)

lemma rearm_streams_bound [bound]: "authority_of (rearm_streams entries g) = authority_of g"
proof -
  have "authority_of (rearm_stream k entry h) = authority_of h" for k entry h
    by (simp add: rearm_stream_def bound Let_def case_prod_beta)
  then show ?thesis by (induction entries arbitrary: g) (auto simp: rearm_streams_def)
qed

lemma set_context_policy_bound [bound]: "authority_of (set_context_policy g) = authority_of g"
  by (simp add: set_context_policy_def authority_of_def)

text \<open>Every public operation but one.\<close>

lemma operations_keep_authority:
  assumes "\<nexists>e i b. op = GoBindAuthority e i b"
  shows "authority_of (gov_step op g) = authority_of g"
  using assms
  by (cases op) (simp_all add: bound install_policy_def set_resource_policy_def remove_resource_policy_def
      set_resource_generation_def set_interventions_enabled_def drain_emissions_def bind_store_def
      Let_def case_prod_beta split: option.split)

lemma refused_binding:
  "\<not> is_ok (fst (bind_authority e i b g)) \<Longrightarrow> authority_of (snd (bind_authority e i b g)) = authority_of g"
  by (auto simp: bind_authority_def Let_def case_prod_beta split: if_splits)

lemma restore_folds_bound:
  "authority_of (snd (fold restore_closed es s)) = authority_of (snd s)"
  "authority_of (snd (fold restore_open es s)) = authority_of (snd s)"
  "authority_of (snd (fold restore_intent is s)) = authority_of (snd s)"
proof -
  show "authority_of (snd (fold restore_closed es s)) = authority_of (snd s)"
    by (induction es arbitrary: s) (simp_all add: restore_closed_def case_prod_beta bound)
  show "authority_of (snd (fold restore_open es s)) = authority_of (snd s)"
    by (induction es arbitrary: s) (simp_all add: restore_open_def case_prod_beta bound)
  show "authority_of (snd (fold restore_intent is s)) = authority_of (snd s)"
    by (induction "is" arbitrary: s) (simp_all add: restore_intent_def case_prod_beta bound Let_def)
qed

text \<open>Recovery does not bind the authority it finds: that is left to the caller.\<close>

lemma restore_bound: "authority_of (snd (restore g)) = authority_of g"
proof -
  have p: "authority_of (snd (restore_policies acc r h)) = authority_of h" for acc r h
    by (simp add: restore_policies_def bound split: option.split sum.split)
  have c: "authority_of (restore_counters ps h) = authority_of h" for ps h
    by (simp add: restore_counters_def authority_of_def Let_def)
  have s: "authority_of (snd (restore_state acc r h)) = authority_of h" for acc r h
    by (simp add: restore_state_def restore_folds_bound p c bound Let_def case_prod_beta)
  have a: "authority_of (restore_announce h) = authority_of h" for h
    by (simp add: restore_announce_def bound Let_def)
  show ?thesis
    by (simp add: restore_def s a bound Let_def case_prod_beta split: option.split sum.split)
qed

lemma bind_authority_binds:
  assumes "bind_authority e i b g = (st, g')" "is_ok st"
  shows "authority_of g' = (e, i, b)" "e \<noteq> 0 \<and> id_valid e"
  using assms by (auto simp: bind_authority_def failure_def is_ok_def bound Let_def case_prod_beta split: if_splits)
    (simp add: authority_of_def)

end
