(* ===== verification/Service.thy ===== *)
theory Service
  imports Restart Governor_Authority
begin

text \<open>
  The running coordinator with its sessions as a transition system. A step accepts a connection,
  runs one turn of one session, performs an operation of the process that owns the governor, or
  begins to stop; every interleaving of the threads is a sequence of such steps. The invariant says
  that the registry and the sessions stay within the configured bound, that every registered worker
  was admitted under the authority in force, and that the governor is bound to that authority, or to the
  one that its owner has bound last beside the service.
\<close>

section \<open>The transition system\<close>

record service =
  sv_coordinator :: coordinator
  sv_sessions :: "session list"

definition live_session :: "session \<Rightarrow> bool" where
  "live_session s \<longleftrightarrow> ss_phase s \<noteq> SpDone"

text \<open>The start of \<open>stop\<close>: no new session is admitted, and every registered channel is interrupted.\<close>

definition stop_service :: "service \<Rightarrow> service" where
  "stop_service v = \<lparr>sv_coordinator = stop_begin (sv_coordinator v),
     sv_sessions = map (\<lambda>s. if ss_number s \<in> set (co_session_channels (sv_coordinator v))
       then interrupt_session s else s) (sv_sessions v)\<rparr>"

definition serve_at :: "nat \<Rightarrow> service \<Rightarrow> service" where
  "serve_at i v = (let (s, c) = session_step (sv_sessions v ! i) (sv_coordinator v)
     in \<lparr>sv_coordinator = c, sv_sessions = (sv_sessions v)[i := s]\<rparr>)"

definition accept_at :: "socket \<Rightarrow> nat \<Rightarrow> service \<Rightarrow> service" where
  "accept_at sock n v = (let (goes_on, joined, c) = accept_step (Some sock) n (sv_coordinator v)
     in \<lparr>sv_coordinator = c, sv_sessions = sv_sessions v @ (case joined of None \<Rightarrow> [] | Some s \<Rightarrow> [s])\<rparr>)"

inductive service_step :: "service \<Rightarrow> service \<Rightarrow> bool" where
  accepts: "n \<notin> ss_number ` set (sv_sessions v) \<Longrightarrow> service_step v (accept_at sock n v)"
| serves: "i < length (sv_sessions v) \<Longrightarrow> service_step v (serve_at i v)"
| stops: "service_step v (stop_service v)"

text \<open>
  What the process that owns the governor does to it beside the service: any public operation, and
  recovery from the store that is bound.
\<close>

definition operate :: "(governor \<Rightarrow> governor) \<Rightarrow> service \<Rightarrow> service" where
  "operate f v = v\<lparr>sv_coordinator := (sv_coordinator v)\<lparr>co_governor := f (co_governor (sv_coordinator v))\<rparr>\<rparr>"

text \<open>The authority that the owner has bound itself, after another operation.\<close>

definition rebound :: "gov_op \<Rightarrow> governor \<Rightarrow> (u32 \<times> u64 \<times> u64) option \<Rightarrow> (u32 \<times> u64 \<times> u64) option" where
  "rebound op g a =
     (case op of
        GoBindAuthority e i n \<Rightarrow> if is_ok (fst (bind_authority e i n g)) then Some (e, i, n) else a
      | _ \<Rightarrow> a)"

text \<open>
  A service begins with a successful start of a coordinator that has not served before. The first
  argument is the authority the owner of the governor has last bound beside the service, if any.
\<close>

inductive serving_as :: "(u32 \<times> u64 \<times> u64) option \<Rightarrow> service \<Rightarrow> bool" where
  started: "coordinator_start net minted listening cfg c = (st, c') \<Longrightarrow> is_ok st \<Longrightarrow>
    co_workers c = [] \<Longrightarrow> co_active_sessions c = 0 \<Longrightarrow> co_session_channels c = [] \<Longrightarrow>
    serving_as None \<lparr>sv_coordinator = c', sv_sessions = []\<rparr>"
| continued: "serving_as a v \<Longrightarrow> service_step v w \<Longrightarrow> serving_as a w"
| operated: "serving_as a v \<Longrightarrow> serving_as (rebound op (co_governor (sv_coordinator v)) a) (operate (gov_step op) v)"
| recovered: "serving_as a v \<Longrightarrow> serving_as a (operate (\<lambda>g. snd (restore g)) v)"

definition serving :: "service \<Rightarrow> bool" where
  "serving v \<longleftrightarrow> (\<exists>a. serving_as a v)"

inductive_cases service_stepE: "service_step v w"

section \<open>What a turn of a session keeps\<close>

definition admitted_here :: "coordinator \<Rightarrow> u64 \<times> worker_record \<Rightarrow> bool" where
  "admitted_here c = (\<lambda>(w, rec). wr_id rec = w \<and> wr_epoch rec = co_epoch c \<and> wr_boot rec = co_boot c \<and>
     wr_handshake rec = HsAccepted)"

definition registry_ok :: "coordinator \<Rightarrow> bool" where
  "registry_ok c \<longleftrightarrow> distinct (map fst (co_workers c)) \<and> length (co_workers c) \<le> cc_max_workers (co_config c) \<and>
     list_all (admitted_here c) (co_workers c)"

text \<open>
  The authority the coordinator serves under and the one its governor is bound to; and what one side of
  the bookkeeping leaves alone: the settings, the authority and the set of sessions.
\<close>

definition authorities :: "coordinator \<Rightarrow> (u32 \<times> u64 \<times> u64) \<times> u32 \<times> u64 \<times> u64" where
  "authorities c = ((co_epoch c, co_incarnation c, co_boot c), authority_of (co_governor c))"

definition same_sessions :: "coordinator \<Rightarrow> coordinator \<Rightarrow> bool" where
  "same_sessions c d \<longleftrightarrow> co_active_sessions d = co_active_sessions c \<and> co_session_channels d = co_session_channels c \<and>
     co_config d = co_config c \<and> authorities d = authorities c"

lemma same_sessions_trans: "same_sessions c d \<Longrightarrow> same_sessions d e \<Longrightarrow> same_sessions c e"
  by (simp add: same_sessions_def)

locale quiet =
  fixes op :: "coordinator \<Rightarrow> coordinator"
  assumes keeps_sessions: "same_sessions c (op c)"
    and keeps_registry: "registry_ok c \<Longrightarrow> registry_ok (op c)"
begin

lemma keeps_bound: "length (co_workers c) \<le> cc_max_workers (co_config c) \<Longrightarrow> registry_ok c \<Longrightarrow>
    length (co_workers (op c)) \<le> cc_max_workers (co_config c)"
  using keeps_registry [of c] keeps_sessions [of c] by (simp add: registry_ok_def same_sessions_def)

end

lemma quiet_comp: "quiet f \<Longrightarrow> quiet g \<Longrightarrow> quiet (\<lambda>c. f (g c))"
  unfolding quiet_def by (metis same_sessions_trans)

lemma quiet_cases: "(\<And>c. f c = g c \<or> f c = h c) \<Longrightarrow> quiet g \<Longrightarrow> quiet h \<Longrightarrow> quiet f"
  unfolding quiet_def by metis

lemma length_assign_le: "length (assign k v m) \<le> Suc (length m)"
  by (induction k v m rule: assign.induct) auto

lemma registry_ok_assign:
  assumes "registry_ok c" "map_of (co_workers c) w \<noteq> None \<or> length (co_workers c) < cc_max_workers (co_config c)"
    "admitted_here c (w, rec)"
  shows "registry_ok (c\<lparr>co_workers := assign w rec (co_workers c)\<rparr>)"
proof -
  have "length (assign w rec (co_workers c)) \<le> cc_max_workers (co_config c)"
  proof (cases "map_of (co_workers c) w")
    case None
    then show ?thesis using assms(2) length_assign_le [of w rec "co_workers c"] by simp
  next
    case (Some r)
    then show ?thesis using assms(1) length_assign [of w "co_workers c" rec] map_of_in_keys
      by (fastforce simp: registry_ok_def)
  qed
  moreover have "admitted_here (c\<lparr>co_workers := m\<rparr>) = admitted_here c" for m
    by (simp add: admitted_here_def)
  ultimately show ?thesis
    using assms(1,3) set_assign [of w rec "co_workers c"]
    by (auto simp: registry_ok_def distinct_assign list_all_iff)
qed

lemma registered_record:
  "registry_ok c \<Longrightarrow> map_of (co_workers c) w = Some rec \<Longrightarrow> admitted_here c (w, rec)"
  by (auto simp: registry_ok_def list_all_iff dest!: map_of_SomeD)

interpretation tallied: quiet "tally f" for f
proof
  have a: "admitted_here (c\<lparr>co_counters := m\<rparr>) = admitted_here c" for c m by (simp add: admitted_here_def)
  show "same_sessions c (tally f c)" "registry_ok c \<Longrightarrow> registry_ok (tally f c)" for c
    by (simp_all add: same_sessions_def authorities_def registry_ok_def tally_def a)
qed

lemma quiet_update:
  assumes "\<And>r. wr_id (f r) = wr_id r \<and> wr_epoch (f r) = wr_epoch r \<and> wr_boot (f r) = wr_boot r \<and>
    wr_handshake (f r) = wr_handshake r"
  shows "quiet (update_worker w f)"
proof
  fix c
  show "same_sessions c (update_worker w f c)"
    by (simp add: same_sessions_def authorities_def update_worker_def split: option.split)
  assume r: "registry_ok c"
  show "registry_ok (update_worker w f c)"
  proof (cases "map_of (co_workers c) w")
    case (Some rec)
    have "admitted_here c (w, f rec)"
      using registered_record [OF r Some] assms [of rec] by (simp add: admitted_here_def)
    then show ?thesis using registry_ok_assign [OF r] Some by (simp add: update_worker_def)
  qed (simp add: update_worker_def r)
qed

interpretation ended: quiet "mark_ended b w" for b w
proof (cases b)
  case True
  have "quiet (update_worker w (\<lambda>rec. rec\<lparr>wr_connected := False, wr_fenced := False\<rparr>))"
    by (rule quiet_update) simp
  moreover have "mark_ended b w = update_worker w (\<lambda>rec. rec\<lparr>wr_connected := False, wr_fenced := False\<rparr>)"
    using True by (simp add: fun_eq_iff mark_ended_def update_worker_def Let_def split: option.split)
  ultimately show "quiet (mark_ended b w)" by simp
next
  case False
  define up where "up = update_worker w (\<lambda>rec. rec\<lparr>wr_connected := False, wr_fenced := True,
      wr_fence_attempt := hash_combine w (wr_frames rec + 1)\<rparr>)"
  have up: "quiet up" unfolding up_def by (rule quiet_update) simp
  have "mark_ended b w c = up c \<or> mark_ended b w c = tally cs_workers_fenced_update (up c)" for c
    using False by (cases "map_of (co_workers c) w") (simp_all add: up_def mark_ended_def update_worker_def Let_def)
  from quiet_cases [OF this up quiet_comp [OF tallied.quiet_axioms up]]
  show "quiet (mark_ended b w)" .
qed

text \<open>One sample, then the rest of the batch.\<close>

definition ingest_one :: "sample \<Rightarrow> coordinator \<Rightarrow> coordinator" where
  "ingest_one x c = c\<lparr>co_governor := snd (governor_ingest x (co_governor c))\<rparr>"

interpretation ingested_one: quiet "ingest_one x" for x
proof
  fix c
  have "admitted_here (c\<lparr>co_governor := g\<rparr>) = admitted_here c" for g by (simp add: admitted_here_def)
  then show "same_sessions c (ingest_one x c)" "registry_ok c \<Longrightarrow> registry_ok (ingest_one x c)"
    by (simp_all add: ingest_one_def same_sessions_def authorities_def registry_ok_def bound)
qed

lemma ingest_samples_step:
  obtains ack' f where "snd (ingest_samples (x # xs) w ack c) = snd (ingest_samples xs w ack' (f c))" "quiet f"
proof -
  define up where "up = update_worker w (\<lambda>rec. rec\<lparr>wr_last_tick := sm_tick x, wr_samples := wr_samples rec + 1\<rparr>)"
  have up: "quiet up" unfolding up_def by (rule quiet_update) simp
  note t = quiet_comp [OF tallied.quiet_axioms ingested_one.quiet_axioms]
  define out where "out = fst (governor_ingest x (co_governor c))"
  consider "\<not> is_ok (io_status out)" | "is_ok (io_status out)" "sm_tick x > 0"
    | "is_ok (io_status out)" "\<not> sm_tick x > 0" by blast
  then show ?thesis
  proof cases
    case 1
    show ?thesis
      by (rule that [OF _ t [of cs_samples_rejected_update x], of "ack\<lparr>ea_rejected := ea_rejected ack + 1\<rparr>"])
        (use 1 in \<open>simp add: out_def ingest_one_def case_prod_beta Let_def\<close>)
  next
    case 2
    show ?thesis
      by (rule that [OF _ quiet_comp [OF up t [of cs_samples_ingested_update x]],
            of "ack\<lparr>ea_accepted := ea_accepted ack + 1, ea_classification := classification_raw (io_classification out)\<rparr>"])
        (use 2 in \<open>simp add: out_def up_def ingest_one_def case_prod_beta Let_def\<close>)
  next
    case 3
    show ?thesis
      by (rule that [OF _ t [of cs_samples_ingested_update x],
            of "ack\<lparr>ea_accepted := ea_accepted ack + 1, ea_classification := classification_raw (io_classification out)\<rparr>"])
        (use 3 in \<open>simp add: out_def ingest_one_def case_prod_beta Let_def\<close>)
  qed
qed

interpretation ingested: quiet "\<lambda>c. snd (ingest_samples xs w ack c)" for xs w ack
proof
  fix c
  have "same_sessions c (snd (ingest_samples xs w ack c)) \<and>
      (registry_ok c \<longrightarrow> registry_ok (snd (ingest_samples xs w ack c)))"
  proof (induction xs arbitrary: ack c)
    case (Cons x xs)
    obtain ack' f where f: "snd (ingest_samples (x # xs) w ack c) = snd (ingest_samples xs w ack' (f c))" "quiet f"
      using ingest_samples_step by blast
    show ?case using Cons.IH [of "f c" ack'] quiet.keeps_sessions [OF f(2), of c] quiet.keeps_registry [OF f(2), of c]
      unfolding f(1) by (metis same_sessions_trans)
  qed (simp add: same_sessions_def)
  then show "same_sessions c (snd (ingest_samples xs w ack c))"
    "registry_ok c \<Longrightarrow> registry_ok (snd (ingest_samples xs w ack c))" by simp_all
qed

section \<open>Turns\<close>

definition advances :: "coordinator \<Rightarrow> coordinator \<Rightarrow> bool" where
  "advances c d \<longleftrightarrow> same_sessions c d \<and> (registry_ok c \<longrightarrow> registry_ok d)"

lemma advances_refl [simp]: "advances c c"
  by (simp add: advances_def same_sessions_def)

lemma advances_trans: "advances c d \<Longrightarrow> advances d e \<Longrightarrow> advances c e"
  using same_sessions_trans by (auto simp: advances_def)

lemma quiet_advances: "quiet f \<Longrightarrow> advances c d \<Longrightarrow> advances c (f d)"
  using quiet.keeps_sessions [of f d] quiet.keeps_registry [of f d]
  by (auto simp: advances_def intro: same_sessions_trans)

lemmas advancing [intro] = tallied.quiet_axioms [THEN quiet_advances] ended.quiet_axioms [THEN quiet_advances]
  ingested.quiet_axioms [THEN quiet_advances]

text \<open>A turn either keeps the session, or ends it and retires it.\<close>

definition session_turn :: "session \<Rightarrow> coordinator \<Rightarrow> session \<times> coordinator \<Rightarrow> bool" where
  "session_turn s c out \<longleftrightarrow> ss_number (fst out) = ss_number s \<and>
     (\<exists>d. advances c d \<and> snd out = (if live_session (fst out) then d else retire_session (ss_number s) d))"

lemma finish_number [simp]: "ss_number (fst (finish b s c)) = ss_number s"
  by (simp add: finish_def Let_def)

lemma turn_finish:
  assumes "advances c d" "ss_number s1 = ss_number s"
  shows "session_turn s c (finish b s1 d)"
proof -
  have "\<exists>e. advances c e \<and> snd (finish b s1 d) = retire_session (ss_number s1) e"
    using assms(1) by (auto simp: finish_def Let_def)
  then show ?thesis using assms(2) by (simp add: session_turn_def live_session_def)
qed

lemma turn_stays:
  assumes "advances c d" "ss_number s1 = ss_number s" "live_session s1"
  shows "session_turn s c (s1, d)"
  using assms by (auto simp: session_turn_def)

lemma send_error_parts:
  "ss_number (fst (send_error code detail s c)) = ss_number s"
  "snd (send_error code detail s c) = tally cs_protocol_errors_update c"
  by (simp_all add: send_error_def)

lemma send_fence_number [simp]: "ss_number (send_fence s c) = ss_number s"
  by (simp add: send_fence_def)

lemma answer_hello_advances: "advances c (snd (answer_hello h c))"
proof (cases "fst (answer_hello h c) = HsAccepted")
  case True
  then obtain d where a: "answer_hello h c = (HsAccepted, d)" by (cases "answer_hello h c") simp
  define e where "e = c\<lparr>co_workers := assign (hq_worker h) (admitted_record h) (co_workers c)\<rparr>"
  have d: "d = tally cs_handshakes_accepted_update e"
    using a by (auto simp: answer_hello_def e_def Let_def split: if_splits)
  have room: "map_of (co_workers c) (hq_worker h) \<noteq> None \<or> length (co_workers c) < cc_max_workers (co_config c)"
    using a by (auto simp: answer_hello_def Let_def not_less split: if_splits)
  have "admitted_here c (hq_worker h, admitted_record h)"
    using answer_hello_accepted [OF a] by (simp add: admitted_here_def admitted_record_def)
  then have "registry_ok c \<longrightarrow> registry_ok e" unfolding e_def using registry_ok_assign room by blast
  then have "advances c e" by (simp add: advances_def same_sessions_def authorities_def e_def)
  then show ?thesis using a d by auto
next
  case False
  then show ?thesis by (simp add: answer_hello_def Let_def) (auto intro!: advancing)
qed

lemma turn_hello:
  assumes "ss_phase s = SpHello"
  shows "session_turn s c (session_hello s c)"
proof -
  obtain received ch where r: "channel_receive (ss_channel s) = (received, ch)" by fastforce
  define hello where "hello = (case received of
      Inl st \<Rightarrow> Inl st
    | Inr f \<Rightarrow> if fh_type (fr_header f) \<noteq> MtHello then Inl status_ok else decode_hello (reader_of (fr_payload f)))"
  show ?thesis
  proof (cases hello)
    case (Inl st)
    then have "session_hello s c = finish False (s\<lparr>ss_channel := ch\<rparr>) (tally cs_handshakes_rejected_update c)"
      by (simp add: session_hello_def r hello_def [symmetric] Let_def)
    then show ?thesis by (auto intro!: turn_finish)
  next
    case (Inr h)
    obtain status d where a: "answer_hello h c = (status, d)" by fastforce
    have adv: "advances c d" using answer_hello_advances [of c h] by (simp add: a)
    define s1 where "s1 = (if status = HsAccepted then (s\<lparr>ss_channel := ch\<rparr>)\<lparr>ss_registered := True, ss_worker := hq_worker h\<rparr>
      else s\<lparr>ss_channel := ch\<rparr>)"
    have n: "ss_number s1 = ss_number s" by (simp add: s1_def)
    have eq: "session_hello s c = (let (sent, s) = session_send (hello_ack status d) s1
      in if \<not> is_ok sent then finish False s d else if status \<noteq> HsAccepted then finish False s d
         else (s\<lparr>ss_sequence := kFrameSeqStart, ss_phase := SpFrames\<rparr>, d))"
      by (simp add: session_hello_def r hello_def [symmetric] Inr a s1_def Let_def)
    show ?thesis unfolding eq Let_def case_prod_beta
      by (simp add: n adv turn_finish turn_stays live_session_def)
  qed
qed

lemma turn_frame:
  assumes "ss_phase s = SpFrames"
  shows "session_turn s c (session_frame s c)"
proof -
  obtain received ch where r: "channel_receive (ss_channel s) = (received, ch)" by fastforce
  show ?thesis
  proof (cases "co_running c")
    case False
    then show ?thesis by (simp add: session_frame_def turn_finish)
  next
    case run: True
    show ?thesis
    proof (cases received)
      case (Inl st)
      then show ?thesis using run by (simp add: session_frame_def r turn_finish)
    next
      case (Inr f)
      define c1 where "c1 = tally cs_frames_received_update c"
      define s1 where "s1 = s\<lparr>ss_channel := ch, ss_sequence := ss_sequence s + 1\<rparr>"
      define c2 where "c2 = update_worker (ss_worker s1) (\<lambda>rec. rec\<lparr>wr_frames := wr_frames rec + 1\<rparr>) c1"
      have eq: "session_frame s c = handle_frame f s1 c2"
        using run Inr by (simp add: session_frame_def r c1_def c2_def s1_def Let_def)
      have up: "quiet (update_worker w (\<lambda>rec. rec\<lparr>wr_frames := wr_frames rec + 1\<rparr>))"
        "quiet (update_worker w (wr_last_tick_update (\<lambda>_. t)))" for w t
        by (intro quiet_update; simp)+
      have c2: "advances c c2" unfolding c2_def c1_def by (intro up(1) [THEN quiet_advances]) auto
      have s1: "ss_number s1 = ss_number s" "live_session s1" using assms by (simp_all add: s1_def live_session_def)
      have sent: "live_session (snd (session_send g s1))" for g using s1(2) by (simp add: live_session_def)
      have beat: "session_turn s c (handle_heartbeat f s1 c2)"
        unfolding handle_heartbeat_def Let_def case_prod_beta
        by (auto simp: send_error_parts s1 split: sum.split intro!: turn_finish turn_stays c2 up(2) [THEN quiet_advances])
      have ev: "session_turn s c (handle_evidence f s1 c2)"
        unfolding handle_evidence_def Let_def case_prod_beta
        by (auto simp: send_error_parts s1 sent split: sum.split intro!: turn_finish turn_stays c2)
      have other: "session_turn s c (finish False (fst (send_error StProtocol ''unexpected message type'' s1
          (tally cs_frames_rejected_update c2))) (snd (send_error StProtocol ''unexpected message type'' s1
          (tally cs_frames_rejected_update c2))))"
        by (auto simp: send_error_parts s1 intro!: turn_finish c2)
      show ?thesis unfolding eq handle_frame_def Let_def case_prod_beta
        using beat ev other turn_finish [OF c2 s1(1)] by (simp split: message_type.split)
    qed
  qed
qed

lemma turn_step: "live_session s \<Longrightarrow> session_turn s c (session_step s c)"
  by (cases "ss_phase s") (simp_all add: session_step_def turn_hello turn_frame live_session_def)

section \<open>The invariant\<close>

definition service_ok :: "service \<Rightarrow> bool" where
  "service_ok v \<longleftrightarrow> registry_ok (sv_coordinator v) \<and> distinct (map ss_number (sv_sessions v)) \<and>
     co_session_channels (sv_coordinator v) = map ss_number (filter live_session (sv_sessions v)) \<and>
     co_active_sessions (sv_coordinator v) = length (co_session_channels (sv_coordinator v)) \<and>
     length (filter live_session (sv_sessions v)) \<le> cc_max_workers (co_config (sv_coordinator v))"

lemma adopt_keeps:
  assumes "adopt_authority c = (st, d)"
  shows "co_workers d = co_workers c" "co_active_sessions d = co_active_sessions c"
    "co_session_channels d = co_session_channels c" "co_config d = co_config c"
  using assms by (auto simp: adopt_authority_def Let_def split: option.splits sum.splits prod.splits if_splits)

lemma started_ok:
  assumes "coordinator_start net minted listening cfg c = (st, c')" "is_ok st"
    "co_workers c = []" "co_active_sessions c = 0" "co_session_channels c = []"
  shows "service_ok \<lparr>sv_coordinator = c', sv_sessions = []\<rparr> \<and>
    authority_of (co_governor c') = (co_epoch c', co_incarnation c', co_boot c')"
proof -
  define c0 where "c0 = start_fields minted cfg c"
  show ?thesis
  proof (rule start_authority [OF assms(1,2), folded c0_def])
    fix st1 c1 g st2
    assume a: "adopt_authority c0 = (st1, c1)"
      and c': "co_config c' = co_config c1" "co_workers c' = co_workers c1" "co_active_sessions c' = co_active_sessions c1"
        "co_session_channels c' = co_session_channels c1" "co_governor c' = g"
      and b: "bind_authority (co_epoch c') (co_incarnation c') (co_boot c') (co_governor c1) = (st2, g)" "is_ok st2"
    show ?thesis
      using adopt_keeps [OF a] c' bind_authority_binds(1) [OF b] assms(3-5)
      by (simp add: service_ok_def registry_ok_def c0_def start_fields_def)
  qed
qed

lemma retire_list:
  assumes "distinct (map ss_number ss)" "i < length ss" "live_session (ss ! i)" "\<not> live_session s'"
  shows "map ss_number (filter live_session (ss[i := s'])) =
    remove1 (ss_number (ss ! i)) (map ss_number (filter live_session ss))"
  using assms
proof (induction ss arbitrary: i)
  case (Cons s ss)
  show ?case
  proof (cases i)
    case 0
    then show ?thesis using Cons.prems by simp
  next
    case (Suc j)
    then have "ss_number s \<noteq> ss_number (ss ! j)" using Cons.prems(1,2) by auto
    then show ?thesis using Cons Suc by simp
  qed
qed simp

lemma stay_list:
  assumes "i < length ss" "live_session (ss ! i)" "live_session s'" "ss_number s' = ss_number (ss ! i)"
  shows "map ss_number (filter live_session (ss[i := s'])) = map ss_number (filter live_session ss)"
  using assms by (induction ss arbitrary: i) (auto split: nat.split)

lemma numbers_kept:
  assumes "i < length ss" "ss_number s' = ss_number (ss ! i)"
  shows "map ss_number (ss[i := s']) = map ss_number ss"
  using assms by (metis list_update_id map_update nth_map length_map)

lemma registry_ok_frame:
  "registry_ok (c\<lparr>co_active_sessions := n, co_session_channels := ns\<rparr>) = registry_ok c"
  "registry_ok (c\<lparr>co_running := b\<rparr>) = registry_ok c"
proof -
  have "admitted_here (c\<lparr>co_active_sessions := n, co_session_channels := ns\<rparr>) = admitted_here c"
    "admitted_here (c\<lparr>co_running := b\<rparr>) = admitted_here c" by (simp_all add: admitted_here_def)
  then show "registry_ok (c\<lparr>co_active_sessions := n, co_session_channels := ns\<rparr>) = registry_ok c"
    "registry_ok (c\<lparr>co_running := b\<rparr>) = registry_ok c" by (simp_all add: registry_ok_def)
qed

lemma serve_ok:
  assumes "service_ok v" "i < length (sv_sessions v)"
  shows "service_ok (serve_at i v)"
proof (cases "live_session (sv_sessions v ! i)")
  case False
  then have "session_step (sv_sessions v ! i) (sv_coordinator v) = (sv_sessions v ! i, sv_coordinator v)"
    by (simp add: session_step_def live_session_def)
  then have "serve_at i v = v" by (simp add: serve_at_def)
  then show ?thesis using assms by simp
next
  case live: True
  define s where "s = sv_sessions v ! i"
  obtain s' c' where st: "session_step s (sv_coordinator v) = (s', c')" by fastforce
  have "session_turn s (sv_coordinator v) (s', c')"
    using turn_step [of s "sv_coordinator v"] live by (simp add: st s_def [symmetric])
  then obtain d where
    d: "advances (sv_coordinator v) d" "ss_number s' = ss_number s"
      "c' = (if live_session s' then d else retire_session (ss_number s) d)"
    by (auto simp: session_turn_def)
  have eq: "serve_at i v = \<lparr>sv_coordinator = c', sv_sessions = (sv_sessions v)[i := s']\<rparr>"
    by (simp add: serve_at_def s_def [symmetric] st)
  note ok = assms(1) [unfolded service_ok_def]
  have dd: "registry_ok d" "co_session_channels d = co_session_channels (sv_coordinator v)"
      "co_active_sessions d = co_active_sessions (sv_coordinator v)" "co_config d = co_config (sv_coordinator v)"
    using d(1) ok by (auto simp: advances_def same_sessions_def)
  have nums: "map ss_number ((sv_sessions v)[i := s']) = map ss_number (sv_sessions v)"
    using numbers_kept assms(2) d(2) by (simp add: s_def)
  show ?thesis
  proof (cases "live_session s'")
    case True
    have r: "map ss_number (filter live_session ((sv_sessions v)[i := s'])) = map ss_number (filter live_session (sv_sessions v))"
      using stay_list [OF assms(2) live True] d(2) by (simp add: s_def)
    then show ?thesis using map_eq_imp_length_eq [OF r] r True d(3) dd ok nums by (simp add: eq service_ok_def)
  next
    case False
    have r: "map ss_number (filter live_session ((sv_sessions v)[i := s'])) =
        remove1 (ss_number s) (map ss_number (filter live_session (sv_sessions v)))"
      using retire_list [OF _ assms(2) live False] ok by (simp add: s_def)
    have "ss_number s \<in> set (co_session_channels (sv_coordinator v))"
      using ok live assms(2) by (auto simp: s_def)
    then have l: "length (remove1 (ss_number s) (co_session_channels (sv_coordinator v))) =
        length (co_session_channels (sv_coordinator v)) - 1" by (simp add: length_remove1)
    have c': "c' = d\<lparr>co_active_sessions := co_active_sessions d - 1,
        co_session_channels := remove1 (ss_number s) (co_session_channels d)\<rparr>"
      using d(3) False by (simp add: retire_session_def)
    have "registry_ok c'" using dd(1) by (simp add: c' registry_ok_frame)
    moreover have "length (filter live_session ((sv_sessions v)[i := s'])) \<le> length (filter live_session (sv_sessions v))"
      using arg_cong [OF r, of length] by (simp add: length_remove1 split: if_splits)
    ultimately show ?thesis using dd ok nums r l by (simp add: eq service_ok_def c')
  qed
qed

lemma accept_ok:
  assumes "service_ok v" "n \<notin> ss_number ` set (sv_sessions v)"
  shows "service_ok (accept_at sock n v)"
proof -
  define c where "c = tally cs_connections_accepted_update (sv_coordinator v)"
  define d where "d = tally cs_capacity_rejections_update c"
  note ok = assms(1) [unfolded service_ok_def]
  have cd: "registry_ok c" "same_sessions (sv_coordinator v) c" "registry_ok d" "same_sessions (sv_coordinator v) d"
    using ok tallied.keeps_registry tallied.keeps_sessions same_sessions_trans unfolding c_def d_def by blast+
  show ?thesis
  proof (cases "\<not> co_running (sv_coordinator v) \<or> co_active_sessions c \<ge> cc_max_workers (co_config c)")
    case True
    then have "accept_at sock n v = v \<or> accept_at sock n v = v\<lparr>sv_coordinator := d\<rparr>"
      by (auto simp: accept_at_def accept_step_def c_def [symmetric] d_def [symmetric] Let_def)
    then show ?thesis using assms(1) cd(3,4) ok by (auto simp: service_ok_def same_sessions_def)
  next
    case False
    then have eq: "accept_at sock n v = \<lparr>sv_coordinator = register_session n c,
        sv_sessions = sv_sessions v @ [session_new n (channel_new sock)]\<rparr>"
      by (simp add: accept_at_def accept_step_def c_def [symmetric] d_def [symmetric] Let_def)
    have "live_session (session_new n (channel_new sock))" "ss_number (session_new n (channel_new sock)) = n"
      by (simp_all add: live_session_def session_new_def)
    then show ?thesis using False cd(1,2) ok assms(2)
      by (simp add: eq service_ok_def register_session_def registry_ok_frame same_sessions_def not_le)
  qed
qed

lemma stop_keeps:
  "map ss_number (sv_sessions (stop_service v)) = map ss_number (sv_sessions v)"
  "map ss_number (filter live_session (sv_sessions (stop_service v))) = map ss_number (filter live_session (sv_sessions v))"
proof -
  have "ss_number (interrupt_session s) = ss_number s" "live_session (interrupt_session s) = live_session s" for s
    by (simp_all add: interrupt_session_def live_session_def)
  then show "map ss_number (sv_sessions (stop_service v)) = map ss_number (sv_sessions v)"
    "map ss_number (filter live_session (sv_sessions (stop_service v))) = map ss_number (filter live_session (sv_sessions v))"
    by (auto simp: stop_service_def filter_map comp_def if_distrib [of live_session] cong: if_cong)
qed

lemma stop_ok:
  assumes "service_ok v"
  shows "service_ok (stop_service v)"
proof -
  define c where "c = sv_coordinator (stop_service v)"
  have "registry_ok c = registry_ok (sv_coordinator v)" "co_session_channels c = co_session_channels (sv_coordinator v)"
    "co_active_sessions c = co_active_sessions (sv_coordinator v)" "co_config c = co_config (sv_coordinator v)"
    by (simp_all add: c_def stop_service_def stop_begin_def registry_ok_frame)
  then show ?thesis
    using assms stop_keeps [of v] map_eq_imp_length_eq [OF stop_keeps(2) [of v]]
    unfolding service_ok_def c_def [symmetric] by simp
qed

lemma service_step_ok: "service_step v w \<Longrightarrow> service_ok v \<Longrightarrow> service_ok w"
  by (induction rule: service_step.induct) (simp_all add: accept_ok serve_ok stop_ok)

lemma operate_ok: "service_ok v \<Longrightarrow> service_ok (operate f v)"
proof -
  have "admitted_here (c\<lparr>co_governor := g\<rparr>) = admitted_here c" for c g by (simp add: admitted_here_def)
  then show "service_ok v \<Longrightarrow> service_ok (operate f v)"
    by (simp add: service_ok_def registry_ok_def operate_def)
qed

lemma serving_as_ok: "serving_as a v \<Longrightarrow> service_ok v"
  by (induction rule: serving_as.induct) (auto dest: started_ok intro: service_step_ok operate_ok)

lemma serving_ok: "serving v \<Longrightarrow> service_ok v"
  using serving_as_ok by (auto simp: serving_def)

text \<open>No step of the service touches either authority; an operation of the owner may bind the governor.\<close>

lemma step_authorities:
  assumes "service_step v w"
  shows "authorities (sv_coordinator w) = authorities (sv_coordinator v)"
  using assms
proof (induction rule: service_step.induct)
  case (accepts n v sock)
  have "authorities (register_session n c) = authorities c" "authorities (tally f c) = authorities c" for c f
    using tallied.keeps_sessions [of c f] by (simp_all add: register_session_def authorities_def same_sessions_def)
  then show ?case by (simp add: accept_at_def accept_step_def Let_def)
next
  case (serves i v)
  have r: "authorities (retire_session n c) = authorities c" for n c by (simp add: retire_session_def authorities_def)
  show ?case
  proof (cases "live_session (sv_sessions v ! i)")
    case True
    from turn_step [OF True, of "sv_coordinator v"] r show ?thesis
      by (auto simp: session_turn_def advances_def same_sessions_def serve_at_def case_prod_beta Let_def)
  next
    case False
    then show ?thesis by (simp add: serve_at_def session_step_def live_session_def)
  qed
next
  case (stops v)
  show ?case by (simp add: stop_service_def stop_begin_def authorities_def)
qed

lemma operate_authorities:
  "authorities (sv_coordinator (operate f v)) =
     (fst (authorities (sv_coordinator v)), authority_of (f (co_governor (sv_coordinator v))))"
  by (simp add: operate_def authorities_def)

lemma operation_binds:
  "authority_of (gov_step op g) = (case rebound op g None of None \<Rightarrow> authority_of g | Some a \<Rightarrow> a)"
proof (cases "\<exists>e i n. op = GoBindAuthority e i n")
  case True
  then obtain e i n where op: "op = GoBindAuthority e i n" by blast
  obtain st g' where b: "bind_authority e i n g = (st, g')" by fastforce
  show ?thesis using bind_authority_binds(1) [OF b] refused_binding [of e i n g]
    by (cases "is_ok st") (simp_all add: op rebound_def b)
next
  case False
  then have "rebound op g None = None" by (cases op) (simp_all add: rebound_def)
  then show ?thesis using operations_keep_authority [of op g] False by simp
qed

lemma rebound_cases: "rebound op g a = (case rebound op g None of None \<Rightarrow> a | Some x \<Rightarrow> Some x)"
  by (cases op) (simp_all add: rebound_def)

lemma serving_as_bound:
  "serving_as a v \<Longrightarrow> authority_of (co_governor (sv_coordinator v)) = (case a of
     None \<Rightarrow> (co_epoch (sv_coordinator v), co_incarnation (sv_coordinator v), co_boot (sv_coordinator v)) | Some x \<Rightarrow> x)"
proof (induction rule: serving_as.induct)
  case (started net minted listening cfg c st c')
  then show ?case using started_ok by fastforce
next
  case (continued a v w)
  with step_authorities [OF continued(2)] show ?case by (auto simp: authorities_def split: option.splits)
next
  case (operated a v op)
  with operate_authorities [of "gov_step op" v] operation_binds [of op "co_governor (sv_coordinator v)"]
    rebound_cases [of op "co_governor (sv_coordinator v)" a]
  show ?case by (auto simp: authorities_def split: option.splits)
next
  case (recovered a v)
  with operate_authorities [of "\<lambda>g. snd (restore g)" v] show ?case
    by (auto simp: authorities_def restore_bound split: option.splits)
qed

section \<open>Shutdown\<close>

text \<open>
  The wait of \<open>stop\<close> ends: once the channels are interrupted, one more turn of each session ends
  it, whatever it was doing, and then no session is active.
\<close>

lemma interrupted_receive:
  "\<exists>st ch'. channel_receive (channel_interrupt ch) = (Inl st, ch')"
proof -
  define s where "s = socket_interrupt (ch_socket ch)"
  have "\<exists>st s'. recv_all kFrameHeaderBytes s = (Inl st, s')"
  proof (cases "sk_open (ch_socket ch)")
    case True
    then have "sk_open s" "sk_stream s = []" by (simp_all add: s_def socket_interrupt_def)
    then show ?thesis by (simp add: recv_all_def recv_loop.simps kFrameHeaderBytes_def)
  next
    case False
    then show ?thesis by (simp add: s_def socket_interrupt_def recv_all_def)
  qed
  then show ?thesis by (auto simp: channel_receive_def channel_interrupt_def s_def [symmetric])
qed

lemma finish_ends [simp]: "\<not> live_session (fst (finish b s c))"
  by (simp add: live_session_def)

lemma interrupted_session_ends: "\<not> live_session (fst (session_step (interrupt_session s) c))"
proof -
  obtain st ch where r: "channel_receive (ss_channel (interrupt_session s)) = (Inl st, ch)"
    using interrupted_receive [of "ss_channel s"] by (auto simp: interrupt_session_def)
  have p: "ss_phase (interrupt_session s) = ss_phase s" by (simp add: interrupt_session_def)
  show ?thesis
  proof (cases "ss_phase s")
    case SpHello
    then show ?thesis by (simp add: session_step_def p session_hello_def r)
  next
    case SpFrames
    then show ?thesis by (simp add: session_step_def p session_frame_def r)
  next
    case SpDone
    then show ?thesis by (simp add: session_step_def p live_session_def)
  qed
qed

lemma stopped_session:
  assumes "service_ok v" "s \<in> set (sv_sessions (stop_service v))" "live_session s"
  obtains r where "s = interrupt_session r"
proof -
  from assms(2) obtain r where r: "r \<in> set (sv_sessions v)"
    "s = (if ss_number r \<in> set (co_session_channels (sv_coordinator v)) then interrupt_session r else r)"
    by (auto simp: stop_service_def)
  have "ss_number r \<in> set (co_session_channels (sv_coordinator v))"
  proof (rule ccontr)
    assume n: "ss_number r \<notin> set (co_session_channels (sv_coordinator v))"
    then have "live_session r" using r assms(3) by simp
    then show False using n r(1) assms(1) by (auto simp: service_ok_def)
  qed
  then show ?thesis using r that by simp
qed

definition drain :: "nat \<Rightarrow> service \<Rightarrow> service" where
  "drain n v = fold serve_at [0..<n] v"

lemma drain_Suc: "drain (Suc n) v = serve_at n (drain n v)"
  by (simp add: drain_def)

lemma drain_sessions:
  assumes "\<And>s. s \<in> set (sv_sessions v) \<Longrightarrow> live_session s \<Longrightarrow> \<exists>r. s = interrupt_session r" "n \<le> length (sv_sessions v)"
  shows "length (sv_sessions (drain n v)) = length (sv_sessions v) \<and>
    (\<forall>i<n. \<not> live_session (sv_sessions (drain n v) ! i)) \<and>
    (\<forall>i. n \<le> i \<longrightarrow> i < length (sv_sessions v) \<longrightarrow> sv_sessions (drain n v) ! i = sv_sessions v ! i)"
  using assms(2)
proof (induction n)
  case 0
  show ?case by (simp add: drain_def)
next
  case (Suc n)
  define s where "s = sv_sessions (drain n v) ! n"
  have ih: "length (sv_sessions (drain n v)) = length (sv_sessions v)"
    "\<And>i. i < n \<Longrightarrow> \<not> live_session (sv_sessions (drain n v) ! i)"
    "\<And>i. n \<le> i \<Longrightarrow> i < length (sv_sessions v) \<Longrightarrow> sv_sessions (drain n v) ! i = sv_sessions v ! i"
    using Suc by auto
  have s: "s = sv_sessions v ! n" using ih(3) [of n] Suc.prems by (simp add: s_def)
  have dead: "\<not> live_session (fst (session_step s c))" for c
  proof (cases "live_session s")
    case True
    then obtain r where "s = interrupt_session r" using assms(1) [of s] Suc.prems s by auto
    then show ?thesis using interrupted_session_ends by simp
  next
    case False
    then show ?thesis by (simp add: session_step_def live_session_def)
  qed
  have eq: "sv_sessions (drain (Suc n) v) =
      (sv_sessions (drain n v))[n := fst (session_step s (sv_coordinator (drain n v)))]"
    by (simp add: drain_Suc serve_at_def s_def case_prod_beta)
  show ?case using ih Suc.prems dead by (auto simp: eq nth_list_update less_Suc_eq)
qed

lemma drain_ok: "service_ok v \<Longrightarrow> n \<le> length (sv_sessions v) \<Longrightarrow> service_ok (drain n v)"
proof (induction n)
  case (Suc n)
  have "length (sv_sessions (drain m v)) = length (sv_sessions v)" for m
    by (induction m) (simp_all add: drain_Suc serve_at_def case_prod_beta, simp add: drain_def)
  then show ?case using Suc by (simp add: drain_Suc serve_ok)
qed (simp add: drain_def)

lemma stop_drains_sessions:
  assumes "service_ok v"
  shows "co_active_sessions (sv_coordinator (drain (length (sv_sessions v)) (stop_service v))) = 0"
proof -
  define w where "w = stop_service v"
  have len: "length (sv_sessions w) = length (sv_sessions v)" by (simp add: w_def stop_service_def)
  have w: "service_ok w" unfolding w_def by (rule stop_ok [OF assms])
  have int: "\<exists>r. s = interrupt_session r" if "s \<in> set (sv_sessions w)" "live_session s" for s
    using stopped_session [OF assms] that unfolding w_def by metis
  define z where "z = drain (length (sv_sessions w)) w"
  have "length (sv_sessions z) = length (sv_sessions w) \<and> (\<forall>i<length (sv_sessions w). \<not> live_session (sv_sessions z ! i))"
    using drain_sessions [of w "length (sv_sessions w)"] int by (simp add: z_def)
  then have "filter live_session (sv_sessions z) = []" by (auto simp: filter_empty_conv in_set_conv_nth)
  moreover have "service_ok z" unfolding z_def by (rule drain_ok [OF w]) simp
  ultimately show ?thesis by (simp add: service_ok_def z_def w_def [symmetric] len)
qed

text \<open>Waiting for the sessions to end; \<open>None\<close> is a wait that goes on.\<close>

definition wait_for_sessions :: "coordinator \<Rightarrow> bool option" where
  "wait_for_sessions c =
     (if \<not> co_started c then Some False else if co_active_sessions c = 0 then Some True else None)"

lemma waiting_ends:
  "service_ok v \<Longrightarrow> wait_for_sessions (sv_coordinator (drain (length (sv_sessions v)) (stop_service v))) =
     Some (co_started (sv_coordinator (drain (length (sv_sessions v)) (stop_service v))))"
  using stop_drains_sessions by (simp add: wait_for_sessions_def)

end
