(* ===== verification/Generator.thy ===== *)
theory Generator
  imports Explanation Samples "HOL-Library.Multiset"
begin

text \<open>
  Synthetic evidence (\<open>synthetic/generator.hpp\<close>, \<open>synthetic/generator.cpp\<close>): the seeded generator of
  traces in thirteen shapes, and the line based text format of traces. The loop of the generator
  steps an unsigned index by a configured interval, so that it ends is proved and not assumed.
\<close>

section \<open>Shapes\<close>

datatype trace_shape = ShSteady | ShMicroburst | ShRamp | ShOscillating | ShNoisySteady | ShSparseSampling
  | ShCounterReset | ShCapacityChange | ShMissingSamples | ShReordered | ShDuplicate | ShShallowNoise | ShLongBurst

primrec shape_to_string :: "trace_shape \<Rightarrow> string" where
  "shape_to_string ShSteady = ''steady''"
| "shape_to_string ShMicroburst = ''microburst''"
| "shape_to_string ShRamp = ''ramp''"
| "shape_to_string ShOscillating = ''oscillating''"
| "shape_to_string ShNoisySteady = ''noisy-steady''"
| "shape_to_string ShSparseSampling = ''sparse-sampling''"
| "shape_to_string ShCounterReset = ''counter-reset''"
| "shape_to_string ShCapacityChange = ''capacity-change''"
| "shape_to_string ShMissingSamples = ''missing-samples''"
| "shape_to_string ShReordered = ''reordered''"
| "shape_to_string ShDuplicate = ''duplicate''"
| "shape_to_string ShShallowNoise = ''shallow-noise''"
| "shape_to_string ShLongBurst = ''long-burst''"

definition kShapes :: "trace_shape list" where
  "kShapes = [ShSteady, ShMicroburst, ShRamp, ShOscillating, ShNoisySteady, ShSparseSampling, ShCounterReset,
     ShCapacityChange, ShMissingSamples, ShReordered, ShDuplicate, ShShallowNoise, ShLongBurst]"

definition parse_shape :: "string \<Rightarrow> trace_shape option" where
  "parse_shape text = find (\<lambda>candidate. text = shape_to_string candidate) kShapes"

definition shape_names :: string where
  "shape_names = foldl (\<lambda>out candidate. (if out \<noteq> [] then out @ '', '' else out) @ shape_to_string candidate) [] kShapes"

section \<open>Generation\<close>

record generator_config =
  gn_shape :: trace_shape
  gn_seed :: u64
  gn_resource :: u64
  gn_queue :: u64
  gn_path :: u64
  gn_resource_generation :: u32
  gn_provenance :: u64
  gn_start_tick :: u64
  gn_ticks :: u64
  gn_sample_interval :: u64
  gn_burst_start :: u64
  gn_burst_ticks :: u64
  gn_baseline_depth :: u64
  gn_peak_depth :: u64
  gn_baseline_occupancy_bytes :: u64
  gn_peak_occupancy_bytes :: u64
  gn_capacity_bytes :: u64
  gn_baseline_rate_q16 :: u64
  gn_peak_rate_q16 :: u64
  gn_drain_rate_q16 :: u64

definition generator_config_default :: generator_config where
  "generator_config_default = \<lparr>gn_shape = ShMicroburst, gn_seed = 1, gn_resource = 1, gn_queue = 1, gn_path = 1,
     gn_resource_generation = 1, gn_provenance = 1, gn_start_tick = 0, gn_ticks = 512, gn_sample_interval = 1,
     gn_burst_start = 128, gn_burst_ticks = 24, gn_baseline_depth = 128, gn_peak_depth = 9216,
     gn_baseline_occupancy_bytes = push_bit 14 1, gn_peak_occupancy_bytes = push_bit 19 1,
     gn_capacity_bytes = push_bit 20 1, gn_baseline_rate_q16 = rate_from_whole 120,
     gn_peak_rate_q16 = rate_from_whole 9000, gn_drain_rate_q16 = rate_from_whole 4000\<rparr>"

text \<open>The local variables of \<open>generate\<close> that live across the turns of its loop.\<close>

record gen_state =
  gt_rng :: rng
  gt_ingress_total :: u64
  gt_egress_total :: u64
  gt_drop_total :: u64
  gt_mark_total :: u64
  gt_sequence :: u64
  gt_capacity :: u64
  gt_samples :: "sample list"

text \<open>Those of one turn.\<close>

record signal =
  sg_depth :: u64
  sg_occupancy :: u64
  sg_ingress :: u64
  sg_egress :: u64

definition add_flag :: "u32 \<Rightarrow> sample \<Rightarrow> sample" where
  "add_flag f x = x\<lparr>sm_flags := sm_flags x OR f\<rparr>"

definition burst_signal :: "generator_config \<Rightarrow> signal \<Rightarrow> signal" where
  "burst_signal cfg s = s\<lparr>sg_depth := gn_peak_depth cfg, sg_occupancy := gn_peak_occupancy_bytes cfg,
     sg_ingress := gn_peak_rate_q16 cfg\<rparr>"

definition drained_signal :: "generator_config \<Rightarrow> signal \<Rightarrow> signal" where
  "drained_signal cfg s = (burst_signal cfg s)\<lparr>sg_egress := gn_drain_rate_q16 cfg\<rparr>"

text \<open>The switch over the shape; \<open>None\<close> is a turn that leaves the loop body early and emits no sample.\<close>

definition shape_point ::
  "generator_config \<Rightarrow> u64 \<Rightarrow> u64 \<Rightarrow> sample \<Rightarrow> signal \<Rightarrow> gen_state \<Rightarrow> (sample \<times> signal \<times> gen_state) option" where
  "shape_point cfg interval index x s st =
     (let burst_begin = gn_burst_start cfg; burst_end = gn_burst_start cfg + gn_burst_ticks cfg;
          in_burst = (index \<ge> burst_begin \<and> index < burst_end);
          baseline = gn_baseline_depth cfg
      in case gn_shape cfg of
        ShSteady \<Rightarrow> Some (x, s, st)
      | ShMicroburst \<Rightarrow> Some (x, if in_burst then drained_signal cfg s else s, st)
      | ShLongBurst \<Rightarrow>
          Some (x, if index \<ge> burst_begin \<and> index < burst_begin + gn_burst_ticks cfg * 4
            then s\<lparr>sg_depth := baseline + (gn_peak_depth cfg - baseline) div 2,
                   sg_occupancy := gn_baseline_occupancy_bytes cfg + 4096,
                   sg_ingress := gn_peak_rate_q16 cfg div 2, sg_egress := gn_drain_rate_q16 cfg\<rparr>
            else s, st)
      | ShRamp \<Rightarrow>
          Some (x, if in_burst
            then let spread = max (gn_burst_ticks cfg) 1; progress = index - burst_begin;
                     steps = gn_peak_depth cfg - baseline
                 in s\<lparr>sg_depth := baseline + (steps * progress) div spread,
                      sg_occupancy := gn_baseline_occupancy_bytes cfg + 4096 * progress,
                      sg_ingress := gn_peak_rate_q16 cfg, sg_egress := gn_baseline_rate_q16 cfg\<rparr>
            else s, st)
      | ShOscillating \<Rightarrow>
          let period = max (gn_burst_ticks cfg) 2; phase = index mod period
          in Some (x, if phase < period div 2 then drained_signal cfg s else s, st)
      | ShCounterReset \<Rightarrow>
          let (x, st) = (if index = burst_begin
                then (add_flag flag_counter_reset x, st\<lparr>gt_ingress_total := 0, gt_egress_total := 0,
                        gt_drop_total := 0, gt_mark_total := 0\<rparr>)
                else (x, st))
          in Some (x, if in_burst then burst_signal cfg s else s, st)
      | ShCapacityChange \<Rightarrow>
          if in_burst then
            let halved = gn_capacity_bytes cfg div 2
            in Some ((add_flag flag_capacity_change x)\<lparr>sm_capacity_bytes := halved\<rparr>,
                 s\<lparr>sg_occupancy := min (gn_peak_occupancy_bytes cfg) halved, sg_depth := gn_peak_depth cfg,
                   sg_ingress := gn_peak_rate_q16 cfg\<rparr>, st\<lparr>gt_capacity := halved\<rparr>)
          else Some (x\<lparr>sm_capacity_bytes := gt_capacity st\<rparr>, s, st)
      | _ \<Rightarrow>
          if gn_shape cfg \<in> {ShNoisySteady, ShShallowNoise} then
            let amplitude = (if gn_shape cfg = ShShallowNoise then baseline div 4 else baseline div 2);
                (noise, r) = rng_bounded (gt_rng st) (amplitude + 1);
                (extra, r) = rng_bounded r 1024
            in Some (x, s\<lparr>sg_depth := baseline + noise,
                 sg_occupancy := gn_baseline_occupancy_bytes cfg + noise * 16,
                 sg_ingress := gn_baseline_rate_q16 cfg + extra, sg_egress := gn_baseline_rate_q16 cfg\<rparr>,
                 st\<lparr>gt_rng := r\<rparr>)
          else if gn_shape cfg \<in> {ShSparseSampling, ShMissingSamples} then
            if gn_shape cfg = ShSparseSampling \<and> (index div interval) mod 5 \<noteq> 0 then None
            else if gn_shape cfg \<noteq> ShSparseSampling \<and> in_burst then None
            else Some (add_flag flag_sparse x, if in_burst then burst_signal cfg s else s, st)
          else Some (x, if in_burst then burst_signal cfg s else s, st))"

text \<open>A rate adds its whole part, and nothing when its signed reading is negative.\<close>

definition whole_rate :: "u64 \<Rightarrow> u64" where
  "whole_rate r = (if sint r < 0 then 0 else drop_bit kRateFractionBits r)"

definition gen_step :: "generator_config \<Rightarrow> u64 \<Rightarrow> u64 \<Rightarrow> gen_state \<Rightarrow> gen_state" where
  "gen_step cfg interval index st =
     (let in_burst = (index \<ge> gn_burst_start cfg \<and> index < gn_burst_start cfg + gn_burst_ticks cfg);
          x = sample_default\<lparr>sm_stream := StreamKey (gn_resource cfg) (gn_queue cfg) (gn_path cfg),
            sm_resource_generation := gn_resource_generation cfg, sm_provenance := gn_provenance cfg,
            sm_tick := gn_start_tick cfg + index, sm_seq := gt_sequence st, sm_flags := flag_synthetic,
            sm_capacity_bytes := gt_capacity st\<rparr>;
          s = \<lparr>sg_depth = gn_baseline_depth cfg, sg_occupancy = gn_baseline_occupancy_bytes cfg,
            sg_ingress = gn_baseline_rate_q16 cfg, sg_egress = gn_baseline_rate_q16 cfg\<rparr>
      in case shape_point cfg interval index x s st of
           None \<Rightarrow> st
         | Some (x, s, st) \<Rightarrow>
             let st = st\<lparr>gt_ingress_total := gt_ingress_total st + whole_rate (sg_ingress s),
                   gt_egress_total := gt_egress_total st + whole_rate (sg_egress s)\<rparr>;
                 st = (if in_burst \<and> gn_shape cfg \<noteq> ShSteady
                   then st\<lparr>gt_drop_total := gt_drop_total st + 3, gt_mark_total := gt_mark_total st + 7\<rparr> else st);
                 x = x\<lparr>sm_depth := sg_depth s, sm_occupancy_bytes := sg_occupancy s,
                   sm_ingress_rate_q16 := sg_ingress s, sm_egress_rate_q16 := sg_egress s,
                   sm_ingress_total := gt_ingress_total st, sm_egress_total := gt_egress_total st,
                   sm_drop_total := gt_drop_total st, sm_mark_total := gt_mark_total st\<rparr>
             in st\<lparr>gt_samples := gt_samples st @ [x], gt_sequence := gt_sequence st + 1\<rparr>)"

text \<open>The loop, whose index may wrap: not to return would be the value \<open>None\<close>.\<close>

partial_function (option) gen_loop ::
  "generator_config \<Rightarrow> u64 \<Rightarrow> u64 \<Rightarrow> u64 \<Rightarrow> gen_state \<Rightarrow> gen_state option" where
  "gen_loop cfg interval tick_count index st =
     (if index \<le> tick_count
      then gen_loop cfg interval tick_count (index + interval) (gen_step cfg interval index st)
      else Some st)"

function swap_pairs :: "nat \<Rightarrow> sample list \<Rightarrow> sample list" where
  "swap_pairs i xs =
     (if i + 1 < length xs then swap_pairs (i + 7) (xs[i := xs ! (i + 1), i + 1 := xs ! i]) else xs)"
  by pat_completeness auto
termination by (relation "measure (\<lambda>(i, xs). length xs - i)") auto

declare swap_pairs.simps [simp del]

definition duplicate_some :: "sample list \<Rightarrow> sample list" where
  "duplicate_some xs = concat (map (\<lambda>x. if sm_seq x mod 11 = 0 then [x, x] else [x]) xs)"

definition generate :: "generator_config \<Rightarrow> sample list option" where
  "generate cfg =
     (let interval = max (gn_sample_interval cfg) 1; tick_count = min (gn_ticks cfg) (push_bit 20 1);
          st = \<lparr>gt_rng = \<lparr>rng_state = gn_seed cfg\<rparr>, gt_ingress_total = 0, gt_egress_total = 0, gt_drop_total = 0,
            gt_mark_total = 0, gt_sequence = 1, gt_capacity = gn_capacity_bytes cfg, gt_samples = []\<rparr>
      in case gen_loop cfg interval tick_count 0 st of
           None \<Rightarrow> None
         | Some st \<Rightarrow>
             let xs = gt_samples st
             in Some (if gn_shape cfg = ShReordered then swap_pairs 1 xs
                      else if gn_shape cfg = ShDuplicate then duplicate_some xs else xs))"

section \<open>Trace text\<close>

definition is_digit_char :: "char \<Rightarrow> bool" where
  "is_digit_char c \<longleftrightarrow> of_char c \<ge> (48 :: nat) \<and> of_char c \<le> (57 :: nat)"

definition digits_value :: "string \<Rightarrow> nat" where
  "digits_value ds = foldl (\<lambda>v c. 10 * v + (of_char c - 48)) 0 ds"

text \<open>
  \<open>std::from_chars\<close> at base ten: the longest prefix of digits, refused when it is empty or does not
  fit 64 bits; the value and what follows.
\<close>

definition from_chars :: "string \<Rightarrow> (u64 \<times> string) option" where
  "from_chars s =
     (let ds = takeWhile is_digit_char s; v = digits_value ds
      in if ds = [] \<or> v \<ge> 2 ^ 64 then None else Some (of_nat v, drop (length ds) s))"

definition parse_u64 :: "string \<Rightarrow> u64 option" where
  "parse_u64 token =
     (if token = [] then None
      else case from_chars token of
        None \<Rightarrow> None
      | Some (v, rest) \<Rightarrow> if rest \<noteq> [] then None else Some v)"

definition is_space_char :: "char \<Rightarrow> bool" where
  "is_space_char c \<longleftrightarrow> c = CHR '' '' \<or> of_char c \<ge> (9 :: nat) \<and> of_char c \<le> (13 :: nat)"

text \<open>The tokens that \<open>stream >> token\<close> yields; the accumulator is the token being read.\<close>

fun tokens :: "string \<Rightarrow> string \<Rightarrow> string list" where
  "tokens [] cur = (if cur = [] then [] else [cur])"
| "tokens (c # cs) cur =
     (if is_space_char c then (if cur = [] then tokens cs [] else cur # tokens cs [])
      else tokens cs (cur @ [c]))"

fun parse_fields :: "string list \<Rightarrow> u64 list \<Rightarrow> u64 list result" where
  "parse_fields [] vs = Inr vs"
| "parse_fields (t # ts) vs =
     (if length vs \<ge> 14 then Inl (failure StInvalidArgument ''trace line has too many fields'')
      else case parse_u64 t of
        None \<Rightarrow> Inl (failure StInvalidArgument ''trace line has a non numeric field'')
      | Some v \<Rightarrow> parse_fields ts (vs @ [v]))"

text \<open>The sample of fourteen values.\<close>

definition sample_of_fields :: "u64 list \<Rightarrow> sample" where
  "sample_of_fields v = sample_default\<lparr>sm_tick := v ! 0,
     sm_stream := StreamKey (v ! 1) (v ! 2) (sk_path stream_key_default), sm_seq := v ! 0,
     sm_depth := v ! 3, sm_occupancy_bytes := v ! 4, sm_capacity_bytes := v ! 5,
     sm_ingress_rate_q16 := v ! 6, sm_egress_rate_q16 := v ! 7, sm_ingress_total := v ! 8,
     sm_egress_total := v ! 9, sm_drop_total := v ! 10, sm_mark_total := v ! 11,
     sm_flags := ucast (v ! 12), sm_resource_generation := ucast (v ! 13)\<rparr>"

definition decode_line :: "string \<Rightarrow> sample result" where
  "decode_line line =
     (if length line > kMaxTraceLineBytes then Inl (failure StOversized ''trace line exceeds the bound'')
      else case parse_fields (tokens line []) [] of
        Inl st \<Rightarrow> Inl st
      | Inr v \<Rightarrow>
          if length v \<noteq> 14 then Inl (failure StTruncated ''trace line is missing fields'')
          else if v ! 13 > 0xFFFFFFFF then
            Inl (failure StOutOfRange ''trace resource generation exceeds 32 bits'')
          else if v ! 6 > 0xFFFFFFFF \<or> v ! 7 > 0xFFFFFFFF then
            Inl (failure StOutOfRange ''trace rate exceeds the supported range'')
          else if v ! 12 > 0xFFFFFFFF then
            Inl (failure StOutOfRange ''trace flags exceed the supported range'')
          else if v ! 12 AND NOT 0x1F \<noteq> 0 then
            Inl (failure StCorrupt ''trace line carries undefined sample flags'')
          else let valid = validate_sample (sample_of_fields v)
          in if is_ok valid then Inr (sample_of_fields v) else Inl valid)"

definition encode_line :: "sample \<Rightarrow> string" where
  "encode_line x =
     (let out = to_string_u (sm_tick x) @ '' '' @ to_string_u (sk_resource (sm_stream x)) @ '' '' @
            to_string_u (sk_queue (sm_stream x)) @ '' '' @ to_string_u (sm_depth x) @ '' '' @
            to_string_u (sm_occupancy_bytes x) @ '' '' @ to_string_u (sm_capacity_bytes x) @ '' '' @
            to_string_i64 (sm_ingress_rate_q16 x) @ '' '' @ to_string_i64 (sm_egress_rate_q16 x) @ '' '' @
            to_string_u (sm_ingress_total x) @ '' '' @ to_string_u (sm_egress_total x) @ '' '' @
            to_string_u (sm_drop_total x) @ '' '' @ to_string_u (sm_mark_total x) @ '' '' @
            to_string_u (sm_flags x) @ '' '' @ to_string_u (sm_resource_generation x)
      in if length out > kMaxTraceLineBytes then take kMaxTraceLineBytes out else out)"

definition newline_char :: char where "newline_char = CHR 0x0A"

definition encode_trace :: "sample list \<Rightarrow> string" where
  "encode_trace xs = concat (map (\<lambda>x. encode_line x @ [newline_char]) xs)"

text \<open>The loop of \<open>decode_trace\<close> on the text that is left; the samples parsed so far stay with the caller.\<close>

function decode_lines :: "string \<Rightarrow> sample list \<Rightarrow> nat \<Rightarrow> status \<times> sample list" where
  "decode_lines text xs max_samples =
     (let line = takeWhile (\<lambda>c. c \<noteq> newline_char) text; after = dropWhile (\<lambda>c. c \<noteq> newline_char) text;
          taken = (if line = [] then Inr xs
            else if length xs \<ge> max_samples then Inl (failure StOversized ''trace exceeds the sample bound'')
            else case decode_line line of Inl st \<Rightarrow> Inl st | Inr x \<Rightarrow> Inr (xs @ [x]))
      in case taken of
           Inl st \<Rightarrow> (st, xs)
         | Inr ys \<Rightarrow> if after = [] then (status_ok, ys) else decode_lines (tl after) ys max_samples)"
  by pat_completeness auto
termination
proof (relation "measure (\<lambda>(input, xs, max_samples). length input)", simp)
  fix input after :: string and ys xs :: "sample list" and m :: nat
  assume a: "after = dropWhile (\<lambda>c. c \<noteq> newline_char) input" "after \<noteq> []"
  have "length after \<le> length input" unfolding a(1) by (rule length_dropWhile_le)
  with a(2) have "length (tl after) < length input" by (cases after) auto
  then show "((tl after, ys, m), input, xs, m) \<in> measure (\<lambda>(input, xs, max_samples). length input)" by simp
qed

declare decode_lines.simps [simp del]

definition decode_trace :: "string \<Rightarrow> nat \<Rightarrow> status \<times> sample list" where
  "decode_trace text max_samples = decode_lines text [] max_samples"

section \<open>What every turn emits\<close>

lemma has_flag_or: "has_flag v f \<Longrightarrow> has_flag (v OR w) f"
  by (auto simp: has_flag_def bit_eq_iff bit_simps)

lemma synthetic_set [simp]: "has_flag flag_synthetic flag_synthetic"
  by (simp add: has_flag_def flag_synthetic_def)

text \<open>A sample of the configured stream that is labelled synthetic.\<close>

definition labelled :: "generator_config \<Rightarrow> sample \<Rightarrow> bool" where
  "labelled cfg x \<longleftrightarrow> has_flag (sm_flags x) flag_synthetic \<and>
     sm_stream x = StreamKey (gn_resource cfg) (gn_queue cfg) (gn_path cfg)"

lemma labelled_updates [simp]:
  "labelled cfg (x\<lparr>sm_depth := a1\<rparr>) = labelled cfg x" "labelled cfg (x\<lparr>sm_occupancy_bytes := a2\<rparr>) = labelled cfg x"
  "labelled cfg (x\<lparr>sm_capacity_bytes := a3\<rparr>) = labelled cfg x" "labelled cfg (x\<lparr>sm_ingress_rate_q16 := a4\<rparr>) = labelled cfg x"
  "labelled cfg (x\<lparr>sm_egress_rate_q16 := a5\<rparr>) = labelled cfg x" "labelled cfg (x\<lparr>sm_ingress_total := a6\<rparr>) = labelled cfg x"
  "labelled cfg (x\<lparr>sm_egress_total := a7\<rparr>) = labelled cfg x" "labelled cfg (x\<lparr>sm_drop_total := a8\<rparr>) = labelled cfg x"
  "labelled cfg (x\<lparr>sm_mark_total := a9\<rparr>) = labelled cfg x"
  "labelled cfg x \<Longrightarrow> labelled cfg (add_flag f x)"
  by (simp_all add: labelled_def add_flag_def has_flag_or)

lemma shape_point_labelled:
  assumes "shape_point cfg interval index x s st = Some (y, s', st')" "labelled cfg x"
  shows "labelled cfg y \<and> gt_samples st' = gt_samples st"
  using assms
  by (cases "gn_shape cfg") (auto simp: shape_point_def Let_def case_prod_beta split: if_splits)

lemma gen_step_labelled:
  "\<exists>ys. gt_samples (gen_step cfg interval index st) = gt_samples st @ ys \<and> length ys \<le> 1 \<and> list_all (labelled cfg) ys"
proof -
  define x where "x = sample_default\<lparr>sm_stream := StreamKey (gn_resource cfg) (gn_queue cfg) (gn_path cfg),
            sm_resource_generation := gn_resource_generation cfg, sm_provenance := gn_provenance cfg,
            sm_tick := gn_start_tick cfg + index, sm_seq := gt_sequence st, sm_flags := flag_synthetic,
            sm_capacity_bytes := gt_capacity st\<rparr>"
  define s where "s = \<lparr>sg_depth = gn_baseline_depth cfg, sg_occupancy = gn_baseline_occupancy_bytes cfg,
            sg_ingress = gn_baseline_rate_q16 cfg, sg_egress = gn_baseline_rate_q16 cfg\<rparr>"
  have x: "labelled cfg x" by (simp add: x_def labelled_def)
  show ?thesis
  proof (cases "shape_point cfg interval index x s st")
    case None
    then show ?thesis by (simp add: gen_step_def x_def [symmetric] s_def [symmetric] Let_def)
  next
    case (Some p)
    then obtain y s' st' where p: "shape_point cfg interval index x s st = Some (y, s', st')" by (cases p) auto
    show ?thesis using shape_point_labelled [OF p x]
      by (simp add: gen_step_def x_def [symmetric] s_def [symmetric] p Let_def)
  qed
qed

section \<open>The generator returns\<close>

text \<open>
  The first turn runs at index zero. A later one is only reached when the interval is at most the
  tick count, and then the index cannot wrap: the distance to the end decreases.
\<close>

lemma gen_loop_returns:
  assumes "0 < interval" "unat turns \<le> 2 ^ 20" "index = 0 \<or> unat interval \<le> unat turns"
  shows "\<exists>st' ys. gen_loop cfg interval turns index st = Some st' \<and> gt_samples st' = gt_samples st @ ys \<and>
    length ys + unat index \<le> max (unat index) (unat turns + 1) \<and> list_all (labelled cfg) ys"
  using assms(3)
proof (induction "unat turns + 1 - unat index" arbitrary: index st rule: less_induct)
  case less
  show ?case
  proof (cases "index \<le> turns")
    case False
    then have "gen_loop cfg interval turns index st = Some st" by (subst gen_loop.simps) simp
    then show ?thesis by (intro exI [of _ st] exI [of _ "[]"]) simp
  next
    case True
    define st1 where "st1 = gen_step cfg interval index st"
    obtain ys where ys: "gt_samples st1 = gt_samples st @ ys" "length ys \<le> 1" "list_all (labelled cfg) ys"
      using gen_step_labelled [of cfg interval index st] by (auto simp: st1_def)
    have step: "gen_loop cfg interval turns index st = gen_loop cfg interval turns (index + interval) st1"
      using True by (subst gen_loop.simps) (simp add: st1_def)
    have i: "0 < unat interval" using assms(1) by (simp add: word_less_nat_alt)
    have idx: "unat index \<le> unat turns" using True by (simp add: word_le_nat_alt)
    show ?thesis
    proof (cases "unat interval \<le> unat turns")
      case small: True
      have "unat index + unat interval < 2 ^ LENGTH(64)" using idx small assms(2) by simp
      then have nxt: "unat (index + interval) = unat index + unat interval" by (simp add: unat_add_no_wrap)
      have dec: "unat turns + 1 - unat (index + interval) < unat turns + 1 - unat index" using nxt i idx by simp
      from less.hyps [OF dec, of st1] small obtain st' zs where
        z: "gen_loop cfg interval turns (index + interval) st1 = Some st'" "gt_samples st' = gt_samples st1 @ zs"
          "length zs + unat (index + interval) \<le> max (unat (index + interval)) (unat turns + 1)" "list_all (labelled cfg) zs"
        by blast
      show ?thesis
        using z ys step nxt i idx by (intro exI [of _ st'] exI [of _ "ys @ zs"]) (auto simp: max_def split: if_splits)
    next
      case large: False
      then have "index = 0" using less.prems by simp
      then have "\<not> index + interval \<le> turns" using large by (simp add: word_le_nat_alt)
      then have "gen_loop cfg interval turns (index + interval) st1 = Some st1" by (subst gen_loop.simps) simp
      then show ?thesis using ys step idx by (intro exI [of _ st1] exI [of _ ys]) auto
    qed
  qed
qed

lemma swap_pairs_mset: "mset (swap_pairs i xs) = mset xs"
proof (induction i xs rule: swap_pairs.induct)
  case (1 i xs)
  then show ?case
    by (subst swap_pairs.simps) (auto simp: mset_swap)
qed

lemma duplicate_some_set: "set (duplicate_some xs) = set xs"
  by (induction xs) (auto simp: duplicate_some_def)

lemma duplicate_some_length: "length (duplicate_some xs) \<le> 2 * length xs"
  by (induction xs) (auto simp: duplicate_some_def)

lemma generate_returns:
  "\<exists>xs. generate cfg = Some xs \<and> list_all (labelled cfg) xs \<and> length xs \<le> 2 * (unat (gn_ticks cfg) + 1) \<and>
     length xs \<le> 2 * (2 ^ 20 + 1)"
proof -
  define interval where "interval = max (gn_sample_interval cfg) 1"
  define turns where "turns = min (gn_ticks cfg) (push_bit 20 1)"
  define st where "st = \<lparr>gt_rng = \<lparr>rng_state = gn_seed cfg\<rparr>, gt_ingress_total = 0, gt_egress_total = 0, gt_drop_total = 0,
            gt_mark_total = 0, gt_sequence = 1, gt_capacity = gn_capacity_bytes cfg, gt_samples = []\<rparr>"
  have "0 < interval" by (simp add: interval_def max_def word_less_nat_alt word_le_nat_alt)
  moreover have "unat turns = min (unat (gn_ticks cfg)) (2 ^ 20)"
    by (simp add: turns_def min_def word_le_nat_alt)
  ultimately obtain st' ys where l: "gen_loop cfg interval turns 0 st = Some st'" "gt_samples st' = ys"
      "length ys \<le> unat turns + 1" "list_all (labelled cfg) ys" and
      c: "unat turns \<le> unat (gn_ticks cfg)" "unat turns \<le> 2 ^ 20"
    using gen_loop_returns [of interval turns 0 cfg st] by (auto simp: st_def)
  define xs where "xs = (if gn_shape cfg = ShReordered then swap_pairs 1 ys
    else if gn_shape cfg = ShDuplicate then duplicate_some ys else ys)"
  have "generate cfg = Some xs"
    by (simp only: generate_def Let_def interval_def [symmetric] turns_def [symmetric] st_def [symmetric] l(1,2)
        option.case xs_def)
  moreover have "set xs = set ys"
    using swap_pairs_mset [of 1 ys] by (auto simp: xs_def duplicate_some_set dest: mset_eq_setD)
  moreover have "length xs \<le> 2 * length ys"
    using mset_eq_length [OF swap_pairs_mset [of 1 ys]] duplicate_some_length [of ys] by (simp add: xs_def)
  ultimately show ?thesis using l(3,4) c by (auto simp: list_all_iff)
qed

section \<open>The trace text\<close>

lemma digit_char_value: "d < 10 \<Longrightarrow> of_char (digit_char d) = 48 + (d :: nat)"
  by (simp add: digit_char_def)

lemma digit_char_facts [simp]: "d < 10 \<Longrightarrow> is_digit_char (digit_char d)"
  by (simp add: is_digit_char_def digit_char_value)

lemma decimal_digits: "list_all is_digit_char (decimal n)"
proof (induction n rule: decimal.induct)
  case (1 n)
  then show ?case by (subst decimal.simps) auto
qed

lemma decimal_not_Nil [simp]: "decimal n \<noteq> []"
  by (subst decimal.simps) simp

lemma digits_value_snoc: "digits_value (ds @ [c]) = 10 * digits_value ds + (of_char c - 48)"
  by (simp add: digits_value_def)

lemma digits_value_decimal: "digits_value (decimal n) = n"
proof (induction n rule: decimal.induct)
  case (1 n)
  show ?case
  proof (cases "n < 10")
    case True
    then show ?thesis by (subst decimal.simps) (simp add: digits_value_def digit_char_value)
  next
    case False
    have d: "of_char (digit_char (n mod 10)) = 48 + n mod 10" by (rule digit_char_value) simp
    have "digits_value (decimal n) = 10 * (n div 10) + (of_char (digit_char (n mod 10)) - 48)"
      using False 1 by (subst decimal.simps) (simp add: digits_value_snoc)
    then show ?thesis using mult_div_mod_eq [of 10 n] by (simp only: d add_diff_cancel_left')
  qed
qed

lemma takeWhile_all: "list_all P xs \<Longrightarrow> takeWhile P xs = xs"
  by (induction xs) auto

lemma from_chars_decimal: "n < 2 ^ 64 \<Longrightarrow> from_chars (decimal n) = Some (of_nat n, [])"
  by (simp add: from_chars_def takeWhile_all [OF decimal_digits] digits_value_decimal Let_def)

text \<open>What is accepted as a number is digits that fit 64 bits, and its value is theirs.\<close>

lemma parse_u64_iff:
  "parse_u64 t = Some v \<longleftrightarrow> t \<noteq> [] \<and> list_all is_digit_char t \<and> digits_value t < 2 ^ 64 \<and> v = of_nat (digits_value t)"
proof -
  have a: "drop (length (takeWhile is_digit_char t)) t = [] \<longleftrightarrow> list_all is_digit_char t"
    by (induction t) auto
  have b: "list_all is_digit_char t \<Longrightarrow> takeWhile is_digit_char t = t" by (rule takeWhile_all)
  show ?thesis
  proof (cases "list_all is_digit_char t")
    case True
    have tw: "takeWhile is_digit_char t = t" by (rule b [OF True])
    show ?thesis using True by (auto simp: parse_u64_def from_chars_def Let_def tw)
  next
    case False
    then show ?thesis using a by (auto simp del: drop_eq_Nil simp: parse_u64_def from_chars_def Let_def)
  qed
qed

lemma parse_u64_decimal: "n < 2 ^ 64 \<Longrightarrow> parse_u64 (decimal n) = Some (of_nat n)"
  by (simp add: parse_u64_def from_chars_decimal)

lemma parse_to_string: "parse_u64 (to_string_u (w :: 'a::len word)) = Some (ucast w)" if "LENGTH('a) \<le> 64"
proof -
  have "unat w < 2 ^ LENGTH('a)" by (rule unsigned_less)
  also have "\<dots> \<le> (2 :: nat) ^ 64" using that by (intro power_increasing) simp_all
  finally show ?thesis using parse_u64_decimal [of "unat w"] by (simp add: to_string_u_def)
qed

lemma digit_not_space: "is_digit_char c \<Longrightarrow> \<not> is_space_char c"
  by (auto simp: is_digit_char_def is_space_char_def)

definition word_like :: "string \<Rightarrow> bool" where
  "word_like w \<longleftrightarrow> w \<noteq> [] \<and> list_all (\<lambda>c. \<not> is_space_char c) w"

lemma word_like_decimal [simp]: "word_like (decimal n)"
  using decimal_digits [of n] digit_not_space by (auto simp: word_like_def list_all_iff)

lemma tokens_word: "list_all (\<lambda>c. \<not> is_space_char c) w \<Longrightarrow> tokens (w @ rest) cur = tokens rest (cur @ w)"
  by (induction w arbitrary: cur) auto

text \<open>A line is its fields with one space between them.\<close>

fun spaced :: "string list \<Rightarrow> string" where
  "spaced [] = []"
| "spaced [w] = w"
| "spaced (w # ws) = w @ '' '' @ spaced ws"

lemma tokens_spaced: "list_all word_like ws \<Longrightarrow> tokens (spaced ws) [] = ws"
proof (induction ws rule: spaced.induct)
  case (2 w)
  then show ?case using tokens_word [of w "[]" "[]"] by (simp add: word_like_def)
next
  case (3 w v ws)
  then show ?case using tokens_word [of w "'' '' @ spaced (v # ws)" "[]"] by (simp add: word_like_def is_space_char_def)
qed simp

lemma parse_fields_all:
  assumes "list_all2 (\<lambda>t v. parse_u64 t = Some v) ts vs" "length us + length ts \<le> 14"
  shows "parse_fields ts us = Inr (us @ vs)"
  using assms by (induction ts vs arbitrary: us rule: list_all2_induct) auto

definition line_fields :: "sample \<Rightarrow> string list" where
  "line_fields x = [to_string_u (sm_tick x), to_string_u (sk_resource (sm_stream x)),
     to_string_u (sk_queue (sm_stream x)), to_string_u (sm_depth x), to_string_u (sm_occupancy_bytes x),
     to_string_u (sm_capacity_bytes x), to_string_i64 (sm_ingress_rate_q16 x), to_string_i64 (sm_egress_rate_q16 x),
     to_string_u (sm_ingress_total x), to_string_u (sm_egress_total x), to_string_u (sm_drop_total x),
     to_string_u (sm_mark_total x), to_string_u (sm_flags x), to_string_u (sm_resource_generation x)]"

definition line_values :: "sample \<Rightarrow> u64 list" where
  "line_values x = [sm_tick x, sk_resource (sm_stream x), sk_queue (sm_stream x), sm_depth x, sm_occupancy_bytes x,
     sm_capacity_bytes x, sm_ingress_rate_q16 x, sm_egress_rate_q16 x, sm_ingress_total x, sm_egress_total x,
     sm_drop_total x, sm_mark_total x, ucast (sm_flags x), ucast (sm_resource_generation x)]"

text \<open>
  What the format keeps of a sample: the path, the provenance and the affected classes are not
  written, and the sequence is read back from the tick.
\<close>

definition as_traced :: "sample \<Rightarrow> sample" where
  "as_traced x = x\<lparr>sm_stream := StreamKey (sk_resource (sm_stream x)) (sk_queue (sm_stream x)) id_invalid,
     sm_seq := sm_tick x, sm_provenance := sm_provenance sample_default,
     sm_affected_class_count := sm_affected_class_count sample_default,
     sm_affected_classes := sm_affected_classes sample_default\<rparr>"

lemma ucast_widened: "ucast (ucast (w :: u32) :: u64) = w"
  by (rule bit_word_eqI) (auto simp: bit_simps)

lemma as_traced_fields: "sample_of_fields (line_values x) = as_traced x"
  by (rule sample.equality)
    (simp_all add: sample_of_fields_def line_values_def as_traced_def sample_default_def stream_key_default_def ucast_widened)

definition traceable :: "sample \<Rightarrow> bool" where
  "traceable x \<longleftrightarrow> unat (sm_ingress_rate_q16 x) < 2 ^ 32 \<and> unat (sm_egress_rate_q16 x) < 2 ^ 32 \<and>
     sm_flags x AND NOT 0x1F = 0 \<and> is_ok (validate_sample (as_traced x))"

lemma decimal_length: "n < 10 ^ k \<Longrightarrow> 0 < k \<Longrightarrow> length (decimal n) \<le> k"
proof (induction n arbitrary: k rule: decimal.induct)
  case (1 n)
  show ?case
  proof (cases "n < 10")
    case True
    then show ?thesis using 1(3) by (subst decimal.simps) simp
  next
    case False
    then obtain j where k: "k = Suc j" "0 < j" using 1(2,3) by (cases k; cases "k - 1") auto
    have "n div 10 < 10 ^ j" using 1(2) k by (simp add: less_mult_imp_div_less mult.commute)
    then have "length (decimal (n div 10)) \<le> j" using 1(1) False k(2) by simp
    then show ?thesis using False k by (subst decimal.simps) simp
  qed
qed

lemma sint_small: "unat (r :: i64) < 2 ^ 32 \<Longrightarrow> sint r = int (unat r)"
proof -
  assume a: "unat r < 2 ^ 32"
  have "unat r < 4294967296" using a by simp
  then have "uint r < 9223372036854775808" unfolding uint_nat by linarith
  then have "signed_take_bit 63 (uint r) = uint r"
    by (intro signed_take_bit_int_eq_self) (simp_all add: order_trans [OF _ uint_ge_0])
  then show ?thesis by (simp add: sint_uint)
qed

lemma small_signed: "unat (r :: i64) < 2 ^ 32 \<Longrightarrow> to_string_i64 r = decimal (unat r)"
  by (simp add: sint_small to_string_i64_def)

lemma to_string_u_length: "LENGTH('a) \<le> 64 \<Longrightarrow> length (to_string_u (w :: 'a::len word)) \<le> 20"
proof -
  assume l: "LENGTH('a) \<le> 64"
  have "unat w < 2 ^ LENGTH('a)" by (rule unsigned_less)
  also have "\<dots> \<le> (2 :: nat) ^ 64" using l by (intro power_increasing) simp_all
  also have "\<dots> < 10 ^ 20" by simp
  finally show ?thesis unfolding to_string_u_def by (intro decimal_length) simp_all
qed

lemma encode_line_spaced:
  assumes "traceable x"
  shows "encode_line x = spaced (line_fields x)"
proof -
  have r: "length (to_string_i64 (sm_ingress_rate_q16 x)) \<le> 20" "length (to_string_i64 (sm_egress_rate_q16 x)) \<le> 20"
    using assms small_signed to_string_u_length [of "sm_ingress_rate_q16 x"] to_string_u_length [of "sm_egress_rate_q16 x"]
    by (simp_all add: traceable_def to_string_u_def)
  have l: "length (to_string_u (w :: u64)) \<le> 20" "length (to_string_u (v :: u32)) \<le> 20" for w v
    by (intro to_string_u_length; simp)+
  have "length (spaced (line_fields x)) \<le> kMaxTraceLineBytes"
    using r l(1) [of "sm_tick x"] l(1) [of "sk_resource (sm_stream x)"] l(1) [of "sk_queue (sm_stream x)"]
      l(1) [of "sm_depth x"] l(1) [of "sm_occupancy_bytes x"] l(1) [of "sm_capacity_bytes x"]
      l(1) [of "sm_ingress_total x"] l(1) [of "sm_egress_total x"] l(1) [of "sm_drop_total x"]
      l(1) [of "sm_mark_total x"] l(2) [of "sm_flags x"] l(2) [of "sm_resource_generation x"]
    by (simp add: line_fields_def kMaxTraceLineBytes_def)
  then show ?thesis by (simp add: encode_line_def line_fields_def Let_def)
qed

lemma line_fields_parse:
  assumes "traceable x"
  shows "list_all2 (\<lambda>t v. parse_u64 t = Some v) (line_fields x) (line_values x)"
proof -
  have u: "parse_u64 (to_string_u (w :: u64)) = Some w" "parse_u64 (to_string_u (v :: u32)) = Some (ucast v)" for w v
    by (simp_all add: parse_to_string)
  have "parse_u64 (to_string_i64 r) = Some r" if "unat r < 2 ^ 32" for r :: i64
    using u(1) [of r] small_signed [OF that] by (simp add: to_string_u_def)
  then show ?thesis using assms u by (simp add: line_fields_def line_values_def traceable_def)
qed

lemma line_fields_words:
  assumes "traceable x"
  shows "list_all word_like (line_fields x)"
  using assms small_signed by (simp add: line_fields_def to_string_u_def traceable_def)

lemma ucast_small: "ucast (w :: u32) \<le> (0xFFFFFFFF :: u64)"
proof -
  have "unat (ucast w :: u64) = unat w" by (simp add: unsigned_ucast_eq take_bit_nat_eq_self order_less_trans [OF unsigned_less])
  moreover have "unat w \<le> 0xFFFFFFFF" using unsigned_less [of w, where ?'a = nat] by simp
  ultimately show ?thesis by (simp add: word_le_nat_alt)
qed

lemma clip_length: "length (if length out > k then take k out else out) \<le> k"
  by simp

lemma encode_line_bounded: "length (encode_line x) \<le> kMaxTraceLineBytes"
  unfolding encode_line_def Let_def by (rule clip_length)

lemma encode_trace_length: "length (encode_trace xs) \<le> length xs * (kMaxTraceLineBytes + 1)"
proof (induction xs)
  case (Cons x xs)
  then show ?case using encode_line_bounded [of x] by (simp add: encode_trace_def)
qed (simp add: encode_trace_def)

lemma decode_encode_line:
  assumes "traceable x"
  shows "decode_line (encode_line x) = Inr (as_traced x)"
proof -
  have len: "length (encode_line x) \<le> kMaxTraceLineBytes" by (rule encode_line_bounded)
  have "tokens (encode_line x) [] = line_fields x"
    using encode_line_spaced [OF assms] tokens_spaced line_fields_words [OF assms] by simp
  moreover have "parse_fields (line_fields x) [] = Inr (line_values x)"
    using parse_fields_all [OF line_fields_parse [OF assms], of "[]"] by (simp add: line_fields_def)
  ultimately have p: "parse_fields (tokens (encode_line x) []) [] = Inr (line_values x)" by simp
  have v: "length (line_values x) = 14" "line_values x ! 12 = ucast (sm_flags x)"
    "line_values x ! 13 = ucast (sm_resource_generation x)" "line_values x ! 6 = sm_ingress_rate_q16 x"
    "line_values x ! 7 = sm_egress_rate_q16 x"
    by (simp_all add: line_values_def)
  have rates: "sm_ingress_rate_q16 x \<le> 0xFFFFFFFF" "sm_egress_rate_q16 x \<le> 0xFFFFFFFF"
    using assms by (simp_all add: traceable_def word_le_nat_alt)
  have flags: "ucast (sm_flags x) AND NOT (0x1F :: u64) = 0"
  proof (rule bit_word_eqI)
    fix n assume "n < LENGTH(64)"
    have "bit (sm_flags x AND NOT 0x1F) n = bit (0 :: u32) n" using assms by (simp add: traceable_def)
    then show "bit (ucast (sm_flags x) AND NOT (0x1F :: u64)) n = bit (0 :: u64) n"
      by (auto simp: bit_simps dest: bit_imp_le_length)
  qed
  show ?thesis
    using len p v rates flags ucast_small assms
    by (simp add: decode_line_def traceable_def as_traced_fields Let_def not_less [symmetric])
qed

lemma encode_line_clean:
  assumes "traceable x"
  shows "newline_char \<notin> set (encode_line x)" "encode_line x \<noteq> []"
proof -
  have w: "newline_char \<notin> set v" if "word_like v" for v
  proof
    assume "newline_char \<in> set v"
    then have "\<not> is_space_char newline_char" using that by (auto simp: word_like_def list_all_iff)
    then show False by (simp add: is_space_char_def newline_char_def)
  qed
  have "newline_char \<notin> set (spaced ws)" if "list_all word_like ws" for ws
    using that by (induction ws rule: spaced.induct) (auto simp: w newline_char_def dest: w [unfolded newline_char_def])
  then show "newline_char \<notin> set (encode_line x)"
    using line_fields_words [OF assms] encode_line_spaced [OF assms] by simp
  show "encode_line x \<noteq> []" using encode_line_spaced [OF assms] by (simp add: line_fields_def)
qed

lemma decode_lines_encoded:
  assumes "list_all traceable xs" "length ys + length xs \<le> max_samples"
  shows "decode_lines (encode_trace xs) ys max_samples = (status_ok, ys @ map as_traced xs)"
  using assms
proof (induction xs arbitrary: ys)
  case Nil
  show ?case by (subst decode_lines.simps) (simp add: encode_trace_def)
next
  case (Cons x xs)
  have x: "traceable x" using Cons.prems(1) by simp
  note clean = encode_line_clean [OF x]
  have enc: "encode_trace (x # xs) = encode_line x @ newline_char # encode_trace xs" by (simp add: encode_trace_def)
  have tw: "takeWhile (\<lambda>c. c \<noteq> newline_char) (encode_trace (x # xs)) = encode_line x"
    "dropWhile (\<lambda>c. c \<noteq> newline_char) (encode_trace (x # xs)) = newline_char # encode_trace xs"
    using clean(1) unfolding enc by (simp_all add: takeWhile_append dropWhile_append)
  have "decode_lines (encode_trace xs) (ys @ [as_traced x]) max_samples = (status_ok, (ys @ [as_traced x]) @ map as_traced xs)"
    using Cons.prems by (intro Cons.IH) simp_all
  then show ?case
    using Cons.prems clean(2) decode_encode_line [OF x]
    by (subst decode_lines.simps) (simp add: tw Let_def not_le)
qed

lemma shape_round_trip: "parse_shape (shape_to_string s) = Some s"
  by (cases s) (simp_all add: parse_shape_def kShapes_def)

end
