(* ===== verification/Governor_Records.thy ===== *)
theory Governor_Records
  imports Durability Reports
begin

text \<open>
  Everything the governor keeps can be written and read back: the events of its history, its open
  episodes, its interventions and their history are values the codecs accept, in every reachable
  governor, so the state it exports for a checkpoint is well formed.
\<close>

section \<open>Records that survive their codecs\<close>

definition records_ok :: "governor \<Rightarrow> bool" where
  "records_ok g \<longleftrightarrow> list_all event_wf (gv_history g) \<and> list_all event_wf (map snd (gv_open_events g)) \<and>
     list_all intent_wf (map snd (gv_interventions g)) \<and> list_all intent_wf (gv_intervention_history g)"

text \<open>Bookkeeping that files nothing.\<close>

locale clerical = housekeeping +
  assumes keeps_files: "gv_history (op g) = gv_history g"
      "gv_intervention_history (op g) = gv_intervention_history g"
begin

lemma keeps_records [simp]: "records_ok (op g) = records_ok g"
  by (simp add: records_ok_def keeps_files)

end

interpretation count: clerical "count_stat f" for f
  by unfold_locales (simp_all add: count_stat_def)

interpretation emit: clerical "push_emission e" for e
  by unfold_locales (simp_all add: push_emission_def count_stat_def Let_def)

interpretation compacted: clerical "\<lambda>g. snd (compact g)"
  by unfold_locales (simp_all add: compact_def case_prod_beta Let_def split: option.split)

lemma call_append_files:
  "gv_history (snd (call_append t p now g)) = gv_history g \<and>
   gv_intervention_history (snd (call_append t p now g)) = gv_intervention_history g"
  by (simp add: call_append_def case_prod_beta Let_def split: option.split)

interpretation finished: clerical "append_finish st" for st
  by unfold_locales (simp_all add: append_finish_def count.keeps_files)

interpretation recorded: clerical "append_record t p now" for t p now
  by unfold_locales (simp_all add: append_record_def finished.keeps_files count.keeps_files
      compacted.keeps_files call_append_files case_prod_beta Let_def)

interpretation logged: clerical "journal_record t p now" for t p now
  by unfold_locales (simp_all add: journal_record_def recorded.keeps_files)

lemma records_other [simp]:
  "records_ok (g\<lparr>gv_streams := m\<rparr>) = records_ok g"
  "records_ok (g\<lparr>gv_decision_seq := n\<rparr>) = records_ok g"
  "records_ok (g\<lparr>gv_last_tick := t\<rparr>) = records_ok g"
  "records_ok (g\<lparr>gv_record_seq := n\<rparr>) = records_ok g"
  "records_ok (g\<lparr>gv_stats := x\<rparr>) = records_ok g"
  "records_ok (g\<lparr>gv_resource_generations := r\<rparr>) = records_ok g"
  "records_ok (g\<lparr>gv_store := s\<rparr>) = records_ok g"
  "records_ok (g\<lparr>gv_env_pos := k\<rparr>) = records_ok g"
  "records_ok (g\<lparr>gv_context := c\<rparr>) = records_ok g"
  "records_ok (g\<lparr>gv_policies := ps\<rparr>) = records_ok g"
  "records_ok (g\<lparr>gv_config := cfg\<rparr>) = records_ok g"
  "records_ok (g\<lparr>gv_emissions := es\<rparr>) = records_ok g"
  by (simp_all add: records_ok_def)

lemma records_event: "records_ok g \<Longrightarrow> event_wf e \<Longrightarrow> records_ok (record_event e g)"
  using set_update_subset_insert [of "gv_history g" "gv_history_head g" e]
  by (auto simp: record_event_def records_ok_def count_stat_def list_all_iff)

lemma records_open:
  "records_ok g \<Longrightarrow> event_wf e \<Longrightarrow> records_ok (g\<lparr>gv_open_events := assign i e (gv_open_events g)\<rparr>)"
  "records_ok g \<Longrightarrow> records_ok (g\<lparr>gv_open_events := erase i (gv_open_events g)\<rparr>)"
  using set_assign [of i e "gv_open_events g"] by (auto simp: records_ok_def list_all_iff set_erase)

lemma records_intent:
  "records_ok g \<Longrightarrow> intent_wf x \<Longrightarrow> records_ok (g\<lparr>gv_interventions := assign i x (gv_interventions g)\<rparr>)"
  "records_ok g \<Longrightarrow> intent_wf x \<Longrightarrow> records_ok (g\<lparr>gv_interventions := emplace_new i x (gv_interventions g)\<rparr>)"
  "records_ok g \<Longrightarrow> records_ok (g\<lparr>gv_interventions := fold erase ids (gv_interventions g)\<rparr>)"
  using set_assign [of i x "gv_interventions g"]
  by (auto simp: records_ok_def list_all_iff set_fold_erase emplace_new_def)

lemma records_lookup: "records_ok g \<Longrightarrow> map_of (gv_interventions g) i = Some x \<Longrightarrow> intent_wf x"
  by (force simp: records_ok_def list_all_iff dest: map_of_SomeD)

section \<open>The sweeps and the requests\<close>

lemma tl_wf: "list_all P xs \<Longrightarrow> list_all P (if b then tl xs else xs)"
  by (cases xs) simp_all

lemma records_retire:
  assumes "records_ok g" "intent_wf x" "verdict_wf v"
  shows "records_ok (retire_intervention i x v now g)"
proof -
  define y where "y = x\<lparr>ii_state := (if v = AvExpired then IsExpired else IsRevoked),
      ii_revocation_verdict := v, ii_state_changed_tick := now\<rparr>"
  have y: "intent_wf y" using assms(2,3) by (simp add: intent_wf_def y_def)
  have h: "records_ok (h\<lparr>gv_intervention_history := (if b then tl (gv_intervention_history h @ [y])
      else gv_intervention_history h @ [y])\<rparr>)" if "records_ok h" for h b
    using that y tl_wf [of intent_wf "gv_intervention_history h @ [y]" b] by (simp add: records_ok_def)
  show ?thesis unfolding retire_intervention_def Let_def y_def [symmetric]
    by (simp add: h records_intent(1) assms(1) y)
qed

lemma named_verdict [simp]:
  "verdict_wf AvValid" "verdict_wf AvEventClosed" "verdict_wf AvInterventionsDisabled" "verdict_wf AvBootChanged"
  by (simp_all add: verdict_wf_def verdict_of_raw_def)

lemma intent_verdict_wf: "verdict_wf (intent_verdict now g x)"
  by (auto simp: intent_verdict_def evaluate_authority_def verdict_wf_def verdict_of_raw_def Let_def)

lemma records_refresh_loop:
  "refresh_loop now only ids retire n g = (retire', n', g') \<Longrightarrow> records_ok g \<Longrightarrow> records_ok g'"
  by (induction now only ids retire n g rule: refresh_loop.induct)
    (auto simp: Let_def records_retire records_lookup intent_verdict_wf split: option.splits if_splits)

lemma records_refresh: "records_ok g \<Longrightarrow> records_ok (snd (refresh_authority now only g))"
  using records_refresh_loop [of now only "map fst (gv_interventions g)" "[]" 0 g]
  by (auto simp: refresh_authority_def records_intent(3) split: prod.split)

lemma records_revoke_loop:
  "revoke_loop v now ids retire n g = (retire', n', g') \<Longrightarrow> verdict_wf v \<Longrightarrow> records_ok g \<Longrightarrow> records_ok g'"
  by (induction v now ids retire n g rule: revoke_loop.induct)
    (auto simp: records_retire records_lookup split: option.splits if_splits)

lemma records_revoke: "records_ok g \<Longrightarrow> verdict_wf v \<Longrightarrow> records_ok (snd (revoke_all_live v now g))"
  using records_revoke_loop [of v now "map fst (gv_interventions g)" "[]" 0 g]
  by (auto simp: revoke_all_live_def records_intent(3) split: prod.split)

text \<open>What the governor asks of a decision before it requests interventions.\<close>

definition requestable :: "decision \<Rightarrow> bool" where
  "requestable dec \<longleftrightarrow> stream_key_valid (dd_stream dec) \<and> severity_wf (dd_severity dec) \<and>
     is_valid_severity (severity_raw (dd_severity dec))"

lemma max_severity:
  "severity_wf a \<Longrightarrow> severity_wf b \<Longrightarrow> severity_wf (severity_max a b)"
  "is_valid_severity (severity_raw a) \<Longrightarrow> is_valid_severity (severity_raw b) \<Longrightarrow>
   is_valid_severity (severity_raw (severity_max a b))"
  by (simp_all add: severity_max_def)

lemma new_intent_wf: "requestable dec \<Longrightarrow> intent_wf (new_intent dec kind limit now g)"
  by (simp add: intent_wf_def requestable_def new_intent_def intent_default_def reason_wf_def reason_of_raw_def reason_codes_def Let_def)

lemma refresh_intent_wf:
  "requestable dec \<Longrightarrow> intent_wf x \<Longrightarrow> kl_magnitude_permille limit \<le> kMaxMagnitudePermille \<Longrightarrow>
   intent_wf (refresh_intent dec limit now n x)"
  using refresh_intent_magnitude [of x limit dec now n]
  by (simp add: intent_wf_def requestable_def refresh_intent_def max_severity Let_def)

lemma records_request_kinds:
  "records_ok g \<Longrightarrow> requestable dec \<Longrightarrow> list_all (\<lambda>(kind, limit). is_ok (validate_kind limit)) ks \<Longrightarrow>
   records_ok (request_kinds dec now ip ks s t g)"
proof (induction ks arbitrary: s t g)
  case (Cons kl rest)
  obtain kind limit where kl: "kl = (kind, limit)" by (cases kl)
  have v: "is_ok (validate_kind limit)" using Cons.prems(3) kl by simp
  show ?case
  proof (cases rule: request_cases [of dec now ip kind limit rest s t g])
    case suppressed
    then show ?thesis using Cons by (simp add: kl del: request_kinds.simps)
  next
    case (refreshed i x)
    have "(i, x) \<in> set (gv_interventions g)" using find_live_some refreshed(1) by blast
    then have "intent_wf x" using Cons.prems(1) by (auto simp: records_ok_def list_all_iff)
    then have "records_ok (Governor_Invariant.refreshed dec limit now i x g)"
      using Cons.prems(1,2) validate_kind_ok(2) [OF v refreshed(2)]
      by (simp add: refreshed_def records_intent(1) refresh_intent_wf Let_def)
    then show ?thesis using Cons refreshed by (simp add: kl del: request_kinds.simps)
  next
    case requested
    have "records_ok (Governor_Invariant.requested dec kind limit now g)"
      using Cons.prems(1,2) by (simp add: requested_def records_intent(2) new_intent_wf Let_def)
    then show ?thesis using Cons requested by (simp add: kl del: request_kinds.simps)
  qed
qed simp

lemma records_maybe_request:
  assumes "records_ok g" "requestable dec" "policies_ok Q (gv_policies g)"
  shows "records_ok (maybe_request_interventions dec now g)"
proof -
  have "is_ok (validate_policy (resolve (gv_policies g) r))" for r
    using assms(3) by (simp add: resolve_valid policies_ok_def)
  then have "list_all (\<lambda>(kind, limit). is_ok (validate_kind limit))
      (zip all_kinds (ip_kinds (po_intervention (resolve (gv_policies g) r))))" for r
    by (auto simp: validate_policy_ok_iff validate_kinds_ok_iff list_all_iff dest: set_zip_rightD)
  then show ?thesis using assms by (simp add: maybe_request_interventions_def records_request_kinds Let_def)
qed

section \<open>Samples and clock\<close>

lemma stamp_wf [simp]: "event_wf (stamp_context c e) = event_wf e"
  by (simp add: event_wf_def event_positive_def stamp_context_def)

lemma records_process_opened: "records_ok g \<Longrightarrow> event_wf e \<Longrightarrow> records_ok (process_opened e now g)"
  by (simp add: process_opened_def records_open(1) Let_def)

lemma records_process_closed: "records_ok g \<Longrightarrow> event_wf e \<Longrightarrow> records_ok (process_closed b e now g)"
  by (simp add: process_closed_def records_event records_refresh records_open(2) case_prod_beta Let_def)

lemma sequenced_wf [simp]:
  "event_wf (e\<lparr>ev_last_seq := n\<rparr>) = event_wf e" "event_wf (e\<lparr>ev_opened_seq := n\<rparr>) = event_wf e"
  by (simp_all add: event_wf_def event_positive_def)

lemma process_policies:
  "gv_policies (process_opened e now g) = gv_policies g"
  "distinct (map fst (gv_interventions g)) \<Longrightarrow> gv_policies (process_closed b e now g) = gv_policies g"
  using refresh_fields [of "g\<lparr>gv_open_events := erase (ev_id e) (gv_open_events g)\<rparr>" now "ev_id e"]
  by (simp_all add: process_opened_def process_closed_def case_prod_beta Let_def same_authority_def)

lemma records_process_decision:
  assumes "records_ok g" "policies_ok Q (gv_policies g)" "distinct (map fst (gv_interventions g))"
    "recordable dec d" "stream_key_valid (dt_key d)"
  shows "records_ok (process_decision d dec now g)"
proof -
  define h where "h = count_stat gs_decisions_update (count_stat gs_evaluations_update g)"
  define g1 where "g1 = h\<lparr>gv_decision_seq := gv_decision_seq h + 1\<rparr>"
  define e where "e = (let e = (stamp_context (gv_context g1) (dt_episode d))\<lparr>ev_last_seq := gv_decision_seq g1\<rparr>
     in if dd_opened dec then e\<lparr>ev_opened_seq := gv_decision_seq g1\<rparr> else e)"
  define g2 where "g2 = (if dd_opened dec then process_opened e now g1
     else if dd_updated dec \<and> \<not> dd_closed dec
     then g1\<lparr>gv_open_events := assign (ev_id e) e (gv_open_events g1)\<rparr> else g1)"
  define g3 where "g3 = (if dd_closed dec then process_closed (dd_fenced dec) e now g2 else g2)"
  have e: "reports_event dec \<Longrightarrow> event_wf e"
    using assms(4) by (simp add: e_def recordable_def files_def Let_def)
  have g1: "records_ok g1" "gv_policies g1 = gv_policies g" "gv_interventions g1 = gv_interventions g"
    using assms(1) by (simp_all add: g1_def h_def)
  have "records_ok g2"
    using e g1(1) by (simp add: g2_def reports_event_def records_process_opened records_open(1))
  then have "records_ok g3" using e by (simp add: g3_def reports_event_def records_process_closed)
  moreover have "distinct (map fst (gv_interventions g2))" "gv_policies g2 = gv_policies g"
    using assms(3) g1 by (simp_all add: g2_def process_fields(3) process_policies)
  then have "policies_ok Q (gv_policies g3)" using assms(2) by (simp add: g3_def process_policies)
  moreover have "requestable dec" if "is_positive (dd_classification dec)"
    using that assms(4,5) by (simp add: requestable_def recordable_def)
  moreover have "process_decision d dec now g = (if is_positive (dd_classification dec) \<and> \<not> dd_suppressed_by_cooldown dec
      then maybe_request_interventions dec now g3 else g3)"
    unfolding process_decision_def Let_def g3_def g2_def e_def g1_def h_def by (rule refl)
  ultimately show ?thesis by (simp add: records_maybe_request)
qed

text \<open>
  The contract of detectors whose decisions can be filed, under policies that can be written.
\<close>

definition policy_sound :: "policy \<Rightarrow> bool" where
  "policy_sound p \<longleftrightarrow> policy_in_force p \<and> policy_wf p"

lemma policy_sound_iff: "policy_sound p = policy_wf p"
  by (auto simp: policy_sound_def policy_wf_def policy_in_force_def)

lemma filed_ingest: "det_filed d \<Longrightarrow> det_filed (snd (detector_ingest s d))"
  using ingest_recordable [of d s] by (cases "detector_ingest s d") simp

lemma filed_advance: "det_filed d \<Longrightarrow> det_filed (snd (detector_advance t d))"
  using advance_recordable [of d t] by (cases "detector_advance t d") simp

lemma filed_rearm: "det_filed d \<Longrightarrow> policy_in_force p \<Longrightarrow> det_filed (snd (rearm p g t d))"
  using rearm_recordable [of d p g t] by (cases "rearm p g t d") simp

interpretation filed: detector_contract det_filed policy_sound
  by unfold_locales (simp_all add: filed_new filed_ingest filed_advance filed_rearm policy_sound_def)

definition gov_filed :: "governor \<Rightarrow> bool" where
  "gov_filed g \<longleftrightarrow> gov_inv det_filed policy_sound g \<and> records_ok g"

lemma filed_parts:
  assumes "gov_filed g"
  shows "gov_inv det_filed policy_sound g" "records_ok g" "policies_ok policy_sound (gv_policies g)"
    "distinct (map fst (gv_interventions g))"
  using assms inv_parts(3,4) [of det_filed policy_sound g] by (simp_all add: gov_filed_def)

lemma filed_entry:
  assumes "gov_filed g" "(k, entry) \<in> set (gv_streams g)"
  shows "det_filed (se_detector entry)" "dt_key (se_detector entry) = k" "stream_key_valid k"
    "k \<in> fst ` set (gv_streams g)"
  using streams_ok_entry [OF inv_parts(2) [OF filed_parts(1) [OF assms(1)]] assms(2)] assms(2)
  by (auto simp: entry_ok_def intro: rev_image_eqI)

text \<open>One processed decision of one stream.\<close>

lemma filed_process:
  assumes "gov_filed g" "entry_ok det_filed (k, entry)" "k \<in> fst ` set (gv_streams g)"
    "recordable dec (se_detector entry)"
  shows "gov_filed (process_decision (se_detector entry) dec now (g\<lparr>gv_streams := insert_stream k entry (gv_streams g)\<rparr>))"
proof -
  define h where "h = g\<lparr>gv_streams := insert_stream k entry (gv_streams g)\<rparr>"
  have "records_ok h" "policies_ok policy_sound (gv_policies h)" "distinct (map fst (gv_interventions h))"
    using filed_parts(2-4) [OF assms(1)] by (simp_all add: h_def)
  then have "records_ok (process_decision (se_detector entry) dec now h)"
    using assms(2,4) by (intro records_process_decision) (simp_all add: entry_ok_def)
  then show ?thesis
    using process_in_stream(1) [OF filed_parts(1) [OF assms(1)] assms(2,3)] by (simp add: gov_filed_def h_def)
qed

lemma found_records: "find_or_create k g = Some (entry, h) \<Longrightarrow> records_ok h = records_ok g"
  by (auto simp: find_or_create_def Let_def split: option.splits if_splits)

lemma count_accept_records [simp]: "records_ok (count_accept a g) = records_ok g"
  by (cases a) (simp_all add: count_accept_def)

lemma records_ingest:
  assumes "gov_filed g"
  shows "records_ok (snd (governor_ingest s g))"
proof -
  note parts = filed_parts [OF assms]
  consider (bad) "\<not> is_ok (validate_sample s)"
    | (full) "is_ok (validate_sample s)" "find_or_create (sm_stream s) g = None"
    | (known) entry h where "is_ok (validate_sample s)" "find_or_create (sm_stream s) g = Some (entry, h)"
    by (cases "find_or_create (sm_stream s) g") auto
  then show ?thesis
  proof cases
    case known
    note f = filed.found [OF parts(1) validate_sample_key [OF known(1)] known(2)]
    define k where "k = sm_stream s"
    define h1 where "h1 = (if id_valid (sm_resource_generation s)
       then h\<lparr>gv_resource_generations :=
          (gv_resource_generations h)(sk_resource (sm_stream s) \<mapsto> sm_resource_generation s)\<rparr> else h)"
    obtain res d where rd: "detector_ingest s (se_detector entry) = (res, d)" by (metis surj_pair)
    have fd: "det_filed (se_detector entry)" "dt_key (se_detector entry) = k" "stream_key_valid k"
      using f by (simp_all add: entry_ok_def k_def)
    note rep = ingest_recordable [OF fd(1) rd]
    have key: "dt_key d = k" using detector_ingest_key [of s "se_detector entry"] rd fd(2) by simp
    define h2 where "h2 = h1\<lparr>gv_streams := insert_stream k (entry\<lparr>se_detector := d\<rparr>) (gv_streams h1)\<rparr>"
    have rec: "records_ok h2" using parts(2) found_records [OF known(2)] by (simp add: h2_def h1_def)
    show ?thesis
    proof (cases res)
      case (Inl st)
      then show ?thesis using known rd rec
        by (simp add: governor_ingest_def Let_def h1_def h2_def k_def)
    next
      case (Inr dec)
      define h3 where "h3 = count_accept (dt_last_accept d) h2"
      have "gov_inv det_filed policy_sound h1" "gv_streams h1 = gv_streams h" using f by (simp_all add: h1_def)
      then have "gov_inv det_filed policy_sound h2" using f fd rep key unfolding h2_def
        by (auto intro!: inv_streams streams_ok_insert simp: inv_parts k_def entry_ok_def)
      then have h3: "gov_filed h3" "k \<in> fst ` set (gv_streams h3)"
        using rec by (simp_all add: h3_def gov_filed_def count_accept_inv h2_def keys_insert_stream)
      define e where "e = entry\<lparr>se_detector := d, se_has_processed := True, se_last_processed := dd_tick dec\<rparr>"
      have "gov_filed (process_decision (se_detector e) dec (dd_tick dec)
          (h3\<lparr>gv_streams := insert_stream k e (gv_streams h3)\<rparr>))"
        using rep key fd(3) Inr by (intro filed_process h3) (simp_all add: e_def entry_ok_def)
      then have "records_ok (snd (ingest_decision k (entry\<lparr>se_detector := d\<rparr>) dec h3))"
        using h3(1) by (simp add: ingest_decision_def gov_filed_def e_def Let_def)
      then show ?thesis using Inr known rd
        by (simp add: governor_ingest_def Let_def case_prod_beta h1_def [symmetric] k_def [symmetric]
          h2_def [symmetric] h3_def [symmetric] records_refresh)
    qed
  qed (use parts in \<open>simp_all add: governor_ingest_def\<close>)
qed

lemma filed_advance_streams:
  assumes "gov_filed g" "list_all (entry_ok det_filed) entries" "fst ` set entries \<subseteq> fst ` set (gv_streams g)"
  shows "gov_filed (snd (snd (advance_streams now entries n m g)))"
  using assms
proof (induction now entries n m g rule: advance_streams.induct)
  case (2 now k entry rest n m g)
  obtain dec d where dd: "detector_advance now (se_detector entry) = (dec, d)" by (metis surj_pair)
  have e0: "det_filed (se_detector entry)" "dt_key (se_detector entry) = k" "stream_key_valid k"
    using "2.prems"(2) by (simp_all add: entry_ok_def)
  note rep = advance_recordable [OF e0(1) dd]
  have key: "dt_key d = k" using detector_advance_key [of now "se_detector entry"] dd e0(2) by simp
  define e where "e = entry\<lparr>se_detector := d, se_has_processed := True, se_last_processed := dd_tick dec\<rparr>"
  have ok: "entry_ok det_filed (k, entry\<lparr>se_detector := d\<rparr>)" "entry_ok det_filed (k, e)"
    using rep key e0(3) by (simp_all add: entry_ok_def e_def)
  have k: "k \<in> fst ` set (gv_streams g)" using "2.prems"(3) by simp
  have keys: "fst ` set (insert_stream k x (gv_streams g)) = fst ` set (gv_streams g)" for x
    using k by (auto simp: keys_insert_stream)
  note inv = filed_parts(1) [OF "2.prems"(1)]
  have idle: "gov_filed (g\<lparr>gv_streams := insert_stream k (entry\<lparr>se_detector := d\<rparr>) (gv_streams g)\<rparr>)"
    using "2.prems"(1) inv ok k unfolding gov_filed_def
    by (auto intro!: inv_streams streams_ok_insert simp: inv_parts)
  note busy_keys = process_in_stream(2) [OF inv ok(2) k]
  define seen where "seen \<longleftrightarrow> dt_has_evaluated (se_detector entry) \<and>
     \<not> tick_after (dt_last_evaluated (se_detector entry)) now"
  consider (skip) seen | (due) "\<not> seen" "entry_due (entry\<lparr>se_detector := d\<rparr>) dec"
    | (idle) "\<not> seen" "\<not> entry_due (entry\<lparr>se_detector := d\<rparr>) dec" by blast
  then show ?case
  proof cases
    case skip
    then show ?thesis using "2.IH"(1) "2.prems" by (simp add: seen_def)
  next
    case due
    show ?thesis
      using "2.IH"(2) [OF due(1) [unfolded seen_def] dd [symmetric] refl refl due(2) refl refl] due "2.prems" dd
        filed_process [OF "2.prems"(1) ok(2) k, of dec now] rep busy_keys [of d dec now]
      by (simp add: Let_def e_def if_not_P [OF due(1) [unfolded seen_def]] del: de_Morgan_conj)
  next
    case idle
    then show ?thesis
      using "2.IH"(3) [OF idle(1) [unfolded seen_def] dd [symmetric] refl refl idle(2)] "2.prems" dd
        \<open>gov_filed (g\<lparr>gv_streams := insert_stream k (entry\<lparr>se_detector := d\<rparr>) (gv_streams g)\<rparr>)\<close>
      by (simp add: Let_def keys if_not_P [OF idle(1) [unfolded seen_def]] del: de_Morgan_conj)
  qed
qed simp

lemma records_advance: "gov_filed g \<Longrightarrow> records_ok (snd (governor_advance now g))"
proof -
  assume g: "gov_filed g"
  have "gov_filed (snd (snd (advance_streams now (gv_streams g) 0 0 g)))"
    using g filed_parts(1) [OF g] by (intro filed_advance_streams) (simp_all add: gov_inv_def streams_ok_def)
  then show ?thesis by (simp add: governor_advance_def gov_filed_def case_prod_beta records_refresh Let_def)
qed

end
