(* ===== verification/Checkpoints.thy ===== *)
theory Checkpoints
  imports Governor_Records
begin

text \<open>
  Every governor an owner can bring about can be checkpointed and brought back: the operations and
  the recovery keep its records well formed, the decoders accept only well-formed values, and a
  checkpoint restores the configuration without any assumption on the state itself.
\<close>

section \<open>Policies of the type\<close>

text \<open>
  What the type of a policy guarantees whether it is valid or not: the sizes of its arrays, and that
  a severity is either named or a raw value outside the named ones.
\<close>

definition policy_typed :: "policy \<Rightarrow> bool" where
  "policy_typed p \<longleftrightarrow> policy_shape p \<and> severity_wf (dp_degraded_severity_cap (po_detection p)) \<and>
     list_all (\<lambda>l. severity_wf (kl_min_severity l)) (ip_kinds (po_intervention p))"

lemma typed_sound: "policy_typed p \<Longrightarrow> is_ok (validate_policy p) \<Longrightarrow> policy_sound p"
  by (simp add: policy_typed_def policy_sound_iff policy_wf_def)

lemma sound_typed: "policy_sound p \<Longrightarrow> policy_typed p"
  by (simp add: policy_typed_def policy_sound_iff policy_wf_def)

lemma policies_sound:
  "ps_inv s \<Longrightarrow> policy_typed (ps_fallback s) \<Longrightarrow> list_all (\<lambda>e. policy_typed (ov_policy e)) (ps_overrides s) \<Longrightarrow>
   policies_ok policy_sound s"
  by (auto simp: policies_ok_def ps_inv_def list_all_iff typed_sound)

lemma get_many_length: "length (fst (get_many get n r)) = n"
  by (induction n arbitrary: r) (simp_all add: case_prod_beta Let_def)

lemma decode_many_all:
  assumes "decode_many dec n r = Inr (xs, r')" "\<And>q x q'. dec q = Inr (x, q') \<Longrightarrow> P x"
  shows "length xs = n \<and> list_all P xs"
  using assms(1)
  by (induction n arbitrary: r xs r') (auto split: sum.splits prod.splits dest: assms(2))

lemma decode_ladder_length: "decode_ladder r = Inr (l, r') \<Longrightarrow> length l = kSteps"
  using get_many_length [of get_u64 kSteps r] by (auto simp: decode_ladder_def case_prod_beta Let_def split: if_splits)

lemma decode_kind_typed: "decode_kind_limit r = Inr (l, r') \<Longrightarrow> severity_wf (kl_min_severity l)"
  by (auto simp: decode_kind_limit_def case_prod_beta Let_def split: if_splits)

lemma list5: "length xs = 5 \<Longrightarrow> list_all P xs \<Longrightarrow> P (xs ! 0) \<and> P (xs ! 1) \<and> P (xs ! 2) \<and> P (xs ! 3) \<and> P (xs ! 4)"
  by (simp add: list_all_length)

lemma decode_policy_tail_typed:
  assumes "decode_policy_tail head i ladders r = Inr (p, r')" "length ladders = 5"
    "list_all (\<lambda>l. length l = kSteps) ladders"
    "\<And>a b c d e. dp_occupancy_permille_ladder (head a b c d e) = a \<and> dp_depth_ladder (head a b c d e) = b \<and>
       dp_slope_ladder (head a b c d e) = c \<and> dp_duration_ladder (head a b c d e) = d \<and> dp_drop_ladder (head a b c d e) = e"
  shows "policy_typed p"
  using assms(1) list5 [OF assms(2,3)] unfolding decode_policy_tail_def Let_def
  by (auto simp: policy_typed_def policy_shape_def assms(4) case_prod_beta Let_def
      dest!: decode_many_all [OF _ decode_kind_typed] split: if_splits sum.splits)

lemma decode_policy_typed: "decode_policy r = Inr (p, r') \<Longrightarrow> policy_typed p"
  unfolding decode_policy_def Let_def case_prod_beta
  by (auto elim!: decode_policy_tail_typed dest!: decode_many_all [OF _ decode_ladder_length] split: sum.splits)

lemma decode_override_typed: "decode_override r = Inr (e, r') \<Longrightarrow> policy_typed (ov_policy e)"
  by (auto simp: decode_override_def case_prod_beta Let_def dest: decode_policy_typed split: sum.splits)

lemma decode_policy_set_typed:
  assumes "decode_policy_set r = Inr (s, r')"
  shows "policy_typed (ps_fallback s) \<and> list_all (\<lambda>e. policy_typed (ov_policy e)) (ps_overrides s)"
  using assms unfolding decode_policy_set_def Let_def case_prod_beta
  by (auto dest: decode_policy_typed decode_many_all [OF _ decode_override_typed] simp: policy_set_restore_ok
      split: if_splits sum.splits)

section \<open>What recovery reads\<close>

lemma decode_counters_keeps:
  assumes "decode_counters mk r = Inr s" "\<And>a b c d e f g h i. P (mk a b c d e f g h i)"
  shows "P s"
  using assms(1) by (auto simp: decode_counters_def case_prod_beta Let_def assms(2) split: if_splits)

lemma decode_events_wf: "decode_many decode_event n r = Inr (es, r') \<Longrightarrow> list_all event_wf es"
  using decode_many_all [of decode_event n r es r' event_wf] event_wf_decode by blast

lemma decode_intents_wf: "decode_many decode_intent n r = Inr (is, r') \<Longrightarrow> list_all intent_wf is"
  using decode_many_all [of decode_intent n r "is" r' intent_wf] intent_wf_decode by blast

lemma decode_lists_wf:
  assumes "decode_lists mk r = Inr s"
    "\<And>es is a b c d e f g h i. list_all event_wf es \<Longrightarrow> list_all intent_wf is \<Longrightarrow> P (mk es is a b c d e f g h i)"
  shows "P s"
  using assms(1) unfolding decode_lists_def Let_def case_prod_beta
  by (auto elim!: decode_counters_keeps intro!: assms(2)
      dest!: decode_events_wf decode_intents_wf
      split: if_splits sum.splits)

definition readable :: "persisted_state \<Rightarrow> bool" where
  "readable s \<longleftrightarrow> list_all event_wf (pd_events s) \<and> list_all intent_wf (pd_interventions s) \<and>
     policy_typed (ps_fallback (pd_policies s)) \<and>
     list_all (\<lambda>e. policy_typed (ov_policy e)) (ps_overrides (pd_policies s))"

lemma decode_state_readable:
  assumes "decode_state bytes = Inr s"
  shows "readable s"
  using assms unfolding decode_state_def Let_def case_prod_beta
  by (auto elim!: decode_lists_wf dest!: decode_policy_set_typed simp: readable_def split: if_splits sum.splits)

definition acc_ok :: "recovery_accumulator \<Rightarrow> bool" where
  "acc_ok acc \<longleftrightarrow> list_all event_wf (map snd (ra_open_events acc)) \<and> list_all event_wf (ra_closed_events acc) \<and>
     list_all intent_wf (ra_interventions acc) \<and> (\<forall>p. ra_fallback acc = Some p \<longrightarrow> policy_typed p) \<and>
     list_all (\<lambda>e. policy_typed (ov_policy e)) (ra_overrides acc)"

lemma acc_event: "acc_ok acc \<Longrightarrow> event_wf e \<Longrightarrow> acc_ok (accumulate_event e acc)"
  using set_assign [of "ev_id e" e "ra_open_events acc"]
  by (auto simp: accumulate_event_def acc_ok_def list_all_iff)

lemma acc_intent: "acc_ok acc \<Longrightarrow> intent_wf i \<Longrightarrow> acc_ok (accumulate_intent i acc)"
  by (auto simp: accumulate_intent_def acc_ok_def list_all_iff split: option.split
      dest!: set_update_subset_insert [THEN subsetD])

lemma acc_events: "acc_ok acc \<Longrightarrow> list_all event_wf es \<Longrightarrow> acc_ok (fold accumulate_event es acc)"
  by (induction es arbitrary: acc) (simp_all add: acc_event)

lemma acc_intents: "acc_ok acc \<Longrightarrow> list_all intent_wf is \<Longrightarrow> acc_ok (fold accumulate_intent is acc)"
  by (induction "is" arbitrary: acc) (simp_all add: acc_intent)

lemma acc_empty [simp]: "acc_ok accumulator_empty"
  by (simp add: acc_ok_def accumulator_empty_def)

lemma acc_counters [simp]: "acc_ok (acc\<lparr>ra_counters := c\<rparr>) = acc_ok acc"
  by (simp add: acc_ok_def)

lemma acc_state: "readable s \<Longrightarrow> acc_ok acc \<Longrightarrow> acc_ok (accumulate_state s acc)"
  unfolding accumulate_state_def Let_def readable_def
  by (simp, intro acc_intents acc_events) (simp_all add: acc_ok_def)

lemma acc_record: "acc_ok acc \<Longrightarrow> acc_ok (accumulate_record rec acc)"
proof -
  assume a: "acc_ok acc"
  have opened: "acc_ok (acc\<lparr>ra_open_events := assign (ev_id e) e (ra_open_events acc)\<rparr>)" if "event_wf e" for e
    using a that set_assign [of "ev_id e" e "ra_open_events acc"] by (auto simp: acc_ok_def list_all_iff)
  have closed: "acc_ok (acc\<lparr>ra_open_events := erase (ev_id e) (ra_open_events acc),
      ra_closed_events := ra_closed_events acc @ [e]\<rparr>)" if "event_wf e" for e
    using a that by (auto simp: acc_ok_def list_all_iff set_erase)
  have policy: "acc_ok (accumulate_policy b acc)" for b
    using a decode_policy_typed
    by (auto simp: accumulate_policy_def acc_ok_def case_prod_beta Let_def split: sum.split)
  have authority: "acc_ok (accumulate_authority b acc)" for b
    using a by (simp add: accumulate_authority_def case_prod_beta Let_def)
  show ?thesis
    using a event_wf_decode intent_wf_decode
    by (cases "jr_type rec")
      (simp_all add: accumulate_record_def Let_def policy authority split: sum.split prod.split,
       (blast intro: opened closed acc_intent)+)
qed

lemma acc_snapshot: "acc_ok (snd (restore_snapshot present payload report))"
  using decode_state_readable by (auto simp: restore_snapshot_def acc_state split: sum.split)

lemma acc_journal:
  "acc_ok acc \<Longrightarrow> acc_ok (fold (\<lambda>rec acc. if jr_seq rec \<le> n then acc else accumulate_record rec acc) recs acc)"
  by (induction recs arbitrary: acc) (simp_all add: acc_record)

lemma restore_sound_cases:
  obtains (unbound) "snd (restore g) = g"
  | (failed) s where "snd (restore g) = g\<lparr>gv_store := Some s, gv_env_pos := gv_env_pos g + 1\<rparr>"
  | (rebuilt) s acc r where "acc_ok acc" "snd (restore g) =
      restore_announce (snd (restore_state acc r (g\<lparr>gv_store := Some s, gv_env_pos := gv_env_pos g + 1\<rparr>)))"
proof (cases "gv_store g")
  case None
  then show ?thesis using unbound by (simp add: restore_def)
next
  case (Some s)
  obtain res s' recs where r: "store_replay (env_now g) collect_record s [] = (res, s', recs)"
    by (metis prod_cases3)
  show ?thesis
  proof (cases res)
    case (Inl st)
    then show ?thesis using failed [of s'] by (simp add: restore_def Some r Let_def)
  next
    case (Inr rp)
    then show ?thesis using acc_journal [OF acc_snapshot]
      by (cases rp; intro rebuilt) (assumption | simp add: restore_def Some r Let_def case_prod_beta)+
  qed
qed

section \<open>Recovery files well-formed records\<close>

lemma fenced_by_restart_wf: "event_wf e \<Longrightarrow> event_wf (fenced_by_restart c e)"
  by (simp add: fenced_by_restart_def event_wf_def event_positive_def stamp_context_def)

lemma records_restore_closed:
  "records_ok (snd s) \<Longrightarrow> list_all event_wf es \<Longrightarrow> records_ok (snd (fold restore_closed es s))"
  by (induction es arbitrary: s) (auto simp: restore_closed_def records_event case_prod_beta)

lemma records_restore_open:
  "records_ok (snd s) \<Longrightarrow> list_all event_wf es \<Longrightarrow> records_ok (snd (fold restore_open es s))"
  by (induction es arbitrary: s) (auto simp: restore_open_def records_event fenced_by_restart_wf case_prod_beta)

lemma in_tl: "x \<in> set (tl xs) \<Longrightarrow> x \<in> set xs"
  by (cases xs) simp_all

lemma records_restore_intent:
  assumes "records_ok (snd s)" "intent_wf i"
  shows "records_ok (snd (restore_intent i s))"
proof -
  have "intent_wf (i\<lparr>ii_state := IsFenced, ii_revocation_verdict := AvBootChanged, ii_state_changed_tick := t\<rparr>)" for t
    using assms(2) by (simp add: intent_wf_def)
  then show ?thesis
    using assms(1) by (cases s) (auto simp: restore_intent_def records_ok_def Let_def list_all_iff dest!: in_tl)
qed

lemma records_restore_intents:
  "records_ok (snd s) \<Longrightarrow> list_all intent_wf is \<Longrightarrow> records_ok (snd (fold restore_intent is s))"
  by (induction "is" arbitrary: s) (simp_all add: records_restore_intent)

lemma restore_policies_filed:
  assumes "gov_filed g" "acc_ok acc"
  shows "gov_filed (snd (restore_policies acc r g))"
proof -
  have "gov_filed (set_context_policy (g\<lparr>gv_policies := ps\<rparr>))"
    if "ra_fallback acc = Some p" "policy_set_restore p (ra_overrides acc) n = Inr ps" for p ps n
  proof -
    have "policies_ok policy_sound ps"
      using that(1) assms(2) policy_set_restore_ok [OF that(2)] by (intro policies_sound) (simp_all add: acc_ok_def)
    then show ?thesis using assms(1) filed.installed [of g ps] by (simp add: gov_filed_def set_context_policy_def)
  qed
  then show ?thesis using assms(1) by (simp add: restore_policies_def split: option.split sum.split)
qed

lemma restore_state_filed:
  assumes "gov_filed g" "acc_ok acc"
  shows "gov_filed (snd (restore_state acc r g))"
proof -
  define s1 where "s1 = restore_policies acc r g"
  define s2 where "s2 = fold restore_closed (ra_closed_events acc) s1"
  define s3 where "s3 = fold restore_open (map snd (ra_open_events acc)) s2"
  define s4 where "s4 = fold restore_intent (ra_interventions acc) s3"
  have acc: "list_all event_wf (ra_closed_events acc)" "list_all event_wf (map snd (ra_open_events acc))"
    "list_all intent_wf (ra_interventions acc)"
    using assms(2) by (simp_all add: acc_ok_def)
  have 1: "gov_filed (snd s1)" unfolding s1_def by (rule restore_policies_filed [OF assms])
  have 2: "gov_filed (snd s2)"
    using 1 acc(1) by (simp add: gov_filed_def s2_def restore_folds_inv(1) records_restore_closed)
  have 3: "gov_filed (snd s3)"
    using 2 acc(2) by (simp add: gov_filed_def s3_def restore_folds_inv(2) records_restore_open)
  have 4: "gov_filed (snd s4)"
    using 3 acc(3) by (simp add: gov_filed_def s4_def restore_folds_inv(3) records_restore_intents)
  have "records_ok (restore_counters c h) = records_ok h" for c h by (simp add: restore_counters_def Let_def)
  then show ?thesis
    using 4 by (simp add: restore_state_def Let_def case_prod_beta gov_filed_def restore_counters_inv
        flip: s1_def s2_def s3_def s4_def)
qed

lemma restore_filed:
  assumes "gov_filed g"
  shows "gov_filed (snd (restore g))"
proof -
  have g: "gov_filed (g\<lparr>gv_store := s, gv_env_pos := n\<rparr>)" for s n using assms by (simp add: gov_filed_def)
  have announce: "gov_filed (restore_announce h)" if "gov_filed h" for h
    using that by (simp add: gov_filed_def restore_announce_inv) (simp add: restore_announce_def Let_def)
  show ?thesis
    by (cases rule: restore_sound_cases [of g]) (simp_all add: assms g announce restore_state_filed)
qed

section \<open>The operations\<close>

lemma rearm_stream_filed:
  assumes "gov_filed g" "entry_ok det_filed (k, entry)" "k \<in> fst ` set (gv_streams g)"
  shows "gov_filed (rearm_stream k entry g)"
proof -
  define p where "p = resolve (gv_policies g) (sk_resource (dt_key (se_detector entry)))"
  obtain fenced d where fd: "rearm p (ps_generation (gv_policies g)) (gv_last_tick g) (se_detector entry) = (fenced, d)"
    by (metis surj_pair)
  have "policy_in_force p"
    using policies_ok_resolve [OF filed_parts(3) [OF assms(1)]] by (simp add: p_def policy_sound_def)
  then have e: "fenced \<noteq> None \<longrightarrow> event_wf (dt_episode d)"
    using rearm_recordable [OF _ _ fd] assms(2) by (simp add: entry_ok_def)
  have f: "event_wf x \<Longrightarrow> event_wf (x\<lparr>ev_lifecycle := ElFenced\<rparr>)" for x
    by (simp add: event_wf_def event_positive_def)
  have erased: "records_ok (g\<lparr>gv_streams := m, gv_open_events := erase i (gv_open_events g)\<rparr>)" for m i
    using filed_parts(2) [OF assms(1)] by (auto simp: records_ok_def list_all_iff set_erase)
  have "records_ok (rearm_stream k entry g)"
    using filed_parts(2) [OF assms(1)] e
    by (cases "fenced = None")
      (simp_all add: rearm_stream_def Let_def fd p_def [symmetric] records_event f erased)
  then show ?thesis using filed.rearm_stream_inv(1) [OF filed_parts(1) [OF assms(1)] assms(2,3)]
    by (simp add: gov_filed_def)
qed

lemma rearm_streams_filed:
  "gov_filed g \<Longrightarrow> list_all (entry_ok det_filed) entries \<Longrightarrow> fst ` set entries \<subseteq> fst ` set (gv_streams g) \<Longrightarrow>
   gov_filed (rearm_streams entries g)"
  unfolding rearm_streams_def
proof (induction entries arbitrary: g)
  case (Cons e entries)
  obtain k entry where e: "e = (k, entry)" by (cases e)
  with Cons.prems have p: "entry_ok det_filed (k, entry)" "k \<in> fst ` set (gv_streams g)" by simp_all
  from rearm_stream_filed [OF Cons.prems(1) p] filed.rearm_stream_inv(2) [OF filed_parts(1) [OF Cons.prems(1)] p] Cons
  show ?case by (simp add: e)
qed simp

lemma records_rearmed:
  assumes "gov_filed g" "policies_ok policy_sound ps"
  shows "records_ok (rearm_streams (filter f (gv_streams g))
    (count_stat gs_policy_changes_update (set_context_policy (g\<lparr>gv_policies := ps\<rparr>))))"
proof -
  define h where "h = count_stat gs_policy_changes_update (set_context_policy (g\<lparr>gv_policies := ps\<rparr>))"
  have h: "gov_filed h"
    using assms filed.installed [of g ps] by (simp add: h_def gov_filed_def kept set_context_policy_def)
  have s: "gv_streams h = gv_streams g" by (simp add: h_def set_context_policy_def)
  have "list_all (entry_ok det_filed) (filter f (gv_streams g))"
    using filed_parts(1) [OF assms(1)] by (auto simp: gov_inv_def streams_ok_def list_all_iff)
  then have "gov_filed (rearm_streams (filter f (gv_streams g)) h)"
    by (intro rearm_streams_filed h) (auto simp: s)
  then show ?thesis by (simp add: gov_filed_def h_def)
qed

lemma records_install:
  assumes "gov_filed g" "policy_sound p"
  shows "records_ok (snd (install_policy p g))"
proof -
  obtain st ps where sf: "set_fallback p (gv_policies g) = (st, ps)" by (metis surj_pair)
  show ?thesis
  proof (cases "is_ok st")
    case True
    have "policies_ok policy_sound ps"
      using filed_parts(3) [OF assms(1)] assms(2) set_fallback_inv [OF _ sf True] set_fallback_ok(3) [OF sf True]
      by (simp add: policies_ok_def)
    from records_rearmed [OF assms(1) this, of "\<lambda>x. True"] True sf show ?thesis
      by (simp add: install_policy_def case_prod_beta Let_def records_refresh set_context_policy_def)
  qed (use sf assms in \<open>simp add: install_policy_def gov_filed_def\<close>)
qed

lemma records_set_resource:
  assumes "gov_filed g" "policy_sound p"
  shows "records_ok (snd (set_resource_policy r p g))"
proof -
  obtain st ps where so: "set_override r p (gv_policies g) = (st, ps)" by (metis surj_pair)
  show ?thesis
  proof (cases "is_ok st")
    case True
    have "policies_ok policy_sound ps"
      by (rule filed.set_override_policies [OF filed_parts(3) [OF assms(1)] assms(2) so True])
    from records_rearmed [OF assms(1) this] True so show ?thesis
      by (simp add: set_resource_policy_def case_prod_beta Let_def records_refresh)
  qed (use so assms in \<open>simp add: set_resource_policy_def gov_filed_def\<close>)
qed

lemma records_operations:
  assumes "records_ok g"
  shows "records_ok (snd (remove_resource_policy r g))" "records_ok (snd (bind_authority e i b g))"
    "records_ok (snd (set_resource_generation r n g))" "records_ok (set_interventions_enabled on g)"
    "records_ok (snd (drain_emissions g))" "records_ok (snd (bind_store s g))" "records_ok (snd (compact g))"
  using assms
  by (simp_all add: remove_resource_policy_def bind_authority_def set_resource_generation_def
      set_interventions_enabled_def drain_emissions_def bind_store_def set_context_policy_def
      records_refresh records_revoke case_prod_beta Let_def split: option.split)

lemma step_filed_sound: "gov_filed g \<Longrightarrow> op_policy policy_sound op \<Longrightarrow> gov_filed (gov_step op g)"
proof -
  assume g: "gov_filed g" and p: "op_policy policy_sound op"
  have "records_ok (gov_step op g)"
    using p by (cases op) (simp_all add: records_ingest [OF g] records_advance [OF g] records_install [OF g]
      records_set_resource [OF g] records_operations [OF filed_parts(2) [OF g]] filed_parts(2) [OF g])
  then show ?thesis using filed.step_inv [OF filed_parts(1) [OF g] p] by (simp add: gov_filed_def)
qed

text \<open>An invalid policy is refused, so of a policy that is installed only its type is asked.\<close>

lemma refused_policy:
  assumes "\<not> is_ok (validate_policy p)"
  shows "snd (install_policy p g) = g" "snd (set_resource_policy r p g) = g"
  using assms by (simp_all add: install_policy_def set_resource_policy_def set_fallback_def set_override_def Let_def)

lemma step_filed: "gov_filed g \<Longrightarrow> op_policy policy_typed op \<Longrightarrow> gov_filed (gov_step op g)"
proof -
  assume g: "gov_filed g" and p: "op_policy policy_typed op"
  have invalid: "policy_typed q \<Longrightarrow> \<not> policy_sound q \<Longrightarrow> \<not> is_ok (validate_policy q)" for q
    using typed_sound by blast
  show ?thesis
  proof (cases "op_policy policy_sound op")
    case True
    then show ?thesis by (rule step_filed_sound [OF g])
  next
    case False
    then show ?thesis using p g by (cases op) (simp_all add: refused_policy invalid)
  qed
qed

inductive gov_typed :: "governor \<Rightarrow> bool" where
  created: "policy_typed (gc_policy cfg) \<Longrightarrow> gov_typed (governor_new cfg env)"
| stepped: "gov_typed g \<Longrightarrow> op_policy policy_typed op \<Longrightarrow> gov_typed (gov_step op g)"
| restored: "gov_typed g \<Longrightarrow> gov_typed (snd (restore g))"

lemma typed_default: "policy_sound make_default_policy"
proof -
  have "policy_typed make_default_policy"
    by (simp add: policy_typed_def policy_shape_def make_default_policy_def detection_policy_default_def
        intervention_policy_default_def kind_limit_default_def kInterventionKindCount_def kSteps_def Let_def)
  then show ?thesis by (rule typed_sound) (simp add: default_policy_valid)
qed

lemma created_filed:
  assumes "policy_typed (gc_policy cfg)"
  shows "gov_filed (governor_new cfg env)"
proof -
  have inv: "gov_inv det_filed policy_sound (governor_new c env)" if "policy_sound (gc_policy c)" for c
    by (rule governor_new_inv [OF typed_default that])
  have "gov_inv det_filed policy_sound (governor_new cfg env)"
  proof (cases "is_ok (validate_policy (gc_policy cfg))")
    case True
    then show ?thesis using assms by (intro inv typed_sound)
  next
    case False
    have "policies_ok policy_sound policy_set_init"
      using typed_default ps_inv_init by (simp add: policies_ok_def policy_set_init_def)
    then show ?thesis using False
      by (simp add: governor_new_def set_fallback_def Let_def gov_inv_def set_context_policy_def context_ok_def
          buffers_ok_def kMaxEventHistory_def streams_ok_def interventions_ok_def events_ok_def)
  qed
  then show ?thesis
    by (simp add: gov_filed_def) (simp add: records_ok_def governor_new_def set_context_policy_def Let_def)
qed

lemma gov_typed_filed: "gov_typed g \<Longrightarrow> gov_filed g"
  by (induction rule: gov_typed.induct) (simp_all add: created_filed step_filed restore_filed)

section \<open>The exported state\<close>

lemma history_ordered_set: "set (history_ordered g) \<subseteq> set (gv_history g)"
proof
  fix e assume "e \<in> set (history_ordered g)"
  then obtain i where "e = gv_history g ! ((gv_history_head g + i) mod length (gv_history g))"
      "i < length (gv_history g)" by (auto simp: history_ordered_def)
  then show "e \<in> set (gv_history g)" by (auto intro!: nth_mem mod_less_divisor)
qed

lemma exported:
  assumes "gov_filed g"
  shows "policy_set_wf (gv_policies g)" "list_all event_wf (pd_events (export_state g))"
    "list_all intent_wf (pd_interventions (export_state g))"
    "length (pd_interventions (export_state g)) \<le> kMaxInterventions"
    "length (pd_events (export_state g)) \<le> kMaxEventHistory + length (gv_open_events g)"
proof -
  note parts = filed_parts [OF assms]
  show "policy_set_wf (gv_policies g)"
    using parts(3) by (auto simp: policy_set_wf_def policies_ok_def policy_sound_iff)
  show "list_all event_wf (pd_events (export_state g))"
    using parts(2) history_ordered_set [of g] by (auto simp: export_state_def records_ok_def list_all_iff)
  show "list_all intent_wf (pd_interventions (export_state g))"
    using parts(2)
    by (auto simp: export_state_def records_ok_def list_all_iff collect_persisted_interventions_def Let_def
        dest!: in_set_dropD)
  show "length (pd_interventions (export_state g)) \<le> kMaxInterventions"
    by (simp add: export_state_def) (simp add: collect_persisted_interventions_def Let_def del: drop_append length_append)
  have "length (gv_history g) \<le> kMaxEventHistory" using inv_parts(6) [OF parts(1)] by (simp add: buffers_ok_def)
  then show "length (pd_events (export_state g)) \<le> kMaxEventHistory + length (gv_open_events g)"
    by (simp add: export_state_def history_ordered_def)
qed

lemma exported_state_wf:
  "gov_typed g \<Longrightarrow> kMaxEventHistory + length (gv_open_events g) \<le> kMaxEventsPersisted \<Longrightarrow> state_wf (export_state g)"
  using exported [OF gov_typed_filed, of g] by (simp add: state_wf_def) (simp add: export_state_def)

section \<open>Episodes the governor loses sight of\<close>

text \<open>
  Why the number of open events is a hypothesis above: a sample that carries a new resource generation
  makes the detector close its episode, but when its tick is not after the last processed one the
  decision is never processed, so the event stays open in the governor and is not filed.
\<close>

lemma fence_closes:
  assumes "sm_stream s = dt_key d" "is_ok (validate_sample s)" "has_open_episode d"
    "id_valid (sm_resource_generation s)" "id_valid (dt_resource_generation d)"
    "sm_resource_generation s \<noteq> dt_resource_generation d" "detector_ingest s d = (res, d')"
  obtains dec where "res = Inr dec" "dd_tick dec = sm_tick s" "\<not> has_open_episode d'"
proof -
  obtain f dec where fd: "fence_decision CrCapacityChanged (sm_tick s) d = (f, dec)" by (metis surj_pair)
  have t: "dd_tick dec = sm_tick s" "\<not> has_open_episode f"
    using fd by (auto simp: fence_decision_def close_episode_def identity_decision_def has_open_episode_def Let_def)
  show ?thesis
    using assms fd t by (intro that [of dec]) (auto simp: detector_ingest_def has_open_episode_def Let_def)
qed

lemma generation_change_strands_episode:
  assumes "is_ok (validate_sample s)" "map_of (gv_streams g) (sm_stream s) = Some entry"
    "dt_key (se_detector entry) = sm_stream s" "has_open_episode (se_detector entry)"
    "id_valid (sm_resource_generation s)" "id_valid (dt_resource_generation (se_detector entry))"
    "sm_resource_generation s \<noteq> dt_resource_generation (se_detector entry)"
    "se_has_processed entry" "\<not> tick_after (se_last_processed entry) (sm_tick s)"
    "sorted_keys (gv_streams g)" "distinct (map fst (gv_interventions g))"
  defines "h \<equiv> snd (governor_ingest s g)"
  shows "gv_open_events h = gv_open_events g"
    "\<exists>e. map_of (gv_streams h) (sm_stream s) = Some e \<and> \<not> has_open_episode (se_detector e)"
proof -
  obtain res d where rd: "detector_ingest s (se_detector entry) = (res, d)" by (metis surj_pair)
  obtain dec where dec: "res = Inr dec" "dd_tick dec = sm_tick s" "\<not> has_open_episode d"
    using fence_closes [OF assms(3) [symmetric] assms(1,4-7) rd] by metis
  define g1 where "g1 = count_accept (dt_last_accept d) (g\<lparr>gv_resource_generations :=
      (gv_resource_generations g)(sk_resource (sm_stream s) \<mapsto> sm_resource_generation s),
    gv_streams := insert_stream (sm_stream s) (entry\<lparr>se_detector := d\<rparr>) (gv_streams g)\<rparr>)"
  have f: "find_or_create (sm_stream s) g = Some (entry, g)" using assms(2) by (simp add: find_or_create_def)
  have due: "\<not> entry_due (entry\<lparr>se_detector := d\<rparr>) dec" using assms(8,9) dec(2) by (simp add: entry_due_def)
  have h: "h = snd (refresh_authority (dd_tick dec) id_invalid g1)"
    using assms(1,5) f rd dec(1) due
    by (simp add: h_def governor_ingest_def ingest_decision_def g1_def case_prod_beta Let_def)
  have keeps: "gv_open_events (count_accept a k) = gv_open_events k"
    "gv_interventions (count_accept a k) = gv_interventions k" for a k
    by (cases a; simp add: count_accept_def)+
  then have "distinct (map fst (gv_interventions g1))" using assms(11) by (simp add: g1_def)
  from refresh_fields [OF this, of "dd_tick dec" id_invalid]
  have "gv_open_events h = gv_open_events g1" "gv_streams h = gv_streams g1" by (simp_all add: h same_authority_def)
  then show "gv_open_events h = gv_open_events g"
    "\<exists>e. map_of (gv_streams h) (sm_stream s) = Some e \<and> \<not> has_open_episode (se_detector e)"
    using dec(3) assms(10) by (simp_all add: g1_def keeps map_of_insert_stream)
qed

end
