(* ===== verification/Tools.thy ===== *)
theory Tools
  imports Generator Checkpoints
begin

text \<open>
  The command line tool \<open>mbgctl\<close> (directory \<open>cli\<close>, and \<open>bench/benchmark.cpp\<close>): its argument reader, and
  the commands as functions from the tokens and the world they run in to an exit code and the world
  they leave. They put the generator, the trace text, the governor and the durable store together.
\<close>

section \<open>The world of a command\<close>

text \<open>
  Files by path, what becomes of a write to a path, the durable stores by directory with the operating
  system's answers to their calls, the temporary directory, and the two output streams. A path that
  cannot be read has no entry. A path that cannot be opened for writing has no answer; one that can is
  emptied, and the answer is whether the stream is good after the write, which is before its buffer
  is flushed, and how many bytes reach the file in the end.
\<close>

record world =
  wd_files :: "string \<rightharpoonup> string"
  wd_write :: "string \<Rightarrow> (bool \<times> nat) option"
  wd_stores :: "string \<Rightarrow> store"
  wd_io :: "nat \<Rightarrow> io"
  wd_temp :: "string option"
  wd_out :: string
  wd_err :: string

definition put_out :: "string \<Rightarrow> world \<Rightarrow> world" where
  "put_out s w = w\<lparr>wd_out := wd_out w @ s\<rparr>"

definition put_err :: "string \<Rightarrow> world \<Rightarrow> world" where
  "put_err s w = w\<lparr>wd_err := wd_err w @ s\<rparr>"

definition line_out :: "string \<Rightarrow> world \<Rightarrow> world" where
  "line_out s w = put_out (s @ [newline_char]) w"

definition line_err :: "string \<Rightarrow> world \<Rightarrow> world" where
  "line_err s w = put_err (s @ [newline_char]) w"

definition read_file_bounded :: "string \<Rightarrow> nat \<Rightarrow> world \<Rightarrow> string option" where
  "read_file_bounded path maximum w =
     (case wd_files w path of
        None \<Rightarrow> None
      | Some contents \<Rightarrow> if length contents > maximum then None else Some contents)"

definition write_file :: "string \<Rightarrow> string \<Rightarrow> world \<Rightarrow> bool \<times> world" where
  "write_file path contents w =
     (case wd_write w path of
        None \<Rightarrow> (False, w)
      | Some (good, n) \<Rightarrow> (good, w\<lparr>wd_files := (wd_files w)(path \<mapsto> take n contents)\<rparr>))"

section \<open>Arguments\<close>

definition has_flag_token :: "string \<Rightarrow> string list \<Rightarrow> bool" where
  "has_flag_token flag args = list_ex (\<lambda>token. token = flag) args"

fun arg_value :: "string \<Rightarrow> string list \<Rightarrow> string option" where
  "arg_value flag (token # following # rest) =
     (if token = flag then Some following else arg_value flag (following # rest))"
| "arg_value flag _ = None"

definition arg_number :: "string \<Rightarrow> string list \<Rightarrow> u64 option" where
  "arg_number flag args =
     (case arg_value flag args of
        None \<Rightarrow> None
      | Some text \<Rightarrow>
          (case from_chars text of
             None \<Rightarrow> None
           | Some (parsed, rest) \<Rightarrow> if rest \<noteq> [] then None else Some parsed))"

text \<open>An option that overwrites a member of a configuration when it is given.\<close>

definition option_number :: "string \<Rightarrow> (u64 \<Rightarrow> 'c \<Rightarrow> 'c) \<Rightarrow> string list \<Rightarrow> 'c \<Rightarrow> 'c" where
  "option_number flag assign_member args cfg =
     (case arg_number flag args of None \<Rightarrow> cfg | Some v \<Rightarrow> assign_member v cfg)"

definition usage_text :: string where
  "usage_text =
     ''mbgctl 1.0.0 - Microburst Governor tool'' @ [newline_char, newline_char] @
     ''usage:'' @ [newline_char] @
     ''  mbgctl selftest'' @ [newline_char] @
     ''  mbgctl generate --shape <name> [--ticks N] [--seed N] [--out FILE]'' @ [newline_char] @
     ''  mbgctl replay --trace FILE [--policy-window N] [--interventions 0|1] [--events]'' @ [newline_char] @
     ''  mbgctl verify --store DIR'' @ [newline_char] @
     ''  mbgctl bench [--resources N] [--ticks N] [--window N] [--bursts N] [--seed N]'' @ [newline_char, newline_char] @
     ''shapes: steady, microburst, ramp, oscillating, noisy-steady, sparse-sampling,'' @ [newline_char] @
     ''        counter-reset, capacity-change, missing-samples, reordered, duplicate,'' @ [newline_char] @
     ''        shallow-noise, long-burst'' @ [newline_char, newline_char]"

definition print_usage :: "world \<Rightarrow> world" where
  "print_usage w = put_out usage_text w"

section \<open>generate\<close>

definition generate_config :: "string list \<Rightarrow> generator_config \<Rightarrow> generator_config" where
  "generate_config args cfg =
     (let cfg = option_number ''--ticks'' (\<lambda>v. gn_ticks_update (\<lambda>_. v)) args cfg;
          cfg = option_number ''--seed'' (\<lambda>v. gn_seed_update (\<lambda>_. v)) args cfg;
          cfg = option_number ''--interval'' (\<lambda>v. gn_sample_interval_update (\<lambda>_. v)) args cfg;
          cfg = option_number ''--burst-start'' (\<lambda>v. gn_burst_start_update (\<lambda>_. v)) args cfg
      in option_number ''--burst-ticks'' (\<lambda>v. gn_burst_ticks_update (\<lambda>_. v)) args cfg)"

definition generate_output ::
  "string list \<Rightarrow> generator_config \<Rightarrow> sample list \<Rightarrow> world \<Rightarrow> nat \<times> world" where
  "generate_output args cfg samples w =
     (let trace = encode_trace samples
      in case arg_value ''--out'' args of
           None \<Rightarrow> (0, put_out trace w)
         | Some path \<Rightarrow>
             let (stored, w) = write_file path trace w
             in if \<not> stored then (2, line_err ''mbgctl generate: output file could not be written'' w)
                else (0, line_out (''generate: shape='' @ shape_to_string (gn_shape cfg) @ '' samples='' @
                       decimal (length samples) @ '' bytes='' @ decimal (length trace) @ '' file='' @ path) w))"

text \<open>\<open>None\<close> would be a generator that does not return.\<close>

definition run_generate :: "string list \<Rightarrow> world \<Rightarrow> (nat \<times> world) option" where
  "run_generate args w =
     (let shape = (case arg_value ''--shape'' args of
             None \<Rightarrow> Inr (gn_shape generator_config_default)
           | Some text \<Rightarrow> (case parse_shape text of None \<Rightarrow> Inl text | Some s \<Rightarrow> Inr s))
      in case shape of
           Inl text \<Rightarrow> Some (2, line_err (''mbgctl generate: unknown shape '' @ [CHR 0x27] @ text @ [CHR 0x27]) w)
         | Inr s \<Rightarrow>
             let cfg = generate_config args (generator_config_default\<lparr>gn_shape := s\<rparr>)
             in case generate cfg of
                  None \<Rightarrow> None
                | Some samples \<Rightarrow> Some (generate_output args cfg samples w))"

section \<open>replay\<close>

text \<open>The loop over the samples that \<open>replay\<close> and the benchmark share, and its local variables.\<close>

record feed =
  fd_governor :: governor
  fd_accepted :: u64
  fd_rejected :: u64
  fd_highest :: tick

definition feed_one :: "sample \<Rightarrow> feed \<Rightarrow> feed" where
  "feed_one s f =
     (let (outcome, g) = governor_ingest s (fd_governor f);
          f = f\<lparr>fd_governor := g\<rparr>;
          f = (if is_ok (io_status outcome) then f\<lparr>fd_accepted := fd_accepted f + 1\<rparr>
               else f\<lparr>fd_rejected := fd_rejected f + 1\<rparr>)
      in if sm_tick s > fd_highest f then f\<lparr>fd_highest := sm_tick s\<rparr> else f)"

definition feed_samples :: "sample list \<Rightarrow> governor \<Rightarrow> feed" where
  "feed_samples samples g =
     fold feed_one samples \<lparr>fd_governor = g, fd_accepted = 0, fd_rejected = 0, fd_highest = 0\<rparr>"

definition replay_config :: "string list \<Rightarrow> governor_config" where
  "replay_config args =
     (let cfg = governor_config_default\<lparr>gc_policy := make_default_policy\<rparr>;
          cfg = option_number ''--policy-window'' (\<lambda>v. gc_policy_update (po_detection_update
                  (dp_window_capacity_update (\<lambda>_. v)))) args cfg;
          cfg = option_number ''--interventions'' (\<lambda>v. gc_enable_interventions_update (\<lambda>_. v \<noteq> 0)) args cfg
      in cfg\<lparr>gc_incarnation := 0xC0FFEE, gc_boot := 1\<rparr>)"

definition print_replay :: "string list \<Rightarrow> sample list \<Rightarrow> feed \<Rightarrow> governor \<Rightarrow> world \<Rightarrow> world" where
  "print_replay args samples f g w =
     (let st = gv_stats g;
          w = line_out (''replay: samples='' @ decimal (length samples) @ '' accepted='' @ to_string_u (fd_accepted f) @
                '' rejected='' @ to_string_u (fd_rejected f)) w;
          w = line_out (''replay: streams='' @ to_string_u (gs_streams st) @ '' decisions='' @
                to_string_u (gs_decisions st) @ '' episodes_opened='' @ to_string_u (gs_episodes_opened st) @
                '' episodes_closed='' @ to_string_u (gs_episodes_closed st) @ '' episodes_fenced='' @
                to_string_u (gs_episodes_fenced st) @ '' interventions_requested='' @
                to_string_u (gs_interventions_requested st) @ '' interventions_revoked='' @
                to_string_u (gs_interventions_revoked st)) w
      in if \<not> has_flag_token ''--events'' args then w
         else
           let w = fold (\<lambda>e. line_out (''history: '' @ render_event_line e)) (history_ordered g) w;
               w = fold (\<lambda>e. line_out (''open: '' @ render_event_line e)) (open_episodes g) w
           in fold (\<lambda>i. line_out (''intervention: '' @ render_intervention_line i)) (gv_intervention_history g) w)"

definition run_replay :: "string list \<Rightarrow> world \<Rightarrow> nat \<times> world" where
  "run_replay args w =
     (case arg_value ''--trace'' args of
        None \<Rightarrow> (2, line_err ''mbgctl replay: --trace FILE is required'' w)
      | Some path \<Rightarrow>
          (case read_file_bounded path kMaxSnapshotBytes w of
             None \<Rightarrow> (2, line_err ''mbgctl replay: trace file is unreadable or exceeds the bound'' w)
           | Some text \<Rightarrow>
               let (decoded, samples) = decode_trace text (2 ^ 22)
               in if \<not> is_ok decoded then
                    (2, line_err (''mbgctl replay: trace rejected: '' @ st_detail decoded @ '' ('' @
                          status_code_to_string (st_code decoded) @ '')'') w)
                  else
                    let f = feed_samples samples (governor_new (replay_config args) (wd_io w));
                        g = snd (governor_advance (fd_highest f + 1024) (fd_governor f))
                    in (0, print_replay args samples f g w)))"

section \<open>verify\<close>

text \<open>A new store on the files another one has left in the directory.\<close>

definition reopened :: "store \<Rightarrow> store" where
  "reopened s = store_new\<lparr>ds_journal := ds_journal s, ds_journal_synced := ds_journal_synced s,
     ds_snapshot := ds_snapshot s, ds_snapshot_synced := ds_snapshot_synced s\<rparr>"

definition verify_config :: "string \<Rightarrow> store_config" where
  "verify_config directory = \<lparr>sc_directory = directory, sc_max_journal_bytes = of_nat kMaxJournalBytes,
     sc_fsync_on_append = False\<rparr>"

definition count_stale :: "journaled_record \<Rightarrow> u64 \<Rightarrow> status \<times> u64" where
  "count_stale rec n =
     (status_ok, if jr_type rec \<in> {RtInterventionRequested, RtInterventionStateChanged} then n + 1 else n)"

definition damaged :: "recovery_outcome \<Rightarrow> bool" where
  "damaged out \<longleftrightarrow> out = RoCorruptTail \<or> out = RoVersionMismatch \<or> out = RoOversized"

definition verify_summary :: "recovery_report \<Rightarrow> string" where
  "verify_summary r = ''verify: outcome='' @ outcome_to_string (rp_outcome r) @ '' snapshot='' @
     (if rp_snapshot_present r then ''present'' else ''absent'') @ '' records='' @
     to_string_u (rp_records_replayed r) @ '' bytes_valid='' @ decimal (rp_bytes_valid r) @
     '' bytes_discarded='' @ decimal (rp_bytes_discarded r)"

text \<open>The end of the command, once the journal has been replayed.\<close>

definition verify_replayed :: "recovery_report \<Rightarrow> recovery_report \<Rightarrow> byte list \<Rightarrow> u64 \<Rightarrow> world \<Rightarrow> nat \<times> world" where
  "verify_replayed report replay_report payload stale w =
     (let restorable = (if rp_snapshot_present report \<and> payload \<noteq> []
            then (case decode_state payload of
                Inl st \<Rightarrow> Inl st
              | Inr state \<Rightarrow> Inr (length (pd_events state), stale + of_nat (length (pd_interventions state))))
            else Inr (0, stale))
      in case restorable of
           Inl st \<Rightarrow> (1, line_err (''mbgctl verify: snapshot rejected: '' @ st_detail st) w)
         | Inr (events, stale) \<Rightarrow>
             let w = line_out (''verify: restorable_events='' @ decimal events @ '' stale_live_interventions='' @
                   to_string_u stale @ '' recovery_outcome='' @ outcome_to_string (rp_outcome replay_report)) w
             in if damaged (rp_outcome replay_report)
                then (1, line_out ''verify: durable state carries damage that is not a plain truncated tail'' w)
                else (0, w))"

definition run_verify :: "string list \<Rightarrow> world \<Rightarrow> nat \<times> world" where
  "run_verify args w =
     (case arg_value ''--store'' args of
        None \<Rightarrow> (2, line_err ''mbgctl verify: --store DIR is required'' w)
      | Some directory \<Rightarrow>
          let (opened, s) = store_open (wd_io w 0) (verify_config directory) (reopened (wd_stores w directory));
              left = (\<lambda>s w. w\<lparr>wd_stores := (wd_stores w)(directory := s)\<rparr>)
          in if \<not> is_ok opened then
               (2, line_err (''mbgctl verify: store could not be opened: '' @ st_detail opened) (left s w))
             else case store_verify (wd_io w 1) s of
               Inl st \<Rightarrow> (1, line_err (''mbgctl verify: integrity check failed: '' @ st_detail st @ '' ('' @
                              status_code_to_string (st_code st) @ '')'') (left s w))
             | Inr report \<Rightarrow>
                 let w' = line_out (verify_summary report) w;
                     (replayed, s, stale) = store_replay (wd_io w 2) count_stale s 0
                 in (case replayed of
                       Inl st \<Rightarrow> (1, line_err (''mbgctl verify: replay failed: '' @ st_detail st) (left s w'))
                     | Inr (replay_report, payload) \<Rightarrow>
                         verify_replayed report replay_report payload stale (left s w')))"

section \<open>bench\<close>

record benchmark_config =
  bc_resources :: u64
  bc_ticks :: u64
  bc_sample_interval :: u64
  bc_window :: u64
  bc_bursts_per_resource :: u64
  bc_burst_ticks :: u64
  bc_seed :: u64
  bc_enable_interventions :: bool

definition benchmark_config_default :: benchmark_config where
  "benchmark_config_default = \<lparr>bc_resources = 8, bc_ticks = 4096, bc_sample_interval = 1, bc_window = 64,
     bc_bursts_per_resource = 4, bc_burst_ticks = 16, bc_seed = 20260101, bc_enable_interventions = True\<rparr>"

text \<open>The counts of a result; the clock readings and the rates derived from them are left out.\<close>

record benchmark_result =
  br_samples_generated :: nat
  br_samples_ingested :: u64
  br_samples_rejected :: u64
  br_decisions :: u64
  br_episodes_opened :: u64
  br_episodes_closed :: u64
  br_interventions_requested :: u64
  br_streams :: nat
  br_window_capacity :: u64

definition benchmark_policy :: "u64 \<Rightarrow> policy" where
  "benchmark_policy window =
     (let least = (if window < 8 then 4 else 8);
          least = (if least > window then window else least)
      in make_default_policy\<lparr>po_id := make_policy_id ''mbg.benchmark.v1'',
           po_detection := (po_detection make_default_policy)\<lparr>dp_window_capacity := window,
             dp_min_samples_for_classification := least\<rparr>\<rparr>)"

text \<open>
  The traces of one resource: the first burst, then one trace per further burst. The largest number
  of bursts makes the divisor wrap to zero, where the program traps.
\<close>

definition resource_config :: "benchmark_config \<Rightarrow> u64 \<Rightarrow> generator_config" where
  "resource_config cfg resource = generator_config_default\<lparr>gn_shape := ShMicroburst,
     gn_seed := bc_seed cfg + resource, gn_resource := resource + 1, gn_queue := 1, gn_path := 1,
     gn_ticks := bc_ticks cfg, gn_sample_interval := bc_sample_interval cfg, gn_burst_start := 64,
     gn_burst_ticks := bc_burst_ticks cfg\<rparr>"

definition burst_config :: "benchmark_config \<Rightarrow> u64 \<Rightarrow> u64 \<Rightarrow> generator_config" where
  "burst_config cfg resource burst = (resource_config cfg resource)\<lparr>
     gn_burst_start := burst * (bc_ticks cfg div (bc_bursts_per_resource cfg + 1)),
     gn_seed := bc_seed cfg + resource * 131 + burst\<rparr>"

text \<open>The traces of a list of configurations in a row, if the generator returns each.\<close>

fun generate_all :: "generator_config list \<Rightarrow> sample list option" where
  "generate_all [] = Some []"
| "generate_all (c # cs) =
     (case generate c of
        None \<Rightarrow> None
      | Some xs \<Rightarrow> (case generate_all cs of None \<Rightarrow> None | Some ys \<Rightarrow> Some (xs @ ys)))"

definition benchmark_traces :: "benchmark_config \<Rightarrow> generator_config list" where
  "benchmark_traces cfg = concat (map (\<lambda>resource.
       resource_config cfg (of_nat resource) #
         map (\<lambda>burst. burst_config cfg (of_nat resource) (of_nat burst)) [1..<unat (bc_bursts_per_resource cfg) + 1])
     [0..<unat (bc_resources cfg)])"

definition benchmark_governor :: "benchmark_config \<Rightarrow> governor_config" where
  "benchmark_governor cfg = governor_config_default\<lparr>gc_policy := benchmark_policy (bc_window cfg), gc_epoch := 1,
     gc_incarnation := 0xB0B0B0B0, gc_boot := 1, gc_enable_interventions := bc_enable_interventions cfg\<rparr>"

text \<open>\<open>None\<close> is the division by zero, or a generator that does not return.\<close>

definition bench_run :: "benchmark_config \<Rightarrow> (nat \<Rightarrow> io) \<Rightarrow> benchmark_result option" where
  "bench_run cfg env =
     (case (if bc_resources cfg \<noteq> 0 \<and> bc_bursts_per_resource cfg + 1 = 0 then None
            else generate_all (benchmark_traces cfg)) of
        None \<Rightarrow> None
      | Some samples \<Rightarrow>
          let f = feed_samples samples (governor_new (benchmark_governor cfg) env);
              g = snd (governor_advance (fd_highest f + 4096) (fd_governor f)); st = gv_stats g
          in Some \<lparr>br_samples_generated = length samples, br_samples_ingested = fd_accepted f,
               br_samples_rejected = fd_rejected f, br_decisions = gs_decisions st,
               br_episodes_opened = gs_episodes_opened st, br_episodes_closed = gs_episodes_closed st,
               br_interventions_requested = gs_interventions_requested st,
               br_streams = length (gv_streams g), br_window_capacity = bc_window cfg\<rparr>)"

definition bench_config :: "string list \<Rightarrow> benchmark_config" where
  "bench_config args =
     (let cfg = option_number ''--resources'' (\<lambda>v. bc_resources_update (\<lambda>_. v)) args benchmark_config_default;
          cfg = option_number ''--ticks'' (\<lambda>v. bc_ticks_update (\<lambda>_. v)) args cfg;
          cfg = option_number ''--sample-interval'' (\<lambda>v. bc_sample_interval_update (\<lambda>_. v)) args cfg;
          cfg = option_number ''--window'' (\<lambda>v. bc_window_update (\<lambda>_. v)) args cfg;
          cfg = option_number ''--bursts'' (\<lambda>v. bc_bursts_per_resource_update (\<lambda>_. v)) args cfg;
          cfg = option_number ''--burst-ticks'' (\<lambda>v. bc_burst_ticks_update (\<lambda>_. v)) args cfg
      in option_number ''--seed'' (\<lambda>v. bc_seed_update (\<lambda>_. v)) args cfg)"

definition bench_counts :: "benchmark_config \<Rightarrow> benchmark_result \<Rightarrow> string" where
  "bench_counts cfg r =
     ''microburst-governor benchmark [SYNTHETIC]'' @ [newline_char] @
     ''  resources='' @ to_string_u (bc_resources cfg) @ '' ticks='' @ to_string_u (bc_ticks cfg) @
     '' sample_interval='' @ to_string_u (bc_sample_interval cfg) @ '' window='' @ to_string_u (bc_window cfg) @
     '' bursts_per_resource='' @ to_string_u (bc_bursts_per_resource cfg) @
     '' burst_ticks='' @ to_string_u (bc_burst_ticks cfg) @ '' seed='' @ to_string_u (bc_seed cfg) @ [newline_char] @
     ''  samples_generated='' @ decimal (br_samples_generated r) @
     '' samples_ingested='' @ to_string_u (br_samples_ingested r) @
     '' samples_rejected='' @ to_string_u (br_samples_rejected r) @ [newline_char] @
     ''  decisions='' @ to_string_u (br_decisions r) @ '' episodes_opened='' @ to_string_u (br_episodes_opened r) @
     '' episodes_closed='' @ to_string_u (br_episodes_closed r) @
     '' interventions_requested='' @ to_string_u (br_interventions_requested r) @
     '' streams='' @ decimal (br_streams r) @ [newline_char]"

text \<open>The three lines of times and rates, floating point numbers read off a clock, are the parameter.\<close>

definition run_bench :: "(benchmark_result \<Rightarrow> string) \<Rightarrow> string list \<Rightarrow> world \<Rightarrow> (nat \<times> world) option" where
  "run_bench timing args w =
     (let cfg = bench_config args
      in case bench_run cfg (wd_io w) of
           None \<Rightarrow> None
         | Some r \<Rightarrow> Some (0, put_out (bench_counts cfg r @ timing r) w))"

section \<open>The benchmark program\<close>

text \<open>
  \<open>strtoull\<close> at base ten: blanks, a sign, digits; the value saturates, a minus negates it, and a text
  without digits is zero.
\<close>

definition strtoull :: "string \<Rightarrow> u64" where
  "strtoull s =
     (let s = dropWhile is_space_char s;
          negative = (case s of c # _ \<Rightarrow> c = CHR ''-'' | [] \<Rightarrow> False);
          s = (case s of c # rest \<Rightarrow> if c = CHR ''-'' \<or> c = CHR ''+'' then rest else s | [] \<Rightarrow> s);
          v = digits_value (takeWhile is_digit_char s)
      in if v \<ge> 2 ^ 64 then NOT 0 else if negative then - of_nat v else of_nat v)"

definition bench_option :: "string \<Rightarrow> u64 \<Rightarrow> benchmark_config \<Rightarrow> benchmark_config option" where
  "bench_option flag v cfg =
     (if flag = ''--resources'' then Some (cfg\<lparr>bc_resources := v\<rparr>)
      else if flag = ''--ticks'' then Some (cfg\<lparr>bc_ticks := v\<rparr>)
      else if flag = ''--window'' then Some (cfg\<lparr>bc_window := v\<rparr>)
      else if flag = ''--bursts'' then Some (cfg\<lparr>bc_bursts_per_resource := v\<rparr>)
      else if flag = ''--burst-ticks'' then Some (cfg\<lparr>bc_burst_ticks := v\<rparr>)
      else if flag = ''--interval'' then Some (cfg\<lparr>bc_sample_interval := v\<rparr>)
      else if flag = ''--seed'' then Some (cfg\<lparr>bc_seed := v\<rparr>)
      else None)"

text \<open>The options in pairs; a last one without a value is not looked at.\<close>

fun bench_options :: "string list \<Rightarrow> benchmark_config \<Rightarrow> string + benchmark_config" where
  "bench_options (flag # v # rest) cfg =
     (case bench_option flag (strtoull v) cfg of None \<Rightarrow> Inl flag | Some cfg \<Rightarrow> bench_options rest cfg)"
| "bench_options _ cfg = Inr cfg"

definition bench_main :: "(benchmark_result \<Rightarrow> string) \<Rightarrow> string list \<Rightarrow> world \<Rightarrow> (nat \<times> world) option" where
  "bench_main timing args w =
     (case bench_options args benchmark_config_default of
        Inl flag \<Rightarrow> Some (2, line_err (''mbg_bench: unknown option '' @ flag) w)
      | Inr cfg \<Rightarrow>
          (case bench_run cfg (wd_io w) of
             None \<Rightarrow> None
           | Some r \<Rightarrow> Some (if br_samples_ingested r = 0 then 1 else 0, put_out (bench_counts cfg r @ timing r) w)))"

section \<open>selftest\<close>

text \<open>The failed checks so far, in order; their number is the counter of the program.\<close>

definition check :: "bool \<Rightarrow> string \<Rightarrow> string list \<Rightarrow> string list" where
  "check condition what failures = (if condition then failures else failures @ [what])"

definition selftest_trace :: "u64 \<Rightarrow> u64 \<Rightarrow> generator_config" where
  "selftest_trace ticks burst = generator_config_default\<lparr>gn_shape := ShMicroburst, gn_ticks := ticks,
     gn_burst_start := 100, gn_burst_ticks := burst\<rparr>"

definition ingest_all :: "sample list \<Rightarrow> governor \<Rightarrow> governor" where
  "ingest_all samples g = fold (\<lambda>s g. snd (governor_ingest s g)) samples g"

definition ingest_detecting :: "sample list \<Rightarrow> governor \<Rightarrow> bool \<times> governor" where
  "ingest_detecting samples g = fold (\<lambda>s (detected, g). let (outcome, g) = governor_ingest s g
     in (detected \<or> is_positive (io_classification outcome), g)) samples (False, g)"

definition evidence_pass :: "(nat \<Rightarrow> io) \<Rightarrow> sample list \<Rightarrow> string list \<Rightarrow> string list" where
  "evidence_pass env samples failures =
     (let g = governor_new (governor_config_default\<lparr>gc_policy := make_default_policy, gc_incarnation := 0x5E1F7E57,
            gc_boot := 1\<rparr>) env;
          failures = check (gc_enable_interventions (gv_config g)) ''interventions start enabled'' failures;
          failures = check (samples \<noteq> []) ''synthetic trace is not empty'' failures;
          (detected, g) = ingest_detecting samples g;
          failures = check detected ''a synthetic microburst is detected'' failures;
          failures = check (gs_episodes_opened (gv_stats g) \<ge> 1) ''an episode was opened'' failures;
          failures = check (gs_interventions_requested (gv_stats g) \<ge> 1) ''a bounded intervention was requested'' failures;
          failures = fold (\<lambda>i. check (ii_magnitude_permille i \<le> kMaxMagnitudePermille)
            ''intervention magnitude stays bounded'') (live_interventions g) failures;
          g = snd (governor_advance (sm_tick (last samples) + 8192) g);
          failures = check (gs_episodes_closed (gv_stats g) \<ge> 1) ''the episode closes after the release window'' failures
      in check (live_interventions g = []) ''no intervention survives the episode that justified it'' failures)"

definition stale_pass :: "(nat \<Rightarrow> io) \<Rightarrow> sample list \<Rightarrow> string list \<Rightarrow> string list" where
  "stale_pass env samples failures =
     (let g = governor_new (governor_config_default\<lparr>gc_policy := make_default_policy\<rparr>) env;
          g = ingest_all samples g;
          failures = check (open_episodes g \<noteq> []) ''the truncated trace leaves an episode open'' failures;
          (advanced, g) = governor_advance (sm_tick (last samples) + 100000) g;
          failures = check (ar_streams_evaluated advanced \<ge> 1) ''the idle stream is still evaluated'' failures;
          failures = check (open_episodes g = []) ''a stale stream must not keep an episode open'' failures
      in check (gs_episodes_fenced (gv_stats g) \<ge> 1) ''the stale episode is fenced'' failures)"

definition determinism_ids :: "(nat \<Rightarrow> io) \<Rightarrow> sample list \<Rightarrow> u64 list" where
  "determinism_ids env samples =
     (let g = governor_new (governor_config_default\<lparr>gc_policy := make_default_policy\<rparr>) env;
          g = ingest_all samples g;
          g = snd (governor_advance (sm_tick (last samples) + 8192) g)
      in map ev_id (history_ordered g))"

definition determinism_pass :: "(nat \<Rightarrow> io) \<Rightarrow> (nat \<Rightarrow> io) \<Rightarrow> sample list \<Rightarrow> string list \<Rightarrow> string list" where
  "determinism_pass env env' samples failures =
     (let ids = determinism_ids env samples; again = determinism_ids env' samples;
          failures = check (ids \<noteq> []) ''the deterministic pass produced an episode'' failures
      in check (ids = again) ''replay produces identical episode identities'' failures)"

definition restart_first :: "(nat \<Rightarrow> io) \<Rightarrow> store \<Rightarrow> sample list \<Rightarrow> string list \<Rightarrow> governor \<times> string list" where
  "restart_first env s samples failures =
     (let g = governor_new (governor_config_default\<lparr>gc_policy := make_default_policy, gc_epoch := 1,
            gc_incarnation := 0x1234, gc_boot := 1\<rparr>) env;
          g = snd (bind_store (Some s) g);
          (bound, g) = bind_authority 1 0x1234 1 g;
          failures = check (is_ok bound) ''authority is bound'' failures;
          g = ingest_all samples g;
          (saved, g) = compact g;
          failures = check (is_ok saved) ''checkpoint succeeds'' failures;
          failures = check (gs_interventions_requested (gv_stats g) \<ge> 1)
            ''an intervention existed before the restart'' failures
      in (g, failures))"

definition restart_second ::
  "(nat \<Rightarrow> io) \<Rightarrow> store \<Rightarrow> u32 \<Rightarrow> nat \<Rightarrow> string list \<Rightarrow> governor \<times> string list" where
  "restart_second env s epoch events_before failures =
     (let g = governor_new (governor_config_default\<lparr>gc_policy := make_default_policy, gc_epoch := epoch + 1,
            gc_incarnation := 0x5678, gc_boot := 2\<rparr>) env;
          g = snd (bind_store (Some s) g);
          ((restored, report), g) = restore g;
          failures = check (is_ok restored) ''restore succeeds'' failures;
          failures = check (rr_configuration_items report \<ge> 1) ''durable configuration is restored'' failures;
          failures = check (rr_history_items report \<ge> of_nat events_before) ''committed history is restored'' failures;
          failures = check (rr_evidence_requiring_revalidation report \<ge> 1)
            ''evidence requires revalidation after restart'' failures;
          failures = check (live_interventions g = []) ''no intervention is restored as live'' failures;
          failures = check (length (gv_streams g) = 0) ''no stream liveness is restored'' failures
      in (g, failures))"

definition restart_pass :: "string option \<Rightarrow> (nat \<Rightarrow> io) \<Rightarrow> sample list \<Rightarrow> string list \<Rightarrow> string list" where
  "restart_pass temp answers samples failures =
     (case temp of
        None \<Rightarrow> check False ''a temporary directory is available'' failures
      | Some directory \<Rightarrow>
          let cfg = verify_config (directory @ ''/mbgctl-selftest-store'');
              (opened, s) = store_open (answers 0) cfg store_new;
              failures = check (is_ok opened) ''durable store opens'' failures
          in if \<not> is_ok opened then failures
             else
               let (g, failures) = restart_first (\<lambda>n. answers (3 * n + 1)) s samples failures;
                   s = (case gv_store g of None \<Rightarrow> s | Some s \<Rightarrow> s);
                   (opened, s) = store_open (answers 3) cfg (reopened s);
                   failures = check (is_ok opened) ''durable store reopens'' failures
               in snd (restart_second (\<lambda>n. answers (3 * n + 2)) s (ax_epoch (gv_context g))
                    (length (history_ordered g)) failures))"

definition selftest_failures :: "sample list \<Rightarrow> sample list \<Rightarrow> world \<Rightarrow> string list" where
  "selftest_failures samples truncated w =
     restart_pass (wd_temp w) (wd_io w) samples
       (determinism_pass (wd_io w) (\<lambda>n. wd_io w (n + 1)) samples
         (stale_pass (wd_io w) truncated
           (evidence_pass (wd_io w) samples [])))"

definition run_selftest :: "string list \<Rightarrow> world \<Rightarrow> (nat \<times> world) option" where
  "run_selftest args w =
     (case (generate (selftest_trace 400 12), generate (selftest_trace 112 20)) of
        (Some samples, Some truncated) \<Rightarrow>
          let failures = selftest_failures samples truncated w;
              w = fold (\<lambda>what. line_err (''selftest: FAIL '' @ what)) failures w
          in Some (if failures \<noteq> [] then (1, line_err (''selftest: '' @ decimal (length failures) @ '' check(s) failed'') w)
                   else (0, line_out ''selftest: ok'' w))
      | _ \<Rightarrow> None)"

section \<open>main\<close>

definition mbgctl :: "(benchmark_result \<Rightarrow> string) \<Rightarrow> string list \<Rightarrow> world \<Rightarrow> (nat \<times> world) option" where
  "mbgctl timing args w =
     (case args of
        [] \<Rightarrow> Some (2, print_usage w)
      | command # rest \<Rightarrow>
          if command = ''selftest'' then run_selftest rest w
          else if command = ''generate'' then run_generate rest w
          else if command = ''replay'' then Some (run_replay rest w)
          else if command = ''verify'' then Some (run_verify rest w)
          else if command = ''bench'' then run_bench timing rest w
          else if command = ''--help'' \<or> command = ''-h'' \<or> command = ''help'' then Some (0, print_usage w)
          else Some (2, print_usage (line_err (''mbgctl: unknown command '' @ [CHR 0x27] @ command @ [CHR 0x27]) w)))"

section \<open>Every command returns\<close>

lemma generate_all_returns: "\<exists>xs. generate_all cs = Some xs"
proof (induction cs)
  case (Cons c cs)
  obtain xs where "generate c = Some xs" using generate_returns by blast
  with Cons show ?case by auto
qed simp

lemma run_generate_returns: "\<exists>code w'. run_generate args w = Some (code, w') \<and> code \<le> 2"
proof -
  have out: "fst (generate_output args cfg xs w) \<le> 2" for cfg xs
    by (simp add: generate_output_def Let_def case_prod_beta split: option.split)
  show ?thesis
  proof (cases "case arg_value ''--shape'' args of None \<Rightarrow> Inr (gn_shape generator_config_default)
      | Some text \<Rightarrow> (case parse_shape text of None \<Rightarrow> Inl text | Some s \<Rightarrow> Inr s)")
    case (Inl t)
    then show ?thesis by (simp add: run_generate_def Let_def)
  next
    case (Inr s)
    define cfg where "cfg = generate_config args (generator_config_default\<lparr>gn_shape := s\<rparr>)"
    obtain xs where g: "generate cfg = Some xs" using generate_returns by blast
    have "run_generate args w = Some (generate_output args cfg xs w)"
      using Inr g by (simp add: run_generate_def cfg_def Let_def)
    then show ?thesis using out [of cfg xs] by (cases "generate_output args cfg xs w") simp
  qed
qed

lemma run_replay_code: "fst (run_replay args w) \<le> 2"
  by (simp add: run_replay_def case_prod_beta Let_def split: option.split)

lemma run_verify_code: "fst (run_verify args w) \<le> 2"
  by (simp add: run_verify_def verify_replayed_def case_prod_beta Let_def split: option.split sum.split)

lemma run_selftest_returns: "\<exists>code w'. run_selftest args w = Some (code, w') \<and> code \<le> 2"
proof -
  obtain xs where "generate (selftest_trace 400 12) = Some xs" using generate_returns by blast
  moreover obtain ys where "generate (selftest_trace 112 20) = Some ys" using generate_returns by blast
  ultimately show ?thesis by (simp add: run_selftest_def Let_def)
qed

lemma run_bench_returns:
  "bc_bursts_per_resource (bench_config args) + 1 \<noteq> 0 \<Longrightarrow> \<exists>w'. run_bench timing args w = Some (0, w')"
proof -
  assume a: "bc_bursts_per_resource (bench_config args) + 1 \<noteq> 0"
  obtain xs where "generate_all (benchmark_traces (bench_config args)) = Some xs"
    using generate_all_returns by blast
  then show ?thesis using a by (simp add: run_bench_def bench_run_def Let_def)
qed

definition returns :: "(nat \<times> world) option \<Rightarrow> bool" where
  "returns r \<longleftrightarrow> (\<exists>code w'. r = Some (code, w') \<and> code \<le> 2)"

lemma returns_Some [simp]: "returns (Some r) \<longleftrightarrow> fst r \<le> 2"
  by (cases r) (simp add: returns_def)

lemma returns_if: "(b \<Longrightarrow> returns x) \<Longrightarrow> (\<not> b \<Longrightarrow> returns y) \<Longrightarrow> returns (if b then x else y)"
  by simp

lemma mbgctl_returns:
  assumes "\<And>rest. args = ''bench'' # rest \<Longrightarrow> bc_bursts_per_resource (bench_config rest) + 1 \<noteq> 0"
  shows "returns (mbgctl timing args w)"
proof (cases args)
  case Nil
  then show ?thesis by (simp add: mbgctl_def)
next
  case (Cons command others)
  have gen: "returns (run_generate others w)" unfolding returns_def by (rule run_generate_returns)
  have self: "returns (run_selftest others w)" unfolding returns_def by (rule run_selftest_returns)
  have bench: "returns (run_bench timing others w)" if "command = ''bench''"
    using run_bench_returns [OF assms [of others], of timing w] Cons that by (auto simp: returns_def)
  show ?thesis unfolding mbgctl_def Cons list.case
    by (intro returns_if gen self bench; simp only: returns_Some run_replay_code run_verify_code fst_conv
        order_refl zero_le)
qed

section \<open>What verification does to a store\<close>

text \<open>The part of a journal that the scan accepts.\<close>

definition verified_part :: "byte list \<Rightarrow> byte list" where
  "verified_part b = take (fst (scan_journal b 0)) b"

lemma verified_whole: "list_all record_wf rs \<Longrightarrow> verified_part (log_bytes rs) = log_bytes rs"
  using journal.scan_log [of rs] by (auto simp: verified_part_def log_bytes_def list_all_iff)

text \<open>
  The files of a store after it was read: the snapshot as it was, the journal as it was, or empty where
  there was none, or cut at the end of its verified part.
\<close>

definition trimmed :: "store \<Rightarrow> store \<Rightarrow> bool" where
  "trimmed s s' \<longleftrightarrow> ds_snapshot s' = ds_snapshot s \<and>
     (case ds_journal s of
        None \<Rightarrow> ds_journal s' \<in> {None, Some []}
      | Some b \<Rightarrow> ds_journal s' \<in> {Some b, Some (verified_part b)})"

lemma trimmed_refl [simp]: "trimmed s s"
  by (simp add: trimmed_def split: option.split)

lemma trimmed_reopened [simp]: "trimmed (reopened s) s' = trimmed s s'"
  by (simp add: trimmed_def reopened_def)

lemma open_files: "ds_snapshot (snd (store_open i cfg s)) = ds_snapshot s"
  "ds_journal (snd (store_open i cfg s)) = ds_journal s \<or>
   ds_journal s = None \<and> ds_journal (snd (store_open i cfg s)) = Some []"
  by (auto simp: store_open_def Let_def split: option.split)

lemma truncate_files: "ds_snapshot (snd (truncate_journal i n s)) = ds_snapshot s"
  "ds_journal (snd (truncate_journal i n s)) \<in> {ds_journal s, map_option (take n) (ds_journal s)}"
  by (auto simp: truncate_journal_def case_prod_beta Let_def)

lemma replay_trims: "trimmed s (fst (snd (store_replay i visitor s acc)))"
proof -
  have "trimmed s (snd (truncate_journal i (fst (scan_journal y 0)) s))" if "ds_journal s = Some y" for y
    using truncate_files [of i "fst (scan_journal y 0)" s] that by (auto simp: trimmed_def verified_part_def)
  moreover have "read_file i m (ds_journal s) = Inr (Some y) \<Longrightarrow> ds_journal s = Some y" for m y
    by (auto simp: read_file_def split: option.splits if_splits)
  ultimately show ?thesis
    by (auto simp: store_replay_def case_prod_beta Let_def split: sum.split)
qed

lemma trimmed_opened: "trimmed s (fst (snd (store_replay i visitor (snd (store_open j cfg s)) acc)))"
proof -
  have "verified_part [] = []" by (simp add: verified_part_def)
  then show ?thesis
    using open_files [of j cfg s] replay_trims [of "snd (store_open j cfg s)" i visitor acc]
    by (auto simp: trimmed_def split: option.splits)
qed

lemma trimmed_open: "trimmed s (snd (store_open i cfg s))"
  using open_files [of i cfg s] by (auto simp: trimmed_def split: option.split)

text \<open>A replay that succeeds leaves the verified part and nothing behind it.\<close>

lemma replay_ok_trims:
  assumes "fst (store_replay i visitor s acc) = Inr r" "ds_journal s = Some b"
  shows "ds_journal (fst (snd (store_replay i visitor s acc))) = Some (verified_part b)"
proof -
  have cut: "ds_journal (snd (truncate_journal i n s)) = Some (take n b)" if "is_ok (fst (truncate_journal i n s))" for n
    using that assms(2) by (auto simp: truncate_journal_def failure_def is_ok_def Let_def case_prod_beta split: if_splits)
  have whole: "take (fst (scan_journal b 0)) b = b" if "\<not> fst (scan_journal b 0) < length b" using that by simp
  obtain report where "load_snapshot i s (recovery_report_default\<lparr>rp_format_version := kStateFormatVersion\<rparr>) = Inr report"
    using assms(1) by (auto simp: store_replay_def split: sum.splits)
  moreover have "read_file i kMaxJournalBytes (ds_journal s) = Inr (Some b)"
    using assms calculation by (cases report) (auto simp: store_replay_def read_file_def split: if_splits)
  ultimately show ?thesis
    using assms cut whole
    by (cases report) (auto simp: store_replay_def verified_part_def case_prod_beta Let_def split: sum.splits if_splits)
qed

lemma open_ok_files:
  "is_ok (fst (store_open i cfg s)) \<Longrightarrow>
     ds_journal (snd (store_open i cfg s)) = Some (case ds_journal s of None \<Rightarrow> [] | Some b \<Rightarrow> b)"
  by (auto simp: store_open_def failure_def is_ok_def Let_def split: option.split if_splits)

lemma run_verify_trims:
  assumes "run_verify args w = (code, w')"
  shows "trimmed (wd_stores w d) (wd_stores w' d)" "wd_files w' = wd_files w"
    "arg_value ''--store'' args \<noteq> Some d \<Longrightarrow> wd_stores w' d = wd_stores w d"
    "code = 0 \<Longrightarrow> arg_value ''--store'' args = Some d \<Longrightarrow> ds_journal (wd_stores w' d) =
       Some (case ds_journal (wd_stores w d) of None \<Rightarrow> [] | Some b \<Rightarrow> verified_part b)"
proof -
  have out: "wd_stores (line_out s v) = wd_stores v" "wd_stores (line_err s v) = wd_stores v"
    "wd_files (line_out s v) = wd_files v" "wd_files (line_err s v) = wd_files v" for s v
    by (simp_all add: line_out_def line_err_def put_out_def put_err_def)
  have vr: "wd_stores (snd (verify_replayed r r' p n v)) = wd_stores v"
    "wd_files (snd (verify_replayed r r' p n v)) = wd_files v" for r r' p n v
    by (simp_all add: verify_replayed_def out case_prod_beta Let_def split: sum.split)
  have w': "w' = snd (run_verify args w)" using assms by simp
  show "wd_files w' = wd_files w"
    unfolding w' by (simp add: run_verify_def out vr case_prod_beta Let_def split: option.split sum.split)
  have t: "trimmed s (snd (store_open i cfg (reopened s)))"
    "trimmed s (fst (snd (store_replay i' v (snd (store_open i cfg (reopened s))) acc)))" for s i i' cfg v and acc :: u64
    using trimmed_open [of "reopened s"] trimmed_opened [of "reopened s"] by simp_all
  show "trimmed (wd_stores w d) (wd_stores w' d)"
    unfolding w' by (simp add: run_verify_def out vr t case_prod_beta Let_def split: option.split sum.split)
  show "wd_stores w' d = wd_stores w d" if "arg_value ''--store'' args \<noteq> Some d"
    unfolding w' using that by (auto simp: run_verify_def out vr case_prod_beta Let_def split: option.split sum.split)
  have c: "code = fst (run_verify args w)" using assms by simp
  have j: "ds_journal (reopened s) = ds_journal s" for s by (simp add: reopened_def)
  have e: "verified_part [] = []" by (simp add: verified_part_def)
  show "ds_journal (wd_stores w' d) = Some (case ds_journal (wd_stores w d) of None \<Rightarrow> [] | Some b \<Rightarrow> verified_part b)"
    if "code = 0" "arg_value ''--store'' args = Some d"
  proof -
    define o1 where "o1 = store_open (wd_io w 0) (verify_config d) (reopened (wd_stores w d))"
    define o2 where "o2 = store_replay (wd_io w 2) count_stale (snd o1) (0 :: u64)"
    have ok: "is_ok (fst o1)" "\<exists>r. fst o2 = Inr r" "wd_stores w' d = fst (snd o2)"
      using that(1) unfolding c w' o2_def o1_def
      by (auto simp: run_verify_def that(2) out vr case_prod_beta Let_def split: sum.splits if_splits)
    have "ds_journal (snd o1) = Some (case ds_journal (wd_stores w d) of None \<Rightarrow> [] | Some b \<Rightarrow> b)"
      using open_ok_files [of "wd_io w 0" "verify_config d" "reopened (wd_stores w d)"] ok(1) unfolding o1_def j by blast
    then show ?thesis using ok(2,3) replay_ok_trims [of "wd_io w 2" count_stale "snd o1" 0] e
      unfolding o2_def by (cases "ds_journal (wd_stores w d)") auto
  qed
qed

end
