(* ===== verification/Pipeline.thy ===== *)
theory Pipeline
  imports Tools
begin

text \<open>
  The commands of the tool put together: what \<open>generate\<close> writes is a trace that \<open>replay\<close> reads back
  and feeds to a governor.
\<close>

section \<open>The samples of the tool's configurations\<close>

text \<open>What the options of \<open>generate\<close> leave at its default, and a ramp that stays below the capacity.\<close>

definition tool_config :: "generator_config \<Rightarrow> bool" where
  "tool_config cfg \<longleftrightarrow> gn_resource cfg = 1 \<and> gn_queue cfg = 1 \<and> gn_path cfg = 1 \<and>
     gn_baseline_depth cfg = 128 \<and> gn_peak_depth cfg = 9216 \<and> gn_baseline_occupancy_bytes cfg = 16384 \<and>
     gn_peak_occupancy_bytes cfg = 524288 \<and> gn_capacity_bytes cfg = 1048576 \<and>
     gn_baseline_rate_q16 cfg = 7864320 \<and> gn_peak_rate_q16 cfg = 589824000 \<and>
     gn_drain_rate_q16 cfg = 262144000 \<and> (gn_shape cfg = ShRamp \<longrightarrow> gn_burst_ticks cfg \<le> 253)"

definition small_signal :: "signal \<Rightarrow> u64 \<Rightarrow> bool" where
  "small_signal s capacity \<longleftrightarrow> sg_depth s \<le> 4194304 \<and> sg_occupancy s \<le> 1048576 \<and> sg_occupancy s \<le> capacity \<and>
     sg_ingress s \<le> 1073741824 \<and> sg_egress s \<le> 1073741824"

definition known_flags :: "u32 \<Rightarrow> bool" where
  "known_flags f \<longleftrightarrow> f AND NOT 0x1F = 0"

lemma known_flags_or: "known_flags f \<Longrightarrow> known_flags h \<Longrightarrow> known_flags (f OR h)"
  by (simp add: known_flags_def bit.conj_disj_distrib2)

lemma known_named [simp]: "known_flags flag_synthetic" "known_flags flag_sparse" "known_flags flag_counter_reset"
  "known_flags flag_capacity_change"
  by (simp_all add: known_flags_def flag_synthetic_def flag_sparse_def flag_counter_reset_def flag_capacity_change_def)

lemma ramp_progress:
  assumes "begin \<le> index" "index < begin + ticks" "ticks \<le> (253 :: u64)"
  shows "unat (index - begin) \<le> 252"
proof -
  have d: "unat (index - begin) = unat index - unat begin" by (rule unat_sub [OF assms(1)])
  have "unat (begin + ticks) \<le> unat begin + unat ticks" by (simp add: unat_word_ariths)
  then have "unat index < unat begin + unat ticks" using assms(2) by (simp add: word_less_nat_alt)
  then show ?thesis using assms(3) unfolding d word_le_nat_alt by simp
qed

lemma ramp_bounds:
  assumes "unat (p :: u64) \<le> 252"
  shows "16384 + 4096 * p \<le> 1048576" "128 + (9088 * p) div d \<le> 4194304"
proof -
  have p: "p \<le> 252" using assms by (simp add: word_le_nat_alt)
  have "unat (4096 * p) = 4096 * unat p" using assms by (subst unat_mult_lem [THEN iffD1]) simp_all
  then have "unat (16384 + 4096 * p) = 16384 + 4096 * unat p" using assms by (subst unat_add_lem [THEN iffD1]) simp_all
  then show "16384 + 4096 * p \<le> 1048576" using assms by (simp add: word_le_nat_alt)
  have m: "unat (9088 * p) = 9088 * unat p" using assms by (subst unat_mult_lem [THEN iffD1]) simp_all
  have q: "unat ((9088 * p) div d) \<le> 9088 * unat p" by (simp add: unat_div m)
  then have "unat (128 + (9088 * p) div d) = 128 + unat ((9088 * p) div d)"
    using assms by (subst unat_add_lem [THEN iffD1]) simp_all
  then show "128 + (9088 * p) div d \<le> 4194304" using q assms by (simp add: word_le_nat_alt)
qed

lemma noise_bounds:
  assumes "(n :: u64) \<le> 64"
  shows "128 + n \<le> 4194304" "16384 + n * 16 \<le> 524288" "16384 + n * 16 \<le> 1048576"
proof -
  have n: "unat n \<le> 64" using assms by (simp add: word_le_nat_alt)
  have "unat (128 + n) = 128 + unat n" using n by (subst unat_add_lem [THEN iffD1]) simp_all
  then show "128 + n \<le> 4194304" using n by (simp add: word_le_nat_alt)
  have "unat (n * 16) = unat n * 16" using n by (subst unat_mult_lem [THEN iffD1]) simp_all
  then have "unat (16384 + n * 16) = 16384 + unat n * 16" using n by (subst unat_add_lem [THEN iffD1]) simp_all
  then show "16384 + n * 16 \<le> 524288" "16384 + n * 16 \<le> 1048576" using n by (simp_all add: word_le_nat_alt)
qed

lemma rate_bounds:
  assumes "(e :: u64) < 1024"
  shows "7864320 + e \<le> 1073741824"
proof -
  have e: "unat e < 1024" using assms by (simp add: word_less_nat_alt)
  then have "unat (7864320 + e) = 7864320 + unat e" by (subst unat_add_lem [THEN iffD1]) simp_all
  then show ?thesis using e by (simp add: word_le_nat_alt)
qed

definition quiet_signal :: signal where
  "quiet_signal = \<lparr>sg_depth = 128, sg_occupancy = 16384, sg_ingress = 7864320, sg_egress = 7864320\<rparr>"

lemma small_quiet [simp]:
  "524288 \<le> c \<Longrightarrow> small_signal quiet_signal c"
  "524288 \<le> c \<Longrightarrow> tool_config cfg \<Longrightarrow> small_signal (burst_signal cfg quiet_signal) c"
  "524288 \<le> c \<Longrightarrow> tool_config cfg \<Longrightarrow> small_signal (drained_signal cfg quiet_signal) c"
  by (auto simp: small_signal_def quiet_signal_def burst_signal_def drained_signal_def tool_config_def
      intro: order_trans [of "16384 :: u64" 524288])

definition capacity_ok :: "generator_config \<Rightarrow> u64 \<Rightarrow> bool" where
  "capacity_ok cfg c \<longleftrightarrow> c = 1048576 \<or> gn_shape cfg = ShCapacityChange \<and> c = 524288"

lemma capacity_large: "capacity_ok cfg c \<Longrightarrow> 524288 \<le> c"
  by (auto simp: capacity_ok_def)

lemma noisy_small:
  assumes "n < 65" "e < 1024" "524288 \<le> c"
  shows "small_signal (quiet_signal\<lparr>sg_depth := 128 + n, sg_occupancy := 16384 + n * 16,
     sg_ingress := 7864320 + e, sg_egress := 7864320\<rparr>) c"
proof -
  have "n \<le> 64" using assms(1) by (simp add: word_le_nat_alt word_less_nat_alt)
  note b = noise_bounds [OF this] rate_bounds [OF assms(2)]
  show ?thesis using b order_trans [OF b(2) assms(3)] by (simp add: small_signal_def)
qed

text \<open>One case of the switch at a time; the switch starts from the quiet signal and known flags.\<close>

lemma shape_point_small:
  assumes cfg: "tool_config cfg" and point: "shape_point cfg interval index x quiet_signal st = Some (y, s', st')"
    and x: "known_flags (sm_flags x)" "sm_capacity_bytes x = gt_capacity st" "capacity_ok cfg (gt_capacity st)"
  shows "small_signal s' (sm_capacity_bytes y) \<and> known_flags (sm_flags y) \<and> capacity_ok cfg (gt_capacity st')"
proof -
  note c = capacity_large [OF x(3)]
  note quiet = small_quiet(1) [OF c] small_quiet(2,3) [OF c cfg]
  define burst where "burst \<longleftrightarrow> gn_burst_start cfg \<le> index \<and> index < gn_burst_start cfg + gn_burst_ticks cfg"
  have kept: "(y, st') = (x, st) \<Longrightarrow> small_signal s' (gt_capacity st) \<Longrightarrow> ?thesis" using x by simp
  have shapes: "gn_baseline_depth cfg = 128" "gn_baseline_occupancy_bytes cfg = 16384" "gn_peak_depth cfg = 9216"
    "gn_peak_occupancy_bytes cfg = 524288" "gn_capacity_bytes cfg = 1048576" "gn_baseline_rate_q16 cfg = 7864320"
    "gn_peak_rate_q16 cfg = 589824000" "gn_drain_rate_q16 cfg = 262144000"
    using cfg by (simp_all add: tool_config_def)
  show ?thesis
  proof (cases "gn_shape cfg")
    case ShSteady
    then show ?thesis using point quiet by (intro kept) (auto simp: shape_point_def Let_def)
  next
    case ShMicroburst
    then show ?thesis using point quiet by (intro kept) (auto simp: shape_point_def Let_def split: if_splits)
  next
    case ShRamp
    have bound: "gn_burst_ticks cfg \<le> 253" using cfg ShRamp by (simp add: tool_config_def)
    show ?thesis
    proof (cases burst)
      case True
      define p where "p = index - gn_burst_start cfg"
      have "unat p \<le> 252" unfolding p_def by (rule ramp_progress) (use True bound in \<open>simp_all add: burst_def\<close>)
      note r = ramp_bounds [OF this]
      have "(y, st') = (x, st)" "s' = quiet_signal\<lparr>sg_depth := 128 + (9088 * p) div max (gn_burst_ticks cfg) 1,
          sg_occupancy := 16384 + 4096 * p, sg_ingress := 589824000, sg_egress := 7864320\<rparr>"
        using point ShRamp True by (auto simp: shape_point_def burst_def p_def shapes Let_def)
      moreover have "gt_capacity st = 1048576" using x(3) ShRamp by (simp add: capacity_ok_def)
      ultimately show ?thesis using r by (intro kept) (simp_all add: small_signal_def)
    next
      case False
      then show ?thesis using point ShRamp quiet by (intro kept) (auto simp: shape_point_def burst_def Let_def)
    qed
  next
    case ShOscillating
    then show ?thesis using point quiet by (intro kept) (auto simp: shape_point_def Let_def split: if_splits)
  next
    case ShCounterReset
    then show ?thesis using point quiet x by (auto simp: shape_point_def add_flag_def known_flags_or Let_def split: if_splits)
  next
    case ShCapacityChange
    have half: "small_signal (quiet_signal\<lparr>sg_occupancy := 524288, sg_depth := 9216, sg_ingress := 589824000\<rparr>) 524288"
      by (simp add: small_signal_def quiet_signal_def)
    show ?thesis
    proof (cases burst)
      case True
      then have "y = (add_flag flag_capacity_change x)\<lparr>sm_capacity_bytes := 524288\<rparr>" "st' = st\<lparr>gt_capacity := 524288\<rparr>"
        "s' = quiet_signal\<lparr>sg_occupancy := 524288, sg_depth := 9216, sg_ingress := 589824000\<rparr>"
        using point ShCapacityChange by (simp_all add: shape_point_def burst_def [symmetric] shapes Let_def)
      then show ?thesis using half x(1) ShCapacityChange by (simp add: add_flag_def known_flags_or capacity_ok_def)
    next
      case False
      then have "y = x\<lparr>sm_capacity_bytes := gt_capacity st\<rparr>" "s' = quiet_signal" "st' = st"
        using point ShCapacityChange by (auto simp: shape_point_def burst_def [symmetric] Let_def)
      then show ?thesis using quiet(1) x by simp
    qed
  next
    case ShLongBurst
    then show ?thesis using point quiet x
      by (auto simp: shape_point_def small_signal_def shapes quiet_signal_def capacity_ok_def Let_def split: if_splits)
  next
    case ShReordered
    then show ?thesis using point quiet by (intro kept) (auto simp: shape_point_def Let_def split: if_splits)
  next
    case ShDuplicate
    then show ?thesis using point quiet by (intro kept) (auto simp: shape_point_def Let_def split: if_splits)
  next
    case ShSparseSampling
    then show ?thesis using point quiet x by (auto simp: shape_point_def add_flag_def known_flags_or Let_def split: if_splits)
  next
    case ShMissingSamples
    then show ?thesis using point quiet x by (auto simp: shape_point_def add_flag_def known_flags_or Let_def split: if_splits)
  next
    case ShNoisySteady
    have "fst (rng_bounded (gt_rng st) 65) < 65" by (rule rng_bounded_less) simp
    moreover have "fst (rng_bounded r 1024) < 1024" for r by (rule rng_bounded_less) simp
    ultimately show ?thesis using point ShNoisySteady x c noisy_small
      by (auto simp: shape_point_def shapes case_prod_beta Let_def)
  next
    case ShShallowNoise
    have "fst (rng_bounded (gt_rng st) 33) < 65"
      by (rule order_less_le_trans [OF rng_bounded_less]) simp_all
    moreover have "fst (rng_bounded r 1024) < 1024" for r by (rule rng_bounded_less) simp
    ultimately show ?thesis using point ShShallowNoise x c noisy_small
      by (auto simp: shape_point_def shapes case_prod_beta Let_def)
  qed
qed

section \<open>The generated trace can be read back\<close>

lemma shape_point_same:
  assumes "shape_point cfg interval index x s st = Some (y, s', st')"
  shows "sm_stream y = sm_stream x \<and> sm_affected_class_count y = sm_affected_class_count x \<and>
    gt_samples st' = gt_samples st"
  using assms
  by (cases "gn_shape cfg") (auto simp: shape_point_def add_flag_def Let_def case_prod_beta split: if_splits)

definition emitted :: "sample \<Rightarrow> bool" where
  "emitted x \<longleftrightarrow> sm_stream x = StreamKey 1 1 1 \<and> sm_affected_class_count x = 0 \<and> known_flags (sm_flags x) \<and>
     small_signal \<lparr>sg_depth = sm_depth x, sg_occupancy = sm_occupancy_bytes x, sg_ingress = sm_ingress_rate_q16 x,
       sg_egress = sm_egress_rate_q16 x\<rparr> (sm_capacity_bytes x)"

definition gen_ok :: "generator_config \<Rightarrow> gen_state \<Rightarrow> bool" where
  "gen_ok cfg st \<longleftrightarrow> capacity_ok cfg (gt_capacity st) \<and> list_all emitted (gt_samples st)"

lemma gen_step_ok:
  assumes cfg: "tool_config cfg" and st: "gen_ok cfg st"
  shows "gen_ok cfg (gen_step cfg interval index st)"
proof -
  define x where "x = sample_default\<lparr>sm_stream := StreamKey (gn_resource cfg) (gn_queue cfg) (gn_path cfg),
            sm_resource_generation := gn_resource_generation cfg, sm_provenance := gn_provenance cfg,
            sm_tick := gn_start_tick cfg + index, sm_seq := gt_sequence st, sm_flags := flag_synthetic,
            sm_capacity_bytes := gt_capacity st\<rparr>"
  have q: "\<lparr>sg_depth = gn_baseline_depth cfg, sg_occupancy = gn_baseline_occupancy_bytes cfg,
            sg_ingress = gn_baseline_rate_q16 cfg, sg_egress = gn_baseline_rate_q16 cfg\<rparr> = quiet_signal"
    using cfg by (simp add: quiet_signal_def tool_config_def)
  show ?thesis
  proof (cases "shape_point cfg interval index x quiet_signal st")
    case None
    then show ?thesis using st by (simp add: gen_step_def x_def [symmetric] q Let_def)
  next
    case (Some p)
    then obtain y s' st' where p: "shape_point cfg interval index x quiet_signal st = Some (y, s', st')"
      by (cases p) auto
    note same = shape_point_same [OF p]
    have "small_signal s' (sm_capacity_bytes y) \<and> known_flags (sm_flags y) \<and> capacity_ok cfg (gt_capacity st')"
      by (rule shape_point_small [OF cfg p]) (use st in \<open>simp_all add: x_def gen_ok_def\<close>)
    then show ?thesis
      using st same cfg by (simp add: gen_step_def x_def [symmetric] q p gen_ok_def emitted_def Let_def)
        (simp add: x_def tool_config_def sample_default_def small_signal_def)
  qed
qed

lemma gen_loop_ok:
  assumes cfg: "tool_config cfg" and l: "gen_loop cfg interval turns index st = Some st'" "gen_ok cfg st"
  shows "gen_ok cfg st'"
  using l gen_step_ok [OF cfg]
proof (induction rule: gen_loop.raw_induct [rotated, consumes 1])
  case (1 go c i t n s s')
  then show ?case by (auto split: if_splits)
qed

lemma emitted_traceable: "emitted x \<Longrightarrow> traceable x"
proof -
  assume e: "emitted x"
  then have u: "unat (sm_ingress_rate_q16 x) < 2 ^ 32" "unat (sm_egress_rate_q16 x) < 2 ^ 32"
    by (simp_all add: emitted_def small_signal_def word_le_nat_alt)
  then have r: "0 \<le> sint (sm_ingress_rate_q16 x)" "0 \<le> sint (sm_egress_rate_q16 x)" by (simp_all add: sint_small)
  have b: "sm_depth x \<le> push_bit 62 1" "sm_occupancy_bytes x \<le> push_bit 62 1"
    using e by (auto simp: emitted_def small_signal_def word_le_nat_alt)
  show ?thesis
    using e u b r
    by (simp add: traceable_def emitted_def small_signal_def known_flags_def validate_sample_def as_traced_def
        stream_key_valid_def id_valid_def id_invalid_def sample_default_def not_less)
qed

lemma generate_traceable:
  assumes "tool_config cfg" "generate cfg = Some xs"
  shows "list_all traceable xs"
proof -
  define st where "st = \<lparr>gt_rng = \<lparr>rng_state = gn_seed cfg\<rparr>, gt_ingress_total = 0, gt_egress_total = 0, gt_drop_total = 0,
            gt_mark_total = 0, gt_sequence = 1, gt_capacity = gn_capacity_bytes cfg, gt_samples = []\<rparr>"
  have "gen_ok cfg st" using assms(1) by (simp add: gen_ok_def st_def capacity_ok_def tool_config_def)
  moreover obtain st' where l: "gen_loop cfg (max (gn_sample_interval cfg) 1) (min (gn_ticks cfg) (push_bit 20 1)) 0 st = Some st'"
    and xs: "set xs = set (gt_samples st')"
    using assms(2) mset_eq_setD [OF swap_pairs_mset] duplicate_some_set
    unfolding generate_def Let_def st_def [symmetric] by (auto split: option.splits if_splits)
  ultimately have "gen_ok cfg st'" using gen_loop_ok [OF assms(1)] by blast
  then show ?thesis using xs emitted_traceable by (simp add: gen_ok_def list_all_iff)
qed

section \<open>From generate to replay\<close>

lemma option_number_keeps:
  "(\<And>v c. f (upd v c) = f c) \<Longrightarrow> f (option_number flag upd args c) = f c"
  by (simp add: option_number_def split: option.split)

lemma generate_config_shape: "gn_shape (generate_config args cfg) = gn_shape cfg"
  by (simp add: generate_config_def option_number_keeps Let_def)

lemma generate_config_tool:
  assumes "s = ShRamp \<Longrightarrow> (case arg_number ''--burst-ticks'' args of None \<Rightarrow> True | Some v \<Rightarrow> v \<le> 253)"
  shows "tool_config (generate_config args (generator_config_default\<lparr>gn_shape := s\<rparr>))"
proof -
  define cfg where "cfg = generate_config args (generator_config_default\<lparr>gn_shape := s\<rparr>)"
  have k: "f cfg = f (generator_config_default\<lparr>gn_shape := s\<rparr>)"
    if "\<And>v c. f (gn_ticks_update (\<lambda>_. v) c) = f c" "\<And>v c. f (gn_seed_update (\<lambda>_. v) c) = f c"
      "\<And>v c. f (gn_sample_interval_update (\<lambda>_. v) c) = f c" "\<And>v c. f (gn_burst_start_update (\<lambda>_. v) c) = f c"
      "\<And>v c. f (gn_burst_ticks_update (\<lambda>_. v) c) = f c" for f :: "generator_config \<Rightarrow> 'x"
    using that by (simp add: cfg_def generate_config_def option_number_keeps Let_def)
  have "gn_burst_ticks cfg \<le> 253" if "s = ShRamp"
  proof (cases "arg_number ''--burst-ticks'' args")
    case None
    then have "gn_burst_ticks cfg = 24"
      by (simp add: cfg_def generate_config_def option_number_keeps Let_def)
        (simp add: option_number_def generator_config_default_def split: option.split)
    then show ?thesis by simp
  next
    case (Some v)
    then have "gn_burst_ticks cfg = v" by (simp add: cfg_def generate_config_def option_number_def Let_def)
    then show ?thesis using assms [OF that] Some by simp
  qed
  moreover have "gn_shape cfg = s" by (simp add: cfg_def generate_config_shape)
  ultimately show ?thesis
    unfolding tool_config_def cfg_def [symmetric]
    by (simp add: k [of gn_resource] k [of gn_queue] k [of gn_path] k [of gn_baseline_depth] k [of gn_peak_depth]
        k [of gn_baseline_occupancy_bytes] k [of gn_peak_occupancy_bytes] k [of gn_capacity_bytes]
        k [of gn_baseline_rate_q16] k [of gn_peak_rate_q16] k [of gn_drain_rate_q16])
      (simp add: generator_config_default_def rate_from_whole_def kRateFractionBits_def)
qed

text \<open>The trace file of a successful run, when the write reached the disk.\<close>

lemma generate_writes:
  assumes "run_generate args w = Some (0, w')" "arg_value ''--out'' args = Some path"
  obtains cfg xs s n good where "cfg = generate_config args (generator_config_default\<lparr>gn_shape := s\<rparr>)"
    "generate cfg = Some xs" "wd_write w path = Some (good, n)" "wd_files w' path = Some (take n (encode_trace xs))"
    "s = (case arg_value ''--shape'' args of None \<Rightarrow> gn_shape generator_config_default
       | Some t \<Rightarrow> the (parse_shape t))"
proof -
  obtain s where s: "(case arg_value ''--shape'' args of None \<Rightarrow> Inr (gn_shape generator_config_default)
      | Some t \<Rightarrow> (case parse_shape t of None \<Rightarrow> Inl t | Some s \<Rightarrow> Inr s)) = Inr s"
    using assms(1) unfolding run_generate_def Let_def by (auto split: sum.splits)
  define cfg where "cfg = generate_config args (generator_config_default\<lparr>gn_shape := s\<rparr>)"
  obtain xs where g: "generate cfg = Some xs" using generate_returns by blast
  have out: "generate_output args cfg xs w = (0, w')"
    using assms(1) s g by (simp add: run_generate_def cfg_def Let_def)
  have files: "wd_files (line_out t v) = wd_files v" for t v by (simp add: line_out_def put_out_def)
  obtain good n where w: "wd_write w path = Some (good, n)"
    using out assms(2) by (auto simp: generate_output_def write_file_def Let_def split: option.splits)
  have "wd_files w' path = Some (take n (encode_trace xs))"
    using out assms(2) w by (auto simp: generate_output_def write_file_def files Let_def split: if_splits)
  moreover have "s = (case arg_value ''--shape'' args of None \<Rightarrow> gn_shape generator_config_default
       | Some t \<Rightarrow> the (parse_shape t))" using s by (auto split: option.splits)
  ultimately show ?thesis using that cfg_def g w by blast
qed

definition short_ramp :: "string list \<Rightarrow> bool" where
  "short_ramp args \<longleftrightarrow> arg_value ''--shape'' args \<noteq> Some ''ramp'' \<or>
     (case arg_number ''--burst-ticks'' args of None \<Rightarrow> True | Some v \<Rightarrow> v \<le> 253)"

lemma parse_shape_ramp: "parse_shape t = Some ShRamp \<Longrightarrow> t = ''ramp''"
  by (auto simp: parse_shape_def find_Some_iff)

lemma replay_accepts:
  assumes "wd_files w path = Some (encode_trace xs)" "list_all traceable xs" "length xs \<le> 2 ^ 22"
    "length (encode_trace xs) \<le> kMaxSnapshotBytes"
  shows "fst (run_replay [''--trace'', path] w) = 0"
proof -
  have "decode_trace (encode_trace xs) (2 ^ 22) = (status_ok, map as_traced xs)"
    using decode_lines_encoded [OF assms(2), of "[]"] assms(3) by (simp add: decode_trace_def)
  then show ?thesis using assms(1,4) by (simp add: run_replay_def read_file_bounded_def Let_def)
qed

lemma generated_file_replays:
  assumes "run_generate args w = Some (0, w')" "arg_value ''--out'' args = Some path" "short_ramp args"
    "wd_write w path = Some (good, n)" "length (the (wd_files w' path)) < n"
    "length (the (wd_files w' path)) \<le> kMaxSnapshotBytes"
  shows "\<exists>xs. wd_files w' path = Some (encode_trace xs) \<and> list_all (\<lambda>x. has_flag (sm_flags x) flag_synthetic) xs \<and>
    decode_trace (encode_trace xs) (2 ^ 22) = (status_ok, map as_traced xs) \<and>
    fst (run_replay [''--trace'', path] w') = 0"
proof -
  from generate_writes [OF assms(1,2)] obtain cfg xs s n' good' where
    cfg: "cfg = generate_config args (generator_config_default\<lparr>gn_shape := s\<rparr>)" and g: "generate cfg = Some xs"
    and w: "wd_write w path = Some (good', n')" "wd_files w' path = Some (take n' (encode_trace xs))"
    and s: "s = (case arg_value ''--shape'' args of None \<Rightarrow> gn_shape generator_config_default
       | Some t \<Rightarrow> the (parse_shape t))" by metis
  have "n' = n" using w(1) assms(4) by simp
  then have "length (take n (encode_trace xs)) < n" using assms(5) w(2) by simp
  then have "length (encode_trace xs) < n" by (simp add: min_def split: if_splits)
  then have whole: "wd_files w' path = Some (encode_trace xs)" using w(2) \<open>n' = n\<close> by simp
  have shape: "case arg_number ''--burst-ticks'' args of None \<Rightarrow> True | Some v \<Rightarrow> v \<le> 253" if "s = ShRamp"
  proof (cases "arg_value ''--shape'' args")
    case None
    then show ?thesis using that s by (simp add: generator_config_default_def)
  next
    case (Some t)
    have "parse_shape t \<noteq> None" using assms(1) Some by (cases "parse_shape t") (simp_all add: run_generate_def)
    then have "t = ''ramp''" using that s Some parse_shape_ramp by auto
    then show ?thesis using assms(3) Some by (auto simp: short_ramp_def)
  qed
  have t: "list_all traceable xs"
    by (rule generate_traceable [OF generate_config_tool g [unfolded cfg]]) (rule shape)
  have l: "length xs \<le> 2 ^ 22" "list_all (labelled cfg) xs" using generate_returns [of cfg] g by auto
  then have f: "list_all (\<lambda>x. has_flag (sm_flags x) flag_synthetic) xs" by (simp add: list_all_iff labelled_def)
  have "decode_trace (encode_trace xs) (2 ^ 22) = (status_ok, map as_traced xs)"
    using decode_lines_encoded [OF t, of "[]"] l(1) by (simp add: decode_trace_def)
  then show ?thesis using whole f replay_accepts [OF whole t l(1)] assms(6) by (intro exI [of _ xs]) simp
qed

end
