(* ===== verification/Ownership.thy ===== *)
theory Ownership
  imports Prelude "HOL-Library.Multiset"
begin

text \<open>
  Unique ownership of operating system resources. An object of a class such as \<open>Socket\<close> or \<open>ChildProcess\<close>
  holds one handle or none; the process as a whole has a list of resources it has not given back.
  The contract of the classes is that every such resource is held by exactly one object.
\<close>

section \<open>Objects and resources\<close>

definition held :: "'h \<Rightarrow> 'h list \<Rightarrow> 'h list" where
  "held none slots = filter (\<lambda>h. h \<noteq> none) slots"

definition owns :: "'h \<Rightarrow> 'h list \<Rightarrow> 'h list \<Rightarrow> bool" where
  "owns none slots live \<longleftrightarrow> distinct live \<and> mset (held none slots) = mset live"

lemma held_simps [simp]:
  "held none [] = []" "held none (xs @ ys) = held none xs @ held none ys"
  "held none (h # hs) = (if h = none then held none hs else h # held none hs)"
  by (simp_all add: held_def)

lemma held_none [simp]: "held none (replicate n none) = []"
  by (induction n) simp_all

lemma held_update:
  "i < length slots \<Longrightarrow> mset (held none (slots[i := h])) + mset (held none [slots ! i]) =
     mset (held none slots) + mset (held none [h])"
proof (induction slots arbitrary: i)
  case (Cons x xs)
  show ?case
  proof (cases i)
    case 0
    then show ?thesis by simp
  next
    case (Suc k)
    then have "k < length xs" using Cons.prems by simp
    from Cons.IH [OF this] show ?thesis using Suc by (cases "x = none") simp_all
  qed
qed simp

lemma owns_perm: "mset xs = mset ys \<Longrightarrow> owns none xs live = owns none ys live"
proof -
  assume "mset xs = mset ys"
  then have "mset (held none xs) = mset (held none ys)" by (simp add: held_def)
  then show ?thesis by (simp add: owns_def)
qed

lemma owns_live: "owns none slots live \<Longrightarrow> set (held none slots) = set live"
  using mset_eq_setD unfolding owns_def by blast

lemma owns_single: "owns none slots live \<Longrightarrow> distinct (held none slots)"
  using mset_eq_imp_distinct_iff unfolding owns_def by blast

lemma owned: "owns none slots live \<Longrightarrow> i < length slots \<Longrightarrow> slots ! i \<noteq> none \<Longrightarrow> slots ! i \<in> set live"
  using owns_live by (fastforce simp: held_def)

text \<open>The three things that happen to a slot.\<close>

lemma owns_acquire:
  assumes "owns none slots live" "i < length slots" "slots ! i = none" "h \<noteq> none" "h \<notin> set live"
  shows "owns none (slots[i := h]) (h # live)"
  using assms held_update [of i slots none h] by (simp add: owns_def)

lemma owns_drop:
  assumes "owns none slots live" "i < length slots" "slots ! i \<noteq> none"
  shows "owns none (slots[i := none]) (remove1 (slots ! i) live)"
  using assms held_update [of i slots none none] by (simp add: owns_def) (metis add_mset_remove_trivial)

lemma owns_move:
  assumes "owns none slots live" "i < length slots" "j < length slots" "slots ! i = none"
  shows "owns none (slots[i := slots ! j, j := none]) live"
proof (cases "i = j")
  case True
  then have "slots[i := slots ! j, j := none] = slots" using assms(4) by (metis list_update_id list_update_overwrite)
  then show ?thesis using assms(1) by simp
next
  case False
  have "mset (held none (slots[i := slots ! j])) = mset (held none slots) + mset (held none [slots ! j])"
    using held_update [OF assms(2), of none "slots ! j"] assms(4) by simp
  moreover have "mset (held none (slots[i := slots ! j, j := none])) + mset (held none [slots ! j]) =
      mset (held none (slots[i := slots ! j]))"
    using held_update [of j "slots[i := slots ! j]" none none] assms(3) False by simp
  ultimately show ?thesis using assms(1) by (simp add: owns_def)
qed

lemma owns_new [simp]: "owns none (slots @ none # others) live = owns none (slots @ others) live"
  by (simp add: owns_def)

lemma owns_none_live: "owns none slots live \<Longrightarrow> list_all (\<lambda>h. h = none) slots \<Longrightarrow> live = []"
proof -
  assume "owns none slots live" and "list_all (\<lambda>h. h = none) slots"
  moreover from this have "held none slots = []" by (simp add: held_def list_all_iff filter_empty_conv)
  ultimately show "live = []" by (simp add: owns_def)
qed

section \<open>Giving back\<close>

text \<open>
  The contract of a class: its operation that gives a live resource back removes exactly that resource.
  What destroys, assigns and clears objects keeps the ownership, whatever the resource is.
\<close>

locale owner =
  fixes none :: 'h
    and live :: "'os \<Rightarrow> 'h list"
    and give_back :: "'h \<Rightarrow> 'os \<Rightarrow> 'os"
  assumes given_back: "h \<noteq> none \<Longrightarrow> h \<in> set (live s) \<Longrightarrow> live (give_back h s) = remove1 h (live s)"
    and nothing_back: "give_back none s = s"
begin

lemma cleared:
  assumes "owns none slots (live s)" "i < length slots"
  shows "owns none (slots[i := none]) (live (give_back (slots ! i) s))"
proof (cases "slots ! i = none")
  case True
  then show ?thesis using assms by (metis list_update_id nothing_back)
next
  case False
  note gone = given_back [OF False owned [OF assms False]]
  show ?thesis unfolding gone by (rule owns_drop [OF assms False])
qed

text \<open>Move assignment from another object: the old resource goes back, the new one changes hands.\<close>

lemma assigned:
  assumes "owns none slots (live s)" "i < length slots" "j < length slots" "i \<noteq> j"
  shows "owns none (slots[i := slots ! j, j := none]) (live (give_back (slots ! i) s))"
proof -
  have "owns none (slots[i := none]) (live (give_back (slots ! i) s))" using cleared assms(1,2) .
  from owns_move [OF this, of i j] show ?thesis using assms(2-4) by simp
qed

text \<open>Assignment of a fresh resource.\<close>

lemma replaced:
  assumes "owns none slots (live s)" "i < length slots" "h \<noteq> none" "h \<notin> set (live s)"
    "live s' = h # live (give_back (slots ! i) s)"
  shows "owns none (slots[i := h]) (live s')"
proof -
  have c: "owns none (slots[i := none]) (live (give_back (slots ! i) s))" using cleared assms(1,2) .
  have "h \<notin> set (live (give_back (slots ! i) s))"
  proof (cases "slots ! i = none")
    case True
    then show ?thesis using assms(4) by (simp add: nothing_back)
  next
    case False
    then show ?thesis using assms owned [OF assms(1,2)] set_remove1_subset by (fastforce simp: given_back)
  qed
  from owns_acquire [OF c _ _ assms(3) this, of i] show ?thesis using assms(2,5) by simp
qed

end

end
