(* ===== verification/Endpoints.thy ===== *)
theory Endpoints
  imports Ownership
begin

text \<open>
  Sockets, listeners and connections as owners of descriptors (\<open>include/mbg/transport/socket.hpp\<close>,
  \<open>src/transport/socket.cpp\<close>, in the build for POSIX systems). The bytes that a connected socket carries
  are the subject of \<open>Channel\<close>; here a socket is its handle, and the process has a list of open
  descriptors. What the operating system answers to a call is an argument.
\<close>

section \<open>Descriptors\<close>

type_synonym handle = u64

definition kInvalidHandle :: handle where "kInvalidHandle = NOT 0"

text \<open>The answers of one call: descriptors made by \<open>socket\<close> and \<open>accept\<close>, and what succeeds.\<close>

record net_io =
  ni_socket :: "handle option"
  ni_bind :: "u16 \<Rightarrow> bool"
  ni_listen :: "nat \<Rightarrow> bool"
  ni_name :: "u16 option"
  ni_accept :: "handle option"
  ni_host :: "string \<Rightarrow> bool"
  ni_connect :: "u16 \<Rightarrow> bool"
  ni_nodelay :: "bool \<Rightarrow> bool"

text \<open>
  What the process has: the status that the one-time start left, the open descriptors, those shut down
  in both directions, and how often it closed a descriptor that was not open.
\<close>

record net =
  nt_startup :: "status option"
  nt_live :: "handle list"
  nt_shut :: "handle list"
  nt_stray :: nat

definition net_new :: net where
  "net_new = \<lparr>nt_startup = None, nt_live = [], nt_shut = [], nt_stray = 0\<rparr>"

definition net_startup :: "net \<Rightarrow> status \<times> net" where
  "net_startup n =
     (case nt_startup n of
        Some st \<Rightarrow> (st, n)
      | None \<Rightarrow> (status_ok, n\<lparr>nt_startup := Some status_ok\<rparr>))"

definition created :: "handle \<Rightarrow> net \<Rightarrow> net" where
  "created h n = n\<lparr>nt_live := h # nt_live n\<rparr>"

definition close_native :: "handle \<Rightarrow> net \<Rightarrow> net" where
  "close_native h n =
     (if h = kInvalidHandle then n
      else if h \<in> set (nt_live n) then n\<lparr>nt_live := remove1 h (nt_live n), nt_shut := removeAll h (nt_shut n)\<rparr>
      else n\<lparr>nt_stray := nt_stray n + 1\<rparr>)"

section \<open>Socket\<close>

text \<open>An object of the class is its handle; each operation yields the handle it leaves.\<close>

definition handle_close :: "handle \<Rightarrow> net \<Rightarrow> handle \<times> net" where
  "handle_close h n = (if h \<noteq> kInvalidHandle then (kInvalidHandle, close_native h n) else (h, n))"

definition handle_release :: "handle \<Rightarrow> handle \<times> handle" where
  "handle_release h = (h, kInvalidHandle)"

definition handle_interrupt :: "handle \<Rightarrow> net \<Rightarrow> net" where
  "handle_interrupt h n = (if h = kInvalidHandle then n else n\<lparr>nt_shut := List.insert h (nt_shut n)\<rparr>)"

definition handle_nodelay :: "net_io \<Rightarrow> bool \<Rightarrow> handle \<Rightarrow> status" where
  "handle_nodelay io enable h =
     (if h = kInvalidHandle then failure StIo ''socket is not open''
      else if \<not> ni_nodelay io enable then failure StIo ''TCP_NODELAY could not be set'' else status_ok)"

text \<open>Move assignment between two different objects: the handles that both are left with.\<close>

definition handle_assign :: "handle \<Rightarrow> handle \<Rightarrow> net \<Rightarrow> handle \<times> handle \<times> net" where
  "handle_assign this other n = (let (_, n) = handle_close this n in (other, kInvalidHandle, n))"

text \<open>Assignment from a temporary object, which is destroyed at once.\<close>

definition handle_adopt :: "handle \<Rightarrow> handle \<Rightarrow> net \<Rightarrow> handle \<times> net" where
  "handle_adopt this h n =
     (let (this, temporary, n) = handle_assign this h n; (_, n) = handle_close temporary n in (this, n))"

section \<open>Listener and connections\<close>

record listener =
  ln_socket :: handle
  ln_port :: u16

definition listener_new :: listener where
  "listener_new = \<lparr>ln_socket = kInvalidHandle, ln_port = 0\<rparr>"

definition bind_loopback :: "net_io \<Rightarrow> u16 \<Rightarrow> nat \<Rightarrow> listener \<Rightarrow> net \<Rightarrow> status \<times> listener \<times> net" where
  "bind_loopback io port backlog l n =
     (let (started, n) = net_startup n
      in if \<not> is_ok started then (started, l, n)
      else case ni_socket io of
        None \<Rightarrow> (failure StIo ''listener socket could not be created'', l, n)
      | Some h \<Rightarrow>
          let n = created h n
          in if \<not> ni_bind io port then
               (failure StIo ''listener could not bind the loopback port'', l, close_native h n)
             else if \<not> ni_listen io backlog then (failure StIo ''listener could not listen'', l, close_native h n)
             else case ni_name io of
               None \<Rightarrow> (failure StIo ''listener port could not be read back'', l, close_native h n)
             | Some p \<Rightarrow>
                 let (s, n) = handle_adopt (ln_socket l) h n
                 in (status_ok, l\<lparr>ln_socket := s, ln_port := p\<rparr>, n))"

definition listener_accept :: "net_io \<Rightarrow> listener \<Rightarrow> handle \<Rightarrow> net \<Rightarrow> status \<times> handle \<times> net" where
  "listener_accept io l out n =
     (if ln_socket l = kInvalidHandle then (failure StCancelled ''listener is closed'', out, n)
      else case ni_accept io of
        None \<Rightarrow> (failure StCancelled ''listener accept was interrupted'', out, n)
      | Some h \<Rightarrow> let (out, n) = handle_adopt out h (created h n) in (status_ok, out, n))"

definition listener_interrupt :: "listener \<Rightarrow> net \<Rightarrow> net" where
  "listener_interrupt l n = handle_interrupt (ln_socket l) n"

definition listener_close :: "listener \<Rightarrow> net \<Rightarrow> listener \<times> net" where
  "listener_close l n =
     (if ln_socket l \<noteq> kInvalidHandle then
        let n = handle_interrupt (ln_socket l) n; (s, n) = handle_close (ln_socket l) n
        in (l\<lparr>ln_socket := s\<rparr>, n)
      else (l, n))"

text \<open>The defaulted move assignment between two different listeners.\<close>

definition listener_assign :: "listener \<Rightarrow> listener \<Rightarrow> net \<Rightarrow> listener \<times> listener \<times> net" where
  "listener_assign this other n =
     (let (s, t, n) = handle_assign (ln_socket this) (ln_socket other) n
      in (this\<lparr>ln_socket := s, ln_port := ln_port other\<rparr>, other\<lparr>ln_socket := t\<rparr>, n))"

definition connect_loopback :: "net_io \<Rightarrow> string \<Rightarrow> u16 \<Rightarrow> handle \<Rightarrow> net \<Rightarrow> status \<times> handle \<times> net" where
  "connect_loopback io host port out n =
     (let (started, n) = net_startup n
      in if \<not> is_ok started then (started, out, n)
      else case ni_socket io of
        None \<Rightarrow> (failure StIo ''client socket could not be created'', out, n)
      | Some h \<Rightarrow>
          let n = created h n
          in if \<not> ni_host io host then
               (failure StInvalidArgument ''connect host is not a valid IPv4 address'', out, close_native h n)
             else if \<not> ni_connect io port then
               (failure StIo ''connection to the coordinator was refused'', out, close_native h n)
             else let (out, n) = handle_adopt out h n in (status_ok, out, n))"

section \<open>The objects of a process\<close>

text \<open>
  All objects of a process, the handles that were released to other owners, and its descriptors. The
  destructors are \<open>handle_close\<close> and \<open>listener_close\<close>, so a destroyed object is one that is closed.
\<close>

record endpoints =
  ep_sockets :: "handle list"
  ep_listeners :: "listener list"
  ep_given :: "handle list"
  ep_net :: net

definition endpoints_new :: endpoints where
  "endpoints_new = \<lparr>ep_sockets = [], ep_listeners = [], ep_given = [], ep_net = net_new\<rparr>"

datatype endpoint_op =
    EpNewSocket
  | EpNewListener
  | EpConnect net_io string u16 nat
  | EpBind net_io u16 nat nat
  | EpAccept net_io nat nat
  | EpClose nat
  | EpCloseListener nat
  | EpInterrupt nat
  | EpInterruptListener nat
  | EpRelease nat
  | EpAssign nat nat
  | EpAssignListener nat nat

fun endpoint_step :: "endpoint_op \<Rightarrow> endpoints \<Rightarrow> endpoints" where
  "endpoint_step EpNewSocket e = e\<lparr>ep_sockets := ep_sockets e @ [kInvalidHandle]\<rparr>"
| "endpoint_step EpNewListener e = e\<lparr>ep_listeners := ep_listeners e @ [listener_new]\<rparr>"
| "endpoint_step (EpConnect io host port i) e =
     (if i < length (ep_sockets e) then
        let (_, s, n) = connect_loopback io host port (ep_sockets e ! i) (ep_net e)
        in e\<lparr>ep_sockets := (ep_sockets e)[i := s], ep_net := n\<rparr>
      else e)"
| "endpoint_step (EpBind io port backlog k) e =
     (if k < length (ep_listeners e) then
        let (_, l, n) = bind_loopback io port backlog (ep_listeners e ! k) (ep_net e)
        in e\<lparr>ep_listeners := (ep_listeners e)[k := l], ep_net := n\<rparr>
      else e)"
| "endpoint_step (EpAccept io k i) e =
     (if k < length (ep_listeners e) \<and> i < length (ep_sockets e) then
        let (_, s, n) = listener_accept io (ep_listeners e ! k) (ep_sockets e ! i) (ep_net e)
        in e\<lparr>ep_sockets := (ep_sockets e)[i := s], ep_net := n\<rparr>
      else e)"
| "endpoint_step (EpClose i) e =
     (if i < length (ep_sockets e) then
        let (s, n) = handle_close (ep_sockets e ! i) (ep_net e)
        in e\<lparr>ep_sockets := (ep_sockets e)[i := s], ep_net := n\<rparr>
      else e)"
| "endpoint_step (EpCloseListener k) e =
     (if k < length (ep_listeners e) then
        let (l, n) = listener_close (ep_listeners e ! k) (ep_net e)
        in e\<lparr>ep_listeners := (ep_listeners e)[k := l], ep_net := n\<rparr>
      else e)"
| "endpoint_step (EpInterrupt i) e =
     (if i < length (ep_sockets e) then e\<lparr>ep_net := handle_interrupt (ep_sockets e ! i) (ep_net e)\<rparr> else e)"
| "endpoint_step (EpInterruptListener k) e =
     (if k < length (ep_listeners e) then e\<lparr>ep_net := listener_interrupt (ep_listeners e ! k) (ep_net e)\<rparr> else e)"
| "endpoint_step (EpRelease i) e =
     (if i < length (ep_sockets e) then
        let (h, s) = handle_release (ep_sockets e ! i)
        in e\<lparr>ep_sockets := (ep_sockets e)[i := s], ep_given := ep_given e @ [h]\<rparr>
      else e)"
| "endpoint_step (EpAssign i j) e =
     (if i < length (ep_sockets e) \<and> j < length (ep_sockets e) \<and> i \<noteq> j then
        let (s, t, n) = handle_assign (ep_sockets e ! i) (ep_sockets e ! j) (ep_net e)
        in e\<lparr>ep_sockets := (ep_sockets e)[i := s, j := t], ep_net := n\<rparr>
      else e)"
| "endpoint_step (EpAssignListener i j) e =
     (if i < length (ep_listeners e) \<and> j < length (ep_listeners e) \<and> i \<noteq> j then
        let (l, m, n) = listener_assign (ep_listeners e ! i) (ep_listeners e ! j) (ep_net e)
        in e\<lparr>ep_listeners := (ep_listeners e)[i := l, j := m], ep_net := n\<rparr>
      else e)"

text \<open>A descriptor that the operating system hands out is none of the open ones.\<close>

definition fresh_handle :: "handle option \<Rightarrow> net \<Rightarrow> bool" where
  "fresh_handle answer n \<longleftrightarrow>
     (case answer of None \<Rightarrow> True | Some h \<Rightarrow> h \<noteq> kInvalidHandle \<and> h \<notin> set (nt_live n))"

fun fresh_answers :: "endpoint_op \<Rightarrow> net \<Rightarrow> bool" where
  "fresh_answers (EpConnect io host port i) n \<longleftrightarrow> fresh_handle (ni_socket io) n"
| "fresh_answers (EpBind io port backlog k) n \<longleftrightarrow> fresh_handle (ni_socket io) n"
| "fresh_answers (EpAccept io k i) n \<longleftrightarrow> fresh_handle (ni_accept io) n"
| "fresh_answers _ n \<longleftrightarrow> True"

inductive endpoints_reached :: "endpoints \<Rightarrow> bool" where
  started: "endpoints_reached endpoints_new"
| stepped: "endpoints_reached e \<Longrightarrow> fresh_answers op (ep_net e) \<Longrightarrow> endpoints_reached (endpoint_step op e)"

section \<open>Every descriptor has one owner\<close>

definition ep_handles :: "endpoints \<Rightarrow> handle list" where
  "ep_handles e = ep_sockets e @ map ln_socket (ep_listeners e) @ ep_given e"

definition endpoints_ok :: "endpoints \<Rightarrow> bool" where
  "endpoints_ok e \<longleftrightarrow> owns kInvalidHandle (ep_handles e) (nt_live (ep_net e)) \<and> nt_stray (ep_net e) = 0"

interpretation descriptors: owner kInvalidHandle nt_live close_native
  by unfold_locales (simp_all add: close_native_def)

text \<open>What creating calls do to the object they assign to: nothing, or a fresh descriptor replaces its own.\<close>

definition slot_change :: "handle \<Rightarrow> net \<Rightarrow> handle \<Rightarrow> net \<Rightarrow> bool" where
  "slot_change a n s n' \<longleftrightarrow> nt_stray n' = nt_stray n \<and>
     (s = a \<and> nt_live n' = nt_live n \<or>
      s \<noteq> kInvalidHandle \<and> s \<notin> set (nt_live n) \<and> nt_live n' = s # nt_live (close_native a n))"

definition owned_or_none :: "handle \<Rightarrow> net \<Rightarrow> bool" where
  "owned_or_none a n \<longleftrightarrow> a = kInvalidHandle \<or> a \<in> set (nt_live n)"

lemma startup_keeps [simp]:
  "nt_live (snd (net_startup n)) = nt_live n" "nt_stray (snd (net_startup n)) = nt_stray n"
  by (simp_all add: net_startup_def split: option.split)

lemma close_created [simp]:
  "h \<noteq> kInvalidHandle \<Longrightarrow> h \<notin> set (nt_live n) \<Longrightarrow> nt_live (close_native h (created h n)) = nt_live n"
  "h \<noteq> kInvalidHandle \<Longrightarrow> nt_stray (close_native h (created h n)) = nt_stray n"
  by (simp_all add: close_native_def created_def)

lemma close_stray [simp]: "owned_or_none a n \<Longrightarrow> nt_stray (close_native a n) = nt_stray n"
  by (auto simp: close_native_def owned_or_none_def)

lemma adopt_created:
  assumes "owned_or_none a n" "h \<noteq> kInvalidHandle" "h \<notin> set (nt_live n)" "handle_adopt a h (created h n) = (s, n')"
  shows "slot_change a n s n'"
proof -
  have "a \<noteq> h" using assms(1-3) by (auto simp: owned_or_none_def)
  then have "nt_live (close_native a (created h n)) = h # nt_live (close_native a n)"
    "nt_stray (close_native a (created h n)) = nt_stray n"
    using assms(1) by (auto simp: close_native_def created_def owned_or_none_def)
  moreover have "s = h" "n' = close_native a (created h n)"
    using assms(4) by (auto simp: handle_adopt_def handle_assign_def handle_close_def close_native_def Let_def split: if_splits)
  ultimately show ?thesis using assms(2,3) by (simp add: slot_change_def)
qed

lemma slot_change_refl [simp]: "slot_change a n a n'" if "nt_live n' = nt_live n" "nt_stray n' = nt_stray n"
  using that by (simp add: slot_change_def)

lemma slot_change_start:
  assumes "nt_live m = nt_live n" "nt_stray m = nt_stray n"
  shows "slot_change a m s n' = slot_change a n s n'"
  using assms by (auto simp: slot_change_def close_native_def)

lemma connect_slot:
  assumes "fresh_handle (ni_socket io) n" "owned_or_none a n" "connect_loopback io host port a n = (st, s, n')"
  shows "slot_change a n s n'"
proof -
  define m where "m = snd (net_startup n)"
  have m: "nt_live m = nt_live n" "nt_stray m = nt_stray n" by (simp_all add: m_def)
  have a: "owned_or_none a m" using assms(2) m by (simp add: owned_or_none_def)
  show ?thesis
  proof (cases "ni_socket io")
    case None
    then show ?thesis using assms(3) m by (auto simp: connect_loopback_def m_def case_prod_beta Let_def split: if_splits)
  next
    case (Some h)
    then have h: "h \<noteq> kInvalidHandle" "h \<notin> set (nt_live m)" using assms(1) m by (simp_all add: fresh_handle_def)
    have kept: "slot_change a n a (close_native h (created h m))" using h m by simp
    have "slot_change a m s n'" if "handle_adopt a h (created h m) = (s, n')" using adopt_created [OF a h that] .
    then show ?thesis using assms(3) Some m kept slot_change_start [OF m]
      by (auto simp: connect_loopback_def m_def case_prod_beta Let_def split: if_splits)
  qed
qed

lemma bind_slot:
  assumes "fresh_handle (ni_socket io) n" "owned_or_none (ln_socket l) n"
    "bind_loopback io port backlog l n = (st, l', n')"
  shows "slot_change (ln_socket l) n (ln_socket l') n'"
proof -
  define m where "m = snd (net_startup n)"
  have m: "nt_live m = nt_live n" "nt_stray m = nt_stray n" by (simp_all add: m_def)
  have a: "owned_or_none (ln_socket l) m" using assms(2) m by (simp add: owned_or_none_def)
  show ?thesis
  proof (cases "ni_socket io")
    case None
    then show ?thesis using assms(3) m by (auto simp: bind_loopback_def m_def case_prod_beta Let_def split: if_splits)
  next
    case (Some h)
    then have h: "h \<noteq> kInvalidHandle" "h \<notin> set (nt_live m)" using assms(1) m by (simp_all add: fresh_handle_def)
    have kept: "slot_change (ln_socket l) n (ln_socket l) (close_native h (created h m))" using h m by simp
    have "slot_change (ln_socket l) m (fst (handle_adopt (ln_socket l) h (created h m)))
        (snd (handle_adopt (ln_socket l) h (created h m)))" by (rule adopt_created [OF a h]) simp
    then show ?thesis using assms(3) Some m kept slot_change_start [OF m]
      by (auto simp: bind_loopback_def m_def case_prod_beta Let_def split: if_splits option.splits)
  qed
qed

lemma accept_slot:
  assumes "fresh_handle (ni_accept io) n" "owned_or_none a n" "listener_accept io l a n = (st, s, n')"
  shows "slot_change a n s n'"
  using assms adopt_created [OF assms(2)]
  by (auto simp: listener_accept_def fresh_handle_def case_prod_beta Let_def split: if_splits option.splits)

text \<open>The same for a handle of the list of all handles.\<close>

lemma slot_changed:
  assumes "owns kInvalidHandle hs (nt_live n)" "i < length hs" "slot_change (hs ! i) n s n'"
  shows "owns kInvalidHandle (hs[i := s]) (nt_live n')"
proof (cases "s = hs ! i \<and> nt_live n' = nt_live n")
  case True
  then show ?thesis using assms(1) by simp
next
  case False
  then show ?thesis using assms descriptors.replaced [OF assms(1,2), of s n'] by (auto simp: slot_change_def)
qed

lemma held_owned: "owns kInvalidHandle hs (nt_live n) \<Longrightarrow> i < length hs \<Longrightarrow> owned_or_none (hs ! i) n"
  by (cases "hs ! i = kInvalidHandle") (simp_all add: owned_or_none_def owned)

text \<open>An object in the list of all handles.\<close>

lemma socket_at:
  assumes "i < length (ep_sockets e)"
  shows "i < length (ep_handles e)" "ep_handles e ! i = ep_sockets e ! i"
    "ep_handles (e\<lparr>ep_sockets := (ep_sockets e)[i := s], ep_net := n\<rparr>) = (ep_handles e)[i := s]"
  using assms by (simp_all add: ep_handles_def nth_append list_update_append)

lemma listener_at:
  assumes "k < length (ep_listeners e)"
  shows "length (ep_sockets e) + k < length (ep_handles e)"
    "ep_handles e ! (length (ep_sockets e) + k) = ln_socket (ep_listeners e ! k)"
    "ep_handles (e\<lparr>ep_listeners := (ep_listeners e)[k := l], ep_net := n\<rparr>) =
       (ep_handles e)[length (ep_sockets e) + k := ln_socket l]"
  using assms by (simp_all add: ep_handles_def nth_append list_update_append map_update)

lemma update_socket_ok:
  assumes "endpoints_ok e" "i < length (ep_sockets e)" "slot_change (ep_sockets e ! i) (ep_net e) s n"
  shows "endpoints_ok (e\<lparr>ep_sockets := (ep_sockets e)[i := s], ep_net := n\<rparr>)"
  using assms slot_changed [of "ep_handles e" "ep_net e" i s n] socket_at [OF assms(2)]
  by (simp add: endpoints_ok_def slot_change_def)

lemma update_listener_ok:
  assumes "endpoints_ok e" "k < length (ep_listeners e)"
    "slot_change (ln_socket (ep_listeners e ! k)) (ep_net e) (ln_socket l) n"
  shows "endpoints_ok (e\<lparr>ep_listeners := (ep_listeners e)[k := l], ep_net := n\<rparr>)"
  using assms slot_changed [of "ep_handles e" "ep_net e" "length (ep_sockets e) + k" "ln_socket l" n]
    listener_at [OF assms(2)]
  by (simp add: endpoints_ok_def slot_change_def)

lemma ok_owned:
  assumes "endpoints_ok e"
  shows "i < length (ep_sockets e) \<Longrightarrow> owned_or_none (ep_sockets e ! i) (ep_net e)"
    "k < length (ep_listeners e) \<Longrightarrow> owned_or_none (ln_socket (ep_listeners e ! k)) (ep_net e)"
  using assms held_owned [of "ep_handles e" "ep_net e"] socket_at(1,2) listener_at(1,2)
  unfolding endpoints_ok_def by metis+

lemma close_net: "snd (handle_close h n) = close_native h n" "fst (handle_close h n) = kInvalidHandle"
  by (simp_all add: handle_close_def close_native_def)

lemma close_socket_ok:
  assumes "endpoints_ok e" "i < length (ep_sockets e)"
  shows "endpoints_ok (e\<lparr>ep_sockets := (ep_sockets e)[i := kInvalidHandle],
    ep_net := close_native (ep_sockets e ! i) (ep_net e)\<rparr>)"
  using assms(1) descriptors.cleared [of "ep_handles e" "ep_net e" i] socket_at [OF assms(2)] ok_owned(1) [OF assms]
  by (simp add: endpoints_ok_def)

lemma interrupt_keeps [simp]:
  "nt_live (handle_interrupt h n) = nt_live n" "nt_stray (handle_interrupt h n) = nt_stray n"
  by (simp_all add: handle_interrupt_def)

lemma close_live_cong:
  "nt_live m = nt_live n \<Longrightarrow> nt_live (close_native h m) = nt_live (close_native h n)"
  by (simp add: close_native_def)

lemma close_listener_ok:
  assumes "endpoints_ok e" "k < length (ep_listeners e)" "listener_close (ep_listeners e ! k) (ep_net e) = (l, n)"
  shows "endpoints_ok (e\<lparr>ep_listeners := (ep_listeners e)[k := l], ep_net := n\<rparr>)"
proof -
  let ?h = "ln_socket (ep_listeners e ! k)"
  have o: "owned_or_none ?h (ep_net e)" using ok_owned(2) [OF assms(1,2)] .
  have l: "ln_socket l = kInvalidHandle" "nt_live n = nt_live (close_native ?h (ep_net e))" "nt_stray n = nt_stray (ep_net e)"
    using assms(3) o by (auto simp: listener_close_def handle_close_def owned_or_none_def close_native_def
        Let_def split: if_splits)
  show ?thesis
    using assms(1) descriptors.cleared [of "ep_handles e" "ep_net e" "length (ep_sockets e) + k"]
      listener_at [OF assms(2)] l by (simp add: endpoints_ok_def)
qed

lemma assign_socket_ok:
  assumes "endpoints_ok e" "i < length (ep_sockets e)" "j < length (ep_sockets e)" "i \<noteq> j"
  shows "endpoints_ok (e\<lparr>ep_sockets := (ep_sockets e)[i := ep_sockets e ! j, j := kInvalidHandle],
    ep_net := close_native (ep_sockets e ! i) (ep_net e)\<rparr>)"
proof -
  have "ep_handles (e\<lparr>ep_sockets := (ep_sockets e)[i := ep_sockets e ! j, j := kInvalidHandle], ep_net := n\<rparr>) =
      (ep_handles e)[i := ep_handles e ! j, j := kInvalidHandle]" for n
    using assms(2,3) by (simp add: ep_handles_def nth_append list_update_append)
  then show ?thesis
    using assms(1,4) descriptors.assigned [of "ep_handles e" "ep_net e" i j] socket_at [OF assms(2)] socket_at [OF assms(3)]
      ok_owned(1) [OF assms(1,2)]
    by (simp add: endpoints_ok_def)
qed

lemma assign_listener_ok:
  assumes "endpoints_ok e" "i < length (ep_listeners e)" "j < length (ep_listeners e)" "i \<noteq> j"
    "listener_assign (ep_listeners e ! i) (ep_listeners e ! j) (ep_net e) = (l, m, n)"
  shows "endpoints_ok (e\<lparr>ep_listeners := (ep_listeners e)[i := l, j := m], ep_net := n\<rparr>)"
proof -
  have "ln_socket l = ln_socket (ep_listeners e ! j)" "ln_socket m = kInvalidHandle"
    "n = close_native (ln_socket (ep_listeners e ! i)) (ep_net e)"
    using assms(5) by (auto simp: listener_assign_def handle_assign_def case_prod_beta close_net Let_def)
  moreover have "ep_handles (e\<lparr>ep_listeners := (ep_listeners e)[i := l, j := m], ep_net := n\<rparr>) =
      (ep_handles e)[length (ep_sockets e) + i := ln_socket l, length (ep_sockets e) + j := ln_socket m]"
    using assms(2,3) by (simp add: ep_handles_def nth_append list_update_append map_update)
  ultimately show ?thesis
    using assms(1,4) descriptors.assigned [of "ep_handles e" "ep_net e" "length (ep_sockets e) + i" "length (ep_sockets e) + j"]
      listener_at [OF assms(2)] listener_at [OF assms(3)] ok_owned(2) [OF assms(1,2)]
    by (simp add: endpoints_ok_def)
qed

lemma owns_release:
  "i < length xs \<Longrightarrow> mset (xs[i := none] @ ys @ zs @ [xs ! i]) = mset (xs @ none # ys @ zs)"
proof -
  assume "i < length xs"
  then have "add_mset (xs ! i) (mset (xs[i := none])) = add_mset none (mset xs)"
    using insert_DiffM [of "xs ! i" "mset xs"] by (simp add: mset_update add_mset_commute [of "xs ! i"])
  then show ?thesis by (simp add: ac_simps)
qed

lemma release_socket_ok:
  assumes "endpoints_ok e" "i < length (ep_sockets e)"
  shows "endpoints_ok (e\<lparr>ep_sockets := (ep_sockets e)[i := kInvalidHandle], ep_given := ep_given e @ [ep_sockets e ! i]\<rparr>)"
proof -
  have "owns kInvalidHandle (ep_sockets e @ kInvalidHandle # map ln_socket (ep_listeners e) @ ep_given e) (nt_live (ep_net e))"
    using assms(1) by (simp add: endpoints_ok_def ep_handles_def)
  then have "owns kInvalidHandle ((ep_sockets e)[i := kInvalidHandle] @ map ln_socket (ep_listeners e) @ ep_given e @
      [ep_sockets e ! i]) (nt_live (ep_net e))"
    unfolding owns_perm [OF owns_release [OF assms(2)]] .
  then show ?thesis using assms(1) by (simp add: endpoints_ok_def ep_handles_def)
qed

lemma endpoint_step_ok:
  assumes e: "endpoints_ok e" and f: "fresh_answers op (ep_net e)"
  shows "endpoints_ok (endpoint_step op e)"
proof (cases op)
  case EpNewSocket
  then show ?thesis using e by (simp add: endpoints_ok_def ep_handles_def)
next
  case EpNewListener
  then show ?thesis using e owns_new [of kInvalidHandle "ep_sockets e @ map ln_socket (ep_listeners e)"]
    by (simp add: endpoints_ok_def ep_handles_def listener_new_def)
next
  case (EpConnect io host port i)
  have "slot_change (ep_sockets e ! i) (ep_net e) s n"
    if "i < length (ep_sockets e)" "connect_loopback io host port (ep_sockets e ! i) (ep_net e) = (st, s, n)" for st s n
    using connect_slot [OF _ ok_owned(1) [OF e that(1)] that(2)] f EpConnect by simp
  then show ?thesis using e EpConnect update_socket_ok [OF e]
    by (cases "connect_loopback io host port (ep_sockets e ! i) (ep_net e)") simp
next
  case (EpBind io port backlog k)
  have "slot_change (ln_socket (ep_listeners e ! k)) (ep_net e) (ln_socket l) n"
    if "k < length (ep_listeners e)" "bind_loopback io port backlog (ep_listeners e ! k) (ep_net e) = (st, l, n)" for st l n
    using bind_slot [OF _ ok_owned(2) [OF e that(1)] that(2)] f EpBind by simp
  then show ?thesis using e EpBind update_listener_ok [OF e]
    by (cases "bind_loopback io port backlog (ep_listeners e ! k) (ep_net e)") simp
next
  case (EpAccept io k i)
  have "slot_change (ep_sockets e ! i) (ep_net e) s n"
    if "i < length (ep_sockets e)" "listener_accept io (ep_listeners e ! k) (ep_sockets e ! i) (ep_net e) = (st, s, n)" for st s n
    using accept_slot [OF _ ok_owned(1) [OF e that(1)] that(2)] f EpAccept by simp
  then show ?thesis using e EpAccept update_socket_ok [OF e]
    by (cases "listener_accept io (ep_listeners e ! k) (ep_sockets e ! i) (ep_net e)") simp
next
  case (EpClose i)
  then show ?thesis using e close_socket_ok [OF e] by (simp add: case_prod_beta close_net)
next
  case (EpCloseListener k)
  then show ?thesis using e close_listener_ok [OF e]
    by (cases "listener_close (ep_listeners e ! k) (ep_net e)") simp
next
  case (EpInterrupt i)
  then show ?thesis using e by (simp add: endpoints_ok_def ep_handles_def)
next
  case (EpInterruptListener k)
  then show ?thesis using e by (simp add: endpoints_ok_def ep_handles_def listener_interrupt_def)
next
  case (EpRelease i)
  then show ?thesis using e release_socket_ok [OF e] by (simp add: handle_release_def)
next
  case (EpAssign i j)
  then show ?thesis using e assign_socket_ok [OF e] by (simp add: handle_assign_def case_prod_beta close_net)
next
  case (EpAssignListener i j)
  then show ?thesis using e assign_listener_ok [OF e]
    by (cases "listener_assign (ep_listeners e ! i) (ep_listeners e ! j) (ep_net e)") simp
qed

lemma endpoints_reached_ok: "endpoints_reached e \<Longrightarrow> endpoints_ok e"
proof (induction rule: endpoints_reached.induct)
  case started
  show ?case by (simp add: endpoints_ok_def endpoints_new_def ep_handles_def net_new_def owns_def)
next
  case (stepped e op)
  then show ?case using endpoint_step_ok by blast
qed

end
