(* ===== verification/Processes.thy ===== *)
theory Processes
  imports Ownership Hashing
begin

text \<open>
  Process control (\<open>include/mbg/platform/process.hpp\<close>, \<open>src/platform/process.cpp\<close>, in the build for POSIX
  systems): the incarnation identity of a process, and child processes as resources that an object of
  the class \<open>ChildProcess\<close> owns until the operating system has reported their end.
\<close>

section \<open>Incarnations\<close>

text \<open>From the process id, the counter of the process and a clock reading; the counter moves on.\<close>

definition mint_incarnation :: "u64 \<Rightarrow> u64 \<Rightarrow> u64 \<Rightarrow> u64 \<times> u64" where
  "mint_incarnation process counter nanos =
     (let counter = counter + 1;
          h = 0x1C0FFEE;
          h = hash_combine h process;
          h = hash_combine h counter;
          h = hash_combine h nanos
      in (if h = id_invalid then h XOR 0x5DEECE66D else h, counter))"

lemma minted_valid: "id_valid (fst (mint_incarnation process counter nanos))"
  by (simp add: mint_incarnation_def id_valid_def id_invalid_def Let_def)

text \<open>At one clock reading different counters give different identities, save the one that is remapped.\<close>

lemma minted_distinct:
  assumes "fst (mint_incarnation p c n) = fst (mint_incarnation p c' n)"
    "fst (mint_incarnation p c n) \<noteq> id_invalid XOR 0x5DEECE66D"
  shows "c = c'"
  using assms by (auto simp: mint_incarnation_def Let_def split: if_splits)

section \<open>Child processes\<close>

text \<open>The handle of the object is the process id, zero when it holds no child.\<close>

record child =
  cp_handle :: u64
  cp_pid :: u64

definition child_none :: child where
  "child_none = \<lparr>cp_handle = 0, cp_pid = 0\<rparr>"

text \<open>What \<open>waitpid\<close> answers: an error, an exit code, or an end by a signal.\<close>

datatype wait_answer = WaFailed | WaExited int | WaSignalled

text \<open>The children whose end has not been collected yet, and those of them that were sent SIGKILL.\<close>

record family =
  fm_children :: "u64 list"
  fm_killed :: "u64 list"

definition reap :: "u64 \<Rightarrow> family \<Rightarrow> family" where
  "reap pid f =
     (if pid = 0 then f
      else f\<lparr>fm_children := remove1 pid (fm_children f), fm_killed := removeAll pid (fm_killed f)\<rparr>)"

definition kill_hard :: "bool \<Rightarrow> child \<Rightarrow> family \<Rightarrow> bool \<times> family" where
  "kill_hard ok c f =
     (if cp_handle c = 0 then (False, f)
      else (ok, if ok then f\<lparr>fm_killed := List.insert (cp_handle c) (fm_killed f)\<rparr> else f))"

definition child_wait :: "wait_answer \<Rightarrow> child \<Rightarrow> family \<Rightarrow> int \<times> child \<times> family" where
  "child_wait answer c f =
     (if cp_handle c = 0 then (- 1, c, f)
      else case answer of
        WaFailed \<Rightarrow> (- 1, c, f)
      | WaExited code \<Rightarrow> (code, c\<lparr>cp_handle := 0\<rparr>, reap (cp_handle c) f)
      | WaSignalled \<Rightarrow> (- 1, c\<lparr>cp_handle := 0\<rparr>, reap (cp_handle c) f))"

definition child_release :: "bool \<Rightarrow> wait_answer \<Rightarrow> child \<Rightarrow> family \<Rightarrow> child \<times> family" where
  "child_release ok answer c f =
     (if cp_handle c \<noteq> 0 then
        let (_, f) = kill_hard ok c f; (_, c, f) = child_wait answer c f
        in (c\<lparr>cp_handle := 0, cp_pid := 0\<rparr>, f)
      else (c, f))"

text \<open>Move assignment between two different objects.\<close>

definition child_assign :: "bool \<Rightarrow> wait_answer \<Rightarrow> child \<Rightarrow> child \<Rightarrow> family \<Rightarrow> child \<times> child \<times> family" where
  "child_assign ok answer this other f =
     (let (this, f) = child_release ok answer this f
      in (this\<lparr>cp_handle := cp_handle other, cp_pid := cp_pid other\<rparr>, other\<lparr>cp_handle := 0, cp_pid := 0\<rparr>, f))"

definition child_argv :: "string \<Rightarrow> string list \<Rightarrow> string list" where
  "child_argv executable arguments = executable # arguments"

text \<open>\<open>posix_spawn\<close> is the first argument: the id of the new process, unless it fails.\<close>

definition child_spawn ::
  "(string \<Rightarrow> string list \<Rightarrow> u64 option) \<Rightarrow> bool \<Rightarrow> wait_answer \<Rightarrow> string \<Rightarrow> string list \<Rightarrow> child \<Rightarrow> family \<Rightarrow>
     status \<times> child \<times> family" where
  "child_spawn posix_spawn ok answer executable arguments out f =
     (case posix_spawn executable (child_argv executable arguments) of
        None \<Rightarrow> (failure StIo ''child process could not be created'', out, f)
      | Some pid \<Rightarrow>
          let f = f\<lparr>fm_children := pid # fm_children f\<rparr>;
              (out, f) = child_release ok answer out f
          in (status_ok, out\<lparr>cp_handle := pid, cp_pid := pid\<rparr>, f))"

section \<open>The objects of a process\<close>

record children =
  cs_objects :: "child list"
  cs_family :: family

definition children_new :: children where
  "children_new = \<lparr>cs_objects = [], cs_family = \<lparr>fm_children = [], fm_killed = []\<rparr>\<rparr>"

text \<open>The destructor of an object is \<open>ChRelease\<close>; each operation carries the answers of its system calls.\<close>

datatype child_op =
    ChNew
  | ChSpawn "string \<Rightarrow> string list \<Rightarrow> u64 option" bool wait_answer string "string list" nat
  | ChKill bool nat
  | ChWait wait_answer nat
  | ChRelease bool wait_answer nat
  | ChAssign bool wait_answer nat nat

fun child_step :: "child_op \<Rightarrow> children \<Rightarrow> children" where
  "child_step ChNew s = s\<lparr>cs_objects := cs_objects s @ [child_none]\<rparr>"
| "child_step (ChSpawn posix_spawn ok answer executable arguments i) s =
     (if i < length (cs_objects s) then
        let (_, c, f) = child_spawn posix_spawn ok answer executable arguments (cs_objects s ! i) (cs_family s)
        in s\<lparr>cs_objects := (cs_objects s)[i := c], cs_family := f\<rparr>
      else s)"
| "child_step (ChKill ok i) s =
     (if i < length (cs_objects s) then
        let (_, f) = kill_hard ok (cs_objects s ! i) (cs_family s) in s\<lparr>cs_family := f\<rparr>
      else s)"
| "child_step (ChWait answer i) s =
     (if i < length (cs_objects s) then
        let (_, c, f) = child_wait answer (cs_objects s ! i) (cs_family s)
        in s\<lparr>cs_objects := (cs_objects s)[i := c], cs_family := f\<rparr>
      else s)"
| "child_step (ChRelease ok answer i) s =
     (if i < length (cs_objects s) then
        let (c, f) = child_release ok answer (cs_objects s ! i) (cs_family s)
        in s\<lparr>cs_objects := (cs_objects s)[i := c], cs_family := f\<rparr>
      else s)"
| "child_step (ChAssign ok answer i j) s =
     (if i < length (cs_objects s) \<and> j < length (cs_objects s) \<and> i \<noteq> j then
        let (c, d, f) = child_assign ok answer (cs_objects s ! i) (cs_objects s ! j) (cs_family s)
        in s\<lparr>cs_objects := (cs_objects s)[i := c, j := d], cs_family := f\<rparr>
      else s)"

text \<open>
  What the operating system guarantees: a new process has an id that no uncollected child has, and the
  wait of a release collects the child it has killed, unless it fails.
\<close>

fun child_answers :: "child_op \<Rightarrow> family \<Rightarrow> bool" where
  "child_answers (ChSpawn posix_spawn ok answer executable arguments i) f \<longleftrightarrow> answer \<noteq> WaFailed \<and>
     (case posix_spawn executable (child_argv executable arguments) of
        None \<Rightarrow> True | Some pid \<Rightarrow> pid \<noteq> 0 \<and> pid \<notin> set (fm_children f))"
| "child_answers (ChRelease ok answer i) f \<longleftrightarrow> answer \<noteq> WaFailed"
| "child_answers (ChAssign ok answer i j) f \<longleftrightarrow> answer \<noteq> WaFailed"
| "child_answers _ f \<longleftrightarrow> True"

inductive children_reached :: "children \<Rightarrow> bool" where
  started: "children_reached children_new"
| stepped: "children_reached s \<Longrightarrow> child_answers op (cs_family s) \<Longrightarrow> children_reached (child_step op s)"

section \<open>Every child has one owner\<close>

definition children_ok :: "children \<Rightarrow> bool" where
  "children_ok s \<longleftrightarrow> owns 0 (map cp_handle (cs_objects s)) (fm_children (cs_family s))"

interpretation offspring: owner "0 :: u64" fm_children reap
  by unfold_locales (simp_all add: reap_def)

lemma kill_keeps [simp]: "fm_children (snd (kill_hard ok c f)) = fm_children f"
  by (simp add: kill_hard_def)

lemma reap_kill [simp]: "fm_children (reap h (snd (kill_hard ok c f))) = fm_children (reap h f)"
  by (simp add: reap_def)

lemma release_reaps:
  assumes "answer \<noteq> WaFailed"
  shows "cp_handle (fst (child_release ok answer c f)) = 0"
    "fm_children (snd (child_release ok answer c f)) = fm_children (reap (cp_handle c) f)"
  using assms by (auto simp: child_release_def child_wait_def reap_def case_prod_beta Let_def split: wait_answer.split)

text \<open>An interrupted wait loses the child: the object forgets it, and its end is never collected.\<close>

lemma interrupted_release_leaks:
  "cp_handle (fst (child_release ok WaFailed c f)) = 0"
  "fm_children (snd (child_release ok WaFailed c f)) = fm_children f"
  by (auto simp: child_release_def child_wait_def case_prod_beta Let_def)

lemma update_child_ok:
  assumes "owns 0 ((map cp_handle (cs_objects s))[i := cp_handle c]) (fm_children f)"
  shows "children_ok (s\<lparr>cs_objects := (cs_objects s)[i := c], cs_family := f\<rparr>)"
  using assms by (simp add: children_ok_def map_update)

lemma child_step_ok:
  assumes s: "children_ok s" and a: "child_answers op (cs_family s)"
  shows "children_ok (child_step op s)"
proof -
  define hs where "hs = map cp_handle (cs_objects s)"
  have o: "owns 0 hs (fm_children (cs_family s))" using s by (simp add: children_ok_def hs_def)
  have at: "hs ! i = cp_handle (cs_objects s ! i)" "i < length hs" if "i < length (cs_objects s)" for i
    using that by (simp_all add: hs_def)
  show ?thesis
  proof (cases op)
    case ChNew
    then show ?thesis using s owns_new [of 0 "map cp_handle (cs_objects s)" "[]"] by (simp add: children_ok_def child_none_def)
  next
    case (ChSpawn posix_spawn ok answer executable arguments i)
    show ?thesis
    proof (cases "i < length (cs_objects s)")
      case True
      let ?c = "cs_objects s ! i"
      show ?thesis
      proof (cases "posix_spawn executable (child_argv executable arguments)")
        case None
        then show ?thesis using s True ChSpawn by (simp add: child_spawn_def)
      next
        case (Some pid)
        define f where "f = (cs_family s)\<lparr>fm_children := pid # fm_children (cs_family s)\<rparr>"
        have p: "pid \<noteq> 0" "pid \<notin> set (fm_children (cs_family s))" "answer \<noteq> WaFailed" using a ChSpawn Some by simp_all
        have "fm_children (reap (cp_handle ?c) f) = pid # fm_children (reap (cp_handle ?c) (cs_family s))"
          using p(2) owned [OF o at(2) [OF True]] at(1) [OF True] by (auto simp: reap_def f_def)
        then have l: "fm_children (snd (child_release ok answer ?c f)) = pid # fm_children (reap (hs ! i) (cs_family s))"
          using release_reaps(2) [OF p(3)] at(1) [OF True] by simp
        have "owns 0 (hs[i := pid]) (fm_children (snd (child_release ok answer ?c f)))"
          by (rule offspring.replaced [OF o at(2) [OF True] p(1,2) l])
        then show ?thesis using True ChSpawn Some
          by (simp add: child_spawn_def f_def [symmetric] case_prod_beta Let_def) (rule update_child_ok, simp add: hs_def)
      qed
    next
      case False
      then show ?thesis using s ChSpawn by simp
    qed
  next
    case (ChKill ok i)
    then show ?thesis using s by (simp add: children_ok_def case_prod_beta)
  next
    case (ChWait answer i)
    show ?thesis
    proof (cases "i < length (cs_objects s) \<and> cp_handle (cs_objects s ! i) \<noteq> 0 \<and> answer \<noteq> WaFailed")
      case True
      then show ?thesis using ChWait offspring.cleared [OF o, of i] at [of i]
        by (cases answer) (simp_all add: child_wait_def update_child_ok hs_def)
    next
      case False
      then show ?thesis using s ChWait by (auto simp: child_wait_def)
    qed
  next
    case (ChRelease ok answer i)
    show ?thesis
    proof (cases "i < length (cs_objects s)")
      case True
      then have "owns 0 (hs[i := 0]) (fm_children (snd (child_release ok answer (cs_objects s ! i) (cs_family s))))"
        using offspring.cleared [OF o, of i] at [of i] release_reaps(2) [of answer] a ChRelease by simp
      then show ?thesis using True ChRelease a release_reaps(1) [of answer ok "cs_objects s ! i" "cs_family s"]
        by (simp add: case_prod_beta) (rule update_child_ok, simp add: hs_def)
    next
      case False
      then show ?thesis using s ChRelease by simp
    qed
  next
    case (ChAssign ok answer i j)
    show ?thesis
    proof (cases "i < length (cs_objects s) \<and> j < length (cs_objects s) \<and> i \<noteq> j")
      case True
      then have "owns 0 (hs[i := hs ! j, j := 0]) (fm_children (snd (child_release ok answer (cs_objects s ! i) (cs_family s))))"
        using offspring.assigned [OF o, of i j] at [of i] at [of j] release_reaps(2) [of answer] a ChAssign by simp
      then show ?thesis using True ChAssign
        by (simp add: child_assign_def children_ok_def hs_def map_update case_prod_beta Let_def)
    next
      case False
      then show ?thesis using s ChAssign by auto
    qed
  qed
qed

lemma children_reached_ok: "children_reached s \<Longrightarrow> children_ok s"
proof (induction rule: children_reached.induct)
  case started
  show ?case by (simp add: children_ok_def children_new_def owns_def)
next
  case (stepped s op)
  then show ?case using child_step_ok by blast
qed

end
