(* ===== verification/Windows_Processes.thy ===== *)
theory Windows_Processes
  imports Processes
begin

text \<open>
  Child processes in the build for Windows (\<open>src/platform/process.cpp\<close>): the object holds a kernel handle,
  which is closed once the exit code has been read. The members that do not depend on the system are
  those of \<open>Processes\<close>.
\<close>

section \<open>The command line\<close>

text \<open>Each argument is put between quotes as it is.\<close>

definition win_command_line :: "string \<Rightarrow> string list \<Rightarrow> string" where
  "win_command_line executable arguments =
     fold (\<lambda>argument command. command @ [CHR 0x20] @ [CHR 0x22] @ argument @ [CHR 0x22]) arguments
       ([CHR 0x22] @ executable @ [CHR 0x22])"

definition quoted_arguments :: "string list \<Rightarrow> string" where
  "quoted_arguments arguments = concat (map (\<lambda>a. CHR 0x20 # CHR 0x22 # a @ [CHR 0x22]) arguments)"

lemma quoted_arguments_simps [simp]:
  "quoted_arguments [] = []"
  "quoted_arguments (a # as) = CHR 0x20 # CHR 0x22 # a @ CHR 0x22 # quoted_arguments as"
  by (simp_all add: quoted_arguments_def)

lemma win_command_line_quotes:
  "win_command_line executable arguments = CHR 0x22 # executable @ CHR 0x22 # quoted_arguments arguments"
proof -
  have "fold (\<lambda>a command. command @ [CHR 0x20] @ [CHR 0x22] @ a @ [CHR 0x22]) arguments command =
      command @ quoted_arguments arguments" for command
    by (induction arguments arbitrary: command) simp_all
  then show ?thesis by (simp add: win_command_line_def)
qed

text \<open>Without quotes in them the program and the arguments can be told from the command line.\<close>

definition unquoted :: "string \<Rightarrow> bool" where
  "unquoted s \<longleftrightarrow> CHR 0x22 \<notin> set s"

lemma split_at_quote:
  assumes "unquoted xs" "unquoted ys" "xs @ CHR 0x22 # us = ys @ CHR 0x22 # vs"
  shows "xs = ys \<and> us = vs"
  using assms
proof (induction xs arbitrary: ys)
  case Nil
  then show ?case by (cases ys) (simp_all add: unquoted_def)
next
  case (Cons x xs)
  then show ?case by (cases ys) (auto simp: unquoted_def)
qed

lemma quoted_arguments_inject:
  assumes "list_all unquoted as" "list_all unquoted bs" "quoted_arguments as = quoted_arguments bs"
  shows "as = bs"
  using assms
proof (induction as arbitrary: bs)
  case Nil
  then show ?case by (cases bs) simp_all
next
  case (Cons a as)
  then obtain b bs' where b: "bs = b # bs'" by (cases bs) simp_all
  have "a = b \<and> quoted_arguments as = quoted_arguments bs'"
    by (rule split_at_quote) (use Cons.prems b in simp_all)
  then show ?case using Cons.IH [of bs'] Cons.prems b by simp
qed

lemma win_command_line_inject:
  assumes "unquoted executable" "unquoted executable'" "list_all unquoted as" "list_all unquoted bs"
    "win_command_line executable as = win_command_line executable' bs"
  shows "executable = executable' \<and> as = bs"
proof -
  have "executable = executable' \<and> quoted_arguments as = quoted_arguments bs"
    by (rule split_at_quote [OF assms(1,2)]) (use assms(5) in \<open>simp add: win_command_line_quotes\<close>)
  then show ?thesis using quoted_arguments_inject [OF assms(3,4)] by blast
qed

text \<open>A quote in an argument is not escaped: one argument and two give the same command line.\<close>

lemma win_command_line_ambiguous:
  "win_command_line executable [a @ [CHR 0x22, CHR 0x20, CHR 0x22] @ b] = win_command_line executable [a, b]"
  by (simp add: win_command_line_quotes)

section \<open>Child processes\<close>

text \<open>The handles the process has open, and the processes it has terminated.\<close>

record kernel =
  kn_handles :: "u64 list"
  kn_terminated :: "u64 list"

definition close_handle :: "u64 \<Rightarrow> kernel \<Rightarrow> kernel" where
  "close_handle h k = (if h = 0 then k else k\<lparr>kn_handles := remove1 h (kn_handles k)\<rparr>)"

text \<open>The wait fails, or the exit code cannot be read, or it is read.\<close>

datatype win_answer = WwFailed | WwNoCode | WwCode u32

definition win_kill_hard :: "bool \<Rightarrow> child \<Rightarrow> kernel \<Rightarrow> bool \<times> kernel" where
  "win_kill_hard ok c k =
     (if cp_handle c = 0 then (False, k)
      else (ok, if ok then k\<lparr>kn_terminated := List.insert (cp_handle c) (kn_terminated k)\<rparr> else k))"

definition win_wait :: "win_answer \<Rightarrow> child \<Rightarrow> kernel \<Rightarrow> int \<times> child \<times> kernel" where
  "win_wait answer c k =
     (if cp_handle c = 0 then (- 1, c, k)
      else case answer of
        WwFailed \<Rightarrow> (- 1, c, k)
      | WwNoCode \<Rightarrow> (- 1, c, k)
      | WwCode code \<Rightarrow> (sint code, c\<lparr>cp_handle := 0\<rparr>, close_handle (cp_handle c) k))"

definition win_release :: "bool \<Rightarrow> win_answer \<Rightarrow> child \<Rightarrow> kernel \<Rightarrow> child \<times> kernel" where
  "win_release ok answer c k =
     (if cp_handle c \<noteq> 0 then
        let (_, k) = win_kill_hard ok c k; (_, c, k) = win_wait answer c k
        in (c\<lparr>cp_handle := 0, cp_pid := 0\<rparr>, k)
      else (c, k))"

definition win_assign :: "bool \<Rightarrow> win_answer \<Rightarrow> child \<Rightarrow> child \<Rightarrow> kernel \<Rightarrow> child \<times> child \<times> kernel" where
  "win_assign ok answer this other k =
     (let (this, k) = win_release ok answer this k
      in (this\<lparr>cp_handle := cp_handle other, cp_pid := cp_pid other\<rparr>, other\<lparr>cp_handle := 0, cp_pid := 0\<rparr>, k))"

text \<open>
  \<open>MultiByteToWideChar\<close> and \<open>CreateProcessW\<close> are the first arguments. The latter answers the handle of the
  new process, the handle of its thread and its id.
\<close>

definition win_spawn ::
  "(string \<Rightarrow> 'w list option) \<Rightarrow> ('w list \<Rightarrow> (u64 \<times> u64 \<times> u32) option) \<Rightarrow> bool \<Rightarrow> win_answer \<Rightarrow>
     string \<Rightarrow> string list \<Rightarrow> child \<Rightarrow> kernel \<Rightarrow> status \<times> child \<times> kernel" where
  "win_spawn to_wide create_process ok answer executable arguments out k =
     (case to_wide (win_command_line executable arguments) of
        None \<Rightarrow> (failure StInvalidArgument ''child command line is not valid UTF-8'', out, k)
      | Some wide \<Rightarrow>
          (case create_process wide of
             None \<Rightarrow> (failure StIo ''child process could not be created'', out, k)
           | Some (process, thread, pid) \<Rightarrow>
               let k = k\<lparr>kn_handles := process # thread # kn_handles k\<rparr>;
                   k = close_handle thread k;
                   (out, k) = win_release ok answer out k
               in (status_ok, out\<lparr>cp_handle := process, cp_pid := ucast pid\<rparr>, k)))"

section \<open>Every handle has one owner\<close>

interpretation win_offspring: owner "0 :: u64" kn_handles close_handle
  by unfold_locales (simp_all add: close_handle_def)

lemma win_kill_keeps [simp]: "kn_handles (snd (win_kill_hard ok c k)) = kn_handles k"
  by (simp add: win_kill_hard_def)

lemma win_release_closes:
  "cp_handle (fst (win_release ok answer c k)) = 0"
  "answer = WwCode code \<Longrightarrow> kn_handles (snd (win_release ok answer c k)) = kn_handles (close_handle (cp_handle c) k)"
  by (auto simp: win_release_def win_wait_def close_handle_def case_prod_beta Let_def split: win_answer.split)

text \<open>If the exit code cannot be read, the object forgets a handle that stays open.\<close>

lemma win_release_leaks:
  assumes "\<And>code. answer \<noteq> WwCode code"
  shows "cp_handle (fst (win_release ok answer c k)) = 0" "kn_handles (snd (win_release ok answer c k)) = kn_handles k"
  using assms by (cases answer; simp add: win_release_def win_wait_def case_prod_beta Let_def)+

text \<open>An exit code of all ones is reported like an end that could not be observed.\<close>

lemma win_exit_code_hides:
  "cp_handle c \<noteq> 0 \<Longrightarrow> fst (win_wait (WwCode (- 1)) c k) = fst (win_wait WwFailed c k)"
  by (simp add: win_wait_def)

lemma win_released_owns:
  assumes "owns 0 (map cp_handle cs) (kn_handles k)" "i < length cs"
  shows "owns 0 (map cp_handle (cs[i := fst (win_release ok (WwCode code) (cs ! i) k)]))
    (kn_handles (snd (win_release ok (WwCode code) (cs ! i) k)))"
  using win_offspring.cleared [OF assms(1), of i] assms(2)
  by (simp add: map_update win_release_closes)

lemma win_assigned_owns:
  assumes "owns 0 (map cp_handle cs) (kn_handles k)" "i < length cs" "j < length cs" "i \<noteq> j"
    and "win_assign ok (WwCode code) (cs ! i) (cs ! j) k = (c, d, k')"
  shows "owns 0 (map cp_handle (cs[i := c, j := d])) (kn_handles k')"
proof -
  have "c = (fst (win_release ok (WwCode code) (cs ! i) k))\<lparr>cp_handle := cp_handle (cs ! j), cp_pid := cp_pid (cs ! j)\<rparr>"
    "d = (cs ! j)\<lparr>cp_handle := 0, cp_pid := 0\<rparr>" "k' = snd (win_release ok (WwCode code) (cs ! i) k)"
    using assms(5) by (auto simp: win_assign_def case_prod_beta Let_def)
  then show ?thesis using win_offspring.assigned [OF assms(1), of i j] assms(2-4)
    by (simp add: map_update win_release_closes)
qed

text \<open>A spawned child replaces the one the object held; the handle of its thread is closed at once.\<close>

lemma win_spawned_owns:
  assumes o: "owns 0 (map cp_handle cs) (kn_handles k)" "i < length cs"
    and s: "to_wide (win_command_line executable arguments) = Some wide" "create_process wide = Some (process, thread, pid)"
    and fresh: "process \<noteq> 0" "thread \<noteq> 0" "process \<noteq> thread" "process \<notin> set (kn_handles k)" "thread \<notin> set (kn_handles k)"
    and r: "win_spawn to_wide create_process ok (WwCode code) executable arguments (cs ! i) k = (st, c, k')"
  shows "st = status_ok" "owns 0 (map cp_handle (cs[i := c])) (kn_handles k')"
proof -
  define k1 where "k1 = close_handle thread (k\<lparr>kn_handles := process # thread # kn_handles k\<rparr>)"
  have c: "st = status_ok" "cp_handle c = process" "k' = snd (win_release ok (WwCode code) (cs ! i) k1)"
    using r s by (auto simp: win_spawn_def k1_def case_prod_beta Let_def)
  show "st = status_ok" by (rule c(1))
  have k1: "kn_handles k1 = process # kn_handles k" using fresh by (simp add: k1_def close_handle_def)
  have "process \<noteq> cp_handle (cs ! i)" if "cp_handle (cs ! i) \<noteq> 0"
    using owned [OF o(1), of i] o(2) that fresh(4) by auto
  then have "kn_handles k' = process # kn_handles (close_handle (map cp_handle cs ! i) k)"
    using o(2) by (auto simp: c(3) win_release_closes close_handle_def k1)
  from win_offspring.replaced [OF o(1) _ fresh(1,4) this]
  show "owns 0 (map cp_handle (cs[i := c])) (kn_handles k')" using o(2) by (simp add: map_update c(2))
qed

end
