(* ===== verification/Versions.thy ===== *)
theory Versions
  imports Explanation
begin

text \<open>
  The version of the runtime (\<open>include/mbg/version.hpp\<close>, \<open>src/core/version.cpp\<close>): the triple, its
  comparison and the text that is printed for it. The versions of the formats are in \<open>Prelude\<close>.
\<close>

datatype version = Version (vn_major: u16) (vn_minor: u16) (vn_patch: u16)

definition version_default :: version where
  "version_default = Version 0 0 0"

definition kRuntimeVersion :: version where
  "kRuntimeVersion = Version 1 0 0"

definition version_string :: string where
  "version_string = ''1.0.0''"

definition version_le :: "version \<Rightarrow> version \<Rightarrow> bool" where
  "version_le a b \<longleftrightarrow>
     vn_major a < vn_major b \<or>
     (vn_major a = vn_major b \<and>
        (vn_minor a < vn_minor b \<or> (vn_minor a = vn_minor b \<and> vn_patch a \<le> vn_patch b)))"

text \<open>The defaulted comparison is a total order.\<close>

instantiation version :: linorder
begin

definition less_eq_version :: "version \<Rightarrow> version \<Rightarrow> bool" where
  "less_eq_version = version_le"

definition less_version :: "version \<Rightarrow> version \<Rightarrow> bool" where
  "less_version a b \<longleftrightarrow> a \<le> b \<and> \<not> b \<le> (a :: version)"

instance
proof
  fix x y z :: version
  note le = less_eq_version_def version_le_def
  show "x < y \<longleftrightarrow> x \<le> y \<and> \<not> y \<le> x" by (rule less_version_def)
  show "x \<le> x" by (simp add: le)
  show "x \<le> y \<Longrightarrow> y \<le> z \<Longrightarrow> x \<le> z" unfolding le by (auto intro: order_trans less_trans)
  show "x \<le> y \<Longrightarrow> y \<le> x \<Longrightarrow> x = y" by (cases x; cases y) (auto simp: le)
  show "x \<le> y \<or> y \<le> x" unfolding le by (metis linear neqE)
qed

end

text \<open>The text and the triple, which the source writes down separately, agree.\<close>

lemma version_string_renders_runtime:
  "version_string = decimal (unat (vn_major kRuntimeVersion)) @ ''.'' @
     decimal (unat (vn_minor kRuntimeVersion)) @ ''.'' @ decimal (unat (vn_patch kRuntimeVersion))"
  by code_simp

end
