(* ===== verification/Spec2Isabelle.thy ===== *)
theory Spec2Isabelle
  imports Frames Hysteresis Fence State_Lock Service Pipeline Endpoints Windows_Processes Versions
begin

text \<open>
  Microburst Governor: detection of microbursts on streams of queue samples, interventions under a
  bounded authority, durable recovery, and a coordinator that takes evidence from workers.

  \<^bold>\<open>The program and the theories.\<close> A sample of a stream is admitted to the window of its detector, the
  window yields metrics, the detector grades them into a decision and runs the life of an episode;
  the governor files the decision, opens, updates and closes the events, requests interventions under
  the policy in force, and withdraws every intervention whose authority has lapsed. What must survive
  a crash goes to the durable store. The coordinator owns the epoch; workers send their evidence to
  it over framed connections.

  \<^item> \<open>Prelude\<close>: identities, statuses, limits (\<open>core/strong_id.hpp\<close>, \<open>core/status.hpp\<close>, \<open>limits.hpp\<close>).
    A strong identity is a machine word whose all-ones value is the invalid one; \<open>Status\<close> is a record
    and \<open>Result\<close> a sum.
  \<^item> \<open>Checked\<close>, \<open>Hashing\<close>, \<open>Crc32c\<close>, \<open>Bytes\<close>, \<open>Ticks\<close>: the headers of \<open>core\<close> and \<open>model/tick.hpp\<close>. Machine
    integers are words of their width; a 64-bit signed value is read with \<open>sint\<close>. The locale \<open>codec\<close> of
    \<open>Bytes\<close> is the contract of every fixed-width field.
  \<^item> \<open>Severity\<close>, \<open>Samples\<close>, \<open>Explanation\<close>, \<open>Interventions\<close>, \<open>Events\<close>, \<open>Policies\<close>: the data of \<open>model\<close>,
    with validation, identities, codecs and renderings. An enumeration that the code can hold out of
    its range has a constructor for the raw value.
  \<^item> \<open>Quantities\<close>, \<open>Window\<close>, \<open>Classifier\<close>, \<open>Detector\<close>: the directory \<open>detect\<close>. The ring buffer is a list, a
    head and a size; \<open>evaluate\<close> is cut at the comments of the source into the steps it composes.
  \<^item> \<open>Fence\<close>, \<open>Governor\<close>, \<open>Recovery\<close>: \<open>authority/fence.cpp\<close> and \<open>governor.cpp\<close>. The unordered maps of the
    governor are association lists, so every theorem holds for any order of iteration; the ordered
    map of streams is a list sorted by the key. That the lock makes each operation one
    step is the subject of \<open>State_Lock\<close>.
  \<^item> \<open>Snapshots\<close>, \<open>Journal\<close>: the directory \<open>persist\<close>. A file is a byte list, and the answers of the
    operating system (\<open>io\<close>: which calls fail, how much of a write arrives) are an argument. The store
    keeps of each file how much an \<open>fsync\<close> has put on the disk; \<open>power_loss\<close> leaves at least that and at most
    what was written. The temporary file of a snapshot holds what was written to it, and the rename
    installs that. Assumed of the file system: creations, renames and truncations reach the disk in order.
  \<^item> \<open>Frames\<close>, \<open>Channel\<close>, \<open>Endpoints\<close>: the directory \<open>transport\<close>. In \<open>Channel\<close> a socket is the bytes of the
    peer, the bytes handed over, and the operating system's answer to each transfer; in \<open>Endpoints\<close> it
    is a handle, and the process has a list of open descriptors.
  \<^item> \<open>Session\<close>, \<open>Worker\<close>: the directory \<open>coordinator\<close>. What threads share is the record \<open>coordinator\<close>; a
    session is a state machine that handles one frame per turn. \<open>Service\<close> is the transition system
    of all interleavings, the operations of the governor's owner included, and keeps the authority the
    owner has bound itself, if any (\<open>serving_as\<close>).
  \<^item> \<open>Generator\<close>: the directory \<open>synthetic\<close>, the seeded generator of traces and the text they are kept in.
  \<^item> \<open>Tools\<close>: the directory \<open>cli\<close> and \<open>bench/benchmark.cpp\<close>. A command is a function from its tokens and the
    world (files, durable stores, what the operating system answers, the two output streams) to an
    exit code and the world it leaves.
  \<^item> \<open>Processes\<close>, \<open>Windows_Processes\<close>: the directory \<open>platform\<close>, incarnation identities and child processes
    in the builds for POSIX systems and for Windows. \<open>Versions\<close>: \<open>version.hpp\<close>.

  \<^bold>\<open>The lemmas.\<close> \<open>Hysteresis\<close> proves what the detector needs before it decides anything positive, opens an
  episode or opens another, and exactly when and why it closes one. \<open>Governor_Laws\<close> proves what the
  bookkeeping leaves alone (locale \<open>housekeeping\<close>) and that the authority sweep keeps exactly the justified intents. \<open>Governor_Invariant\<close> states the invariant of
  the governor over the contract of its detectors (locale \<open>detector_contract\<close>, interpreted structurally
  and with the detector invariant) and proves that every operation keeps it. \<open>Governor_Safety\<close> and
  \<open>Governor_Authority\<close> hold the safety of interventions and the frame of the bound authority;
  \<open>Reports\<close> and \<open>Governor_Records\<close> prove that all the governor files is well formed (locale \<open>clerical\<close>),
  \<open>Checkpoints\<close> that so is what any reachable governor exports, recoveries included. \<open>Durability\<close> and
  \<open>Restart\<close> state what recovery brings back, for a run of appends also after a loss of power;
  \<open>Session_Laws\<close> delivery, admission and evidence; \<open>Service\<close> the invariant of the running service and the end of shutdown. \<open>Pipeline\<close> puts the commands of
  the tool in a row, from \<open>generate\<close> to \<open>replay\<close>. \<open>Ownership\<close> proves what a class with one handle and
  move assignment keeps (locale \<open>owner\<close>); descriptors and child processes are its interpretations. The framed
  formats share the locales \<open>message\<close>, \<open>decoder\<close> and \<open>framed_log\<close>.

  \<^bold>\<open>Loops and bounds.\<close> No definition uses fuel. The transfer loops and the scans of files consume their
  input, the division runs over 64 bits, and the rest recurses on lists, with termination proofs. The
  two loops whose machine index could wrap, the doubling of \<open>floor_power_of_two\<close> and the generator's,
  are partial functions to \<open>option\<close>, and that they return is proved. Bounds are those of \<open>limits.hpp\<close>.

  \<^bold>\<open>Not modelled.\<close> The clock readings of the benchmark and the rates printed from them, floating point
  numbers that are an argument; sleeping; the branches of the sockets and files for Windows; the memory of C++
  containers, whose exhaustion is not an outcome; a temporary file left behind by a crash, which nothing reads;
  bytes that stay in a stream's buffer after a failed flush and reach the file later; and the scheduling of threads, beyond the interleavings of the steps.
\<close>

section \<open>Data of the witnesses\<close>

definition small_frame :: frame where
  "small_frame = \<lparr>fr_header = \<lparr>fh_version = kWireProtocolVersion, fh_type = MtHeartbeat, fh_flags = 0,
     fh_seq = 1, fh_payload_length = 2\<rparr>, fr_payload = [7, 9]\<rparr>"

lemma encode_small_frame: "encode_frame small_frame = Inr (frame_bytes small_frame)"
  using message_type_valid [of MtHeartbeat]
  by (simp add: encode_frame_def small_frame_def frame_bytes_def kMaxFramePayloadBytes_def Let_def)

lemma small_frame_at: "length (frame_bytes small_frame) = 34" "frame_bytes small_frame ! 33 = 9"
  by (simp_all add: frame_bytes_def small_frame_def nth_append)

lemma default_shape:
  "policy_shape make_default_policy" "severity_wf (dp_degraded_severity_cap (po_detection make_default_policy))"
  "list_all (\<lambda>l. severity_wf (kl_min_severity l)) (ip_kinds (po_intervention make_default_policy))"
  by (simp_all add: policy_shape_def make_default_policy_def detection_policy_default_def
      intervention_policy_default_def kInterventionKindCount_def kSteps_def Let_def)

lemma default_policy_in_force: "policy_in_force make_default_policy"
  by (simp add: policy_in_force_def default_policy_valid default_shape)

lemma default_policy_wf: "policy_wf make_default_policy"
  by (simp add: policy_wf_def default_policy_valid default_shape)

lemma default_event_wf: "event_wf (event_default\<lparr>ev_stream := StreamKey 1 2 3\<rparr>)"
  by (simp add: event_wf_def event_default_def event_positive_def evidence_summary_default_def summary_wf_def
      stream_key_valid_def id_valid_def id_invalid_def is_valid_severity_def)


definition governor_zero :: governor where
  "governor_zero = governor_new governor_config_default (\<lambda>n. io_fine)"

lemma reachable_zero: "gov_reachable governor_zero"
  by (simp add: governor_zero_def gov_reachable.created)

lemma zero_set_fallback [simp]:
  "set_fallback make_default_policy policy_set_init =
     (status_ok, recompute_digest \<lparr>ps_fallback = make_default_policy, ps_overrides = [], ps_index = Map.empty,
        ps_generation = 2, ps_digest = ps_digest policy_set_init\<rparr>)"
  by (simp add: set_fallback_def default_policy_valid bump_generation_def add_checked_u_def policy_set_init_def
      recompute_digest_def Let_def)

lemma zero_fields [simp]:
  "gv_policies governor_zero = snd (set_fallback make_default_policy policy_set_init)"
  "gv_config governor_zero = governor_config_default" "gv_interventions governor_zero = []"
  "gv_open_events governor_zero = []" "gv_streams governor_zero = []" "gv_store governor_zero = None"
  by (simp_all add: governor_zero_def governor_new_def governor_config_default_def set_context_policy_def Let_def)

text \<open>A governor with one live intervention whose episode is not open.\<close>

definition governor_one :: governor where
  "governor_one = governor_zero\<lparr>gv_interventions :=
     [(7, intent_default\<lparr>ii_id := 7, ii_event := 3, ii_state := IsActive\<rparr>)]\<rparr>"

definition severe_decision :: decision where
  "severe_decision = decision_default\<lparr>dd_stream := StreamKey 1 2 1, dd_event := 3, dd_tick := 5,
     dd_classification := ClMicroburst, dd_authority := EvAuthoritative, dd_severity := SevSevere\<rparr>"

lemma request_kinds_grows: "gv_interventions g \<noteq> [] \<Longrightarrow> gv_interventions (request_kinds dec now ip ks s t g) \<noteq> []"
proof (induction ks arbitrary: s t g)
  case (Cons kl rest)
  obtain kind limit where kl: "kl = (kind, limit)" by (cases kl)
  have a: "assign i x m \<noteq> []" for i x and m :: "(u64 \<times> intervention_intent) list" by (cases m) (auto split: if_splits)
  show ?case
    by (cases rule: request_cases [of dec now ip kind limit rest s t g])
      (use Cons in \<open>simp_all add: kl a emplace_new_def del: request_kinds.simps\<close>)
qed simp

lemma request_new:
  assumes "kl_enabled limit" "severity_at_least (dd_severity dec) (kl_min_severity limit)"
    "dd_authority dec = EvAuthoritative" "gv_interventions g = []"
    "0 < unat (ip_max_concurrent_per_stream ip)" "0 < unat (ip_max_concurrent_total ip)"
  shows "gv_interventions (request_kinds dec now ip ((kind, limit) # rest) 0 0 g) \<noteq> []"
proof -
  have "request_kinds dec now ip ((kind, limit) # rest) 0 0 g =
      request_kinds dec now ip rest 1 1 (requested dec kind limit now g)"
    using assms by (simp add: requested_def find_live_def kMaxInterventions_def Let_def)
  moreover have "gv_interventions (requested dec kind limit now g) \<noteq> []"
    by (simp add: emplace_new_def assms(4))
  ultimately show ?thesis by (simp add: request_kinds_grows del: request_kinds.simps)
qed

lemma request_happens: "gv_interventions (maybe_request_interventions severe_decision 5 governor_zero) \<noteq> []"
proof -
  have p: "resolve (gv_policies governor_zero) r = make_default_policy" for r
    by (simp add: resolve_def)
  obtain limit ls where k: "ip_kinds (po_intervention make_default_policy) = limit # ls" "kl_enabled limit"
      "kl_min_severity limit = SevModerate" "0 < unat (ip_max_concurrent_per_stream (po_intervention make_default_policy))"
      "0 < unat (ip_max_concurrent_total (po_intervention make_default_policy))"
    by (simp add: make_default_policy_def intervention_policy_default_def)
  have "gv_interventions (request_kinds severe_decision 5 (po_intervention make_default_policy)
      (zip all_kinds (ip_kinds (po_intervention make_default_policy))) 0 0 governor_zero) \<noteq> []"
    unfolding k(1) all_kinds_def zip_Cons_Cons
    by (rule request_new) (use k in \<open>simp_all add: severe_decision_def severity_at_least_def\<close>)
  then show ?thesis
    by (simp add: maybe_request_interventions_def p governor_config_default_def Let_def del: zero_fields(1))
qed

lemma disabled_config:
  "gv_config (set_interventions_enabled False g) = (gv_config g)\<lparr>gc_enable_interventions := False\<rparr>"
proof -
  define h where "h = g\<lparr>gv_config := (gv_config g)\<lparr>gc_enable_interventions := False\<rparr>\<rparr>"
  have "same_authority h (snd (revoke_all_live AvInterventionsDisabled (gv_last_tick h) h))"
    by (rule revoke_all_spec(1) [OF surjective_pairing])
  then show ?thesis
    by (simp add: set_interventions_enabled_def h_def [symmetric] same_authority_def Let_def) (simp add: h_def)
qed

lemma install_default_ok: "is_ok (fst (install_policy make_default_policy governor_zero))"
proof -
  have "is_ok (fst (set_fallback make_default_policy (gv_policies governor_zero)))"
    by (simp add: set_fallback_def default_policy_valid bump_generation_def add_checked_u_def Let_def
        policy_set_init_def)
  then show ?thesis by (simp add: install_policy_def case_prod_beta Let_def)
qed

text \<open>Stores.\<close>

definition store_empty :: store where
  "store_empty = store_new\<lparr>ds_open := True, ds_journal := Some []\<rparr>"

definition record_one :: journaled_record where
  "record_one = \<lparr>jr_type = RtCheckpoint, jr_seq = 1, jr_tick = 5, jr_payload = [1, 2, 3]\<rparr>"

lemma store_empty_holds: "store_holds store_empty []"
  by (simp add: store_holds_def store_empty_def store_new_def kMaxJournalBytes_def)

lemma length_build_record: "length (build_record t seq now p) = 44 + length p"
  using length_record_bytes [of "\<lparr>jr_type = t, jr_seq = seq, jr_tick = now, jr_payload = p\<rparr>"]
  by (simp add: record_bytes_def)

lemma build_record_not_Nil: "build_record t seq now p \<noteq> []" "ds_journal store_empty = Some []"
  using length_build_record [of t seq now p] by (auto simp: store_empty_def)

lemma torn_append:
  "store_append (io_fine\<lparr>io_write := False, io_reached := 3\<rparr>) RtCheckpoint 1 0 [] store_empty =
     (failure StIo ''journal record write failed'',
      store_empty\<lparr>ds_journal := Some (take 3 (build_record RtCheckpoint 1 0 []))\<rparr>)"
  by (simp add: store_append_def store_empty_def store_new_def is_valid_record_type_def record_type_raw_def
      kMaxJournalRecordBytes_def kRecordHeaderBytes_def kMaxJournalBytes_def add_checked_u_def written_def Let_def)

definition store_behind :: store where
  "store_behind = store_empty\<lparr>ds_journal := Some (take 3 (build_record RtCheckpoint 1 0 []))\<rparr>"

definition appends_later :: "(io \<times> journaled_record) list" where
  "appends_later = [(io_fine, empty_record), (io_fine, record_one)]"

lemma store_behind_fields [simp]:
  "ds_open store_behind" "ds_journal_bytes store_behind = 0" "sc_max_journal_bytes (ds_config store_behind) = 67108864"
  "ds_journal store_behind = Some (take 3 (build_record RtCheckpoint 1 0 []))"
  by (simp_all add: store_behind_def store_empty_def store_new_def kMaxJournalBytes_def)

text \<open>The journal counts the bytes of acknowledged records only; two of them fit in any case.\<close>

lemma append_length:
  "length (the (ds_journal (snd (store_append i t seq now p s)))) \<le> length (the (ds_journal s)) + 44 + length p"
  by (cases "ds_journal s") (auto simp: store_append_def written_def length_build_record Let_def split: prod.splits)

lemma appends_later_run:
  "list_all (\<lambda>(i, r). i = io_fine \<and> record_wf r) appends_later" "length (log_bytes (map snd appends_later)) = 91"
  "length (the (ds_journal (snd (append_all appends_later store_behind)))) \<le> kMaxJournalBytes"
proof -
  show "list_all (\<lambda>(i, r). i = io_fine \<and> record_wf r) appends_later" "length (log_bytes (map snd appends_later)) = 91"
    by (simp_all add: appends_later_def record_wf_def record_one_def empty_record_def kMaxJournalRecordBytes_def log_bytes_def)
  define s1 where "s1 = snd (store_append io_fine RtCheckpoint 0 0 [] store_behind)"
  have "snd (append_all appends_later store_behind) = snd (store_append io_fine RtCheckpoint 1 5 [1, 2, 3] s1)"
    by (simp add: appends_later_def empty_record_def record_one_def s1_def case_prod_beta Let_def)
  then show "length (the (ds_journal (snd (append_all appends_later store_behind)))) \<le> kMaxJournalBytes"
    using append_length [of io_fine RtCheckpoint 1 5 "[1, 2, 3]" s1] append_length [of io_fine RtCheckpoint 0 0 "[]" store_behind]
    by (simp add: s1_def length_build_record kMaxJournalBytes_def)
qed




definition governor_stored :: governor where
  "governor_stored = gov_step (GoBindStore (Some store_empty)) governor_zero"

lemma typed_zero: "gov_typed governor_zero"
  using sound_typed [OF typed_default]
  by (simp add: governor_zero_def governor_config_default_def gov_typed.created)

lemma typed_stored: "gov_typed governor_stored"
  unfolding governor_stored_def by (intro gov_typed.stepped typed_zero) simp

lemma stored_state:
  "pd_policies (export_state governor_stored) = gv_policies governor_zero"
  "pd_events (export_state governor_stored) = []" "pd_interventions (export_state governor_stored) = []"
  by (simp_all add: export_state_def governor_stored_def bind_store_def governor_zero_def governor_new_def history_ordered_def
      collect_persisted_interventions_def set_context_policy_def governor_config_default_def Let_def)

lemma stored_few_events: "kMaxEventHistory + length (gv_open_events governor_stored) \<le> kMaxEventsPersisted"
  by (simp add: governor_stored_def bind_store_def governor_zero_def governor_new_def set_context_policy_def
      kMaxEventsPersisted_def kMaxEventHistory_def Let_def)

lemma default_policy_length: "length (encode_policy make_default_policy) \<le> 1000"
  by (simp add: encode_policy_def encode_ladder_def encode_kind_limit_def wire_length make_default_policy_def
      detection_policy_default_def intervention_policy_default_def Let_def)

lemma stored_state_small: "length (encode_state (export_state governor_stored)) + 44 \<le> kMaxSnapshotBytes"
  using default_policy_length
  by (simp add: encode_state_def stored_state encode_policy_set_def wire_length kMaxSnapshotBytes_def Let_def)

lemma compact_stored_ok: "is_ok (fst (compact governor_stored))"
proof -
  have s: "gv_store governor_stored = Some store_empty" by (simp add: governor_stored_def bind_store_def Let_def)
  have e: "env_now governor_stored = io_fine" "gv_env governor_stored n = io_fine" for n
    by (simp_all add: env_now_def governor_stored_def bind_store_def governor_zero_def governor_new_def set_context_policy_def Let_def)
  have w: "is_ok (fst (write_snapshot io_fine io_fine p c now store_empty))" if "length p \<le> kMaxSnapshotBytes" for p c now
    using that by (simp add: write_snapshot_def install_snapshot_def flush_handle_def reset_journal_def store_empty_def Let_def)
  show ?thesis using stored_state_small w [of "encode_state (export_state governor_stored)"]
    by (simp add: compact_def s e case_prod_beta Let_def)
qed

text \<open>A store whose snapshot lost its first byte.\<close>

definition bad_store :: store where
  "bad_store = store_new\<lparr>ds_snapshot := Some ((build_snapshot [7] 0 0)[0 := 0])\<rparr>"

lemma bad_store_loads: "load_snapshot io_fine bad_store recovery_report_default =
   Inr (recovery_report_default\<lparr>rp_snapshot_present := True, rp_outcome := RoCorruptTail,
     rp_detail := ''snapshot magic mismatch''\<rparr>, [])"
proof -
  have l: "length ((build_snapshot [7] 0 0)[0 := 0]) = 45" by simp
  obtain b bs where b: "build_snapshot [7] 0 0 = b # bs"
    using length_build_snapshot [of "[7]" 0 0] by (cases "build_snapshot [7] 0 0") auto
  have m: "fst (get_raw 8 (reader_of (take 40 (0 # bs)))) \<noteq> Some snapshot_magic"
    by (simp add: get_raw_def rd_ensure_def reader_of_def snapshot_magic_def case_prod_beta Let_def)
  show ?thesis using l m
    by (simp add: load_snapshot_def bad_store_def store_new_def read_file_def b kMaxSnapshotBytes_def
        kSnapshotHeaderBytes_def kSnapshotTrailerBytes_def snapshot_failed_def case_prod_beta Let_def)
qed

text \<open>A coordinator on a fault-free machine, restarted from a journal with one authority.\<close>

definition idle_socket :: socket where
  "idle_socket = \<lparr>sk_open = True, sk_stream = [], sk_wire = [], sk_os = (\<lambda>k. Some 4096), sk_call = 0\<rparr>"

lemma online_idle: "online (channel_new (idle_socket\<lparr>sk_stream := bs\<rparr>))" "online (channel_new idle_socket)"
  by (simp_all add: online_def channel_new_def idle_socket_def)

lemma idle_fields [simp]: "sk_stream (ch_socket (channel_new (idle_socket\<lparr>sk_stream := bs\<rparr>))) = bs"
  by (simp add: channel_new_def)

definition coordinator_config_one :: coordinator_config where
  "coordinator_config_one = \<lparr>cc_port = 0, cc_seed_epoch = 1, cc_seed_boot = 1, cc_incarnation = 7,
     cc_governor = True, cc_store = True, cc_recover_authority = True, cc_max_workers = 2\<rparr>"

definition coordinator_idle :: "governor \<Rightarrow> coordinator" where
  "coordinator_idle g = \<lparr>co_config = coordinator_config_one, co_running = False, co_started = False, co_port = 0,
     co_epoch = 1, co_boot = 1, co_incarnation = id_invalid, co_authority_recovered = False,
     co_previous_epoch = id_invalid, co_active_sessions = 0, co_session_channels = [], co_workers = [],
     co_counters = coordinator_stats_zero, co_governor = g\<rparr>"

definition bound_record :: journaled_record where
  "bound_record = \<lparr>jr_type = RtAuthorityBound, jr_seq = 1, jr_tick = 0, jr_payload = authority_payload 4 1 9\<rparr>"

definition store_bound :: store where
  "store_bound = store_empty\<lparr>ds_journal := Some (log_bytes [bound_record]), ds_journal_bytes := 64\<rparr>"

lemma length_authority_payload [simp]: "length (authority_payload e i b) = 20"
  by (simp add: authority_payload_def wire_length)

lemma store_bound_holds: "store_holds store_bound [bound_record]" "ds_snapshot store_bound = None"
  by (simp_all add: store_holds_def store_bound_def store_empty_def store_new_def record_wf_def bound_record_def
      kMaxJournalBytes_def kMaxJournalRecordBytes_def)

definition governor_bound :: governor where
  "governor_bound = governor_zero\<lparr>gv_store := Some store_bound\<rparr>"

definition coordinator_start_one :: "status \<times> coordinator" where
  "coordinator_start_one = coordinator_start status_ok 9 (\<lambda>cfg. (status_ok, 4000)) coordinator_config_one
     (coordinator_idle governor_bound)"

definition coordinator_up :: coordinator where "coordinator_up = snd coordinator_start_one"

lemma adopted_one: "\<exists>c1. adopt_authority (start_fields 9 coordinator_config_one (coordinator_idle governor_bound)) =
    (status_ok, c1) \<and> co_epoch c1 = 5 \<and> co_boot c1 = 10"
proof -
  have v: "visit_all observe_authority [bound_record] 0 [] = (Inr 1, [(4, 9)])"
    using observe_authority_payload [of bound_record 4 1 9 "[]"] by (simp add: bound_record_def)
  have r: "recover_durable_authority io_fine store_bound = (Inr (4, 9, True), store_bound)"
    using recovery_of_log [OF store_bound_holds v] by simp
  have e: "env_now governor_bound = io_fine" "gv_store governor_bound = Some store_bound"
    by (simp_all add: env_now_def governor_bound_def governor_zero_def governor_new_def set_context_policy_def Let_def)
  show ?thesis
    using r e by (simp add: adopt_authority_def start_fields_def coordinator_config_one_def coordinator_idle_def
        advance_authority_def add_checked_u_def Let_def)
qed

lemma coordinator_start_one_ok: "is_ok (fst coordinator_start_one)"
proof -
  from adopted_one obtain c1 where
    c1: "adopt_authority (start_fields 9 coordinator_config_one (coordinator_idle governor_bound)) = (status_ok, c1)"
      "co_epoch c1 = 5" by blast
  show ?thesis unfolding coordinator_start_one_def
    by (rule start_succeeds [OF _ _ _ _ _ c1(1)])
      (simp_all add: coordinator_config_one_def kMaxConnections_def id_valid_def id_invalid_def c1(2))
qed

lemma coordinator_up_started:
  "coordinator_start status_ok 9 (\<lambda>cfg. (status_ok, 4000)) coordinator_config_one (coordinator_idle governor_bound) =
     (fst coordinator_start_one, coordinator_up)"
  by (simp add: coordinator_up_def coordinator_start_one_def)

lemma coordinator_up_fields: "co_epoch coordinator_up = 5" "co_running coordinator_up"
proof -
  from adopted_one obtain c1 where a: "adopt_authority (start_fields 9 coordinator_config_one (coordinator_idle governor_bound)) =
    (status_ok, c1)" "co_epoch c1 = 5" by blast
  show "co_epoch coordinator_up = 5" "co_running coordinator_up"
    using a by (auto intro: start_authority [OF coordinator_up_started coordinator_start_one_ok])
qed

definition service_one :: service where
  "service_one = accept_at idle_socket 0 \<lparr>sv_coordinator = coordinator_up, sv_sessions = []\<rparr>"

lemma serving_as_one: "serving_as None service_one"
proof -
  have "serving_as None \<lparr>sv_coordinator = coordinator_up, sv_sessions = []\<rparr>"
    by (rule serving_as.started [OF coordinator_up_started coordinator_start_one_ok]) (simp_all add: coordinator_idle_def)
  then show ?thesis unfolding service_one_def by (rule serving_as.continued) (simp add: service_step.accepts)
qed

lemma serving_one: "serving service_one"
  using serving_as_one by (auto simp: serving_def)

lemma service_one_rebound:
  "rebound (GoBindAuthority 6 7 11) g a = Some (6, 7, 11)"
proof -
  have "is_ok (fst (bind_authority 6 7 11 g))"
    by (simp add: bind_authority_def id_valid_def id_invalid_def case_prod_beta Let_def)
  then show ?thesis by (simp add: rebound_def)
qed


text \<open>A worker that claims the authority in force, and its session.\<close>

definition worker_config_one :: worker_config where
  "worker_config_one = \<lparr>wc_port = 4000, wc_id = 3, wc_incarnation = 1, wc_boot = 10, wc_epoch = 5, wc_first_tick = 0\<rparr>"

definition session_greeted :: session where
  "session_greeted = session_new 0 (channel_new (idle_socket\<lparr>sk_stream :=
     frame_bytes (delivered MtHello 1 (encode_hello (worker_hello (worker_new\<lparr>wk_config := worker_config_one\<rparr>))))\<rparr>))"

definition worker_one :: worker where
  "worker_one = worker_new\<lparr>wk_config := worker_config_one, wk_channel := Some (channel_new (idle_socket\<lparr>sk_stream :=
     sent_between (ss_channel session_greeted) (ss_channel (fst (session_hello session_greeted coordinator_up)))\<rparr>))\<rparr>"

definition batch_one :: evidence_batch where
  "batch_one = \<lparr>eb_worker = 3, eb_epoch = 5, eb_sample_count = 1, eb_samples = [sample_default\<lparr>sm_stream := StreamKey 1 2 3\<rparr>]\<rparr>"

definition session_reporting :: session where
  "session_reporting = (session_new 0 (channel_new (idle_socket\<lparr>sk_stream :=
     frame_bytes (delivered MtEvidence 2 (encode_batch batch_one))\<rparr>)))\<lparr>ss_phase := SpFrames, ss_registered := True, ss_worker := 3\<rparr>"

text \<open>A sample the trace text keeps.\<close>

definition sample_traced :: sample where
  "sample_traced = sample_default\<lparr>sm_stream := StreamKey 1 2 3, sm_tick := 7, sm_depth := 40,
     sm_occupancy_bytes := 100, sm_capacity_bytes := 4096, sm_flags := flag_synthetic,
     sm_ingress_rate_q16 := 6553600, sm_resource_generation := 1\<rparr>"

lemma traced_ok: "traceable (sample_traced\<lparr>sm_tick := t\<rparr>)" "traceable sample_traced"
  by (simp_all add: traceable_def sample_traced_def sample_default_def as_traced_def
      validate_sample_def flag_synthetic_def stream_key_valid_def id_valid_def id_invalid_def kAffectedClasses_def)







text \<open>A world in which \<open>generate\<close> writes one sample, and a store with a torn record.\<close>

definition store_torn :: store where
  "store_torn = store_new\<lparr>ds_journal := Some (take 50 (record_bytes bound_record))\<rparr>"

definition shell_one :: world where
  "shell_one = \<lparr>wd_files = Map.empty, wd_write = (\<lambda>_. Some (True, 65536)), wd_stores = (\<lambda>_. store_torn),
     wd_io = (\<lambda>_. io_fine), wd_temp = None, wd_out = [], wd_err = []\<rparr>"

definition generate_args :: "string list" where
  "generate_args = [''--ticks'', ''0'', ''--out'', ''t'']"

definition config_zero :: generator_config where
  "config_zero = generator_config_default\<lparr>gn_ticks := 0\<rparr>"

lemma zero_from_chars: "from_chars ''0'' = Some (0, [])"
proof -
  have "char_of (48 :: nat) = CHR ''0''" by code_simp
  then show ?thesis using from_chars_decimal [of 0] by (simp add: decimal.simps digit_char_def)
qed

lemma generate_arguments:
  "arg_value ''--out'' generate_args = Some ''t''" "arg_value ''--shape'' generate_args = None"
  "generate_config generate_args generator_config_default = config_zero"
  by (simp_all add: generate_args_def generate_config_def option_number_def arg_number_def zero_from_chars config_zero_def)

lemma generate_one: "\<exists>x. generate config_zero = Some [x]"
proof -
  have "gen_loop cfg 1 0 1 st = Some st" for cfg st by (subst gen_loop.simps) simp
  then have "gen_loop cfg 1 0 0 st = Some (gen_step cfg 1 0 st)" for cfg st by (subst gen_loop.simps) simp
  then show ?thesis
    by (simp add: generate_def config_zero_def generator_config_default_def gen_step_def shape_point_def Let_def)
qed

lemma shell_generates:
  "\<exists>x w. mbgctl timing (''generate'' # generate_args) shell_one = Some (0, w) \<and>
     wd_files w ''t'' = Some (encode_trace [x])"
proof -
  obtain x where x: "generate config_zero = Some [x]" using generate_one by blast
  have l: "length (encode_trace [x]) \<le> 4097"
    using encode_trace_length [of "[x]"] by (simp add: kMaxTraceLineBytes_def)
  define out where "out = generate_output generate_args config_zero [x] shell_one"
  have "mbgctl timing (''generate'' # generate_args) shell_one = Some out"
    using x generate_arguments by (simp add: mbgctl_def run_generate_def out_def Let_def)
  moreover have "fst out = 0" "wd_files (snd out) ''t'' = Some (encode_trace [x])" using l
    by (simp_all add: out_def generate_output_def generate_arguments write_file_def shell_one_def line_out_def put_out_def
        Let_def)
  ultimately show ?thesis by (intro exI [of _ x] exI [of _ "snd out"] conjI) (simp_all add: prod_eq_iff)
qed

text \<open>A listener that has accepted a connection, and a child that has been started.\<close>

definition net_answers :: net_io where
  "net_answers = \<lparr>ni_socket = Some 8, ni_bind = (\<lambda>_. True), ni_listen = (\<lambda>_. True), ni_name = Some 4000,
     ni_accept = Some 9, ni_host = (\<lambda>_. True), ni_connect = (\<lambda>_. True), ni_nodelay = (\<lambda>_. True)\<rparr>"

definition endpoints_one :: endpoints where
  "endpoints_one = endpoint_step (EpAccept net_answers 0 0) (endpoint_step (EpBind net_answers 0 64 0)
     (endpoint_step EpNewListener (endpoint_step EpNewSocket endpoints_new)))"

lemmas endpoint_run = endpoints_new_def net_new_def listener_new_def bind_loopback_def listener_accept_def
  net_startup_def net_answers_def handle_adopt_def handle_assign_def handle_close_def close_native_def created_def
  kInvalidHandle_def

lemma endpoints_one_reached: "endpoints_reached endpoints_one"
  unfolding endpoints_one_def
  by (intro endpoints_reached.stepped endpoints_reached.started)
    (simp_all add: fresh_handle_def endpoint_run Let_def)

lemma endpoints_one_live: "nt_live (ep_net endpoints_one) = [9, 8]"
  by (simp add: endpoints_one_def endpoint_run Let_def)

definition children_one :: children where
  "children_one = child_step (ChSpawn (\<lambda>executable argv. Some 42) True WaSignalled ''worker'' [''7''] 0)
     (child_step ChNew children_new)"

lemma children_one_reached: "children_reached children_one"
  unfolding children_one_def
  by (intro children_reached.stepped children_reached.started) (simp_all add: children_new_def)

lemma children_one_live: "fm_children (cs_family children_one) = [42]"
  by (simp add: children_one_def children_new_def child_none_def child_spawn_def child_release_def Let_def)

text \<open>Two threads call the governor; the first has finished its operation and the second waits.\<close>

definition race_start :: shared where
  "race_start = (at_phase 0 (PhLocked (set_interventions_enabled False)) ((at_phase 0
     (PhWaiting (set_interventions_enabled False)) (shared_new governor_zero))\<lparr>sh_mutex := Some 0\<rparr>))\<lparr>sh_owner := Some 0\<rparr>"

definition race_one :: shared where
  "race_one = at_phase 1 (PhWaiting (set_interventions_enabled True))
     (at_phase 0 (PhReading (set_interventions_enabled False)) race_start)"

lemma race_one_run: "lock_run governor_zero race_one"
proof -
  let ?f = "set_interventions_enabled False"
  define s1 where "s1 = at_phase 0 (PhWaiting ?f) (shared_new governor_zero)"
  define s2 where "s2 = at_phase 0 (PhLocked ?f) (s1\<lparr>sh_mutex := Some 0\<rparr>)"
  define s3 where "s3 = at_phase 0 (PhReading ?f) (s2\<lparr>sh_owner := Some 0\<rparr>)"
  have "lock_step (shared_new governor_zero) s1" unfolding s1_def by (rule lock_step.call) (simp add: shared_new_def)
  moreover have "lock_step s1 s2" unfolding s2_def
    by (rule lock_step.acquire) (simp_all add: s1_def at_phase_def shared_new_def lock_mutex_def)
  moreover have "lock_step s2 s3" unfolding s3_def
    by (rule lock_step.claim) (simp_all add: s2_def s1_def at_phase_def shared_new_def claim_owner_def)
  moreover have "lock_step s3 (at_phase 1 (PhWaiting (set_interventions_enabled True)) s3)"
    by (rule lock_step.call) (simp add: s3_def s2_def s1_def at_phase_def shared_new_def)
  moreover have "race_one = at_phase 1 (PhWaiting (set_interventions_enabled True)) s3"
    by (simp only: race_one_def race_start_def s3_def s2_def s1_def)
  ultimately show ?thesis using lock_run.started lock_run.stepped by metis
qed

definition race_two :: shared where
  "race_two = at_phase 0 PhLeaving ((at_phase 0 (PhWriting (set_interventions_enabled False) governor_zero) race_one)
     \<lparr>sh_governor := set_interventions_enabled False governor_zero, sh_log := [set_interventions_enabled False]\<rparr>)"

lemma race_one_fields:
  "sh_phase race_one 0 = PhReading (set_interventions_enabled False)" "sh_governor race_one = governor_zero"
  "sh_log race_one = []" "sh_phase race_one 1 = PhWaiting (set_interventions_enabled True)"
  by (simp_all add: race_one_def race_start_def at_phase_def shared_new_def)

lemma race_two_run: "lock_run governor_zero race_two"
proof -
  let ?f = "set_interventions_enabled False"
  let ?s = "at_phase 0 (PhWriting ?f governor_zero) race_one"
  have "lock_step race_one ?s" using lock_step.load [OF race_one_fields(1)] by (simp add: race_one_fields(2))
  moreover have "lock_step ?s race_two"
    using lock_step.store [of ?s 0 ?f governor_zero]
    by (simp add: race_two_def at_phase_def race_one_fields)
  ultimately show ?thesis using race_one_run lock_run.stepped by blast
qed

lemma race_two_fields:
  "sh_log race_two = [set_interventions_enabled False]"
  "sh_phase race_two 1 = PhWaiting (set_interventions_enabled True)"
  using race_one_fields by (simp_all add: race_two_def at_phase_def)


definition detector_bursting :: detector where
  "detector_bursting = (detector_new (StreamKey 1 2 3) make_default_policy 1)\<lparr>dt_state := DsActive\<rparr>"

text \<open>A queue that has risen by 300 units a tick, two ticks after it passed the threshold.\<close>

definition rising_sample :: "nat \<Rightarrow> sample" where
  "rising_sample n = sample_default\<lparr>sm_stream := StreamKey 1 2 3, sm_tick := of_nat n, sm_seq := of_nat n,
     sm_depth := of_nat (300 * n), sm_capacity_bytes := 100000, sm_occupancy_bytes := of_nat (300 * n)\<rparr>"

definition detector_rising :: detector where
  "detector_rising = (detector_new (StreamKey 1 2 3) make_default_policy 1)
     \<lparr>dt_window := fold (\<lambda>n w. snd (offer (rising_sample n) 0 w)) [3..<11] (win_reset 8 window_default),
      dt_has_evaluated := True, dt_last_evaluated := 9, dt_onset_run_active := True, dt_onset_start_tick := 8,
      dt_onset_run_ticks := 1, dt_onset_rise_observed := True\<rparr>"

lemma rising_policy: "dt_policy detector_rising = make_default_policy"
  by (simp add: detector_rising_def detector_new_def configure_def Let_def)

lemma rising_state: "\<not> has_open_episode detector_rising" "\<not> in_cooldown 10 detector_rising"
    "dt_onset_run_active detector_rising" "dt_onset_rise_observed detector_rising"
    "saturating_add_u (dt_onset_run_ticks detector_rising) (if dt_has_evaluated detector_rising
       then forward_gap (dt_last_evaluated detector_rising) 10 else 0) = 2" "fresh_tick 10 detector_rising"
  by (simp_all add: detector_rising_def detector_new_def configure_def Let_def has_open_episode_def in_cooldown_def
    tick_after_def tick_delta_def fresh_tick_def saturating_add_u_def add_checked_u_def forward_gap_def)

lemma rising_gates: "gt_authoritative (gates_at 10 detector_rising)" by code_simp

lemma rising_depth: "wm_latest_depth (metrics (po_detection make_default_policy) (dt_window detector_rising)) = 3000"
  by code_simp

lemma rising_thresholds: "dp_onset_min_depth (po_detection make_default_policy) \<le> 3000"
    "dp_onset_sustain_ticks (po_detection make_default_policy) \<le> 2"
  by (simp_all add: make_default_policy_def detection_policy_default_def)

text \<open>A detector in recovery whose queue has been empty for eight ticks.\<close>

definition drained_sample :: "u64 \<Rightarrow> sample" where
  "drained_sample t = sample_default\<lparr>sm_stream := StreamKey 1 2 3, sm_tick := t, sm_seq := t, sm_capacity_bytes := 100000\<rparr>"

definition detector_recovering :: detector where
  "detector_recovering = (detector_new (StreamKey 1 2 3) make_default_policy 1)
     \<lparr>dt_window := fold (\<lambda>t w. snd (offer (drained_sample t) 0 w)) [33, 34, 35, 36, 37, 38, 39, 40] (win_reset 8 window_default),
      dt_has_evaluated := True, dt_last_evaluated := 39, dt_state := DsRecovering, dt_recovery_start_tick := 2\<rparr>"

lemma recovering_state: "fresh_tick 40 detector_recovering" "dt_policy detector_recovering = make_default_policy"
    "policy_in_force (dt_policy detector_recovering)" "has_open_episode detector_recovering"
    "dt_state detector_recovering = DsRecovering" "forward_gap (dt_recovery_start_tick detector_recovering) 40 = 38"
  using default_policy_in_force
  by (simp_all add: detector_recovering_def detector_new_def configure_def Let_def has_open_episode_def fresh_tick_def
    tick_after_def tick_delta_def forward_gap_def)

lemma recovering_gates: "gt_authoritative (gates_at 40 detector_recovering)" by code_simp

lemma recovering_depth: "wm_latest_depth (metrics (po_detection make_default_policy) (dt_window detector_recovering)) = 0"
  by code_simp

lemma recovering_thresholds: "dp_onset_min_depth (po_detection make_default_policy) > 0"
    "dp_cooldown_ticks (po_detection make_default_policy) \<le> 38"
  by (simp_all add: make_default_policy_def detection_policy_default_def)

section \<open>The properties\<close>



text \<open>C2: The authority sweep keeps, unchanged and in order, exactly the interventions out of its scope or that are live, whose episode is open and whose authority vector is valid in the context in force; all others are retired and erased.\<close>

theorem sweep_is_exact:
  assumes "distinct (map fst (gv_interventions g))"
  shows "gv_interventions (snd (refresh_authority now only g)) =
    filter (\<lambda>(i, x). id_valid only \<and> ii_event x \<noteq> only \<or>
      intent_live x \<and> is_open (ii_event x) g \<and>
      evaluate_authority (ii_authority x) (gv_context g)
        (observed_generation g (sk_resource (ii_stream x))) now = AvValid) (gv_interventions g)"
  unfolding refresh_authority_spec(3) [OF assms]
  by (rule filter_cong) (auto simp: survives_def intent_verdict_def is_open_def Let_def split: if_splits)

theorem sweep_is_exact_witness:
  "gv_interventions (snd (refresh_authority 5 id_invalid governor_one)) = []"
  using sweep_is_exact [of governor_one 5 id_invalid]
  by (simp add: governor_one_def governor_new_def set_context_policy_def is_open_def Let_def id_valid_def)

text \<open>C3: Whatever led to a governor, once the clock is advanced every intervention left is live, belongs to an open episode, and is justified at that tick by the authority, the policy and the resource generation in force.\<close>

theorem advance_leaves_justified_interventions:
  assumes "gov_reachable g" "governor_advance now g = (r, g')"
  shows "list_all (\<lambda>(i, x). intent_live x \<and> is_open (ii_event x) g' \<and>
    evaluate_authority (ii_authority x) (gv_context g') (observed_generation g' (sk_resource (ii_stream x))) now
      = AvValid) (gv_interventions g')"
  using advance_swept [OF assms(1), of now] assms(2) swept_valid by (fastforce simp: list_all_iff)

theorem advance_leaves_justified_interventions_witness:
  "list_all (\<lambda>(i, x). intent_live x) (gv_interventions (snd (governor_advance 9 governor_zero)))"
  using advance_leaves_justified_interventions [OF reachable_zero, of 9 "fst (governor_advance 9 governor_zero)"
      "snd (governor_advance 9 governor_zero)"] by (simp add: list_all_iff case_prod_beta)

text \<open>C4: Binding a new authority epoch fences the old one: after a successful bind_authority no intervention issued under another epoch is left, unless it carries no epoch at all.\<close>

theorem bound_epoch_fences_interventions:
  assumes "gov_reachable g" "bind_authority e i b g = (st, g')" "is_ok st"
  shows "list_all (\<lambda>(k, x). id_valid (au_epoch (ii_authority x)) \<longrightarrow> au_epoch (ii_authority x) = e)
    (gv_interventions g')"
proof -
  have "id_valid e" using assms(2,3) by (auto simp: bind_authority_def failure_def is_ok_def split: if_splits)
  then show ?thesis using bind_authority_swept [OF assms] swept_valid(3) evaluate_authority_valid_iff
    by (fastforce simp: list_all_iff)
qed

theorem bound_epoch_fences_interventions_witness:
  "list_all (\<lambda>(k, x). id_valid (au_epoch (ii_authority x)) \<longrightarrow> au_epoch (ii_authority x) = 4)
    (gv_interventions (snd (bind_authority 4 1 1 governor_zero)))"
  by (rule bound_epoch_fences_interventions [OF reachable_zero surjective_pairing])
    (simp add: bind_authority_def id_valid_def id_invalid_def case_prod_beta Let_def)

text \<open>C5: After a successful install_policy the authority context carries the generation and digest of the installed set, and every intervention left was issued under exactly that generation and digest.\<close>

theorem installed_policy_fences_interventions:
  assumes "gov_reachable g" "install_policy p g = (st, g')" "is_ok st"
  shows "ax_policy_generation (gv_context g') = ps_generation (gv_policies g') \<and>
    ax_policy_digest (gv_context g') = ps_digest (gv_policies g') \<and>
    list_all (\<lambda>(k, x). au_policy_generation (ii_authority x) = ps_generation (gv_policies g') \<and>
      au_policy_digest (ii_authority x) = ps_digest (gv_policies g')) (gv_interventions g')"
  using install_policy_swept [OF assms] swept_valid(3) [of "gv_last_tick g'" g'] evaluate_authority_valid_iff
  by (fastforce simp: list_all_iff context_ok_def)

theorem installed_policy_fences_interventions_witness:
  "ax_policy_generation (gv_context (snd (install_policy make_default_policy governor_zero))) =
     ps_generation (gv_policies (snd (install_policy make_default_policy governor_zero)))"
  using installed_policy_fences_interventions [OF reachable_zero surjective_pairing install_default_ok] by blast

text \<open>C6: A new intervention is requested only while interventions are enabled, for the event and stream of the decision, for a kind the policy of the resource enables at that severity and evidence class, and stamped with the authority in force.\<close>

theorem requests_are_licensed:
  assumes "(i, x) \<in> set (gv_interventions (maybe_request_interventions dec now g))"
    "i \<notin> fst ` set (gv_interventions g)"
  shows "gc_enable_interventions (gv_config g) \<and>
    licensed dec (po_intervention (policy_for (sk_resource (dd_stream dec)) g))
      (zip all_kinds (ip_kinds (po_intervention (policy_for (sk_resource (dd_stream dec)) g)))) g x"
  using maybe_request_licensed [OF assms] by (simp add: policy_for_def)

theorem requests_are_licensed_witness:
  "\<exists>i x. (i, x) \<in> set (gv_interventions (maybe_request_interventions severe_decision 5 governor_zero)) \<and>
     ii_event x = 3"
proof -
  obtain i x where ix: "(i, x) \<in> set (gv_interventions (maybe_request_interventions severe_decision 5 governor_zero))"
    using request_happens by (metis list.set_intros(1) neq_Nil_conv surj_pair)
  then show ?thesis using requests_are_licensed [OF ix] by (auto simp: licensed_def severe_decision_def)
qed

text \<open>C7: A fresh evaluation opens an episode exactly when the evidence is admissible, no episode is open, no cooldown runs, the depth is at the threshold now and has been there for the required time, and a rise as steep as required was seen, now or before, within the onset window of that run.\<close>

theorem episodes_open_on_confirmed_onset:
  assumes "fresh_tick now d" "policy_in_force (dt_policy d)" "evaluate now d = (dec, d')"
    "p = po_detection (dt_policy d)" "m = metrics p (dt_window d)"
    "t = saturating_add_u (dt_onset_run_ticks d) (if dt_has_evaluated d then forward_gap (dt_last_evaluated d) now else 0)"
  shows "dd_opened dec \<longleftrightarrow>
    (gt_authoritative (gates_at now d) \<or> gt_degraded_allowed (gates_at now d)) \<and>
    \<not> has_open_episode d \<and> \<not> in_cooldown now d \<and>
    wm_latest_depth m \<ge> dp_onset_min_depth p \<and> dt_onset_run_active d \<and> t \<ge> dp_onset_sustain_ticks p \<and>
    (dt_onset_rise_observed d \<or>
     sint (steepest_slope m) \<ge> sint (dp_onset_min_slope_q16 p) \<and> t \<le> dp_onset_slope_window_ticks p)"
  using opening_iff [OF assms(1,3)] ruled_confirmed_iff [OF assms(2), of now] unfolding assms(4-6) by blast

theorem episodes_open_on_confirmed_onset_witness:
  "dd_opened (fst (evaluate 10 detector_rising))"
proof -
  have p: "policy_in_force (dt_policy detector_rising)" using default_policy_in_force by (simp add: rising_policy)
  have e: "evaluate 10 detector_rising = (fst (evaluate 10 detector_rising), snd (evaluate 10 detector_rising))" by simp
  show ?thesis using episodes_open_on_confirmed_onset [OF rising_state(6) p e refl refl refl] rising_gates rising_depth
      rising_state rising_thresholds
    unfolding rising_policy by simp
qed

text \<open>C8: After an input that closes an episode, no sequence of samples, clock advances, fences and policy changes opens another one at a tick within the cooldown of the policy the episode was closed under, so an oscillating queue cannot produce episodes faster, as long as the ticks of the cooldown do not run past the 64-bit range.\<close>

theorem closed_episode_starts_cooldown:
  assumes "has_open_episode d" "\<not> has_open_episode (detector_run i d)" "c = dp_cooldown_ticks (po_detection (dt_policy d))"
    "unat (input_tick i) + unat c < 2 ^ 64" "unat c < 2 ^ 63"
    "list_all (\<lambda>j. unat (input_tick i) \<le> unat (input_tick j) \<and> unat (input_tick j) < unat (input_tick i) + unat c) inputs"
  shows "\<not> has_open_episode (fold detector_run inputs (detector_run i d))"
  by (rule cooldown_after_close [OF assms(1,2,4,5,3,6)])

theorem closed_episode_starts_cooldown_witness:
  "\<not> has_open_episode (fold detector_run [InAdvance 101, InIngest (sample_default\<lparr>sm_tick := 102\<rparr>)]
     (detector_run (InFence CrRestart 100) (detector_bursting)))"
proof (rule closed_episode_starts_cooldown [where c = 32])
  show "has_open_episode detector_bursting" by (simp add: detector_bursting_def has_open_episode_def)
  show "\<not> has_open_episode (detector_run (InFence CrRestart 100) detector_bursting)"
    by (simp add: detector_run_def fence_def fence_decision_def close_episode_def detector_bursting_def has_open_episode_def
        case_prod_beta Let_def)
qed (simp_all add: detector_bursting_def detector_new_def configure_def make_default_policy_def
      detection_policy_default_def sample_default_def Let_def)



text \<open>C10: A turn of a session leaves the governor alone, or it was the frame loop handling a well-formed evidence batch of the epoch in force, and then the governor has ingested the samples of that batch in order and nothing else.\<close>

theorem only_current_evidence_reaches_the_governor:
  "co_governor (snd (session_step s c)) = co_governor c \<or>
   (\<exists>f b. ss_phase s = SpFrames \<and> co_running c \<and> fst (channel_receive (ss_channel s)) = Inr f \<and>
     fh_type (fr_header f) = MtEvidence \<and> decode_batch (reader_of (fr_payload f)) = Inr b \<and> eb_epoch b = co_epoch c \<and>
     co_governor (snd (session_step s c)) = fold (\<lambda>x g. snd (governor_ingest x g)) (eb_samples b) (co_governor c))"
  using session_step_governor [of s c] by blast

text \<open>C11: Requesting interventions for a decision never raises the number of live interventions of its stream, or of all streams, above the policy's limits; a number already above its limit is not raised at all.\<close>

theorem requests_respect_limits:
  assumes "gov_reachable g"
  shows "live_count (\<lambda>x. ii_stream x = dd_stream dec) (maybe_request_interventions dec now g)
      \<le> max (live_count (\<lambda>x. ii_stream x = dd_stream dec) g)
          (unat (ip_max_concurrent_per_stream (po_intervention (policy_for (sk_resource (dd_stream dec)) g)))) \<and>
    live_count (\<lambda>x. True) (maybe_request_interventions dec now g)
      \<le> max (live_count (\<lambda>x. True) g)
          (unat (ip_max_concurrent_total (po_intervention (policy_for (sk_resource (dd_stream dec)) g))))"
  unfolding policy_for_def by (rule maybe_request_caps [OF assms])

theorem requests_respect_limits_witness:
  "live_count (\<lambda>x. True) (maybe_request_interventions severe_decision 5 governor_zero)
     \<le> max (live_count (\<lambda>x. True) governor_zero)
         (unat (ip_max_concurrent_total (po_intervention (policy_for 1 governor_zero))))"
  using requests_respect_limits [OF reachable_zero, of severe_decision 5] by (simp add: severe_decision_def)

text \<open>C12: Closing or fencing an episode leaves no intervention that was taken for it.\<close>

theorem closed_episode_keeps_no_intervention:
  assumes "distinct (map fst (gv_interventions g))" "id_valid (ev_id e)"
  shows "list_all (\<lambda>(i, x). ii_event x \<noteq> ev_id e) (gv_interventions (process_closed fenced e now g))"
  using process_closed_retires [OF assms] by (fastforce simp: list_all_iff)

theorem closed_episode_keeps_no_intervention_witness:
  "list_all (\<lambda>(i, x). ii_event x \<noteq> 3)
     (gv_interventions (process_closed True (event_default\<lparr>ev_id := 3\<rparr>) 5
       (governor_one\<lparr>gv_open_events := [(3, event_default\<lparr>ev_id := 3\<rparr>)]\<rparr>)))"
  using closed_episode_keeps_no_intervention [of "governor_one\<lparr>gv_open_events := [(3, event_default\<lparr>ev_id := 3\<rparr>)]\<rparr>"
      "event_default\<lparr>ev_id := 3\<rparr>" True 5]
  by (simp add: governor_one_def id_valid_def id_invalid_def)

text \<open>C13: Every reachable governor stays within its bounds: at most 1024 streams in key order, 1024 interventions under their own identities and at most 1000 per mille, 4096 history entries and 4096 emissions; and while interventions are disabled it has none.\<close>

theorem reachable_governors_are_bounded:
  assumes "gov_reachable g"
  shows "sorted_keys (gv_streams g) \<and> length (gv_streams g) \<le> 1024 \<and> length (gv_interventions g) \<le> 1024 \<and>
    list_all (\<lambda>(i, x). ii_id x = i \<and> ii_magnitude_permille x \<le> 1000) (gv_interventions g) \<and>
    length (gv_history g) \<le> 4096 \<and> length (gv_emissions g) \<le> 4096 \<and>
    length (gv_intervention_history g) \<le> 1024 \<and>
    (\<not> gc_enable_interventions (gv_config g) \<longrightarrow> gv_interventions g = [])"
  using gov_reachable_inv [OF assms]
  by (simp add: gov_inv_def buffers_ok_def streams_ok_def interventions_ok_def kMaxStreams_def kMaxInterventions_def
      kMaxEventHistory_def kMaxPendingEmissions_def kMaxMagnitudePermille_def)

theorem reachable_governors_are_bounded_witness:
  "gv_interventions (set_interventions_enabled False
     (snd (governor_ingest (sample_default\<lparr>sm_stream := StreamKey 1 2 3\<rparr>) governor_zero))) = []"
proof -
  define g where "g = set_interventions_enabled False
    (snd (governor_ingest (sample_default\<lparr>sm_stream := StreamKey 1 2 3\<rparr>) governor_zero))"
  have "gov_reachable (gov_step (GoSetInterventionsEnabled False)
      (gov_step (GoIngest (sample_default\<lparr>sm_stream := StreamKey 1 2 3\<rparr>)) governor_zero))"
    by (intro gov_reachable.stepped reachable_zero)
  then have "gov_reachable g" by (simp add: g_def)
  moreover have "\<not> gc_enable_interventions (gv_config g)" by (simp add: g_def disabled_config)
  ultimately show ?thesis using reachable_governors_are_bounded [of g] by (simp add: g_def)
qed

text \<open>C14: However threads interleave the reads and writes of their operations on one governor, the state lock makes them one after the other: the state is what the finished operations give in the order they finished. The owner check never fires, and a thread that re-enters waits for itself forever.\<close>

theorem operations_are_serialized:
  assumes "lock_run g s"
  shows "sh_governor s = fold (\<lambda>f. f) (sh_log s) g \<and> sh_phase s t \<noteq> PhAborted \<and>
    (owns_state (sh_phase s t) \<and> owns_state (sh_phase s u) \<longrightarrow> t = u) \<and>
    (sh_phase s t = PhReentered f \<and> lock_step\<^sup>*\<^sup>* s s' \<longrightarrow> sh_phase s' t = PhReentered f)"
proof -
  have ok: "lock_ok g s" by (rule lock_run_ok [OF assms])
  show ?thesis
  proof (intro conjI impI)
    show "sh_governor s = fold (\<lambda>f. f) (sh_log s) g" "sh_phase s t \<noteq> PhAborted" using ok by (simp_all add: lock_ok_def)
    show "t = u" if "owns_state (sh_phase s t) \<and> owns_state (sh_phase s u)"
      using that lock_ok_phase(2) [OF ok refl, of t] lock_ok_phase(2) [OF ok refl, of u] by simp
    show "sh_phase s' t = PhReentered f" if "sh_phase s t = PhReentered f \<and> lock_step\<^sup>*\<^sup>* s s'"
      using that reentered_forever [OF _ assms] by blast
  qed
qed

theorem operations_are_serialized_witness:
  "sh_governor race_two = set_interventions_enabled False governor_zero \<and> sh_phase race_two 0 \<noteq> PhAborted \<and>
   sh_phase race_two 1 = PhWaiting (set_interventions_enabled True)"
proof -
  note s = operations_are_serialized [OF race_two_run, of 0 0 "\<lambda>g. g" race_two]
  have "sh_governor race_two = fold (\<lambda>f. f) (sh_log race_two) governor_zero" "sh_phase race_two 0 \<noteq> PhAborted"
    using s by blast+
  then show ?thesis by (intro conjI race_two_fields(2)) (simp_all add: race_two_fields(1))
qed

text \<open>C15: However connections, frames, shutdown and the operations of the governor's owner interleave, recovery and the binding of another authority among them, the live sessions and the registered workers stay within the configured bound, every registered worker was admitted under the coordinator's epoch and boot, and the governor is bound to the epoch, incarnation and boot of the coordinator, or, once its owner has successfully bound an authority itself, to the last one so bound.\<close>

theorem service_stays_within_its_bounds:
  assumes "serving_as a v"
  shows "length (filter live_session (sv_sessions v)) \<le> cc_max_workers (co_config (sv_coordinator v)) \<and>
    co_active_sessions (sv_coordinator v) = length (filter live_session (sv_sessions v)) \<and>
    length (co_workers (sv_coordinator v)) \<le> cc_max_workers (co_config (sv_coordinator v)) \<and>
    list_all (\<lambda>(w, rec). wr_id rec = w \<and> wr_epoch rec = co_epoch (sv_coordinator v) \<and>
      wr_boot rec = co_boot (sv_coordinator v)) (co_workers (sv_coordinator v)) \<and>
    (let ctx = gv_context (co_governor (sv_coordinator v)); c = sv_coordinator v
     in (ax_epoch ctx, ax_incarnation ctx, ax_boot ctx) = (case a of
          None \<Rightarrow> (co_epoch c, co_incarnation c, co_boot c) | Some bound \<Rightarrow> bound))"
  using serving_as_ok [OF assms] serving_as_bound [OF assms]
  by (auto simp: service_ok_def registry_ok_def admitted_here_def authority_of_def list_all_iff Let_def)

theorem service_stays_within_its_bounds_witness:
  "ax_epoch (gv_context (co_governor (sv_coordinator (operate (gov_step (GoBindAuthority 6 7 11)) service_one)))) = 6"
proof -
  have "serving_as (Some (6, 7, 11)) (operate (gov_step (GoBindAuthority 6 7 11)) service_one)"
    using serving_as.operated [OF serving_as_one, of "GoBindAuthority 6 7 11"] service_one_rebound by simp
  from service_stays_within_its_bounds [OF this] show ?thesis by (simp add: Let_def)
qed

text \<open>C16: Shutdown ends: once the channels of the registered sessions are interrupted, one more turn of each session leaves no session active, so the wait for them is over.\<close>

theorem stop_ends_every_session:
  assumes "serving v"
  shows "co_active_sessions (sv_coordinator (drain (length (sv_sessions v)) (stop_service v))) = 0"
  by (rule stop_drains_sessions [OF serving_ok [OF assms]])

theorem stop_ends_every_session_witness:
  "co_active_sessions (sv_coordinator (drain (length (sv_sessions service_one)) (stop_service service_one))) = 0"
  by (rule stop_ends_every_session [OF serving_one])

text \<open>C17: Both ends of a handshake agree: over fault-free connections the worker is told that it is admitted exactly when the session has registered it, and in either case it learns the epoch in force.\<close>

theorem handshake_ends_agree:
  assumes "wk_channel w = Some a" "online a" "id_valid (wc_id (wk_config w))"
    and "online (ss_channel s)" "\<not> ss_registered s"
    and "sk_stream (ch_socket (ss_channel s)) =
      frame_bytes (delivered MtHello (wk_sequence w) (encode_hello (worker_hello w))) @ later"
    and "session_hello s c = (s', c')"
    and "sk_stream (ch_socket a) = sent_between (ss_channel s) (ss_channel s') @ rest"
    and "worker_handshake w = (r, w')"
  shows "((\<exists>response. r = Inr response) \<longleftrightarrow> ss_registered s') \<and> wk_granted w' = co_epoch c"
  using handshake_agreement [OF assms] by blast

theorem handshake_ends_agree_witness:
  "((\<exists>response. fst (worker_handshake worker_one) = Inr response) \<longleftrightarrow>
     ss_registered (fst (session_hello session_greeted coordinator_up))) \<and>
   wk_granted (snd (worker_handshake worker_one)) = co_epoch coordinator_up"
proof -
  define a where "a = channel_new (idle_socket\<lparr>sk_stream :=
    sent_between (ss_channel session_greeted) (ss_channel (fst (session_hello session_greeted coordinator_up)))\<rparr>)"
  have w: "wk_channel worker_one = Some a" "wk_config worker_one = worker_config_one" "wk_sequence worker_one = 1"
    "worker_hello worker_one = worker_hello (worker_new\<lparr>wk_config := worker_config_one\<rparr>)"
    by (simp_all add: worker_one_def a_def worker_new_def worker_hello_def)
  show ?thesis
    by (rule handshake_ends_agree [OF w(1) _ _ _ _ _ surjective_pairing _ surjective_pairing, of session_greeted "[]" coordinator_up "[]"])
      (simp_all add: w(2-4), simp_all add: a_def online_idle worker_config_one_def session_greeted_def session_new_def
        id_valid_def id_invalid_def)
qed

text \<open>C18: Evidence of the epoch in force that arrives over a fault-free connection, in whatever pieces, is ingested: the governor afterwards is the governor after the samples of the batch, in order.\<close>

theorem current_evidence_is_ingested:
  assumes "ss_phase s = SpFrames" "co_running c" "online (ss_channel s)"
    and "sk_stream (ch_socket (ss_channel s)) = frame_bytes (delivered MtEvidence q (encode_batch b)) @ later"
    and "batch_wf b" "length (encode_batch b) \<le> kMaxFramePayloadBytes" "eb_epoch b = co_epoch c"
  shows "co_governor (snd (session_step s c)) = fold (\<lambda>x g. snd (governor_ingest x g)) (eb_samples b) (co_governor c)"
  by (rule evidence_is_ingested [OF assms])

theorem current_evidence_is_ingested_witness:
  "co_governor (snd (session_step session_reporting coordinator_up)) =
     snd (governor_ingest (sample_default\<lparr>sm_stream := StreamKey 1 2 3\<rparr>) (co_governor coordinator_up))"
proof -
  have "batch_wf batch_one"
    by (simp add: batch_wf_def batch_one_def sample_wf_def sample_default_def kMaxSamplesPerFrame_def stream_key_valid_def
        id_valid_def id_invalid_def validate_sample_def flag_none_def kMaxFramePayloadBytes_def kAffectedClasses_def)
  moreover have "length (encode_batch batch_one) \<le> kMaxFramePayloadBytes"
    by (simp add: encode_batch_def encode_sample_def batch_one_def sample_default_def wire_length kMaxFramePayloadBytes_def)
  ultimately show ?thesis
    using current_evidence_is_ingested [of session_reporting coordinator_up 2 batch_one "[]"]
    by (simp add: session_reporting_def session_new_def coordinator_up_fields online_idle batch_one_def)
qed

text \<open>C19: A frame that was sent is the frame that is received, however the two sides cut the bytes into transfers, and what follows it on the connection is left for the next receipt.\<close>

theorem sent_frames_are_received:
  assumes "channel_send f a = (st, a')" "is_ok st"
    "sk_stream (ch_socket b) = sent_between a a' @ rest" "online b"
  shows "\<exists>g b'. channel_receive b = (Inr g, b') \<and> fr_payload g = fr_payload f \<and>
    fh_type (fr_header g) = fh_type (fr_header f) \<and> fh_seq (fr_header g) = fh_seq (fr_header f) \<and>
    sk_stream (ch_socket b') = rest"
  using channel_delivers [OF assms(1,2), of b rest] assms(3,4) by (simp add: sent_between_def online_def)

theorem sent_frames_are_received_witness:
  "\<exists>g b'. channel_receive (channel_new (idle_socket\<lparr>sk_stream := frame_bytes (delivered MtHeartbeat 1 [7, 9]) @ [1]\<rparr>)) =
     (Inr g, b') \<and> fr_payload g = [7, 9] \<and> sk_stream (ch_socket b') = [1]"
proof -
  have l: "length [7, 9 :: byte] \<le> kMaxFramePayloadBytes" by (simp add: kMaxFramePayloadBytes_def)
  obtain a' where a: "channel_send (frame_of MtHeartbeat 1 [7, 9]) (channel_new idle_socket) = (status_ok, a')"
    "sent_between (channel_new idle_socket) a' = frame_bytes (delivered MtHeartbeat 1 [7, 9])"
    using channel_send_online [OF online_idle(2) l] by metis
  define b where "b = channel_new (idle_socket\<lparr>sk_stream := frame_bytes (delivered MtHeartbeat 1 [7, 9]) @ [1]\<rparr>)"
  have b: "sk_stream (ch_socket b) = sent_between (channel_new idle_socket) a' @ [1]" "online b"
    by (simp_all add: b_def a(2) online_idle)
  from sent_frames_are_received [OF a(1) _ b] show ?thesis by (auto simp: frame_of_def b_def [symmetric])
qed

text \<open>C20: Whatever sockets and listeners are created, connected, accepted, moved, released, interrupted and closed, and whichever system call fails on the way, every open descriptor of the process belongs to exactly one object, no closed one is closed again, and when all are closed none is open.\<close>

theorem descriptors_have_one_owner:
  assumes "endpoints_reached e"
  shows "distinct (held kInvalidHandle (ep_handles e)) \<and>
    set (held kInvalidHandle (ep_handles e)) = set (nt_live (ep_net e)) \<and> nt_stray (ep_net e) = 0 \<and>
    (list_all (\<lambda>h. h = kInvalidHandle) (ep_handles e) \<longrightarrow> nt_live (ep_net e) = [])"
proof -
  have o: "owns kInvalidHandle (ep_handles e) (nt_live (ep_net e))" and s: "nt_stray (ep_net e) = 0"
    using endpoints_reached_ok [OF assms] by (simp_all add: endpoints_ok_def)
  show ?thesis by (intro conjI impI owns_single [OF o] owns_live [OF o] owns_none_live [OF o] s)
qed

theorem descriptors_have_one_owner_witness:
  "set (held kInvalidHandle (ep_handles endpoints_one)) = set (nt_live (ep_net endpoints_one)) \<and>
   nt_live (ep_net endpoints_one) = [9, 8]"
  using descriptors_have_one_owner [OF endpoints_one_reached] endpoints_one_live by simp

text \<open>C21: Recovery brings nothing back to life: whatever the store holds and however the operating system answers, a restore leaves the interventions, the open episodes, the streams and the resource generations exactly as they were.\<close>

theorem restore_revives_nothing:
  "gv_interventions (snd (restore g)) = gv_interventions g \<and> gv_open_events (snd (restore g)) = gv_open_events g \<and>
   gv_streams (snd (restore g)) = gv_streams g \<and>
   gv_resource_generations (snd (restore g)) = gv_resource_generations g"
  using restore_live [of g] by (simp add: same_live_def)

text \<open>C22: A checkpoint survives a restart: after any run of operations and recoveries, when compact has succeeded and the state fits the format's bounds, a governor restoring from that store without a failing read succeeds and has the same policy set, overrides, generation, index and digest included.\<close>

theorem checkpoint_restores_configuration:
  assumes "gov_typed g" "compact g = (st, g')" "is_ok st"
    "kMaxEventHistory + length (gv_open_events g) \<le> kMaxEventsPersisted"
    "length (encode_state (export_state g)) + 44 \<le> kMaxSnapshotBytes"
    "gv_store h = gv_store g'" "env_now h = io_fine"
  shows "fst (fst (restore h)) = status_ok \<and> gv_policies (snd (restore h)) = gv_policies g"
  by (rule checkpoint_restores_policies [OF assms(2,3) exported_state_wf [OF assms(1,4)] assms(5-7)])

theorem checkpoint_restores_configuration_witness:
  "gv_policies (snd (restore (governor_stored\<lparr>gv_policies := policy_set_init,
     gv_store := gv_store (snd (compact governor_stored))\<rparr>))) = gv_policies governor_stored"
  using checkpoint_restores_configuration [OF typed_stored surjective_pairing compact_stored_ok stored_few_events
      stored_state_small, of "governor_stored\<lparr>gv_policies := policy_set_init,
        gv_store := gv_store (snd (compact governor_stored))\<rparr>"]
  by (simp add: env_now_def governor_stored_def bind_store_def governor_zero_def governor_new_def
      set_context_policy_def Let_def)

text \<open>C23: After any operations and recoveries, whatever the store holds, every event and intervention the governor keeps is a value its codec accepts; so the state it exports decodes to exactly itself within the bounds of the format.\<close>

theorem reachable_records_are_readable:
  assumes "gov_typed g"
  shows "list_all event_wf (gv_history g) \<and> list_all event_wf (map snd (gv_open_events g)) \<and>
    list_all intent_wf (map snd (gv_interventions g)) \<and> list_all intent_wf (gv_intervention_history g) \<and>
    (kMaxEventHistory + length (gv_open_events g) \<le> kMaxEventsPersisted \<longrightarrow>
     length (encode_state (export_state g)) \<le> kMaxSnapshotBytes \<longrightarrow>
     decode_state (encode_state (export_state g)) = Inr (export_state g))"
  using filed_parts(2) [OF gov_typed_filed [OF assms]] exported_state_wf [OF assms] decode_encode_state
  by (simp add: records_ok_def)

theorem reachable_records_are_readable_witness:
  "decode_state (encode_state (export_state governor_stored)) = Inr (export_state governor_stored)"
  using reachable_records_are_readable [OF typed_stored] stored_few_events stored_state_small by simp



text \<open>C25: A refused append that left a few bytes behind hides every record appended after it: whatever later appends there are and however the operating system answers them, a replay visits only the records before the torn bytes and cuts the rest off, although as long as there is room and the operating system works every one of the later appends is acknowledged.\<close>

theorem torn_append_hides_later_records:
  assumes "store_holds s rs" "store_append i t seq now p s = (st, s1)" "ds_journal s1 \<noteq> ds_journal s"
    "\<not> (io_write i \<and> io_flush i)" "0 < io_reached i" "io_reached i < 8" "append_all xs s1 = (acks, s2)"
    "length (the (ds_journal s2)) \<le> kMaxJournalBytes"
  shows "\<not> is_ok st \<and> replays_as s2 rs \<and>
    (list_all (\<lambda>(i, r). i = io_fine \<and> record_wf r) xs \<and>
       unat (ds_journal_bytes s1) + length (log_bytes (map snd xs)) \<le> unat (sc_max_journal_bytes (ds_config s1)) \<longrightarrow>
     acks = replicate (length xs) True)"
proof (intro conjI impI)
  show "\<not> is_ok st" "replays_as s2 rs"
    using torn_append_hides(1) [OF assms(1-7), of "\<lambda>r acc. (status_ok, acc @ [r])"]
      torn_append_hides(2) [OF assms(1-7), of "\<lambda>r acc. (status_ok, acc @ [r])" "[]"] assms(8)
    unfolding replays_as_def fold_snoc by auto
  have "ds_open s1" using append_extends [OF _ _ assms(2)] assms(1) by (simp add: store_holds_def)
  then show "acks = replicate (length xs) True" if "list_all (\<lambda>(i, r). i = io_fine \<and> record_wf r) xs \<and>
      unat (ds_journal_bytes s1) + length (log_bytes (map snd xs)) \<le> unat (sc_max_journal_bytes (ds_config s1))"
    using append_all_acknowledged [OF _ _ assms(7)] that by blast
qed

theorem torn_append_hides_later_records_witness:
  "append_all appends_later store_behind = ([True, True], snd (append_all appends_later store_behind)) \<and>
     replays_as (snd (append_all appends_later store_behind)) []"
proof -
  note h = torn_append_hides_later_records [OF store_empty_holds torn_append _ _ _ _ surjective_pairing, where xs = appends_later]
  have "replays_as (snd (append_all appends_later store_behind)) [] \<and>
      fst (append_all appends_later store_behind) = replicate (length appends_later) True"
    using h appends_later_run by (simp add: build_record_not_Nil store_behind_def [symmetric] length_build_record)
  then show ?thesis by (simp add: appends_later_def prod_eq_iff numeral_2_eq_2)
qed





text \<open>C28: A snapshot file with any single byte changed is never loaded: the loader reports a failure or an empty payload.\<close>

theorem corrupted_snapshot_is_not_loaded:
  assumes "ds_snapshot s = Some ((build_snapshot q c now)[k := b])" "k < length (build_snapshot q c now)"
    "b \<noteq> build_snapshot q c now ! k" "load_snapshot i s rep = Inr (rep', p)"
  shows "p = []"
  by (rule corrupted_snapshot_refused [OF assms])

theorem corrupted_snapshot_is_not_loaded_witness:
  "\<exists>rep. load_snapshot io_fine bad_store recovery_report_default = Inr (rep, [])"
proof -
  have b: "build_snapshot [7] 0 0 ! 0 = 0x4D" by (simp add: build_snapshot_eq snapshot_block_def snapshot_head_def snapshot_magic_def)
  obtain rep p where l: "load_snapshot io_fine bad_store recovery_report_default = Inr (rep, p)"
    using bad_store_loads by blast
  have "p = []"
    by (rule corrupted_snapshot_is_not_loaded [OF _ _ _ l, of "[7]" 0 0 0 0]) (simp_all add: bad_store_def b)
  then show ?thesis using l by blast
qed

text \<open>C29: A frame that encode_frame accepts is read back by decode_frame with its payload, its type, its sequence and with the payload length set to the real length; it is accepted at no other byte string, so decoding inverts encoding exactly.\<close>

theorem frame_round_trip:
  assumes "encode_frame f = Inr bs"
  shows "\<exists>g. decode_frame bs = Inr g \<and> fr_payload g = fr_payload f \<and>
    unat (fh_payload_length (fr_header g)) = length (fr_payload f) \<and>
    fh_type (fr_header g) = fh_type (fr_header f) \<and> fh_seq (fr_header g) = fh_seq (fr_header f) \<and>
    (\<forall>bs'. decode_frame bs' = Inr g \<longrightarrow> bs' = bs)"
proof -
  define g where "g = f\<lparr>fr_header := (fr_header f)\<lparr>fh_payload_length := of_nat (length (fr_payload f))\<rparr>\<rparr>"
  have bs: "bs = frame_bytes g" "frame_wf g" using encode_frame_bytes [OF assms] by (simp_all add: g_def)
  then have "decode_frame bs = Inr g" by (simp add: decode_frame_bytes)
  moreover have "unat (fh_payload_length (fr_header g)) = length (fr_payload g)"
    using bs(2) by (simp add: frame_wf_def)
  moreover have "fr_payload g = fr_payload f" "fh_type (fr_header g) = fh_type (fr_header f)"
    "fh_seq (fr_header g) = fh_seq (fr_header f)" by (simp_all add: g_def)
  moreover have "bs' = bs" if "decode_frame bs' = Inr g" for bs'
    using decode_frame_inverse [OF that] bs(1) by simp
  ultimately show ?thesis by metis
qed

theorem frame_round_trip_witness:
  "\<exists>g. decode_frame (frame_bytes small_frame) = Inr g \<and> fr_payload g = [7, 9]"
  using frame_round_trip [OF encode_small_frame] by (auto simp: small_frame_def)

text \<open>C30: A frame on the wire with any single byte changed, in its header, in either checksum or in its payload, is refused with an error: it never decodes to a frame.\<close>

theorem corrupted_frame_is_refused:
  assumes "encode_frame f = Inr bs" "i < length bs" "b \<noteq> bs ! i"
  shows "\<exists>e. decode_frame (bs[i := b]) = Inl e"
proof -
  define g where "g = f\<lparr>fr_header := (fr_header f)\<lparr>fh_payload_length := of_nat (length (fr_payload f))\<rparr>\<rparr>"
  have "bs = frame_bytes g" "frame_wf g" using encode_frame_bytes [OF assms(1)] by (simp_all add: g_def)
  then show ?thesis using frame_update_refused assms(2,3) by metis
qed

theorem corrupted_frame_is_refused_witness:
  "\<exists>e. decode_frame ((frame_bytes small_frame)[33 := 10]) = Inl e"
  by (rule corrupted_frame_is_refused [OF encode_small_frame]) (simp_all only: small_frame_at, simp_all)

text \<open>C31: The occupancy ratio is the exact floor of 1000 * value / limit, capped at 1000, for every pair of 64-bit operands: the 128-bit product and the restoring division lose nothing; a zero limit gives 0 for a zero value and 1000 otherwise.\<close>

theorem permille_is_exact:
  "unat (compute_permille v limit) =
     (if limit = 0 then (if v = 0 then 0 else 1000) else min 1000 (unat v * 1000 div unat limit))"
  using compute_permille_floor [of limit v] by (simp add: compute_permille_def)

text \<open>C32: The signed overflow tests of the checked arithmetic, written with divisions and comparisons, agree with the integers: a result is returned exactly when the exact result fits in 64 bits, and then it is that result.\<close>

theorem signed_arithmetic_is_checked:
  "add_checked_s a b = (if in_i64 (sint a + sint b) then Some (a + b) else None) \<and>
   sub_checked_s a b = (if in_i64 (sint a - sint b) then Some (a - b) else None) \<and>
   mul_checked_s a b = (if in_i64 (sint a * sint b) then Some (a * b) else None)"
  by (simp add: add_checked_s_exact sub_checked_s_exact mul_checked_s_exact)

text \<open>C33: The ring buffer implements a bounded queue of admitted samples: with no reorder tolerance, after any sequence of offers the retained samples are the last capacity-many of those whose tick lies after the previously admitted one, and their ticks strictly increase.\<close>

theorem window_keeps_newest_admitted:
  "win_list (offer_all ss (win_reset c w)) = take_last (ew_capacity (win_reset c w)) (admit None ss) \<and>
   successively (\<lambda>a b. tick_after (sm_tick a) (sm_tick b)) (admit None ss)"
  using offer_all_admit [OF win_reset_inv, of ss c w] admit_increasing [of None ss] by (simp add: last_tick_def)

text \<open>C34: Every detector that the governor can reach, through any sequence of samples, clock advances, fences and policy changes, has a valid policy in force and a well-formed window, and its open episode is a well-formed open event of its own stream whose identity derives from its onset.\<close>

theorem reachable_detectors_are_sound:
  assumes "det_reachable k d"
  shows "policy_in_force (dt_policy d) \<and> win_inv (dt_window d) \<and>
    (has_open_episode d \<longrightarrow> event_wf (dt_episode d) \<and> ev_lifecycle (dt_episode d) = ElOpen \<and>
       ev_stream (dt_episode d) = dt_key d \<and>
       ev_id (dt_episode d) = make_event_id (dt_key d) (bm_onset_tick (ev_metrics (dt_episode d))))"
  using det_reachable_core [OF assms] by (auto simp: det_core_def episode_ok_def)

theorem reachable_detectors_are_sound_witness:
  "win_inv (dt_window (snd (detector_ingest (sample_default\<lparr>sm_stream := StreamKey 1 2 3, sm_tick := 5\<rparr>)
     (detector_new (StreamKey 1 2 3) make_default_policy 1))))"
  using reachable_detectors_are_sound [OF det_reachable.stepped [OF det_reachable.configured
      [of "StreamKey 1 2 3" make_default_policy 1],
      of "InIngest (sample_default\<lparr>sm_stream := StreamKey 1 2 3, sm_tick := 5\<rparr>)"]]
  by (simp add: detector_run_def input_ok_def default_policy_in_force stream_key_valid_def id_valid_def id_invalid_def)

text \<open>C35: What mbgctl generate writes, mbgctl replay accepts: every sample is labelled synthetic and read back, and replay ends with code 0, provided the whole file reached the disk, it is within the bound of 64 MiB, and a ramp is no longer than 253 ticks.\<close>

theorem generated_file_is_replayed:
  assumes "mbgctl timing (''generate'' # args) w = Some (0, w')" "arg_value ''--out'' args = Some path" "short_ramp args"
    "wd_write w path = Some (good, n)" "length (the (wd_files w' path)) < n"
    "length (the (wd_files w' path)) \<le> 2 ^ 26"
  shows "\<exists>xs. wd_files w' path = Some (encode_trace xs) \<and> list_all (\<lambda>x. has_flag (sm_flags x) flag_synthetic) xs \<and>
    decode_trace (encode_trace xs) (2 ^ 22) = (status_ok, map as_traced xs) \<and>
    (\<exists>w''. mbgctl timing [''replay'', ''--trace'', path] w' = Some (0, w''))"
proof -
  have r: "mbgctl timing [''replay'', ''--trace'', path] w' = Some (run_replay [''--trace'', path] w')"
    by (simp add: mbgctl_def)
  have g: "run_generate args w = Some (0, w')" using assms(1) by (simp add: mbgctl_def)
  have "length (the (wd_files w' path)) \<le> kMaxSnapshotBytes" using assms(6) by (simp add: kMaxSnapshotBytes_def)
  from generated_file_replays [OF g assms(2-5) this] obtain xs where
    x: "wd_files w' path = Some (encode_trace xs)" "list_all (\<lambda>x. has_flag (sm_flags x) flag_synthetic) xs"
      "decode_trace (encode_trace xs) (2 ^ 22) = (status_ok, map as_traced xs)" and
    z: "fst (run_replay [''--trace'', path] w') = 0" by blast
  have "\<exists>w''. run_replay [''--trace'', path] w' = (0, w'')"
    by (rule exI [of _ "snd (run_replay [''--trace'', path] w')"]) (simp only: prod_eq_iff z fst_conv snd_conv simp_thms)
  then show ?thesis unfolding r option.inject using x by blast
qed

theorem generated_file_is_replayed_witness:
  "\<exists>w w'. mbgctl (\<lambda>_. []) (''generate'' # generate_args) shell_one = Some (0, w) \<and>
     mbgctl (\<lambda>_. []) [''replay'', ''--trace'', ''t''] w = Some (0, w')"
proof -
  obtain x w where w: "mbgctl (\<lambda>_. []) (''generate'' # generate_args) shell_one = Some (0, w)"
    "wd_files w ''t'' = Some (encode_trace [x])" using shell_generates [of "\<lambda>_. []"] by blast
  have "length (encode_trace [x]) \<le> 4097" using encode_trace_length [of "[x]"] by (simp add: kMaxTraceLineBytes_def)
  then have l: "length (the (wd_files w ''t'')) \<le> 2 ^ 26" "length (the (wd_files w ''t'')) < 65536" unfolding w(2) by simp_all
  have s: "short_ramp generate_args" by (simp add: short_ramp_def generate_arguments(2))
  have n: "wd_write shell_one ''t'' = Some (True, 65536)" by (simp add: shell_one_def)
  from generated_file_is_replayed [OF w(1) generate_arguments(1) s n l(2,1)]
  show ?thesis using w(1) by blast
qed



text \<open>C37: Every command of mbgctl ends with one of the exit codes 0, 1 and 2, whatever its arguments, files and stores, save the benchmark when its number of bursts is the largest 64-bit number: there it divides by zero.\<close>

theorem every_command_returns:
  assumes "\<And>rest. args = ''bench'' # rest \<Longrightarrow> bc_bursts_per_resource (bench_config rest) \<noteq> 2 ^ 64 - 1"
  shows "\<exists>code w'. mbgctl timing args w = Some (code, w') \<and> code \<in> {0, 1, 2}"
proof -
  have "b + 1 \<noteq> 0" if "b \<noteq> 2 ^ 64 - 1" for b :: u64
  proof
    assume "b + 1 = 0"
    then have "b = - 1" by (simp add: eq_neg_iff_add_eq_0)
    with that show False by simp
  qed
  then have "returns (mbgctl timing args w)" using assms by (intro mbgctl_returns) blast
  then obtain code w' where "mbgctl timing args w = Some (code, w')" "code \<le> 2" by (auto simp: returns_def)
  then show ?thesis by (intro exI [of _ code] exI [of _ w']) (auto simp: numeral_2_eq_2 le_Suc_eq)
qed

theorem every_command_returns_witness:
  "\<exists>code w'. mbgctl (\<lambda>_. []) [''bench'', ''--bursts'', ''0''] shell_one = Some (code, w') \<and> code \<in> {0, 1, 2}"
proof (rule every_command_returns)
  fix rest assume "[''bench'', ''--bursts'', ''0''] = ''bench'' # rest"
  then have "rest = [''--bursts'', ''0'']" by simp
  then show "bc_bursts_per_resource (bench_config rest) \<noteq> 2 ^ 64 - 1"
    by (simp add: bench_config_def option_number_def arg_number_def zero_from_chars benchmark_config_default_def)
qed

text \<open>C38: However child processes are started, killed, waited for, moved and destroyed, every child whose end was not collected is held by exactly one object, and none is left when all objects are empty, as long as no wait of a destructor or an assignment fails.\<close>

theorem children_have_one_owner:
  assumes "children_reached s"
  shows "distinct (held 0 (map cp_handle (cs_objects s))) \<and>
    set (held 0 (map cp_handle (cs_objects s))) = set (fm_children (cs_family s)) \<and>
    (list_all (\<lambda>c. cp_handle c = 0) (cs_objects s) \<longrightarrow> fm_children (cs_family s) = [])"
proof -
  have o: "owns 0 (map cp_handle (cs_objects s)) (fm_children (cs_family s))"
    using children_reached_ok [OF assms] by (simp add: children_ok_def)
  moreover have "list_all (\<lambda>h. h = 0) (map cp_handle (cs_objects s)) = list_all (\<lambda>c. cp_handle c = 0) (cs_objects s)"
    by (simp add: list.pred_map comp_def)
  ultimately show ?thesis using owns_single [OF o] owns_live [OF o] owns_none_live [OF o] by blast
qed

theorem children_have_one_owner_witness:
  "set (held 0 (map cp_handle (cs_objects children_one))) = set (fm_children (cs_family children_one)) \<and>
   fm_children (cs_family children_one) = [42]"
  using children_have_one_owner [OF children_one_reached] children_one_live by simp

text \<open>C39: A fresh evaluation closes the episode, also one that it has just opened, in these cases and no others, and an episode is open afterwards exactly when one was open or opened and none was closed. On admissible evidence it is released when recovery has lasted the cooldown and the depth is below the threshold, and otherwise timed out once its duration from the onset reaches the ceiling. Without admissible evidence it is fenced when the evidence has been inadmissible, or stale beyond its limit, for longer than the grace period; the reason is a changed capacity only when the evidence is fresh and not stable, and missing evidence otherwise.\<close>

theorem episodes_close_exactly:
  assumes "fresh_tick now d" "policy_in_force (dt_policy d)" "evaluate now d = (dec, d')"
    "p = po_detection (dt_policy d)" "gates = gates_at now d" "age = staleness_ticks now (dt_window d)"
    "since = (if has_open_episode d then bm_onset_tick (ev_metrics (dt_episode d)) else dt_onset_start_tick d)"
    "due \<longleftrightarrow> dt_state d = DsRecovering \<and> wm_latest_depth (metrics p (dt_window d)) < dp_onset_min_depth p \<and>
       forward_gap (dt_recovery_start_tick d) now \<ge> dp_cooldown_ticks p"
    "missing = max (if dt_inadmissible_since_set d then forward_gap (dt_inadmissible_since d) now else 0)
       (if age > dp_staleness_limit_ticks p then age - dp_staleness_limit_ticks p else 0)"
  shows "(dd_closed dec \<longleftrightarrow>
      (if gt_authoritative gates \<or> gt_degraded_allowed gates
       then (has_open_episode d \<or> dd_opened dec) \<and> (due \<or> forward_gap since now \<ge> dp_max_episode_ticks p)
       else has_open_episode d \<and> missing > dp_evidence_grace_ticks p)) \<and>
    (has_open_episode d' \<longleftrightarrow> (has_open_episode d \<or> dd_opened dec) \<and> \<not> dd_closed dec) \<and>
    (dd_fenced dec \<longleftrightarrow> dd_closed dec \<and> \<not> gt_authoritative gates \<and> \<not> gt_degraded_allowed gates) \<and>
    (dd_closed dec \<longrightarrow> dd_close_reason dec =
      (if gt_authoritative gates \<or> gt_degraded_allowed gates then if due then CrReleaseConfirmed else CrEpisodeTimeout
       else if gt_fresh gates \<and> \<not> gt_stable gates then CrCapacityChanged else CrEvidenceStale))"
proof -
  note c = closing_conditions [OF assms(1,3,2), folded assms(4), folded assms(8)]
  have missing: "held_ticks now d = missing" by (simp add: held_ticks_def assms(4,6,9) Let_def)
  note k = closing_iff [OF assms(1,3), folded assms(4,5), unfolded c(1) missing]
  define adm where "adm \<longleftrightarrow> gt_authoritative gates \<or> gt_degraded_allowed gates"
  have "dd_closed dec \<longleftrightarrow> (if adm then (has_open_episode d \<or> dd_opened dec) \<and>
      (due \<or> forward_gap since now \<ge> dp_max_episode_ticks p) else has_open_episode d \<and> missing > dp_evidence_grace_ticks p)"
    using k(1) c(2) [folded assms(7)] unfolding adm_def by metis
  then show ?thesis using k(2-4) unfolding adm_def by blast
qed

theorem episodes_close_exactly_witness:
  "dd_closed (fst (evaluate 40 detector_recovering)) \<and>
     dd_close_reason (fst (evaluate 40 detector_recovering)) = CrReleaseConfirmed"
proof -
  have e: "evaluate 40 detector_recovering = (fst (evaluate 40 detector_recovering), snd (evaluate 40 detector_recovering))"
    by simp
  show ?thesis
    using episodes_close_exactly [OF recovering_state(1,3) e refl refl refl refl refl refl] recovering_gates
      recovering_depth recovering_state(4-6) recovering_thresholds unfolding recovering_state(2) by simp
qed

text \<open>C40: The policy generation identifies the policies: if any sequence of policy operations ends at the generation it started from, then the whole set, its policies, overrides, index and digest, is what it was.\<close>

theorem generation_identifies_policies:
  assumes "ps_inv s" "ps_generation (fold policy_step ops s) = ps_generation s"
  shows "fold policy_step ops s = s"
  using policy_versions.run_same_ver assms by simp

theorem generation_identifies_policies_witness:
  "fold policy_step [RemoveOverride 3, ClearOverrides] policy_set_init = policy_set_init"
  by (rule generation_identifies_policies [OF ps_inv_init])
    (simp add: remove_override_def clear_overrides_def policy_set_init_def)

end
